(* ===== verification/Prelude.thy ===== *)
theory Prelude
  imports Main "HOL-Library.Char_ord" "HOL-Library.List_Lexorder" "HOL-Library.Multiset"
    "HOL-Library.AList"
begin

text \<open>
  Shared vocabulary of the development: the model's basic types, the pieces of Go's standard
  library that several components use (\<open>strings\<close>, \<open>strconv\<close>, \<open>sort\<close>, map iteration,
  \<open>sets.String\<close>) and the generic lemmas their proofs share.

  \<^item> A Go string is a HOL \<open>string\<close>, that is a list of bytes; its order is the bytewise
    lexicographic one of List-Lexorder.
  \<^item> A Go \<open>error\<close> is its text; a function that returns \<open>(T, error)\<close> returns
    \<open>error + T\<close>, \<open>Inl\<close> the error.  A panic (nil dereference, index out of range,
    division by zero) is \<open>None\<close> of an option type.
  \<^item> An instant is the \<open>int\<close> number of nanoseconds since Go's zero time, so the zero
    time is 0, \<open>Before\<close> is \<open><\<close> and \<open>After\<close> is \<open>>\<close>.
  \<^item> A Go map that is only looked up is a map \<open>'k \<rightharpoonup> 'v\<close>; a map that is ranged over
    is an association list with distinct keys.  The unspecified order of a range is a
    parameter: a function from the entries to a list of the same entries.
  \<^item> \<open>sets.String\<close> is a list of which only the set matters; its \<open>List()\<close> is
    \<open>set_list\<close>, sorted and without duplicates.
\<close>

named_theorems go_defs \<open>definitions of the Go vocabulary, to be unfolded\<close>
named_theorems key_inj \<open>injectivity of the string keys the controllers index by\<close>

type_synonym error = string
type_synonym 'a result = "error + 'a"
type_synonym time = int
type_synonym duration = int

abbreviation (input) zero_time :: time where "zero_time \<equiv> 0"
abbreviation (input) time_second :: duration where "time_second \<equiv> 1000000000"

subsection \<open>Maps\<close>

text \<open>Reading a missing key of a Go map gives the zero value of the element type.\<close>

definition map_get :: "'v \<Rightarrow> ('k \<rightharpoonup> 'v) \<Rightarrow> 'k \<Rightarrow> 'v" where
  "map_get zero m k = (case m k of None \<Rightarrow> zero | Some v \<Rightarrow> v)"

lemma map_get_simps [simp]:
  "m k = None \<Longrightarrow> map_get z m k = z"
  "m k = Some v \<Longrightarrow> map_get z m k = v"
  "map_get z (m(k \<mapsto> v)) k = v"
  "k \<noteq> k' \<Longrightarrow> map_get z (m(k' \<mapsto> v)) k = map_get z m k"
  by (simp_all add: map_get_def)

lemma map_get_upd: "map_get z (m(k' \<mapsto> v)) k = (if k = k' then v else map_get z m k)"
  by simp

lemma map_get_empty [simp]: "map_get z Map.empty k = z"
  by simp

text \<open>A function that a range over a map may be iterated by: some order of the entries.\<close>

definition range_order :: "('a list \<Rightarrow> 'a list) \<Rightarrow> bool" where
  "range_order f \<longleftrightarrow> (\<forall>xs. mset (f xs) = mset xs)"

lemma range_order_set [simp]: "range_order f \<Longrightarrow> set (f xs) = set xs"
  by (metis range_order_def set_mset_mset)

lemma range_order_length [simp]: "range_order f \<Longrightarrow> length (f xs) = length xs"
  by (metis range_order_def size_mset)

lemma range_order_distinct [simp]: "range_order f \<Longrightarrow> distinct (f xs) = distinct xs"
  by (metis range_order_def mset_eq_imp_distinct_iff)

lemma range_order_distinct_map [simp]:
  assumes "range_order f" shows "distinct (map g (f xs)) = distinct (map g xs)"
proof -
  have "mset (map g (f xs)) = mset (map g xs)" using assms by (simp add: range_order_def)
  then show ?thesis by (rule mset_eq_imp_distinct_iff)
qed

lemma range_order_Nil [simp]: "range_order f \<Longrightarrow> f [] = []"
  by (metis length_0_conv range_order_length)

lemma range_order_id [simp]: "range_order (\<lambda>xs. xs)"
  by (simp add: range_order_def)

lemma range_order_rev [simp]: "range_order rev"
  by (simp add: range_order_def)

subsection \<open>sets.String\<close>

definition set_list :: "string list \<Rightarrow> string list" where
  "set_list xs = sort (remdups xs)"

lemma set_set_list [simp]: "set (set_list xs) = set xs"
  by (simp add: set_list_def)

lemma distinct_set_list [simp]: "distinct (set_list xs)"
  by (simp add: set_list_def)

lemma sorted_set_list [simp]: "sorted (set_list xs)"
  by (simp add: set_list_def)

lemma set_list_eq_iff: "set_list xs = set_list ys \<longleftrightarrow> set xs = set ys"
  by (metis distinct_set_list set_set_list sorted_distinct_set_unique sorted_set_list)

lemma set_list_Nil [simp]: "set_list [] = []"
  by (simp add: set_list_def)

lemma set_list_eq_Nil [simp]: "set_list xs = [] \<longleftrightarrow> xs = []"
  by (metis set_empty2 set_set_list)

lemma set_list_idem [simp]: "set_list (set_list xs) = set_list xs"
  by (simp add: set_list_eq_iff)

lemma set_list_append_set_list [simp]:
  "set_list (set_list xs @ ys) = set_list (xs @ ys)"
  "set_list (xs @ set_list ys) = set_list (xs @ ys)"
  by (simp_all add: set_list_eq_iff)

subsection \<open>strings and strconv\<close>

fun join :: "string \<Rightarrow> string list \<Rightarrow> string" where
  "join sep [] = []"
| "join sep [x] = x"
| "join sep (x # y # ys) = x @ sep @ join sep (y # ys)"

fun has_prefix :: "string \<Rightarrow> string \<Rightarrow> bool" where
  "has_prefix s [] = True"
| "has_prefix [] (p # ps) = False"
| "has_prefix (c # cs) (p # ps) = (c = p \<and> has_prefix cs ps)"

lemma has_prefix_iff: "has_prefix s p \<longleftrightarrow> (\<exists>t. s = p @ t)"
  by (induction s p rule: has_prefix.induct) auto

definition trim_prefix :: "string \<Rightarrow> string \<Rightarrow> string" where
  "trim_prefix s p = (if has_prefix s p then drop (length p) s else s)"

fun contains_sub :: "string \<Rightarrow> string \<Rightarrow> bool" where
  "contains_sub [] p = (p = [])"
| "contains_sub (c # cs) p = (has_prefix (c # cs) p \<or> contains_sub cs p)"

text \<open>The verb \<open>%q\<close> of \<open>fmt\<close> on text without characters to escape, and on slices of it.\<close>

definition quote :: "string \<Rightarrow> string" where
  "quote s = ''\"'' @ s @ ''\"''"

definition quote_list :: "string list \<Rightarrow> string" where
  "quote_list ss = ''['' @ join '' '' (map quote ss) @ '']''"

fun split_on :: "char \<Rightarrow> string \<Rightarrow> string list" where
  "split_on sep [] = [[]]"
| "split_on sep (c # cs) =
     (if c = sep then [] # split_on sep cs
      else case split_on sep cs of [] \<Rightarrow> [[c]] | x # xs \<Rightarrow> (c # x) # xs)"

lemma split_on_ne [simp]: "split_on sep s \<noteq> []"
  by (induction s) (auto split: list.splits)

lemma split_on_fresh: "sep \<notin> set s \<Longrightarrow> split_on sep s = [s]"
  by (induction s) auto

lemma split_on_append: "sep \<notin> set s \<Longrightarrow> split_on sep (s @ sep # t) = s # split_on sep t"
  by (induction s) auto

lemma split_on_parts: "x \<in> set (split_on sep s) \<Longrightarrow> sep \<notin> set x"
  by (induction s arbitrary: x) (auto split: list.splits if_splits)

lemma join_split_on: "join [sep] (split_on sep s) = s"
proof (induction s)
  case (Cons c cs)
  obtain x xs where "split_on sep cs = x # xs"
    by (metis neq_Nil_conv split_on_ne)
  with Cons show ?case by (cases xs) auto
qed simp

text \<open>
  White space: the class \<open>\s\<close> of regular expressions, and the ASCII part of
  \<open>unicode.IsSpace\<close>, which \<open>strings.TrimSpace\<close> removes at both ends.
\<close>

definition newline :: char where "newline = CHR 0x0A"

definition space_char :: "char \<Rightarrow> bool" where
  "space_char c \<longleftrightarrow> c = CHR '' '' \<or> c = CHR 0x09 \<or> c = newline \<or> c = CHR 0x0C \<or> c = CHR 0x0D"

definition go_space :: "char \<Rightarrow> bool" where "go_space c \<longleftrightarrow> space_char c \<or> c = CHR 0x0B"

definition trim_space :: "string \<Rightarrow> string" where
  "trim_space s = rev (dropWhile go_space (rev (dropWhile go_space s)))"

text \<open>The first field of \<open>strings.Split(s, sep)\<close> for a separator of several bytes.\<close>

fun split_first :: "string \<Rightarrow> string \<Rightarrow> string" where
  "split_first sep [] = []"
| "split_first sep (c # cs) = (if has_prefix (c # cs) sep then [] else c # split_first sep cs)"

lemma split_first_bar:
  "CHR ''|'' \<notin> set s \<Longrightarrow> split_first '' | '' (s @ '' | '' @ t) = s"
proof (induction s)
  case (Cons c s)
  then show ?case by (cases s) auto
qed simp

text \<open>\<open>errorutil.NewAggregate\<close> of errors that are not aggregates themselves.\<close>

definition NewAggregate :: "error list \<Rightarrow> error option" where
  "NewAggregate errs = (if errs = [] then None else Some (''['' @ join '', '' errs @ '']''))"

lemma NewAggregate_None [simp]: "NewAggregate errs = None \<longleftrightarrow> errs = []"
  by (simp add: NewAggregate_def)

text \<open>ASCII part of \<open>strings.ToLower\<close> and \<open>strings.ToUpper\<close>.\<close>

definition to_lower_char :: "char \<Rightarrow> char" where
  "to_lower_char c =
     (if CHR ''A'' \<le> c \<and> c \<le> CHR ''Z''
      then (case c of Char b0 b1 b2 b3 b4 b5 b6 b7 \<Rightarrow> Char b0 b1 b2 b3 b4 True b6 b7) else c)"

definition to_upper_char :: "char \<Rightarrow> char" where
  "to_upper_char c =
     (if CHR ''a'' \<le> c \<and> c \<le> CHR ''z''
      then (case c of Char b0 b1 b2 b3 b4 b5 b6 b7 \<Rightarrow> Char b0 b1 b2 b3 b4 False b6 b7) else c)"

definition to_lower :: "string \<Rightarrow> string" where "to_lower s = map to_lower_char s"
definition to_upper :: "string \<Rightarrow> string" where "to_upper s = map to_upper_char s"

text \<open>\<open>strconv.Itoa\<close>, the verb \<open>%d\<close> of \<open>fmt\<close>.\<close>

definition digit :: "nat \<Rightarrow> char" where
  "digit d = char_of (48 + d)"

lemma digit_simps [simp]:
  "digit 9 = CHR ''9''" "digit 7 = CHR ''7''" "digit 5 = CHR ''5''" "digit 3 = CHR ''3''"
  "digit (Suc 0) = CHR ''1''" "digit 8 = CHR ''8''" "digit 6 = CHR ''6''" "digit 4 = CHR ''4''"
  "digit 2 = CHR ''2''" "digit 0 = CHR ''0''"
  by code_simp+

fun nat_digits :: "nat \<Rightarrow> string" where
  "nat_digits n = (if n < 10 then [digit n] else nat_digits (n div 10) @ [digit (n mod 10)])"

declare nat_digits.simps [simp del]

definition itoa :: "int \<Rightarrow> string" where
  "itoa i = (if i < 0 then ''-'' @ nat_digits (nat (- i)) else nat_digits (nat i))"

lemma of_char_digit: "d < 10 \<Longrightarrow> of_char (digit d) = (48 + d :: nat)"
  by (simp add: digit_def)

lemma digit_inj: "a < 10 \<Longrightarrow> b < 10 \<Longrightarrow> digit a = digit b \<longleftrightarrow> a = b"
  by (metis add_left_cancel of_char_digit)

lemma nat_digits_ne [simp]: "nat_digits n \<noteq> []"
  by (subst nat_digits.simps) simp

lemma nat_digits_inj: "nat_digits m = nat_digits n \<Longrightarrow> m = n"
proof (induction m arbitrary: n rule: nat_digits.induct)
  case (1 m)
  have eq: "(if m < 10 then [digit m] else nat_digits (m div 10) @ [digit (m mod 10)]) =
      (if n < 10 then [digit n] else nat_digits (n div 10) @ [digit (n mod 10)])"
    using "1.prems" by (simp add: nat_digits.simps [of m] nat_digits.simps [of n])
  show ?case
  proof (cases "m < 10"; cases "n < 10")
    assume "\<not> m < 10" "\<not> n < 10"
    with eq have "nat_digits (m div 10) = nat_digits (n div 10)"
      and "digit (m mod 10) = digit (n mod 10)" by auto
    with "1.IH" [OF \<open>\<not> m < 10\<close>] digit_inj have "m div 10 = n div 10" "m mod 10 = n mod 10"
      by auto
    then show ?thesis by (metis div_mult_mod_eq)
  qed (use eq in \<open>auto simp: digit_inj Cons_eq_append_conv append_eq_Cons_conv\<close>)
qed

lemma nat_digits_chars: "c \<in> set (nat_digits n) \<Longrightarrow> \<exists>d<10. c = digit d"
proof (induction n rule: nat_digits.induct)
  case (1 n)
  then show ?case
    by (cases "n < 10") (auto simp: nat_digits.simps [of n] intro: exI [of _ "n mod 10"])
qed

lemma digit_neq:
  assumes "d < 10" and "of_char c < (48::nat) \<or> (57::nat) < of_char c"
  shows "digit d \<noteq> c" and "c \<noteq> digit d"
  using assms by (auto simp: of_char_digit)

lemma itoa_chars:
  assumes "c \<in> set (itoa i)" shows "c = CHR ''-'' \<or> (\<exists>d<10. c = digit d)"
  using assms by (auto simp: itoa_def dest: nat_digits_chars split: if_splits)

lemma itoa_not_in [simp]:
  "CHR ''#'' \<notin> set (itoa i)" "CHR '' '' \<notin> set (itoa i)" "CHR '':'' \<notin> set (itoa i)"
  "CHR '','' \<notin> set (itoa i)" "CHR '']'' \<notin> set (itoa i)" "CHR ''['' \<notin> set (itoa i)"
  by (auto dest!: itoa_chars simp: digit_neq)

lemma itoa_inj [key_inj]: "itoa i = itoa j \<longleftrightarrow> i = j"
proof
  assume eq: "itoa i = itoa j"
  have minus: "hd (nat_digits n) \<noteq> CHR ''-''" for n
    using nat_digits_chars [of "hd (nat_digits n)" n] by (auto simp: digit_neq)
  have "i < 0 \<longleftrightarrow> j < 0"
    using eq minus by (metis append_Cons itoa_def list.sel(1))
  then show "i = j"
    using eq nat_digits_inj by (auto simp: itoa_def split: if_splits dest!: nat_digits_inj)
qed simp

text \<open>The verb \<open>%v\<close> on a slice of integers.\<close>

definition int_list_string :: "int list \<Rightarrow> string" where
  "int_list_string ns = ''['' @ join '' '' (map itoa ns) @ '']''"

subsection \<open>Integers\<close>

text \<open>Go's \<open>%\<close> truncates towards zero; a zero divisor panics and is handled where it occurs.\<close>

definition go_rem :: "int \<Rightarrow> int \<Rightarrow> int" where
  "go_rem a b = sgn a * (\<bar>a\<bar> mod \<bar>b\<bar>)"

lemma go_rem_nonneg [simp]: "0 \<le> a \<Longrightarrow> 0 < b \<Longrightarrow> go_rem a b = a mod b"
  by (cases "a = 0") (simp_all add: go_rem_def)

subsection \<open>Errors\<close>

text \<open>A sequence of checks, each returning at the first failure.\<close>

fun first_error :: "'e option list \<Rightarrow> 'e option" where
  "first_error [] = None"
| "first_error (None # es) = first_error es"
| "first_error (Some e # es) = Some e"

lemma first_error_None [simp]: "first_error es = None \<longleftrightarrow> (\<forall>e \<in> set es. e = None)"
  by (induction es rule: first_error.induct) auto

text \<open>A check of every element of a slice, which is also given its index.\<close>

fun check_each :: "(nat \<Rightarrow> 'a \<Rightarrow> 'e option) \<Rightarrow> nat \<Rightarrow> 'a list \<Rightarrow> 'e option" where
  "check_each f i [] = None"
| "check_each f i (x # xs) = (case f i x of Some e \<Rightarrow> Some e | None \<Rightarrow> check_each f (Suc i) xs)"

lemma check_each_None:
  "check_each f i xs = None \<longleftrightarrow> (\<forall>j < length xs. f (i + j) (xs ! j) = None)"
proof (induction xs arbitrary: i)
  case (Cons x xs)
  then show ?case
    by (auto simp: less_Suc_eq_0_disj nth_Cons' split: option.splits)
qed simp

lemma check_each_NoneD:
  "check_each f i xs = None \<Longrightarrow> x \<in> set xs \<Longrightarrow> \<exists>j. f j x = None"
  by (metis check_each_None in_set_conv_nth)

subsection \<open>Lists\<close>

text \<open>Splitting a key at the last occurrence of a separator is unique.\<close>

lemma append_sep_inj_last:
  assumes "xs @ sep # ys = xs' @ sep # ys'" and "sep \<notin> set ys" and "sep \<notin> set ys'"
  shows "xs = xs' \<and> ys = ys'"
  using assms by (auto simp: append_eq_append_conv2 Cons_eq_append_conv append_eq_Cons_conv)

lemma append_sep_inj_first:
  assumes "xs @ sep # ys = xs' @ sep # ys'" and "sep \<notin> set xs" and "sep \<notin> set xs'"
  shows "xs = xs' \<and> ys = ys'"
  using assms by (auto simp: append_eq_append_conv2 Cons_eq_append_conv append_eq_Cons_conv)

lemma take_append_take: "take m (xs @ take m ys) = take m (xs @ ys)"
  by (simp add: min_absorb1)

lemma sorted_filter_map: "sorted (map f xs) \<Longrightarrow> sorted (map f (filter P xs))"
  by (induction xs) auto

lemma mset_filter_partition: "mset (filter P xs) + mset (filter (\<lambda>x. \<not> P x) xs) = mset xs"
  by (induction xs) auto

subsection \<open>Layered configuration\<close>

text \<open>
  Prow merges configuration layer over layer (global, org, repo, branch).  The result of a
  merge must not depend on how the layers are grouped; with a neutral layer it may be folded
  over any stack of layers from either end.
\<close>

locale merging =
  fixes merge :: "'a \<Rightarrow> 'a \<Rightarrow> 'a"
  assumes assoc: "merge (merge a b) c = merge a (merge b c)"
begin

lemma foldl_push: "foldl merge (merge a b) xs = merge a (foldl merge b xs)"
  by (induction xs arbitrary: b) (simp_all add: assoc)

end

locale layering = merging +
  fixes neutral :: 'a
  assumes neutral_parent: "merge neutral b = b"
    and neutral_child: "merge a neutral = a"
begin

lemma foldl_merge: "foldl merge a xs = merge a (foldl merge neutral xs)"
  using foldl_push [of a neutral xs] by (simp add: neutral_child)

lemma fold_either_end: "foldl merge neutral xs = foldr merge xs neutral"
proof (induction xs)
  case (Cons x xs)
  then show ?case by (simp add: neutral_parent foldl_merge [of x])
qed simp

lemma fold_append:
  "foldl merge neutral (xs @ ys) = merge (foldl merge neutral xs) (foldl merge neutral ys)"
  by (simp add: foldl_merge [of "foldl merge neutral xs"])

end

text \<open>
  Merges of pointers: nil inherits the other side, two values are merged by an associative
  operation.
\<close>

locale pointer_merge =
  fixes merge :: "'a option \<Rightarrow> 'a option \<Rightarrow> 'a option" and both :: "'a \<Rightarrow> 'a \<Rightarrow> 'a"
  assumes nil_child: "merge p None = p"
    and nil_parent: "merge None p = p"
    and set_both: "merge (Some x) (Some y) = Some (both x y)"
    and both_assoc: "both (both x y) z = both x (both y z)"
begin

lemma merge_assoc: "merge (merge a b) c = merge a (merge b c)"
  by (cases a; cases b; cases c) (simp_all add: nil_child nil_parent set_both both_assoc)

lemma merge_None_iff: "merge a b = None \<longleftrightarrow> a = None \<and> b = None"
  by (cases a; cases b) (simp_all add: nil_child nil_parent set_both)

end

sublocale pointer_merge \<subseteq> layering merge None
  by unfold_locales (simp_all add: merge_assoc nil_parent nil_child)

end
