(* ===== verification/ProwJobs.thy ===== *)
theory ProwJobs
  imports Prelude
begin

text \<open>
  The ProwJob API, \<open>src/apis/prowjobs/v1/types.go\<close>: the data every controller of prow works
  on (jobs, their specs, refs and statuses) and the methods declared on it: completion,
  cluster alias, textual refs, rerun authorisation, and the defaulting and validation of
  decoration configs.

  Types of the Kubernetes and Tekton API (\<open>corev1.PodSpec\<close>, \<open>PipelineRunSpec\<close>) are carried
  around and never inspected by this code; they are abstract types here.  A pointer to a
  struct is an option, nil is \<open>None\<close>.  A slice whose nil-ness matters is an option of a list.
\<close>

typedecl PodSpec
typedecl PipelineRunSpec

subsection \<open>Data\<close>

datatype ProwJobType = PresubmitJob | PostsubmitJob | PeriodicJob | BatchJob

primrec job_type_string :: "ProwJobType \<Rightarrow> string" where
  "job_type_string PresubmitJob = ''presubmit''"
| "job_type_string PostsubmitJob = ''postsubmit''"
| "job_type_string PeriodicJob = ''periodic''"
| "job_type_string BatchJob = ''batch''"

datatype ProwJobState =
  TriggeredState | PendingState | SuccessState | FailureState | AbortedState | ErrorState

text \<open>The states of a GitHub status, \<open>github/types.go\<close>.\<close>

definition StatusPending :: string where "StatusPending = ''pending''"
definition StatusSuccess :: string where "StatusSuccess = ''success''"
definition StatusError :: string where "StatusError = ''error''"
definition StatusFailure :: string where "StatusFailure = ''failure''"

primrec job_state_string :: "ProwJobState \<Rightarrow> string" where
  "job_state_string TriggeredState = ''triggered''"
| "job_state_string PendingState = ''pending''"
| "job_state_string SuccessState = ''success''"
| "job_state_string FailureState = ''failure''"
| "job_state_string AbortedState = ''aborted''"
| "job_state_string ErrorState = ''error''"

type_synonym ProwJobAgent = string

definition KubernetesAgent :: ProwJobAgent where "KubernetesAgent = ''kubernetes''"
definition JenkinsAgent :: ProwJobAgent where "JenkinsAgent = ''jenkins''"
definition TektonAgent :: ProwJobAgent where "TektonAgent = ''tekton-pipeline''"

definition GitHubReporterName :: string where "GitHubReporterName = ''github-reporter''"

definition DefaultClusterAlias :: string where "DefaultClusterAlias = ''default''"

record Pull =
  pull_Number :: int
  pull_Author :: string
  pull_SHA :: string
  pull_Title :: string
  pull_Ref :: string
  pull_Link :: string
  pull_CommitLink :: string
  pull_AuthorLink :: string

record Refs =
  refs_Org :: string
  refs_Repo :: string
  refs_RepoLink :: string
  refs_BaseRef :: string
  refs_BaseSHA :: string
  refs_BaseLink :: string
  refs_Pulls :: "Pull list"
  refs_PathAlias :: string
  refs_WorkDir :: bool
  refs_CloneURI :: string
  refs_SkipSubmodules :: bool
  refs_CloneDepth :: int

record GitHubTeamSlug =
  ghts_Slug :: string
  ghts_Org :: string

record RerunAuthConfig =
  rac_AllowAnyone :: bool
  rac_GitHubTeamIDs :: "int list"
  rac_GitHubTeamSlugs :: "GitHubTeamSlug list"
  rac_GitHubUsers :: "string list"
  rac_GitHubOrgs :: "string list"

record SlackReporterConfig =
  slack_Channel :: string

record ReporterConfig =
  rc_Slack :: "SlackReporterConfig option"

record OauthTokenSecret =
  ots_Name :: string
  ots_Key :: string

record UtilityImages =
  ui_CloneRefs :: string
  ui_InitUpload :: string
  ui_Entrypoint :: string
  ui_Sidecar :: string

record GCSConfiguration =
  gcs_Bucket :: string
  gcs_PathPrefix :: string
  gcs_PathStrategy :: string
  gcs_DefaultOrg :: string
  gcs_DefaultRepo :: string
  gcs_MediaTypes :: "(string \<times> string) list option"
  gcs_LocalOutputDir :: string

record DecorationConfig =
  dc_Timeout :: "duration option"
  dc_GracePeriod :: "duration option"
  dc_UtilityImages :: "UtilityImages option"
  dc_GCSConfiguration :: "GCSConfiguration option"
  dc_GCSCredentialsSecret :: string
  dc_SSHKeySecrets :: "string list"
  dc_SSHHostFingerprints :: "string list"
  dc_SkipCloning :: "bool option"
  dc_CookiefileSecret :: string
  dc_OauthTokenSecret :: "OauthTokenSecret option"

record JenkinsSpec =
  js_GitHubBranchSourceJob :: bool

record ProwJobSpec =
  spec_Type :: ProwJobType
  spec_Agent :: ProwJobAgent
  spec_Cluster :: string
  spec_Namespace :: string
  spec_Job :: string
  spec_Refs :: "Refs option"
  spec_ExtraRefs :: "Refs list"
  spec_Report :: bool
  spec_Context :: string
  spec_RerunCommand :: string
  spec_MaxConcurrency :: int
  spec_ErrorOnEviction :: bool
  spec_PodSpec :: "PodSpec option"
  spec_JenkinsSpec :: "JenkinsSpec option"
  spec_PipelineRunSpec :: "PipelineRunSpec option"
  spec_DecorationConfig :: "DecorationConfig option"
  spec_ReporterConfig :: "ReporterConfig option"
  spec_RerunAuthConfig :: "RerunAuthConfig option"
  spec_Hidden :: bool

record ProwJobStatus =
  st_StartTime :: time
  st_PendingTime :: "time option"
  st_CompletionTime :: "time option"
  st_State :: ProwJobState
  st_Description :: string
  st_URL :: string
  st_PodName :: string
  st_BuildID :: string
  st_JenkinsBuildID :: string
  st_PrevReportStates :: "string \<rightharpoonup> ProwJobState"

text \<open>
  The fields of Kubernetes' \<open>TypeMeta\<close> and \<open>ObjectMeta\<close> that prow reads or writes,
  with the spec and the status.
\<close>

record ProwJob =
  pj_APIVersion :: string
  pj_Kind :: string
  pj_Name :: string
  pj_Namespace :: string
  pj_Labels :: "string \<rightharpoonup> string"
  pj_Annotations :: "string \<rightharpoonup> string"
  pj_CreationTimestamp :: time
  pj_Spec :: ProwJobSpec
  pj_Status :: ProwJobStatus

abbreviation pj_State :: "ProwJob \<Rightarrow> ProwJobState" where
  "pj_State pj \<equiv> st_State (pj_Status pj)"

abbreviation pj_Type :: "ProwJob \<Rightarrow> ProwJobType" where
  "pj_Type pj \<equiv> spec_Type (pj_Spec pj)"

abbreviation pj_StartTime :: "ProwJob \<Rightarrow> time" where
  "pj_StartTime pj \<equiv> st_StartTime (pj_Status pj)"

definition set_State :: "ProwJobState \<Rightarrow> ProwJob \<Rightarrow> ProwJob" where
  [simp]: "set_State s pj = pj\<lparr>pj_Status := (pj_Status pj)\<lparr>st_State := s\<rparr>\<rparr>"

subsection \<open>Methods of ProwJob and Refs\<close>

definition Complete :: "ProwJob \<Rightarrow> bool" where
  "Complete j \<longleftrightarrow> st_CompletionTime (pj_Status j) \<noteq> None"

text \<open>The clock \<open>metav1.Now()\<close> is the argument \<open>now\<close>.\<close>

definition SetComplete :: "time \<Rightarrow> ProwJob \<Rightarrow> ProwJob" where
  "SetComplete now j = j\<lparr>pj_Status := (pj_Status j)\<lparr>st_CompletionTime := Some now\<rparr>\<rparr>"

definition ClusterAlias :: "ProwJob \<Rightarrow> string" where
  "ClusterAlias j =
     (if spec_Cluster (pj_Spec j) = [] then DefaultClusterAlias else spec_Cluster (pj_Spec j))"

definition pull_string :: "Pull \<Rightarrow> string" where
  "pull_string pull =
     (let ref = itoa (pull_Number pull) @ '':'' @ pull_SHA pull
      in if pull_Ref pull \<noteq> [] then ref @ '':'' @ pull_Ref pull else ref)"

definition Refs_String :: "Refs \<Rightarrow> string" where
  "Refs_String r =
     join '',''
       ((if refs_BaseSHA r \<noteq> [] then refs_BaseRef r @ '':'' @ refs_BaseSHA r else refs_BaseRef r)
        # map pull_string (refs_Pulls r))"

lemma Complete_SetComplete [simp]: "Complete (SetComplete now j)"
  by (simp add: Complete_def SetComplete_def)

lemma SetComplete_frame [simp]:
  "pj_Spec (SetComplete now j) = pj_Spec j"
  "pj_Name (SetComplete now j) = pj_Name j"
  "pj_State (SetComplete now j) = pj_State j"
  "pj_StartTime (SetComplete now j) = pj_StartTime j"
  "pj_CreationTimestamp (SetComplete now j) = pj_CreationTimestamp j"
  by (simp_all add: SetComplete_def)

text \<open>The states a job never leaves.\<close>

definition terminal :: "ProwJobState \<Rightarrow> bool" where
  "terminal s \<longleftrightarrow> s \<in> {SuccessState, FailureState, AbortedState, ErrorState}"

lemma terminal_simps [simp]:
  "\<not> terminal TriggeredState" "\<not> terminal PendingState"
  "terminal SuccessState" "terminal FailureState" "terminal AbortedState" "terminal ErrorState"
  by (simp_all add: terminal_def)

lemma not_terminal_iff: "\<not> terminal s \<longleftrightarrow> s = TriggeredState \<or> s = PendingState"
  by (cases s) auto

subsection \<open>Rerun authorisation\<close>

text \<open>
  \<open>github.RerunClient\<close> is the interface of a client of GitHub: its answers are parameters.
  \<open>GetTeamBySlug\<close> returns a team, of which only the ID is used.
\<close>

record RerunClient =
  IsMember :: "string \<Rightarrow> string \<Rightarrow> bool result"
  TeamHasMember :: "int \<Rightarrow> string \<Rightarrow> bool result"
  GetTeamBySlug :: "string \<Rightarrow> string \<Rightarrow> int result"

datatype rerun_error =
    FetchOrgMembers string error
  | FetchTeamMembers int error
  | FetchTeamBySlug string string error

definition NormLogin :: "string \<Rightarrow> string" where
  "NormLogin login = trim_prefix (to_lower login) ''@''"

fun authorized_org :: "RerunClient \<Rightarrow> string \<Rightarrow> string list \<Rightarrow> rerun_error + bool" where
  "authorized_org cli user [] = Inr False"
| "authorized_org cli user (gho # ghos) =
     (case IsMember cli gho user of
        Inl err \<Rightarrow> Inl (FetchOrgMembers gho err)
      | Inr True \<Rightarrow> Inr True
      | Inr False \<Rightarrow> authorized_org cli user ghos)"

fun authorized_team :: "RerunClient \<Rightarrow> string \<Rightarrow> int list \<Rightarrow> rerun_error + bool" where
  "authorized_team cli user [] = Inr False"
| "authorized_team cli user (ght # ghts) =
     (case TeamHasMember cli ght user of
        Inl err \<Rightarrow> Inl (FetchTeamMembers ght err)
      | Inr True \<Rightarrow> Inr True
      | Inr False \<Rightarrow> authorized_team cli user ghts)"

fun authorized_slug :: "RerunClient \<Rightarrow> string \<Rightarrow> GitHubTeamSlug list \<Rightarrow> rerun_error + bool" where
  "authorized_slug cli user [] = Inr False"
| "authorized_slug cli user (ghts # rest) =
     (case GetTeamBySlug cli (ghts_Slug ghts) (ghts_Org ghts) of
        Inl err \<Rightarrow> Inl (FetchTeamBySlug (ghts_Slug ghts) (ghts_Org ghts) err)
      | Inr team \<Rightarrow>
          (case TeamHasMember cli team user of
             Inl err \<Rightarrow> Inl (FetchTeamMembers team err)
           | Inr True \<Rightarrow> Inr True
           | Inr False \<Rightarrow> authorized_slug cli user rest))"

definition IsAuthorized ::
    "RerunAuthConfig \<Rightarrow> string \<Rightarrow> RerunClient option \<Rightarrow> rerun_error + bool" where
  "IsAuthorized rac user cli =
     (if rac_AllowAnyone rac then Inr True
      else if \<exists>u \<in> set (rac_GitHubUsers rac). NormLogin u = NormLogin user then Inr True
      else case cli of
        None \<Rightarrow> Inr False
      | Some cli \<Rightarrow>
          (case authorized_org cli user (rac_GitHubOrgs rac) of
             Inl e \<Rightarrow> Inl e
           | Inr True \<Rightarrow> Inr True
           | Inr False \<Rightarrow>
               (case authorized_team cli user (rac_GitHubTeamIDs rac) of
                  Inl e \<Rightarrow> Inl e
                | Inr True \<Rightarrow> Inr True
                | Inr False \<Rightarrow> authorized_slug cli user (rac_GitHubTeamSlugs rac))))"

definition RerunAuthConfig_Validate :: "RerunAuthConfig \<Rightarrow> error option" where
  "RerunAuthConfig_Validate rac =
     (let hasRestriction = rac_GitHubUsers rac \<noteq> [] \<or> rac_GitHubTeamIDs rac \<noteq> []
            \<or> rac_GitHubTeamSlugs rac \<noteq> [] \<or> rac_GitHubOrgs rac \<noteq> []
      in if rac_AllowAnyone rac \<and> hasRestriction
         then Some ''allow anyone is set to true and permitted users or groups are specified''
         else None)"

type_synonym RerunAuthConfigs = "string \<rightharpoonup> RerunAuthConfig"

definition zero_RerunAuthConfig :: RerunAuthConfig where
  "zero_RerunAuthConfig = \<lparr>rac_AllowAnyone = False, rac_GitHubTeamIDs = [],
     rac_GitHubTeamSlugs = [], rac_GitHubUsers = [], rac_GitHubOrgs = []\<rparr>"

definition GetRerunAuthConfig :: "RerunAuthConfigs \<Rightarrow> Refs option \<Rightarrow> RerunAuthConfig" where
  "GetRerunAuthConfig rac refs =
     (case refs of
        None \<Rightarrow> map_get zero_RerunAuthConfig rac ''*''
      | Some r \<Rightarrow>
          (case rac (refs_Org r @ ''/'' @ refs_Repo r) of
             Some rerun \<Rightarrow> rerun
           | None \<Rightarrow>
               (case rac (refs_Org r) of
                  Some rerun \<Rightarrow> rerun
                | None \<Rightarrow> map_get zero_RerunAuthConfig rac ''*'')))"

subsection \<open>Properties\<close>

text \<open>A client of which every call succeeds, given by who is a member of what.\<close>

definition answering_client ::
    "(string \<Rightarrow> string \<Rightarrow> bool) \<Rightarrow> (int \<Rightarrow> string \<Rightarrow> bool) \<Rightarrow> (string \<Rightarrow> string \<Rightarrow> int) \<Rightarrow> RerunClient" where
  "answering_client org team slug =
     \<lparr>IsMember = (\<lambda>o' u. Inr (org o' u)), TeamHasMember = (\<lambda>t u. Inr (team t u)),
      GetTeamBySlug = (\<lambda>s o'. Inr (slug s o'))\<rparr>"

lemma authorized_answering:
  "authorized_org (answering_client org team slug) user os = Inr (\<exists>o' \<in> set os. org o' user)"
  "authorized_team (answering_client org team slug) user ts = Inr (\<exists>t \<in> set ts. team t user)"
  "authorized_slug (answering_client org team slug) user ss =
     Inr (\<exists>s \<in> set ss. team (slug (ghts_Slug s) (ghts_Org s)) user)"
  subgoal by (induction os) (simp_all add: answering_client_def split: bool.splits)
  subgoal by (induction ts) (simp_all add: answering_client_def split: bool.splits)
  subgoal by (induction ss) (simp_all add: answering_client_def split: bool.splits)
  done

lemma authorized_error:
  "authorized_org cli user os = Inl e \<Longrightarrow> \<exists>o' err. IsMember cli o' user = Inl err"
  "authorized_team cli user ts = Inl e \<Longrightarrow> \<exists>t err. TeamHasMember cli t user = Inl err"
  "authorized_slug cli user ss = Inl e \<Longrightarrow>
     \<exists>t s o' err. TeamHasMember cli t user = Inl err \<or> GetTeamBySlug cli s o' = Inl err"
  subgoal by (induction os) (auto split: sum.splits bool.splits)
  subgoal by (induction ts) (auto split: sum.splits bool.splits)
  subgoal by (induction ss) (auto split: sum.splits bool.splits)
  done

text \<open>
  A rerun is authorised exactly when anyone may rerun, the user is listed (logins are
  compared case-insensitively and without a leading @), or, with a GitHub client, the user
  belongs to a permitted org, team or team slug.
\<close>

theorem is_authorized_iff:
  "IsAuthorized rac user cli = Inr True \<longleftrightarrow>
     rac_AllowAnyone rac
     \<or> (\<exists>u \<in> set (rac_GitHubUsers rac). NormLogin u = NormLogin user)
     \<or> (\<exists>o' \<in> set (rac_GitHubOrgs rac). org o' user)
     \<or> (\<exists>t \<in> set (rac_GitHubTeamIDs rac). team t user)
     \<or> (\<exists>s \<in> set (rac_GitHubTeamSlugs rac). team (slug (ghts_Slug s) (ghts_Org s)) user)"
  if "cli = Some (answering_client org team slug)"
  using that by (auto simp: IsAuthorized_def authorized_answering split: bool.splits)

definition sample_RerunAuthConfig :: RerunAuthConfig where
  "sample_RerunAuthConfig = zero_RerunAuthConfig\<lparr>rac_GitHubUsers := [''@Alice''],
     rac_GitHubOrgs := [''kubernetes'']\<rparr>"

theorem is_authorized_iff_witness:
  "let cli = Some (answering_client (\<lambda>o' u. o' = ''kubernetes'' \<and> u = ''bob'') (\<lambda>_ _. False) (\<lambda>_ _. 0))
   in IsAuthorized sample_RerunAuthConfig ''bob'' cli = Inr True
      \<and> IsAuthorized sample_RerunAuthConfig ''alice'' cli = Inr True
      \<and> IsAuthorized sample_RerunAuthConfig ''eve'' cli \<noteq> Inr True"
  unfolding Let_def is_authorized_iff [OF refl]
  by (simp add: sample_RerunAuthConfig_def zero_RerunAuthConfig_def NormLogin_def trim_prefix_def
      to_lower_def to_lower_char_def)

end
