(* ===== verification/Decoration_Config.thy ===== *)
theory Decoration_Config
  imports ProwJobs
begin

text \<open>
  Defaulting and validation of decoration configs,
  \<open>src/apis/prowjobs/v1/types.go\<close>: \<open>UtilityImages\<close>, \<open>GCSConfiguration\<close> and
  \<open>DecorationConfig\<close> with their \<open>ApplyDefault\<close> and \<open>Validate\<close> methods, and the
  locale \<open>defaulting\<close> that states what the three \<open>ApplyDefault\<close> methods have in common.
\<close>

subsection \<open>UtilityImages\<close>

definition or_default :: "string \<Rightarrow> string \<Rightarrow> string" where
  "or_default s def = (if s = [] then def else s)"

definition UtilityImages_ApplyDefault ::
    "UtilityImages option \<Rightarrow> UtilityImages option \<Rightarrow> UtilityImages option" where
  "UtilityImages_ApplyDefault u def =
     (case (u, def) of
        (None, _) \<Rightarrow> def
      | (Some u, None) \<Rightarrow> Some u
      | (Some u, Some d) \<Rightarrow>
          Some \<lparr>ui_CloneRefs = or_default (ui_CloneRefs u) (ui_CloneRefs d),
                ui_InitUpload = or_default (ui_InitUpload u) (ui_InitUpload d),
                ui_Entrypoint = or_default (ui_Entrypoint u) (ui_Entrypoint d),
                ui_Sidecar = or_default (ui_Sidecar u) (ui_Sidecar d)\<rparr>)"

subsection \<open>GCSConfiguration\<close>

text \<open>
  \<open>merged := *g\<close> copies the struct, not the map: \<open>merged.MediaTypes\<close> and
  \<open>g.MediaTypes\<close> are one map.  The first loop stores every default into it, the second
  ranges over that same map and stores each entry back where it is.  Storing into a nil map
  panics, which is \<open>None\<close>; otherwise the result is the merged config together with \<open>g\<close>
  as the call leaves it.
\<close>

fun store_all :: "(string \<times> string) list \<Rightarrow> (string \<times> string) list \<Rightarrow> (string \<times> string) list" where
  "store_all [] m = m"
| "store_all ((k, v) # kvs) m = store_all kvs (AList.update k v m)"

definition store_media_types ::
    "(string \<times> string) list option \<Rightarrow> (string \<times> string) list option
     \<Rightarrow> (string \<times> string) list option option" where
  "store_media_types src dst =
     (case src of
        None \<Rightarrow> Some dst
      | Some kvs \<Rightarrow>
          (case dst of
             None \<Rightarrow> if kvs = [] then Some None else None
           | Some m \<Rightarrow> Some (Some (store_all kvs m))))"

definition GCSConfiguration_ApplyDefault ::
    "GCSConfiguration option \<Rightarrow> GCSConfiguration option
     \<Rightarrow> (GCSConfiguration option \<times> GCSConfiguration option) option" where
  "GCSConfiguration_ApplyDefault g def =
     (case (g, def) of
        (None, None) \<Rightarrow> Some (None, None)
      | (Some g, None) \<Rightarrow> Some (Some g, Some g)
      | (None, Some d) \<Rightarrow> Some (Some d, None)
      | (Some g, Some d) \<Rightarrow>
          (case store_media_types (gcs_MediaTypes d) (gcs_MediaTypes g) of
             None \<Rightarrow> None
           | Some m1 \<Rightarrow>
               (case store_media_types m1 m1 of
                  None \<Rightarrow> None
                | Some m2 \<Rightarrow>
                    Some (Some (g\<lparr>gcs_Bucket := or_default (gcs_Bucket g) (gcs_Bucket d),
                                  gcs_PathPrefix := or_default (gcs_PathPrefix g) (gcs_PathPrefix d),
                                  gcs_PathStrategy := or_default (gcs_PathStrategy g) (gcs_PathStrategy d),
                                  gcs_DefaultOrg := or_default (gcs_DefaultOrg g) (gcs_DefaultOrg d),
                                  gcs_DefaultRepo := or_default (gcs_DefaultRepo g) (gcs_DefaultRepo d),
                                  gcs_MediaTypes := m2,
                                  gcs_LocalOutputDir :=
                                    or_default (gcs_LocalOutputDir g) (gcs_LocalOutputDir d)\<rparr>),
                          Some (g\<lparr>gcs_MediaTypes := m2\<rparr>)))))"

definition PathStrategyLegacy :: string where "PathStrategyLegacy = ''legacy''"
definition PathStrategySingle :: string where "PathStrategySingle = ''single''"
definition PathStrategyExplicit :: string where "PathStrategyExplicit = ''explicit''"

text \<open>
  \<open>mime.ParseMediaType\<close> is the parameter \<open>parse\<close>, the error it returns if any; \<open>iter\<close>
  is the order in which the map of media types is ranged over.
\<close>

definition GCSConfiguration_Validate ::
    "(string \<Rightarrow> error option) \<Rightarrow> ((string \<times> string) list \<Rightarrow> (string \<times> string) list)
     \<Rightarrow> GCSConfiguration \<Rightarrow> error option" where
  "GCSConfiguration_Validate parse iter g =
     (case find (\<lambda>(ext, mt). parse mt \<noteq> None)
             (iter (case gcs_MediaTypes g of None \<Rightarrow> [] | Some m \<Rightarrow> m)) of
        Some (ext, mt) \<Rightarrow>
          Some (''invalid extension media type \"'' @ mt @ ''\": '' @ the (parse mt))
      | None \<Rightarrow>
          if gcs_PathStrategy g \<noteq> PathStrategyLegacy \<and> gcs_PathStrategy g \<noteq> PathStrategyExplicit
             \<and> gcs_PathStrategy g \<noteq> PathStrategySingle
          then Some ''gcs_path_strategy must be one of \"legacy\", \"explicit\", or \"single\"''
          else if gcs_PathStrategy g \<noteq> PathStrategyExplicit
             \<and> (gcs_DefaultOrg g = [] \<or> gcs_DefaultRepo g = [])
          then Some (''default org and repo must be provided for GCS strategy \"''
                     @ gcs_PathStrategy g @ ''\"'')
          else None)"

subsection \<open>DecorationConfig\<close>

definition opt_default :: "'a option \<Rightarrow> 'a option \<Rightarrow> 'a option" where
  "opt_default a def = (case a of None \<Rightarrow> def | Some x \<Rightarrow> Some x)"

definition list_default :: "'a list \<Rightarrow> 'a list \<Rightarrow> 'a list" where
  "list_default xs def = (if xs = [] then def else xs)"

text \<open>\<open>None\<close> is the panic of \<open>GCSConfiguration_ApplyDefault\<close>.\<close>

definition DecorationConfig_ApplyDefault ::
    "DecorationConfig option \<Rightarrow> DecorationConfig option \<Rightarrow> DecorationConfig option option" where
  "DecorationConfig_ApplyDefault d def =
     (case (d, def) of
        (None, None) \<Rightarrow> Some None
      | (Some d, None) \<Rightarrow> Some (Some d)
      | (None, Some e) \<Rightarrow> Some (Some e)
      | (Some d, Some e) \<Rightarrow>
          (case GCSConfiguration_ApplyDefault (dc_GCSConfiguration d) (dc_GCSConfiguration e) of
             None \<Rightarrow> None
           | Some (gcs, _) \<Rightarrow>
               Some (Some (d\<lparr>
                 dc_UtilityImages :=
                   UtilityImages_ApplyDefault (dc_UtilityImages d) (dc_UtilityImages e),
                 dc_GCSConfiguration := gcs,
                 dc_Timeout := opt_default (dc_Timeout d) (dc_Timeout e),
                 dc_GracePeriod := opt_default (dc_GracePeriod d) (dc_GracePeriod e),
                 dc_GCSCredentialsSecret :=
                   or_default (dc_GCSCredentialsSecret d) (dc_GCSCredentialsSecret e),
                 dc_SSHKeySecrets := list_default (dc_SSHKeySecrets d) (dc_SSHKeySecrets e),
                 dc_SSHHostFingerprints :=
                   list_default (dc_SSHHostFingerprints d) (dc_SSHHostFingerprints e),
                 dc_SkipCloning := opt_default (dc_SkipCloning d) (dc_SkipCloning e),
                 dc_CookiefileSecret :=
                   or_default (dc_CookiefileSecret d) (dc_CookiefileSecret e)\<rparr>))))"

definition missing_images :: "UtilityImages \<Rightarrow> string list" where
  "missing_images u =
     (if ui_CloneRefs u = [] then [''clonerefs''] else [])
     @ (if ui_InitUpload u = [] then [''initupload''] else [])
     @ (if ui_Entrypoint u = [] then [''entrypoint''] else [])
     @ (if ui_Sidecar u = [] then [''sidecar''] else [])"

definition DecorationConfig_Validate ::
    "(string \<Rightarrow> error option) \<Rightarrow> ((string \<times> string) list \<Rightarrow> (string \<times> string) list)
     \<Rightarrow> DecorationConfig \<Rightarrow> error option" where
  "DecorationConfig_Validate parse iter d =
     (case dc_UtilityImages d of
        None \<Rightarrow> Some ''utility image config is not specified''
      | Some u \<Rightarrow>
          if missing_images u \<noteq> []
          then Some (''the following utility images are not specified: [''
                     @ join '' '' (map (\<lambda>m. ''\"'' @ m @ ''\"'') (missing_images u)) @ '']'')
          else
            (case dc_GCSConfiguration d of
               None \<Rightarrow> Some ''GCS upload configuration is not specified''
             | Some g \<Rightarrow>
                 if dc_GCSCredentialsSecret d = []
                 then Some ''GCS upload credential secret is not specified''
                 else
                   (case GCSConfiguration_Validate parse iter g of
                      Some err \<Rightarrow> Some (''GCS configuration is invalid: '' @ err)
                    | None \<Rightarrow>
                        if dc_OauthTokenSecret d \<noteq> None \<and> dc_SSHKeySecrets d \<noteq> []
                        then Some ''both OAuth token and SSH key secrets are specified''
                        else None)))"

subsection \<open>What the defaulting methods have in common\<close>

text \<open>
  An \<open>ApplyDefault\<close> on optional configs: nil is neutral on both sides, and applying the
  same defaults again changes nothing.
\<close>

locale defaulting =
  fixes apply_default :: "'a option \<Rightarrow> 'a option \<Rightarrow> 'a option"
  assumes nil_left: "apply_default None d = d"
    and nil_right: "apply_default c None = c"
    and absorb: "apply_default (apply_default c d) d = apply_default c d"
begin

lemma default_of_nil_twice: "apply_default (apply_default None d) d = d"
  by (simp add: nil_left absorb [of None d, unfolded nil_left])

lemma fold_defaults_idem:
  "foldl apply_default (apply_default c d) (replicate n d) = apply_default c d"
  by (induction n) (simp_all add: absorb)

lemma fold_defaults_nil:
  "foldl apply_default c (replicate n None) = c"
  by (induction n) (simp_all add: nil_right)

end

lemma or_default_simps [simp]:
  "or_default [] d = d" "or_default s [] = s" "or_default s s = s" "or_default (or_default s d) d = or_default s d"
  "s \<noteq> [] \<Longrightarrow> or_default s d = s"
  by (simp_all add: or_default_def)

lemma opt_default_simps [simp]:
  "opt_default None d = d" "opt_default c None = c" "opt_default (Some x) d = Some x" "opt_default c c = c"
  "opt_default (opt_default c d) d = opt_default c d"
  by (simp_all add: opt_default_def split: option.splits)

lemma list_default_simps [simp]:
  "list_default [] d = d" "list_default xs [] = xs" "list_default xs xs = xs"
  "list_default (list_default xs d) d = list_default xs d"
  by (simp_all add: list_default_def)

interpretation images: defaulting UtilityImages_ApplyDefault
  by unfold_locales (auto simp: UtilityImages_ApplyDefault_def split: option.splits)

interpretation pointers: defaulting opt_default
  by unfold_locales simp_all

subsection \<open>Media types\<close>

lemma store_all_lookup:
  "map_of (store_all kvs m) k =
     (case map_of (rev kvs) k of Some v \<Rightarrow> Some v | None \<Rightarrow> map_of m k)"
  by (induction kvs m rule: store_all.induct)
     (auto simp: map_of_append update_conv map_add_def split: option.splits)

lemma map_of_rev_distinct: "distinct (map fst kvs) \<Longrightarrow> map_of (rev kvs) = map_of kvs"
  by (induction kvs) (auto simp: map_add_def fun_eq_iff split: option.splits
      dest: map_of_SomeD intro!: rev_image_eqI)

lemma store_all_distinct: "distinct (map fst m) \<Longrightarrow> distinct (map fst (store_all kvs m))"
  by (induction kvs m rule: store_all.induct) (auto simp: distinct_update)

lemma store_all_self: "distinct (map fst m) \<Longrightarrow> map_of (store_all m m) = map_of m"
  by (rule ext) (simp add: store_all_lookup map_of_rev_distinct split: option.splits)

subsection \<open>Properties\<close>

text \<open>
  Defaulting the media types of a GCS configuration: the map of the receiver is updated in
  place, so a default wins over the receiver's own entry for the same extension (though the
  receiver's value is meant to take precedence), the receiver is changed by the call, and a
  receiver without a map panics when the defaults have entries.
\<close>

theorem gcs_default_media_types:
  assumes "gcs_MediaTypes d = Some defs" and "distinct (map fst defs)" and "defs \<noteq> []"
  shows "case gcs_MediaTypes g of
      None \<Rightarrow> GCSConfiguration_ApplyDefault (Some g) (Some d) = None
    | Some own \<Rightarrow> distinct (map fst own) \<longrightarrow>
        (\<exists>merged g' types. GCSConfiguration_ApplyDefault (Some g) (Some d) = Some (Some merged, Some g')
           \<and> gcs_MediaTypes merged = Some types \<and> gcs_MediaTypes g' = Some types
           \<and> map_of types = map_of own ++ map_of defs)"
  using assms
  by (auto simp: GCSConfiguration_ApplyDefault_def store_media_types_def store_all_lookup fun_eq_iff
      map_of_rev_distinct store_all_self store_all_distinct map_add_def
      split: option.splits)

definition sample_GCSConfiguration :: "(string \<times> string) list option \<Rightarrow> GCSConfiguration" where
  "sample_GCSConfiguration types =
     \<lparr>gcs_Bucket = ''bucket'', gcs_PathPrefix = [], gcs_PathStrategy = PathStrategyExplicit,
      gcs_DefaultOrg = [], gcs_DefaultRepo = [], gcs_MediaTypes = types, gcs_LocalOutputDir = []\<rparr>"

theorem gcs_default_media_types_witness:
  "\<exists>merged g' types.
     GCSConfiguration_ApplyDefault (Some (sample_GCSConfiguration (Some [(''log'', ''text/plain'')])))
       (Some (sample_GCSConfiguration (Some [(''log'', ''text/html'')]))) = Some (Some merged, Some g')
     \<and> gcs_MediaTypes merged = Some types \<and> gcs_MediaTypes g' = Some types
     \<and> map_of types ''log'' = Some ''text/html''"
  using gcs_default_media_types [of "sample_GCSConfiguration (Some [(''log'', ''text/html'')])"
      "[(''log'', ''text/html'')]" "sample_GCSConfiguration (Some [(''log'', ''text/plain'')])"]
  by (auto simp: sample_GCSConfiguration_def)

text \<open>
  A decoration config that passes validation names all four utility images, a GCS
  configuration and its credentials, and not two kinds of clone secrets at once; and
  defaulting never undoes a set field: the images of the result are the config's own where
  they are set.
\<close>

theorem decoration_valid_complete:
  assumes "DecorationConfig_Validate parse iter d = None"
  shows "(\<exists>u g. dc_UtilityImages d = Some u \<and> dc_GCSConfiguration d = Some g
           \<and> ui_CloneRefs u \<noteq> [] \<and> ui_InitUpload u \<noteq> [] \<and> ui_Entrypoint u \<noteq> [] \<and> ui_Sidecar u \<noteq> []
           \<and> GCSConfiguration_Validate parse iter g = None)
       \<and> dc_GCSCredentialsSecret d \<noteq> []
       \<and> \<not> (dc_OauthTokenSecret d \<noteq> None \<and> dc_SSHKeySecrets d \<noteq> [])
       \<and> (\<forall>e m. DecorationConfig_ApplyDefault (Some d) (Some e) = Some (Some m) \<longrightarrow>
            dc_UtilityImages m = dc_UtilityImages d
            \<and> dc_GCSCredentialsSecret m = dc_GCSCredentialsSecret d)"
  using assms
  by (auto simp: DecorationConfig_Validate_def DecorationConfig_ApplyDefault_def missing_images_def
      UtilityImages_ApplyDefault_def Let_def split: option.splits if_splits)

definition sample_DecorationConfig :: DecorationConfig where
  "sample_DecorationConfig =
     \<lparr>dc_Timeout = None, dc_GracePeriod = None,
      dc_UtilityImages = Some \<lparr>ui_CloneRefs = ''c'', ui_InitUpload = ''i'', ui_Entrypoint = ''e'',
                               ui_Sidecar = ''s''\<rparr>,
      dc_GCSConfiguration = Some (sample_GCSConfiguration None), dc_GCSCredentialsSecret = ''creds'',
      dc_SSHKeySecrets = [], dc_SSHHostFingerprints = [], dc_SkipCloning = None,
      dc_CookiefileSecret = [], dc_OauthTokenSecret = None\<rparr>"

theorem decoration_valid_complete_witness:
  "DecorationConfig_Validate (\<lambda>_. None) (\<lambda>xs. xs) sample_DecorationConfig = None
   \<and> dc_GCSCredentialsSecret sample_DecorationConfig \<noteq> []"
proof -
  have "DecorationConfig_Validate (\<lambda>_. None) (\<lambda>xs. xs) sample_DecorationConfig = None"
    by (simp add: DecorationConfig_Validate_def sample_DecorationConfig_def missing_images_def
        GCSConfiguration_Validate_def sample_GCSConfiguration_def
        PathStrategyExplicit_def PathStrategyLegacy_def PathStrategySingle_def)
  then show ?thesis using decoration_valid_complete by blast
qed

end
