(* ===== verification/Config_Jobs.thy ===== *)
theory Config_Jobs
  imports Decoration_Config
begin

text \<open>
  Job configuration, \<open>src/config/jobs.go\<close>, with the defaulting and compilation of jobs from
  \<open>src/config/config.go\<close>: which jobs run for which branch and which changed files.

  A compiled regular expression is used for \<open>MatchString\<close> only, so it is its match
  predicate \<open>string \<Rightarrow> bool\<close>; \<open>regexp.Compile\<close> is the parameter \<open>compile\<close> of the
  functions that call it.  A field holding a compiled expression is meaningful once the job
  has been loaded (\<open>SetPresubmitRegexes\<close>, \<open>SetPostsubmitRegexes\<close>).

  A \<open>ChangedFilesProvider\<close> is called lazily and may keep a cache, so it is a state
  transformer; the locale \<open>changed_files\<close> states what its callers rely on.
\<close>

type_synonym regexp = "string \<Rightarrow> bool"
type_synonym compiler = "string \<Rightarrow> regexp result"

subsection \<open>Data\<close>

record UtilityConfig =
  uc_Decorate :: bool
  uc_PathAlias :: string
  uc_CloneURI :: string
  uc_SkipSubmodules :: bool
  uc_CloneDepth :: int
  uc_ExtraRefs :: "Refs list"
  uc_DecorationConfig :: "DecorationConfig option"

record JobBase = UtilityConfig +
  jb_Name :: string
  jb_Labels :: "string \<rightharpoonup> string"
  jb_MaxConcurrency :: int
  jb_Agent :: string
  jb_Cluster :: string
  jb_Namespace :: "string option"
  jb_ErrorOnEviction :: bool
  jb_SourcePath :: string
  jb_Spec :: "PodSpec option"
  jb_PipelineRunSpec :: "PipelineRunSpec option"
  jb_Annotations :: "string \<rightharpoonup> string"
  jb_ReporterConfig :: "ReporterConfig option"
  jb_RerunAuthConfig :: "RerunAuthConfig option"
  jb_Hidden :: bool

record Brancher =
  br_SkipBranches :: "string list"
  br_Branches :: "string list"
  br_re :: regexp
  br_reSkip :: regexp

record RegexpChangeMatcher =
  cm_RunIfChanged :: string
  cm_reChanges :: regexp

record Reporter =
  rep_Context :: string
  rep_SkipReport :: bool

record Presubmit =
  ps_JobBase :: JobBase
  ps_AlwaysRun :: bool
  ps_Optional :: bool
  ps_Trigger :: string
  ps_RerunCommand :: string
  ps_Brancher :: Brancher
  ps_RegexpChangeMatcher :: RegexpChangeMatcher
  ps_Reporter :: Reporter
  ps_JenkinsSpec :: "JenkinsSpec option"
  ps_re :: regexp

record Postsubmit =
  post_JobBase :: JobBase
  post_RegexpChangeMatcher :: RegexpChangeMatcher
  post_Brancher :: Brancher
  post_Reporter :: Reporter
  post_JenkinsSpec :: "JenkinsSpec option"

record Periodic =
  per_JobBase :: JobBase
  per_Interval :: string
  per_Cron :: string
  per_Tags :: "string list"
  per_interval :: duration

abbreviation ps_Name :: "Presubmit \<Rightarrow> string" where "ps_Name p \<equiv> jb_Name (ps_JobBase p)"
abbreviation ps_Context :: "Presubmit \<Rightarrow> string" where "ps_Context p \<equiv> rep_Context (ps_Reporter p)"

subsection \<open>Branches\<close>

definition RunsAgainstAllBranch :: "Brancher \<Rightarrow> bool" where
  "RunsAgainstAllBranch br \<longleftrightarrow> br_SkipBranches br = [] \<and> br_Branches br = []"

definition Brancher_ShouldRun :: "Brancher \<Rightarrow> string \<Rightarrow> bool" where
  "Brancher_ShouldRun br branch =
     (if RunsAgainstAllBranch br then True
      else if br_SkipBranches br \<noteq> [] \<and> br_reSkip br branch then False
      else if br_Branches br = [] \<or> br_re br branch then True
      else False)"

text \<open>The receiver has branches, so the recursion of the source is at most one level deep.\<close>

definition Intersects_branches :: "Brancher \<Rightarrow> Brancher \<Rightarrow> bool" where
  "Intersects_branches br other =
     (if br_Branches other \<noteq> [] then set (br_Branches br) \<inter> set (br_Branches other) \<noteq> {}
      else \<exists>b \<in> set (set_list (br_Branches br)). Brancher_ShouldRun other b)"

definition Intersects :: "Brancher \<Rightarrow> Brancher \<Rightarrow> bool" where
  "Intersects br other =
     (if RunsAgainstAllBranch br \<or> RunsAgainstAllBranch other then True
      else if br_Branches br \<noteq> [] then Intersects_branches br other
      else if br_Branches other = [] then True
      else Intersects_branches other br)"

subsection \<open>Changed files\<close>

type_synonym 's ChangedFilesProvider = "'s \<Rightarrow> string list result \<times> 's"

definition RegexpChangeMatcher_CouldRun :: "RegexpChangeMatcher \<Rightarrow> bool" where
  "RegexpChangeMatcher_CouldRun cm \<longleftrightarrow> cm_RunIfChanged cm \<noteq> []"

definition RunsAgainstChanges :: "RegexpChangeMatcher \<Rightarrow> string list \<Rightarrow> bool" where
  "RunsAgainstChanges cm changes \<longleftrightarrow> (\<exists>change \<in> set changes. cm_reChanges cm change)"

text \<open>The result is \<open>(determined, shouldRun)\<close>, or the error of the provider.\<close>

definition RegexpChangeMatcher_ShouldRun ::
    "RegexpChangeMatcher \<Rightarrow> 's ChangedFilesProvider \<Rightarrow> 's \<Rightarrow> (bool \<times> bool) result \<times> 's" where
  "RegexpChangeMatcher_ShouldRun cm changes s =
     (if RegexpChangeMatcher_CouldRun cm then
        (case changes s of
           (Inl err, s') \<Rightarrow> (Inl err, s')
         | (Inr changeList, s') \<Rightarrow> (Inr (True, RunsAgainstChanges cm changeList), s'))
      else (Inr (False, False), s))"

subsection \<open>Postsubmits and presubmits\<close>

definition Postsubmit_CouldRun :: "Postsubmit \<Rightarrow> string \<Rightarrow> bool" where
  "Postsubmit_CouldRun ps baseRef = Brancher_ShouldRun (post_Brancher ps) baseRef"

definition Postsubmit_ShouldRun ::
    "Postsubmit \<Rightarrow> string \<Rightarrow> 's ChangedFilesProvider \<Rightarrow> 's \<Rightarrow> bool result \<times> 's" where
  "Postsubmit_ShouldRun ps baseRef changes s =
     (if \<not> Postsubmit_CouldRun ps baseRef then (Inr False, s)
      else
        (case RegexpChangeMatcher_ShouldRun (post_RegexpChangeMatcher ps) changes s of
           (Inl err, s') \<Rightarrow> (Inl err, s')
         | (Inr (determined, shouldRun), s') \<Rightarrow>
             if determined then (Inr shouldRun, s') else (Inr True, s')))"

definition CouldRun :: "Presubmit \<Rightarrow> string \<Rightarrow> bool" where
  "CouldRun ps baseRef = Brancher_ShouldRun (ps_Brancher ps) baseRef"

definition ShouldRun ::
    "Presubmit \<Rightarrow> string \<Rightarrow> 's ChangedFilesProvider \<Rightarrow> bool \<Rightarrow> bool \<Rightarrow> 's \<Rightarrow> bool result \<times> 's" where
  "ShouldRun ps baseRef changes forced defaults s =
     (if \<not> CouldRun ps baseRef then (Inr False, s)
      else if ps_AlwaysRun ps then (Inr True, s)
      else if forced then (Inr True, s)
      else
        (case RegexpChangeMatcher_ShouldRun (ps_RegexpChangeMatcher ps) changes s of
           (Inl err, s') \<Rightarrow> (Inl err, s')
         | (Inr (determined, shouldRun), s') \<Rightarrow>
             if determined then (Inr shouldRun, s') else (Inr defaults, s')))"

definition NeedsExplicitTrigger :: "Presubmit \<Rightarrow> bool" where
  "NeedsExplicitTrigger ps \<longleftrightarrow>
     \<not> ps_AlwaysRun ps \<and> \<not> RegexpChangeMatcher_CouldRun (ps_RegexpChangeMatcher ps)"

definition TriggersConditionally :: "Presubmit \<Rightarrow> bool" where
  "TriggersConditionally ps \<longleftrightarrow>
     NeedsExplicitTrigger ps \<or> RegexpChangeMatcher_CouldRun (ps_RegexpChangeMatcher ps)"

definition TriggerMatches :: "Presubmit \<Rightarrow> string \<Rightarrow> bool" where
  "TriggerMatches ps body \<longleftrightarrow> ps_Trigger ps \<noteq> [] \<and> ps_re ps body"

definition ContextRequired :: "Presubmit \<Rightarrow> bool" where
  "ContextRequired ps \<longleftrightarrow> \<not> ps_Optional ps \<and> \<not> rep_SkipReport (ps_Reporter ps)"

text \<open>
  The provider that asks GitHub once and keeps the answer.  Its state is the captured
  variable \<open>changedFiles\<close>, nil until a non-empty answer was appended to it; \<open>fetches\<close>
  counts the calls of \<open>GetPullRequestChanges\<close>, whose answer (the file names) is the
  parameter \<open>client\<close>.
\<close>

record deferred_changes =
  dcf_changedFiles :: "string list"
  dcf_fetches :: nat

definition NewGitHubDeferredChangedFilesProvider ::
    "(string \<Rightarrow> string \<Rightarrow> int \<Rightarrow> string list result) \<Rightarrow> string \<Rightarrow> string \<Rightarrow> int
     \<Rightarrow> deferred_changes ChangedFilesProvider" where
  "NewGitHubDeferredChangedFilesProvider client org repo num st =
     (if dcf_changedFiles st = [] then
        (case client org repo num of
           Inl err \<Rightarrow> (Inl (''error getting pull request changes: '' @ err),
                       st\<lparr>dcf_fetches := Suc (dcf_fetches st)\<rparr>)
         | Inr changes \<Rightarrow> (Inr changes, st\<lparr>dcf_changedFiles := changes,
                                          dcf_fetches := Suc (dcf_fetches st)\<rparr>))
      else (Inr (dcf_changedFiles st), st))"

subsection \<open>Compiling and defaulting jobs\<close>

definition setBrancherRegexes :: "compiler \<Rightarrow> Brancher \<Rightarrow> Brancher result" where
  "setBrancherRegexes compile br =
     (case (if br_Branches br \<noteq> [] then compile (join ''|'' (br_Branches br)) else Inr (br_re br)) of
        Inl err \<Rightarrow> Inl (''could not compile positive branch regex: '' @ err)
      | Inr re \<Rightarrow>
          (case (if br_SkipBranches br \<noteq> [] then compile (join ''|'' (br_SkipBranches br))
                 else Inr (br_reSkip br)) of
             Inl err \<Rightarrow> Inl (''could not compile negative branch regex: '' @ err)
           | Inr reSkip \<Rightarrow> Inr (br\<lparr>br_re := re, br_reSkip := reSkip\<rparr>)))"

definition setChangeRegexes :: "compiler \<Rightarrow> RegexpChangeMatcher \<Rightarrow> RegexpChangeMatcher result" where
  "setChangeRegexes compile cm =
     (if cm_RunIfChanged cm \<noteq> [] then
        (case compile (cm_RunIfChanged cm) of
           Inl err \<Rightarrow> Inl (''could not compile run_if_changed regex: '' @ err)
         | Inr re \<Rightarrow> Inr (cm\<lparr>cm_reChanges := re\<rparr>))
      else Inr cm)"

definition set_presubmit_regexes :: "compiler \<Rightarrow> Presubmit \<Rightarrow> Presubmit result" where
  "set_presubmit_regexes compile j =
     (case compile (ps_Trigger j) of
        Inl err \<Rightarrow> Inl (''could not compile trigger regex for '' @ ps_Name j @ '': '' @ err)
      | Inr re \<Rightarrow>
          if \<not> re (ps_RerunCommand j) then
            Inl (''for job '' @ ps_Name j @ '', rerun command \"'' @ ps_RerunCommand j
                 @ ''\" does not match trigger \"'' @ ps_Trigger j @ ''\"'')
          else
            (case setBrancherRegexes compile (ps_Brancher j) of
               Inl err \<Rightarrow> Inl (''could not set branch regexes for '' @ ps_Name j @ '': '' @ err)
             | Inr b \<Rightarrow>
                 (case setChangeRegexes compile (ps_RegexpChangeMatcher j) of
                    Inl err \<Rightarrow> Inl (''could not set change regexes for '' @ ps_Name j @ '': '' @ err)
                  | Inr c \<Rightarrow> Inr (j\<lparr>ps_re := re, ps_Brancher := b, ps_RegexpChangeMatcher := c\<rparr>))))"

fun SetPresubmitRegexes :: "compiler \<Rightarrow> Presubmit list \<Rightarrow> Presubmit list result" where
  "SetPresubmitRegexes compile [] = Inr []"
| "SetPresubmitRegexes compile (j # js) =
     (case set_presubmit_regexes compile j of
        Inl err \<Rightarrow> Inl err
      | Inr j' \<Rightarrow>
          (case SetPresubmitRegexes compile js of
             Inl err \<Rightarrow> Inl err
           | Inr js' \<Rightarrow> Inr (j' # js')))"

fun SetPostsubmitRegexes :: "compiler \<Rightarrow> Postsubmit list \<Rightarrow> Postsubmit list result" where
  "SetPostsubmitRegexes compile [] = Inr []"
| "SetPostsubmitRegexes compile (j # js) =
     (case setBrancherRegexes compile (post_Brancher j) of
        Inl err \<Rightarrow> Inl (''could not set branch regexes for '' @ jb_Name (post_JobBase j) @ '': '' @ err)
      | Inr b \<Rightarrow>
          (case setChangeRegexes compile (post_RegexpChangeMatcher j) of
             Inl err \<Rightarrow>
               Inl (''could not set change regexes for '' @ jb_Name (post_JobBase j) @ '': '' @ err)
           | Inr c \<Rightarrow>
               (case SetPostsubmitRegexes compile js of
                  Inl err \<Rightarrow> Inl err
                | Inr js' \<Rightarrow> Inr (j\<lparr>post_Brancher := b, post_RegexpChangeMatcher := c\<rparr> # js'))))"

definition DefaultTriggerFor :: "string \<Rightarrow> string" where
  "DefaultTriggerFor name = ''(?m)^/test( | .* )'' @ name @ '',?($|'' @ [CHR 0x5C] @ ''s.*)''"

definition DefaultRerunCommandFor :: "string \<Rightarrow> string" where
  "DefaultRerunCommandFor name = ''/test '' @ name"

definition defaultJobBase :: "string \<Rightarrow> JobBase \<Rightarrow> JobBase" where
  "defaultJobBase podNamespace base =
     base\<lparr>jb_Agent := (if jb_Agent base = [] then KubernetesAgent else jb_Agent base),
          jb_Namespace := (case jb_Namespace base of
                             None \<Rightarrow> Some podNamespace
                           | Some n \<Rightarrow> if n = [] then Some podNamespace else Some n),
          jb_Cluster := (if jb_Cluster base = [] then DefaultClusterAlias else jb_Cluster base)\<rparr>"

definition default_presubmit :: "string \<Rightarrow> Presubmit \<Rightarrow> Presubmit" where
  "default_presubmit podNamespace j =
     (let j1 = j\<lparr>ps_JobBase := defaultJobBase podNamespace (ps_JobBase j)\<rparr>;
          j2 = (if ps_Context j1 = []
                then j1\<lparr>ps_Reporter := (ps_Reporter j1)\<lparr>rep_Context := ps_Name j1\<rparr>\<rparr> else j1)
      in if ps_Trigger j2 = [] \<and> ps_RerunCommand j2 = []
         then j2\<lparr>ps_Trigger := DefaultTriggerFor (ps_Name j2),
                 ps_RerunCommand := DefaultRerunCommandFor (ps_Name j2)\<rparr>
         else j2)"

definition defaultPresubmitFields :: "string \<Rightarrow> Presubmit list \<Rightarrow> Presubmit list" where
  "defaultPresubmitFields podNamespace js = map (default_presubmit podNamespace) js"

definition default_postsubmit :: "string \<Rightarrow> Postsubmit \<Rightarrow> Postsubmit" where
  "default_postsubmit podNamespace j =
     (let j1 = j\<lparr>post_JobBase := defaultJobBase podNamespace (post_JobBase j)\<rparr>
      in if rep_Context (post_Reporter j1) = []
         then j1\<lparr>post_Reporter := (post_Reporter j1)\<lparr>rep_Context := jb_Name (post_JobBase j1)\<rparr>\<rparr>
         else j1)"

definition defaultPostsubmitFields :: "string \<Rightarrow> Postsubmit list \<Rightarrow> Postsubmit list" where
  "defaultPostsubmitFields podNamespace js = map (default_postsubmit podNamespace) js"

definition defaultPeriodicFields :: "string \<Rightarrow> Periodic list \<Rightarrow> Periodic list" where
  "defaultPeriodicFields podNamespace js =
     map (\<lambda>j. j\<lparr>per_JobBase := defaultJobBase podNamespace (per_JobBase j)\<rparr>) js"

definition validateTriggering :: "Presubmit \<Rightarrow> error option" where
  "validateTriggering job =
     (if ps_AlwaysRun job \<and> cm_RunIfChanged (ps_RegexpChangeMatcher job) \<noteq> [] then
        Some (''job '' @ ps_Name job @ '' is set to always run but also declares run_if_changed ''
              @ ''targets, which are mutually exclusive'')
      else if \<not> rep_SkipReport (ps_Reporter job) \<and> ps_Context job = [] then
        Some (''job '' @ ps_Name job @ '' is set to report but has no context configured'')
      else if (ps_Trigger job \<noteq> [] \<and> ps_RerunCommand job = [])
           \<or> (ps_Trigger job = [] \<and> ps_RerunCommand job \<noteq> []) then
        Some (''Either both of job.Trigger and job.RerunCommand must be set, wasnt the case for job \"''
              @ ps_Name job @ ''\"'')
      else None)"

subsection \<open>What callers rely on of a provider of changed files\<close>

text \<open>
  In a state satisfying the invariant the provider answers the truth, and leaves such a
  state.
\<close>

locale changed_files =
  fixes changes :: "'s ChangedFilesProvider"
    and inv :: "'s \<Rightarrow> bool"
    and truth :: "string list result"
  assumes answers: "inv s \<Longrightarrow> fst (changes s) = truth"
    and keeps: "inv s \<Longrightarrow> inv (snd (changes s))"
begin

lemma changes_eq: "inv s \<Longrightarrow> changes s = (truth, snd (changes s))"
  using answers by (metis prod.collapse)

definition decides :: "RegexpChangeMatcher \<Rightarrow> bool \<Rightarrow> bool result" where
  "decides cm defaults =
     (if RegexpChangeMatcher_CouldRun cm
      then (case truth of Inl err \<Rightarrow> Inl err | Inr fs \<Rightarrow> Inr (RunsAgainstChanges cm fs))
      else Inr defaults)"

lemma decides_files:
  "truth = Inr files \<Longrightarrow> decides cm defaults =
     Inr (if cm_RunIfChanged cm = [] then defaults else \<exists>f \<in> set files. cm_reChanges cm f)"
  unfolding decides_def by (simp add: RegexpChangeMatcher_CouldRun_def RunsAgainstChanges_def)

lemma matcher_state:
  "inv s \<Longrightarrow> inv (snd (RegexpChangeMatcher_ShouldRun cm changes s))"
  using keeps [of s] by (auto simp: RegexpChangeMatcher_ShouldRun_def split: prod.splits sum.splits)

lemma should_run_value:
  assumes "inv s"
  shows "fst (ShouldRun ps baseRef changes forced defaults s) =
    (if \<not> CouldRun ps baseRef then Inr False
     else if ps_AlwaysRun ps \<or> forced then Inr True
     else decides (ps_RegexpChangeMatcher ps) defaults)"
  using changes_eq [OF assms]
  by (auto simp: ShouldRun_def RegexpChangeMatcher_ShouldRun_def decides_def
      split: prod.splits sum.splits)

lemma should_run_state:
  "inv s \<Longrightarrow> inv (snd (ShouldRun ps baseRef changes forced defaults s))"
  using matcher_state [of s "ps_RegexpChangeMatcher ps"]
  by (auto simp: ShouldRun_def split: prod.splits sum.splits)

lemma postsubmit_should_run_value:
  assumes "inv s"
  shows "fst (Postsubmit_ShouldRun ps baseRef changes s) =
    (if \<not> Postsubmit_CouldRun ps baseRef then Inr False
     else decides (post_RegexpChangeMatcher ps) True)"
  using changes_eq [OF assms]
  by (auto simp: Postsubmit_ShouldRun_def RegexpChangeMatcher_ShouldRun_def decides_def
      split: prod.splits sum.splits)

end

text \<open>The deferred provider of GitHub keeps the contract: its cache, if any, is the answer.\<close>

definition deferred_truth ::
    "(string \<Rightarrow> string \<Rightarrow> int \<Rightarrow> string list result) \<Rightarrow> string \<Rightarrow> string \<Rightarrow> int \<Rightarrow> string list result" where
  "deferred_truth client org repo num =
     (case client org repo num of
        Inl err \<Rightarrow> Inl (''error getting pull request changes: '' @ err)
      | Inr changes \<Rightarrow> Inr changes)"

definition deferred_inv ::
    "(string \<Rightarrow> string \<Rightarrow> int \<Rightarrow> string list result) \<Rightarrow> string \<Rightarrow> string \<Rightarrow> int \<Rightarrow> deferred_changes \<Rightarrow> bool" where
  "deferred_inv client org repo num st \<longleftrightarrow>
     dcf_changedFiles st = [] \<or> client org repo num = Inr (dcf_changedFiles st)"

interpretation deferred: changed_files
  "NewGitHubDeferredChangedFilesProvider client org repo num"
  "deferred_inv client org repo num"
  "deferred_truth client org repo num"
  for client org repo num
  by unfold_locales
     (auto simp: NewGitHubDeferredChangedFilesProvider_def deferred_inv_def deferred_truth_def
       split: sum.splits)

lemma deferred_decides:
  "deferred.decides client org repo num cm defaults =
     (if cm_RunIfChanged cm = [] then Inr defaults
      else map_sum (\<lambda>err. ''error getting pull request changes: '' @ err)
             (\<lambda>files. \<exists>f \<in> set files. cm_reChanges cm f) (client org repo num))"
  unfolding deferred.decides_def
  by (simp add: deferred_truth_def RegexpChangeMatcher_CouldRun_def RunsAgainstChanges_def split: sum.splits)

subsection \<open>Lemmas on branches\<close>

lemma Intersects_branches_sym:
  "br_Branches a \<noteq> [] \<Longrightarrow> br_Branches b \<noteq> [] \<Longrightarrow> Intersects_branches a b = Intersects_branches b a"
  by (auto simp: Intersects_branches_def)

lemma Brancher_ShouldRun_iff:
  "Brancher_ShouldRun br branch \<longleftrightarrow>
     (br_SkipBranches br \<noteq> [] \<longrightarrow> \<not> br_reSkip br branch)
     \<and> (br_Branches br \<noteq> [] \<longrightarrow> br_re br branch)"
  by (auto simp: Brancher_ShouldRun_def RunsAgainstAllBranch_def)

subsection \<open>Sample jobs\<close>

text \<open>Jobs with the given name and flags and zero values elsewhere, for concrete instances.\<close>

definition sample_JobBase :: "string \<Rightarrow> JobBase" where
  "sample_JobBase name =
     \<lparr>uc_Decorate = False, uc_PathAlias = [], uc_CloneURI = [], uc_SkipSubmodules = False,
      uc_CloneDepth = 0, uc_ExtraRefs = [], uc_DecorationConfig = None,
      jb_Name = name, jb_Labels = Map.empty, jb_MaxConcurrency = 0, jb_Agent = KubernetesAgent,
      jb_Cluster = [], jb_Namespace = None, jb_ErrorOnEviction = False, jb_SourcePath = [],
      jb_Spec = None, jb_PipelineRunSpec = None, jb_Annotations = Map.empty,
      jb_ReporterConfig = None, jb_RerunAuthConfig = None, jb_Hidden = False\<rparr>"

definition sample_Presubmit :: "string \<Rightarrow> bool \<Rightarrow> bool \<Rightarrow> string \<Rightarrow> Presubmit" where
  "sample_Presubmit name always optional runIfChanged =
     \<lparr>ps_JobBase = sample_JobBase name, ps_AlwaysRun = always, ps_Optional = optional,
      ps_Trigger = ''/test '' @ name, ps_RerunCommand = ''/test '' @ name,
      ps_Brancher = \<lparr>br_SkipBranches = [], br_Branches = [], br_re = (\<lambda>_. False), br_reSkip = (\<lambda>_. False)\<rparr>,
      ps_RegexpChangeMatcher = \<lparr>cm_RunIfChanged = runIfChanged, cm_reChanges = (\<lambda>f. f = runIfChanged)\<rparr>,
      ps_Reporter = \<lparr>rep_Context = name, rep_SkipReport = False\<rparr>,
      ps_JenkinsSpec = None, ps_re = (\<lambda>body. body = ''/test '' @ name)\<rparr>"

lemmas sample_job_defs = sample_JobBase_def sample_Presubmit_def

lemmas presubmit_defs =
  CouldRun_def Brancher_ShouldRun_def RunsAgainstAllBranch_def ContextRequired_def
  TriggersConditionally_def NeedsExplicitTrigger_def RegexpChangeMatcher_CouldRun_def
  RunsAgainstChanges_def

subsection \<open>Properties\<close>

text \<open>
  Whether a presubmit runs, with the provider that asks GitHub lazily: not on a branch it
  does not match; else yes when it always runs or is forced; else, when it is conditional, by
  its pattern on the files GitHub reports, failing if GitHub fails; else the default.  The
  answer is the same in whatever state earlier questions left the provider, and the files are
  asked for only when the answer depends on them.
\<close>

theorem should_run_decision:
  assumes "deferred_inv client org repo num st"
  shows "let (res, st') = ShouldRun ps baseRef
               (NewGitHubDeferredChangedFilesProvider client org repo num) forced defaults st;
             cm = ps_RegexpChangeMatcher ps
         in res = (if \<not> CouldRun ps baseRef then Inr False
                   else if ps_AlwaysRun ps \<or> forced then Inr True
                   else if cm_RunIfChanged cm = [] then Inr defaults
                   else map_sum (\<lambda>err. ''error getting pull request changes: '' @ err)
                          (\<lambda>files. \<exists>f \<in> set files. cm_reChanges cm f) (client org repo num))
            \<and> deferred_inv client org repo num st'
            \<and> (\<not> CouldRun ps baseRef \<or> ps_AlwaysRun ps \<or> forced \<or> cm_RunIfChanged cm = [] \<longrightarrow> st' = st)"
proof -
  let ?run = "ShouldRun ps baseRef (NewGitHubDeferredChangedFilesProvider client org repo num)
    forced defaults st"
  have "fst ?run = (if \<not> CouldRun ps baseRef then Inr False
      else if ps_AlwaysRun ps \<or> forced then Inr True
      else deferred.decides client org repo num (ps_RegexpChangeMatcher ps) defaults)"
    by (rule deferred.should_run_value [OF assms])
  moreover have "deferred_inv client org repo num (snd ?run)"
    by (rule deferred.should_run_state [OF assms])
  moreover have "snd ?run = st" if "\<not> CouldRun ps baseRef \<or> ps_AlwaysRun ps \<or> forced
      \<or> cm_RunIfChanged (ps_RegexpChangeMatcher ps) = []"
    using that by (auto simp: ShouldRun_def RegexpChangeMatcher_ShouldRun_def
        RegexpChangeMatcher_CouldRun_def)
  ultimately show ?thesis
    by (auto simp: Let_def deferred_decides split: prod.splits)
qed

theorem should_run_decision_witness:
  "let client = (\<lambda>_ _ _. Inr [''main.go'']);
       st = \<lparr>dcf_changedFiles = [], dcf_fetches = 0\<rparr>
   in fst (ShouldRun (sample_Presubmit ''unit'' False False ''main.go'') ''master''
        (NewGitHubDeferredChangedFilesProvider client ''org'' ''repo'' 1) False False st) = Inr True"
  using should_run_decision [of "\<lambda>_ _ _. Inr [''main.go'']" "''org''" "''repo''" 1
      "\<lparr>dcf_changedFiles = [], dcf_fetches = 0\<rparr>" "sample_Presubmit ''unit'' False False ''main.go''"
      "''master''" False False]
  by (simp add: Let_def deferred_inv_def presubmit_defs sample_job_defs split: prod.splits)

text \<open>
  A provider that got a non-empty answer never asks GitHub again.
\<close>

theorem deferred_fetches_once:
  assumes "NewGitHubDeferredChangedFilesProvider client org repo num st = (Inr (f # fs), st')"
  shows "NewGitHubDeferredChangedFilesProvider client' org' repo' num' st' = (Inr (f # fs), st')"
  using assms by (auto simp: NewGitHubDeferredChangedFilesProvider_def split: if_splits sum.splits)

theorem deferred_fetches_once_witness:
  "NewGitHubDeferredChangedFilesProvider (\<lambda>_ _ _. Inl ''down'') ''org'' ''repo'' 1
     (snd (NewGitHubDeferredChangedFilesProvider (\<lambda>_ _ _. Inr [''a'']) ''org'' ''repo'' 1
        \<lparr>dcf_changedFiles = [], dcf_fetches = 0\<rparr>)) =
   (Inr [''a''], \<lparr>dcf_changedFiles = [''a''], dcf_fetches = 1\<rparr>)"
proof -
  have "NewGitHubDeferredChangedFilesProvider (\<lambda>_ _ _. Inr [''a'']) ''org'' ''repo'' 1
      \<lparr>dcf_changedFiles = [], dcf_fetches = 0\<rparr> =
      (Inr [''a''], \<lparr>dcf_changedFiles = [''a''], dcf_fetches = 1\<rparr>)"
    by (simp add: NewGitHubDeferredChangedFilesProvider_def)
  then show ?thesis using deferred_fetches_once by auto
qed

text \<open>
  Loading presubmits is all or nothing, and a loaded job can be rerun: its jobs come in
  the same order with the same configuration, and the rerun command advertised for a job
  matches its own trigger.
\<close>

theorem loaded_presubmits_rerun:
  assumes "SetPresubmitRegexes compile js = Inr js'"
  shows "map ps_JobBase js' = map ps_JobBase js \<and> map ps_Trigger js' = map ps_Trigger js
     \<and> (\<forall>j \<in> set js'. compile (ps_Trigger j) = Inr (ps_re j)
          \<and> (ps_Trigger j \<noteq> [] \<longrightarrow> TriggerMatches j (ps_RerunCommand j)))"
  using assms
  by (induction js arbitrary: js')
     (auto simp: set_presubmit_regexes_def TriggerMatches_def split: sum.splits if_splits)

theorem loaded_presubmits_rerun_witness:
  "let compile = (\<lambda>re. Inr (\<lambda>s. s = re)); js = [sample_Presubmit ''unit'' True False []]
   in \<exists>js'. SetPresubmitRegexes compile js = Inr js' \<and> map ps_JobBase js' = map ps_JobBase js
        \<and> (\<forall>j \<in> set js'. TriggerMatches j ''/test unit'')"
proof -
  let ?compile = "(\<lambda>re. Inr (\<lambda>s. s = re)) :: compiler"
  let ?js = "[sample_Presubmit ''unit'' True False []]"
  obtain js' where loaded: "SetPresubmitRegexes ?compile ?js = Inr js'"
    by (simp add: set_presubmit_regexes_def sample_job_defs setBrancherRegexes_def setChangeRegexes_def)
  then have "\<forall>j \<in> set js'. ps_Trigger j = ''/test unit'' \<and> ps_RerunCommand j = ''/test unit''"
    by (auto simp: set_presubmit_regexes_def sample_job_defs setBrancherRegexes_def setChangeRegexes_def)
  then show ?thesis
    using loaded loaded_presubmits_rerun [OF loaded] by (auto simp: Let_def)
qed

end
