(* ===== verification/Branch_Protection.thy ===== *)
theory Branch_Protection
  imports Config_Jobs
begin

text \<open>
  Branch protection policies, \<open>src/config/branch_protection.go\<close>: policies of the global, org,
  repo and branch level are merged, the contexts of the presubmits that always run are added,
  and the result says how a branch is protected.

  \<open>unionStrings\<close> distinguishes a nil slice from an empty one, so the slices it merges are
  options.  \<open>Orgs\<close>, \<open>Repos\<close> and \<open>Branches\<close> are ranged over, so they are association lists;
  the ranges only collect sets, so their order does not matter.
\<close>

subsection \<open>Data\<close>

record ContextPolicy =
  cp_Contexts :: "string list option"
  cp_Strict :: "bool option"

record Restrictions =
  rs_Users :: "string list option"
  rs_Teams :: "string list option"

record ReviewPolicy =
  rp_DismissalRestrictions :: "Restrictions option"
  rp_DismissStale :: "bool option"
  rp_RequireOwners :: "bool option"
  rp_Approvals :: "int option"

record Policy =
  pol_Protect :: "bool option"
  pol_RequiredStatusChecks :: "ContextPolicy option"
  pol_Admins :: "bool option"
  pol_Restrictions :: "Restrictions option"
  pol_RequiredPullRequestReviews :: "ReviewPolicy option"
  pol_Exclude :: "string list option"

type_synonym Branch = Policy

record Repo =
  repo_Policy :: Policy
  repo_Branches :: "(string \<times> Branch) list"

record Org =
  org_Policy :: Policy
  org_Repos :: "(string \<times> Repo) list"

record BranchProtection =
  bp_Policy :: Policy
  bp_ProtectTested :: bool
  bp_Orgs :: "(string \<times> Org) list"
  bp_AllowDisabledPolicies :: bool
  bp_AllowDisabledJobPolicies :: bool

definition zero_Policy :: Policy where
  "zero_Policy = \<lparr>pol_Protect = None, pol_RequiredStatusChecks = None, pol_Admins = None,
     pol_Restrictions = None, pol_RequiredPullRequestReviews = None, pol_Exclude = None\<rparr>"

subsection \<open>Merging\<close>

definition Policy_defined :: "Policy \<Rightarrow> bool" where
  "Policy_defined p \<longleftrightarrow> pol_Protect p \<noteq> None \<or> pol_RequiredStatusChecks p \<noteq> None
     \<or> pol_Admins p \<noteq> None \<or> pol_Restrictions p \<noteq> None \<or> pol_RequiredPullRequestReviews p \<noteq> None"

definition selectInt :: "int option \<Rightarrow> int option \<Rightarrow> int option" where
  "selectInt parent child = (if child \<noteq> None then child else parent)"

definition selectBool :: "bool option \<Rightarrow> bool option \<Rightarrow> bool option" where
  "selectBool parent child = (if child \<noteq> None then child else parent)"

fun unionStrings :: "string list option \<Rightarrow> string list option \<Rightarrow> string list option" where
  "unionStrings parent None = parent"
| "unionStrings None child = child"
| "unionStrings (Some parent) (Some child) = Some (set_list (parent @ child))"

fun mergeContextPolicy :: "ContextPolicy option \<Rightarrow> ContextPolicy option \<Rightarrow> ContextPolicy option" where
  "mergeContextPolicy parent None = parent"
| "mergeContextPolicy None child = child"
| "mergeContextPolicy (Some parent) (Some child) =
     Some \<lparr>cp_Contexts = unionStrings (cp_Contexts parent) (cp_Contexts child),
           cp_Strict = selectBool (cp_Strict parent) (cp_Strict child)\<rparr>"

fun mergeRestrictions :: "Restrictions option \<Rightarrow> Restrictions option \<Rightarrow> Restrictions option" where
  "mergeRestrictions parent None = parent"
| "mergeRestrictions None child = child"
| "mergeRestrictions (Some parent) (Some child) =
     Some \<lparr>rs_Users = unionStrings (rs_Users parent) (rs_Users child),
           rs_Teams = unionStrings (rs_Teams parent) (rs_Teams child)\<rparr>"

fun mergeReviewPolicy :: "ReviewPolicy option \<Rightarrow> ReviewPolicy option \<Rightarrow> ReviewPolicy option" where
  "mergeReviewPolicy parent None = parent"
| "mergeReviewPolicy None child = child"
| "mergeReviewPolicy (Some parent) (Some child) =
     Some \<lparr>rp_DismissalRestrictions =
             mergeRestrictions (rp_DismissalRestrictions parent) (rp_DismissalRestrictions child),
           rp_DismissStale = selectBool (rp_DismissStale parent) (rp_DismissStale child),
           rp_RequireOwners = selectBool (rp_RequireOwners parent) (rp_RequireOwners child),
           rp_Approvals = selectInt (rp_Approvals parent) (rp_Approvals child)\<rparr>"

definition Apply :: "Policy \<Rightarrow> Policy \<Rightarrow> Policy" where
  "Apply p child =
     \<lparr>pol_Protect = selectBool (pol_Protect p) (pol_Protect child),
      pol_RequiredStatusChecks =
        mergeContextPolicy (pol_RequiredStatusChecks p) (pol_RequiredStatusChecks child),
      pol_Admins = selectBool (pol_Admins p) (pol_Admins child),
      pol_Restrictions = mergeRestrictions (pol_Restrictions p) (pol_Restrictions child),
      pol_RequiredPullRequestReviews =
        mergeReviewPolicy (pol_RequiredPullRequestReviews p) (pol_RequiredPullRequestReviews child),
      pol_Exclude = unionStrings (pol_Exclude p) (pol_Exclude child)\<rparr>"

subsection \<open>The policy of a branch\<close>

text \<open>A missing key of the map gives the zero struct, whose policy is then overwritten.\<close>

definition GetOrg :: "BranchProtection \<Rightarrow> string \<Rightarrow> Org" where
  "GetOrg bp name =
     (case map_of (bp_Orgs bp) name of
        Some o' \<Rightarrow> o'\<lparr>org_Policy := Apply (bp_Policy bp) (org_Policy o')\<rparr>
      | None \<Rightarrow> \<lparr>org_Policy = bp_Policy bp, org_Repos = []\<rparr>)"

definition GetRepo :: "Org \<Rightarrow> string \<Rightarrow> Repo" where
  "GetRepo o' name =
     (case map_of (org_Repos o') name of
        Some r \<Rightarrow> r\<lparr>repo_Policy := Apply (org_Policy o') (repo_Policy r)\<rparr>
      | None \<Rightarrow> \<lparr>repo_Policy = org_Policy o', repo_Branches = []\<rparr>)"

definition GetBranch :: "Repo \<Rightarrow> string \<Rightarrow> Branch result" where
  "GetBranch r name =
     (case map_of (repo_Branches r) name of
        Some b \<Rightarrow>
          (let b' = Apply (repo_Policy r) b
           in if pol_Protect b' = None then Inl ''defined branch policies must set protect''
              else Inr b')
      | None \<Rightarrow> Inr (repo_Policy r))"

text \<open>One pass over the jobs: the contexts always required, required if present, optional.\<close>

fun BranchRequirements :: "string \<Rightarrow> Presubmit list \<Rightarrow> string list \<times> string list \<times> string list" where
  "BranchRequirements branch [] = ([], [], [])"
| "BranchRequirements branch (j # jobs) =
     (let (required, requiredIfPresent, optional) = BranchRequirements branch jobs
      in if \<not> CouldRun j branch then (required, requiredIfPresent, optional)
         else if ContextRequired j then
           if TriggersConditionally j then (required, ps_Context j # requiredIfPresent, optional)
           else (ps_Context j # required, requiredIfPresent, optional)
         else (required, requiredIfPresent, ps_Context j # optional))"

text \<open>\<open>Inr None\<close> is the nil policy: the branch is not managed.\<close>

definition disable_check ::
    "BranchProtection \<Rightarrow> string \<Rightarrow> string \<Rightarrow> string \<Rightarrow> Policy \<Rightarrow> Policy option result" where
  "disable_check bp org repo branch policy =
     (if pol_Protect policy = Some False \<and> Policy_defined (policy\<lparr>pol_Protect := None\<rparr>)
         \<and> \<not> bp_AllowDisabledPolicies bp
      then Inl (org @ ''/'' @ repo @ ''='' @ branch @ '' defines a policy, which requires protect: true'')
      else if \<not> Policy_defined policy then Inr None
      else Inr (Some policy))"

definition GetPolicy ::
    "BranchProtection \<Rightarrow> string \<Rightarrow> string \<Rightarrow> string \<Rightarrow> Branch \<Rightarrow> Presubmit list \<Rightarrow> Policy option result" where
  "GetPolicy bp org repo branch b presubmits =
     (let (prowContexts, _, _) = BranchRequirements branch presubmits
      in if prowContexts \<noteq> [] then
           if pol_Protect b = Some False then
             if bp_AllowDisabledJobPolicies bp then Inr None
             else Inl ''required prow jobs require branch protection''
           else
             let ps = zero_Policy\<lparr>
                   pol_RequiredStatusChecks :=
                     Some \<lparr>cp_Contexts = Some prowContexts, cp_Strict = None\<rparr>,
                   pol_Protect := (if bp_ProtectTested bp then Some True else None)\<rparr>
             in disable_check bp org repo branch (Apply b ps)
         else disable_check bp org repo branch b)"

definition GetBranchProtection ::
    "BranchProtection \<Rightarrow> string \<Rightarrow> string \<Rightarrow> string \<Rightarrow> Presubmit list \<Rightarrow> Policy option result" where
  "GetBranchProtection bp org repo branch presubmits =
     (case map_of (bp_Orgs bp) org of
        None \<Rightarrow> Inr None
      | Some _ \<Rightarrow>
          (case GetBranch (GetRepo (GetOrg bp org) repo) branch of
             Inl err \<Rightarrow> Inl err
           | Inr b \<Rightarrow> GetPolicy bp org repo branch b presubmits))"

subsection \<open>Warnings\<close>

definition isUnprotected :: "Policy \<Rightarrow> bool \<Rightarrow> bool" where
  "isUnprotected policy allowDisabledPolicies \<longleftrightarrow>
     allowDisabledPolicies \<and> pol_Protect policy = Some False
     \<and> Policy_defined (policy\<lparr>pol_Protect := None\<rparr>)"

definition reposWithDisabledPolicy :: "BranchProtection \<Rightarrow> string list" where
  "reposWithDisabledPolicy bp =
     set_list
       [orgName @ ''/'' @ repoName.
          (orgName, org) \<leftarrow> bp_Orgs bp, (repoName, _) \<leftarrow> org_Repos org,
          isUnprotected (repo_Policy (GetRepo (GetOrg bp orgName) repoName))
            (bp_AllowDisabledPolicies bp)]"

definition unprotected_branch :: "BranchProtection \<Rightarrow> string \<Rightarrow> string \<Rightarrow> string \<Rightarrow> bool" where
  "unprotected_branch bp orgName repoName branchName =
     (case GetBranch (GetRepo (GetOrg bp orgName) repoName) branchName of
        Inl _ \<Rightarrow> False
      | Inr b \<Rightarrow>
          (case GetPolicy bp orgName repoName branchName b [] of
             Inr (Some policy) \<Rightarrow> isUnprotected policy (bp_AllowDisabledPolicies bp)
           | _ \<Rightarrow> False))"

definition unprotectedBranches :: "BranchProtection \<Rightarrow> string list" where
  "unprotectedBranches bp =
     set_list
       (concat (map (\<lambda>(orgName, org).
          concat (map (\<lambda>(repoName, repo).
            let branches = filter (unprotected_branch bp orgName repoName) (map fst (repo_Branches repo))
            in if branches = [] then []
               else [orgName @ ''/'' @ repoName @ ''='' @ join '','' (set_list branches)])
            (org_Repos org)))
          (bp_Orgs bp)))"

subsection \<open>Every merge is a layering\<close>

lemma nil_parent_simps [simp]:
  "unionStrings None ss = ss" "mergeContextPolicy None cp = cp"
  "mergeRestrictions None rs = rs" "mergeReviewPolicy None rp = rp"
  by (metis not_None_eq unionStrings.simps(1,2) mergeContextPolicy.simps(1,2)
      mergeRestrictions.simps(1,2) mergeReviewPolicy.simps(1,2))+

interpretation bools: pointer_merge selectBool "\<lambda>_ c. c"
  by unfold_locales (simp_all add: selectBool_def)

interpretation ints: pointer_merge selectInt "\<lambda>_ c. c"
  by unfold_locales (simp_all add: selectInt_def)

interpretation strings: pointer_merge unionStrings "\<lambda>p c. set_list (p @ c)"
  by unfold_locales simp_all

interpretation contexts: pointer_merge mergeContextPolicy
  "\<lambda>p c. \<lparr>cp_Contexts = unionStrings (cp_Contexts p) (cp_Contexts c),
           cp_Strict = selectBool (cp_Strict p) (cp_Strict c)\<rparr>"
  by unfold_locales (simp_all add: strings.merge_assoc bools.merge_assoc)

interpretation restrictions: pointer_merge mergeRestrictions
  "\<lambda>p c. \<lparr>rs_Users = unionStrings (rs_Users p) (rs_Users c),
           rs_Teams = unionStrings (rs_Teams p) (rs_Teams c)\<rparr>"
  by unfold_locales (simp_all add: strings.merge_assoc)

interpretation reviews: pointer_merge mergeReviewPolicy
  "\<lambda>p c. \<lparr>rp_DismissalRestrictions =
             mergeRestrictions (rp_DismissalRestrictions p) (rp_DismissalRestrictions c),
           rp_DismissStale = selectBool (rp_DismissStale p) (rp_DismissStale c),
           rp_RequireOwners = selectBool (rp_RequireOwners p) (rp_RequireOwners c),
           rp_Approvals = selectInt (rp_Approvals p) (rp_Approvals c)\<rparr>"
  by unfold_locales
     (simp_all add: restrictions.merge_assoc bools.merge_assoc ints.merge_assoc)

lemmas merge_assocs =
  strings.merge_assoc bools.merge_assoc contexts.merge_assoc restrictions.merge_assoc
  reviews.merge_assoc

lemmas merge_nils = bools.nil_child bools.nil_parent

interpretation policies: layering Apply zero_Policy
  by unfold_locales (simp_all add: Apply_def zero_Policy_def merge_assocs merge_nils)

subsection \<open>The levels of a branch\<close>

text \<open>The policies configured for a branch, from the global one down.\<close>

definition levels :: "BranchProtection \<Rightarrow> string \<Rightarrow> string \<Rightarrow> string \<Rightarrow> Policy list" where
  "levels bp org repo branch =
     bp_Policy bp #
     (case map_of (bp_Orgs bp) org of
        None \<Rightarrow> []
      | Some o' \<Rightarrow> org_Policy o' #
          (case map_of (org_Repos o') repo of
             None \<Rightarrow> []
           | Some r \<Rightarrow> repo_Policy r #
               (case map_of (repo_Branches r) branch of None \<Rightarrow> [] | Some b \<Rightarrow> [b])))"

definition branch_configured :: "BranchProtection \<Rightarrow> string \<Rightarrow> string \<Rightarrow> string \<Rightarrow> bool" where
  "branch_configured bp org repo branch \<longleftrightarrow>
     (\<exists>o' r b. map_of (bp_Orgs bp) org = Some o' \<and> map_of (org_Repos o') repo = Some r
             \<and> map_of (repo_Branches r) branch = Some b)"

text \<open>The contexts a policy requires.\<close>

definition required_contexts :: "Policy \<Rightarrow> string set" where
  "required_contexts p =
     (case pol_RequiredStatusChecks p of
        None \<Rightarrow> {}
      | Some cp \<Rightarrow> (case cp_Contexts cp of None \<Rightarrow> {} | Some cs \<Rightarrow> set cs))"

lemma required_contexts_Apply:
  "required_contexts (Apply p c) = required_contexts p \<union> required_contexts c"
proof -
  have "set_opt (unionStrings a b) = set_opt a \<union> set_opt b"
    if "set_opt = (\<lambda>x. case x of None \<Rightarrow> {} | Some cs \<Rightarrow> set cs)" for set_opt a b
    using that by (cases a; cases b) simp_all
  then show ?thesis
    by (cases "pol_RequiredStatusChecks p"; cases "pol_RequiredStatusChecks c")
       (simp_all add: required_contexts_def Apply_def)
qed

lemma required_contexts_zero [simp]: "required_contexts zero_Policy = {}"
  by (simp add: required_contexts_def zero_Policy_def)

lemma required_contexts_foldr:
  "required_contexts (foldr Apply ps zero_Policy) = (\<Union>p \<in> set ps. required_contexts p)"
  by (induction ps) (simp_all add: required_contexts_Apply)

lemma GetBranch_levels:
  "GetBranch (GetRepo (GetOrg bp org) repo) branch =
     (let p = foldr Apply (levels bp org repo branch) zero_Policy
      in if branch_configured bp org repo branch \<and> pol_Protect p = None
         then Inl ''defined branch policies must set protect'' else Inr p)"
  by (auto simp: GetBranch_def GetRepo_def GetOrg_def levels_def branch_configured_def Let_def
      policies.assoc policies.neutral_child split: option.splits)

lemma BranchRequirements_eq:
  "BranchRequirements branch jobs =
     (let runs = filter (\<lambda>j. CouldRun j branch) jobs
      in (map ps_Context (filter (\<lambda>j. ContextRequired j \<and> \<not> TriggersConditionally j) runs),
          map ps_Context (filter (\<lambda>j. ContextRequired j \<and> TriggersConditionally j) runs),
          map ps_Context (filter (\<lambda>j. \<not> ContextRequired j) runs)))"
  by (induction jobs) (simp_all add: Let_def)

lemma disable_check_Some:
  "disable_check bp org repo branch policy = Inr (Some p) \<longleftrightarrow>
     p = policy \<and> Policy_defined p \<and>
     (pol_Protect p = Some False \<longrightarrow>
        bp_AllowDisabledPolicies bp \<or> \<not> Policy_defined (p\<lparr>pol_Protect := None\<rparr>))"
  by (auto simp: disable_check_def)

subsection \<open>Properties\<close>


text \<open>
  A protection policy never drops a requirement: it requires every context that a level
  of the configuration requires and every context of a presubmit that runs on the branch
  unconditionally; it disables protection only when there is no such presubmit, and only
  together with no settings at all unless disabled policies are allowed.
\<close>

theorem protection_keeps_requirements:
  assumes "GetBranchProtection bp org repo branch presubmits = Inr (Some p)"
  shows "required_contexts p =
           (\<Union>l \<in> set (levels bp org repo branch). required_contexts l)
           \<union> set (fst (BranchRequirements branch presubmits))
         \<and> (pol_Protect p = Some False \<longrightarrow>
              fst (BranchRequirements branch presubmits) = []
              \<and> (bp_AllowDisabledPolicies bp \<or> \<not> Policy_defined (p\<lparr>pol_Protect := None\<rparr>)))"
proof
  let ?b = "foldr Apply (levels bp org repo branch) zero_Policy"
  have pol: "GetPolicy bp org repo branch ?b presubmits = Inr (Some p)"
    using assms by (auto simp: GetBranchProtection_def GetBranch_levels Let_def
        split: option.splits if_splits)
  show "required_contexts p = (\<Union>l \<in> set (levels bp org repo branch). required_contexts l)
      \<union> set (fst (BranchRequirements branch presubmits))"
    using pol unfolding GetPolicy_def
    by (auto simp: disable_check_Some required_contexts_Apply required_contexts_foldr Let_def
        required_contexts_def [of "_\<lparr>pol_Protect := _\<rparr>"] split: prod.splits if_splits)
  show "pol_Protect p = Some False \<longrightarrow> fst (BranchRequirements branch presubmits) = []
      \<and> (bp_AllowDisabledPolicies bp \<or> \<not> Policy_defined (p\<lparr>pol_Protect := None\<rparr>))"
    using pol unfolding GetPolicy_def
    by (auto simp: disable_check_Some Apply_def selectBool_def Let_def
        split: prod.splits if_splits)
qed

text \<open>A repo with one required presubmit, under an org that requires the context \<open>cla\<close>.\<close>

definition sample_BranchProtection :: BranchProtection where
  "sample_BranchProtection =
     \<lparr>bp_Policy = zero_Policy, bp_ProtectTested = True,
      bp_Orgs = [(''org'', \<lparr>org_Policy = zero_Policy\<lparr>pol_RequiredStatusChecks :=
                     Some \<lparr>cp_Contexts = Some [''cla''], cp_Strict = None\<rparr>\<rparr>, org_Repos = []\<rparr>)],
      bp_AllowDisabledPolicies = False, bp_AllowDisabledJobPolicies = False\<rparr>"

lemma sample_protection:
  "GetBranchProtection sample_BranchProtection ''org'' ''repo'' ''master''
     [sample_Presubmit ''unit'' True False []] =
   Inr (Some (zero_Policy\<lparr>pol_Protect := Some True, pol_RequiredStatusChecks :=
     Some \<lparr>cp_Contexts = Some [''cla'', ''unit''], cp_Strict = None\<rparr>\<rparr>))"
  by (simp add: GetBranchProtection_def sample_BranchProtection_def GetBranch_def GetRepo_def
      GetOrg_def GetPolicy_def disable_check_def Policy_defined_def Apply_def zero_Policy_def
      presubmit_defs sample_job_defs selectBool_def set_list_def Let_def ex_bool_eq)

theorem protection_keeps_requirements_witness:
  "required_contexts (zero_Policy\<lparr>pol_Protect := Some True, pol_RequiredStatusChecks :=
     Some \<lparr>cp_Contexts = Some [''cla'', ''unit''], cp_Strict = None\<rparr>\<rparr>) =
   (\<Union>l \<in> set (levels sample_BranchProtection ''org'' ''repo'' ''master''). required_contexts l)
   \<union> set (fst (BranchRequirements ''master'' [sample_Presubmit ''unit'' True False []]))"
  using protection_keeps_requirements [OF sample_protection] by blast

text \<open>
  \<open>BranchRequirements\<close> partitions the contexts of the presubmits that can run on the
  branch: every occurrence lands in exactly one bucket, those of required jobs that always
  run in the first, those of required conditional jobs in the second, the others in the third.
\<close>

theorem branch_requirements_partition:
  "let runs = filter (\<lambda>j. CouldRun j branch) jobs;
       (required, requiredIfPresent, optional) = BranchRequirements branch jobs
   in mset required + mset requiredIfPresent + mset optional = mset (map ps_Context runs)
      \<and> required = map ps_Context (filter (\<lambda>j. ContextRequired j \<and> \<not> TriggersConditionally j) runs)
      \<and> requiredIfPresent = map ps_Context (filter (\<lambda>j. ContextRequired j \<and> TriggersConditionally j) runs)"
  by (simp add: BranchRequirements_eq Let_def) (induction jobs; simp)

end
