(* ===== verification/Tide_Types.thy ===== *)
theory Tide_Types
  imports ProwJobs
begin

text \<open>
  The data of GitHub that tide works on, \<open>src/tide/tide.go\<close> and \<open>src/github/types.go\<close>: pull
  requests as the GraphQL query returns them, their commits and status contexts.  The nested
  anonymous structs of the source are flattened into the fields of the record.
\<close>

record Context =
  cx_Context :: string
  cx_Description :: string
  cx_State :: string

definition StatusStateSuccess :: string where "StatusStateSuccess = ''SUCCESS''"
definition StatusStateExpected :: string where "StatusStateExpected = ''EXPECTED''"
definition MergeableStateConflicting :: string where "MergeableStateConflicting = ''CONFLICTING''"

record Commit =
  cm_Contexts :: "Context list"
  cm_OID :: string

record PullRequest =
  pr_Number :: int
  pr_Author :: string
  pr_BaseRef_Name :: string
  pr_BaseRef_Prefix :: string
  pr_HeadRefName :: string
  pr_HeadRefOID :: string
  pr_Mergeable :: string
  pr_Repo :: string
  pr_NameWithOwner :: string
  pr_Org :: string
  pr_Commits :: "Commit list"
  pr_Labels :: "string list"
  pr_Milestone :: "string option"
  pr_Body :: string
  pr_Title :: string
  pr_UpdatedAt :: time

text \<open>The merge methods of \<open>src/github/types.go\<close>.\<close>

type_synonym PullRequestMergeType = string

definition MergeMerge :: PullRequestMergeType where "MergeMerge = ''merge''"
definition MergeRebase :: PullRequestMergeType where "MergeRebase = ''rebase''"
definition MergeSquash :: PullRequestMergeType where "MergeSquash = ''squash''"

lemmas merge_methods = MergeMerge_def MergeRebase_def MergeSquash_def

text \<open>A parsed Go template is used for \<open>Execute\<close> on a pull request only.\<close>

type_synonym template = "PullRequest \<Rightarrow> string result"

definition sample_PullRequest :: "string \<Rightarrow> string \<Rightarrow> string \<Rightarrow> int \<Rightarrow> string \<Rightarrow> PullRequest" where
  "sample_PullRequest org repo branch num sha =
     \<lparr>pr_Number = num, pr_Author = ''author'', pr_BaseRef_Name = branch,
      pr_BaseRef_Prefix = ''refs/heads/'', pr_HeadRefName = ''feature'', pr_HeadRefOID = sha,
      pr_Mergeable = ''MERGEABLE'', pr_Repo = repo, pr_NameWithOwner = org @ ''/'' @ repo, pr_Org = org,
      pr_Commits = [], pr_Labels = [], pr_Milestone = None, pr_Body = [], pr_Title = ''title'',
      pr_UpdatedAt = 0\<rparr>"

end
