(* ===== verification/Tide_Config.thy ===== *)
theory Tide_Config
  imports Branch_Protection Tide_Types
begin

text \<open>
  Tide's configuration, \<open>src/config/tide.go\<close>, and the presubmits of a repo,
  \<open>src/config/config.go\<close>: merge methods, batch limits, merge queries and the repos they cover,
  and the policy that says which status contexts a pull request needs.

  \<open>Config\<close> has the fields of the configuration these functions read.  The getter of in-repo
  configuration is a function-valued field of the source and so it is here; the git client
  that is passed through to it is left out.
\<close>

subsection \<open>Data\<close>

record TideContextPolicy =
  tcp_SkipUnknownContexts :: "bool option"
  tcp_RequiredContexts :: "string list"
  tcp_RequiredIfPresentContexts :: "string list"
  tcp_OptionalContexts :: "string list"
  tcp_FromBranchProtection :: "bool option"

record TideRepoContextPolicy =
  trcp_Policy :: TideContextPolicy
  trcp_Branches :: "string \<rightharpoonup> TideContextPolicy"

record TideOrgContextPolicy =
  tocp_Policy :: TideContextPolicy
  tocp_Repos :: "string \<rightharpoonup> TideRepoContextPolicy"

record TideContextPolicyOptions =
  tcpo_Policy :: TideContextPolicy
  tcpo_Orgs :: "string \<rightharpoonup> TideOrgContextPolicy"

record TideMergeCommitTemplate =
  tmct_TitleTemplate :: string
  tmct_BodyTemplate :: string
  tmct_Title :: "template option"
  tmct_Body :: "template option"

record TideQuery =
  tq_Orgs :: "string list"
  tq_Repos :: "string list"
  tq_ExcludedRepos :: "string list"
  tq_ExcludedBranches :: "string list"
  tq_IncludedBranches :: "string list"
  tq_Labels :: "string list"
  tq_MissingLabels :: "string list"
  tq_Milestone :: string
  tq_ReviewApprovedRequired :: bool

record Tide =
  td_SyncPeriod :: "duration option"
  td_StatusUpdatePeriod :: "duration option"
  td_Queries :: "TideQuery list"
  td_MergeType :: "string \<rightharpoonup> PullRequestMergeType"
  td_MergeTemplate :: "string \<rightharpoonup> TideMergeCommitTemplate"
  td_TargetURL :: string
  td_PRStatusBaseURL :: string
  td_BlockerLabel :: string
  td_SquashLabel :: string
  td_RebaseLabel :: string
  td_MergeLabel :: string
  td_MaxGoroutines :: int
  td_ContextOptions :: TideContextPolicyOptions
  td_BatchSizeLimitMap :: "string \<rightharpoonup> int"

record Config =
  cfg_InRepoConfigEnabled :: "string \<rightharpoonup> bool"
  cfg_PresubmitsStatic :: "string \<rightharpoonup> Presubmit list"
  cfg_ProwYAMLGetter :: "string \<Rightarrow> string \<Rightarrow> string list \<Rightarrow> Presubmit list result"
  cfg_BranchProtection :: BranchProtection
  cfg_Tide :: Tide

subsection \<open>Settings per org and repo\<close>

definition full_name :: "string \<Rightarrow> string \<Rightarrow> string" where
  "full_name org repo = org @ ''/'' @ repo"

lemma full_name_inj [key_inj]:
  "CHR ''/'' \<notin> set org \<Longrightarrow> CHR ''/'' \<notin> set org' \<Longrightarrow>
   full_name org repo = full_name org' repo' \<longleftrightarrow> org = org' \<and> repo = repo'"
  by (auto simp: full_name_def dest: append_sep_inj_first)

definition BatchSizeLimit :: "Tide \<Rightarrow> string \<Rightarrow> string \<Rightarrow> int" where
  "BatchSizeLimit t org repo =
     (case td_BatchSizeLimitMap t (full_name org repo) of
        Some limit \<Rightarrow> limit
      | None \<Rightarrow>
          (case td_BatchSizeLimitMap t org of
             Some limit \<Rightarrow> limit
           | None \<Rightarrow> map_get 0 (td_BatchSizeLimitMap t) ''*''))"

definition MergeMethod :: "Tide \<Rightarrow> string \<Rightarrow> string \<Rightarrow> PullRequestMergeType" where
  "MergeMethod t org repo =
     (case td_MergeType t (full_name org repo) of
        None \<Rightarrow> (case td_MergeType t org of Some ov \<Rightarrow> ov | None \<Rightarrow> MergeMerge)
      | Some v \<Rightarrow> v)"

definition zero_MergeCommitTemplate :: TideMergeCommitTemplate where
  "zero_MergeCommitTemplate =
     \<lparr>tmct_TitleTemplate = [], tmct_BodyTemplate = [], tmct_Title = None, tmct_Body = None\<rparr>"

definition MergeCommitTemplate :: "Tide \<Rightarrow> string \<Rightarrow> string \<Rightarrow> TideMergeCommitTemplate" where
  "MergeCommitTemplate t org repo =
     (case td_MergeTemplate t (full_name org repo) of
        None \<Rightarrow> map_get zero_MergeCommitTemplate (td_MergeTemplate t) org
      | Some v \<Rightarrow> v)"

text \<open>A nil pointer in the map of enabled repos is read like a missing key.\<close>

definition InRepoConfigEnabled :: "Config \<Rightarrow> string \<Rightarrow> bool" where
  "InRepoConfigEnabled c identifier =
     (case cfg_InRepoConfigEnabled c identifier of
        Some b \<Rightarrow> b
      | None \<Rightarrow>
          (let parts = split_on (CHR ''/'') identifier;
               org = cfg_InRepoConfigEnabled c (hd parts)
           in if length parts = 2 \<and> org \<noteq> None then the org
              else (case cfg_InRepoConfigEnabled c ''*'' of Some b \<Rightarrow> b | None \<Rightarrow> False)))"

subsection \<open>Queries\<close>

definition Query :: "TideQuery \<Rightarrow> string" where
  "Query tq =
     join '' ''
       ([''is:pr'', ''state:open'']
        @ map (\<lambda>x. ''org:'' @ quote x) (tq_Orgs tq)
        @ map (\<lambda>x. ''repo:'' @ quote x) (tq_Repos tq)
        @ map (\<lambda>x. ''-repo:'' @ quote x) (tq_ExcludedRepos tq)
        @ map (\<lambda>x. ''-base:'' @ quote x) (tq_ExcludedBranches tq)
        @ map (\<lambda>x. ''base:'' @ quote x) (tq_IncludedBranches tq)
        @ map (\<lambda>x. ''label:'' @ quote x) (tq_Labels tq)
        @ map (\<lambda>x. ''-label:'' @ quote x) (tq_MissingLabels tq)
        @ (if tq_Milestone tq \<noteq> [] then [''milestone:'' @ quote (tq_Milestone tq)] else [])
        @ (if tq_ReviewApprovedRequired tq then [''review:approved''] else []))"

text \<open>The loop over the orgs returns at the first org that is the one asked for.\<close>

definition TideQuery_ForRepo :: "TideQuery \<Rightarrow> string \<Rightarrow> string \<Rightarrow> bool" where
  "TideQuery_ForRepo tq org repo =
     (if org \<in> set (tq_Orgs tq) then full_name org repo \<notin> set (tq_ExcludedRepos tq)
      else full_name org repo \<in> set (tq_Repos tq))"

definition reposInOrg :: "string \<Rightarrow> string list \<Rightarrow> string list" where
  "reposInOrg org repos = filter (\<lambda>repo. has_prefix repo (org @ ''/'')) repos"

text \<open>
  The org exceptions are an association list from orgs to the set of repos excluded, each a
  list of which only the set matters.
\<close>

type_synonym org_exceptions = "(string \<times> string list) list"

definition add_org :: "string list \<Rightarrow> string \<Rightarrow> org_exceptions \<Rightarrow> org_exceptions" where
  "add_org excluded org orgs =
     (let applicable = reposInOrg org excluded
      in case map_of orgs org of
           None \<Rightarrow> AList.update org applicable orgs
         | Some excepts \<Rightarrow>
             AList.update org (filter (\<lambda>r. r \<in> set applicable) excepts) orgs)"

definition OrgExceptionsAndRepos :: "TideQuery list \<Rightarrow> org_exceptions \<times> string list" where
  "OrgExceptionsAndRepos tqs =
     (let orgs = fold (\<lambda>tq. fold (add_org (tq_ExcludedRepos tq)) (tq_Orgs tq)) tqs [];
          repos = concat (map tq_Repos tqs)
      in (map (\<lambda>(org, excepts). (org, filter (\<lambda>r. r \<notin> set repos) excepts)) orgs, repos))"

record QueryMap =
  qm_queries :: "TideQuery list"
  qm_cache :: "string \<rightharpoonup> TideQuery list"

definition TideQueries_QueryMap :: "TideQuery list \<Rightarrow> QueryMap" where
  "TideQueries_QueryMap tqs = \<lparr>qm_queries = tqs, qm_cache = Map.empty\<rparr>"

definition QueryMap_ForRepo :: "QueryMap \<Rightarrow> string \<Rightarrow> string \<Rightarrow> TideQuery list \<times> QueryMap" where
  "QueryMap_ForRepo qm org repo =
     (case qm_cache qm (full_name org repo) of
        Some qs \<Rightarrow> (qs, qm)
      | None \<Rightarrow>
          (let res = filter (\<lambda>query. TideQuery_ForRepo query org repo) (qm_queries qm)
           in (res, qm\<lparr>qm_cache := (qm_cache qm)(full_name org repo \<mapsto> res)\<rparr>)))"

text \<open>The closure \<open>duplicates\<close>: elements already seen are counted and listed.\<close>

fun scan_dups :: "string list \<Rightarrow> string list \<Rightarrow> string list \<Rightarrow> string list \<times> string list" where
  "scan_dups seen dups [] = (seen, dups)"
| "scan_dups seen dups (x # xs) =
     (if x \<in> set seen then scan_dups seen (x # dups) xs else scan_dups (x # seen) dups xs)"

definition duplicates :: "string \<Rightarrow> string list \<Rightarrow> error option" where
  "duplicates field xs =
     (let (seen, dups) = scan_dups [] [] xs;
          dupCount = int (length xs) - int (length seen)
      in if dupCount = 0 then None
         else Some (quote field @ '' contains '' @ itoa dupCount @ '' duplicate entries: ''
                    @ join '', '' (set_list dups)))"

definition org_slash_repo :: "string \<Rightarrow> bool" where
  "org_slash_repo s \<longleftrightarrow>
     (let parts = split_on (CHR ''/'') s
      in length parts = 2 \<and> parts ! 0 \<noteq> [] \<and> parts ! 1 \<noteq> [])"

definition check_org :: "nat \<Rightarrow> string \<Rightarrow> error option" where
  "check_org i org =
     (if contains_sub org ''/'' then
        Some (''orgs['' @ itoa (int i) @ '']: '' @ quote org @ '' contains a '' @ [CHR 0x27] @ ''/''
              @ [CHR 0x27] @ '' which is not valid'')
      else if org = [] then Some (''orgs['' @ itoa (int i) @ '']: is an empty string'')
      else None)"

definition check_repo :: "string list \<Rightarrow> nat \<Rightarrow> string \<Rightarrow> error option" where
  "check_repo orgs i repo =
     (let org = hd (split_on (CHR ''/'') repo)
      in if \<not> org_slash_repo repo then
           Some (''repos['' @ itoa (int i) @ '']: '' @ quote repo @ '' is not of the form \"org/repo\"'')
         else if org \<in> set orgs then
           Some (''repos['' @ itoa (int i) @ '']: '' @ quote repo @ '' is already included via org: ''
                 @ quote org)
         else None)"

definition check_excluded_repo :: "string list \<Rightarrow> nat \<Rightarrow> string \<Rightarrow> error option" where
  "check_excluded_repo orgs i repo =
     (let org = hd (split_on (CHR ''/'') repo)
      in if \<not> org_slash_repo repo then
           Some (''excludedRepos['' @ itoa (int i) @ '']: '' @ quote repo
                 @ '' is not of the form \"org/repo\"'')
         else if org \<notin> set orgs then
           Some (''excludedRepos['' @ itoa (int i) @ '']: '' @ quote repo
                 @ '' has no effect because org '' @ quote org @ '' is not included'')
         else None)"

definition TideQuery_Validate :: "TideQuery \<Rightarrow> error option" where
  "TideQuery_Validate tq = first_error
     [check_each check_org 0 (tq_Orgs tq),
      duplicates ''orgs'' (tq_Orgs tq),
      check_each (check_repo (tq_Orgs tq)) 0 (tq_Repos tq),
      duplicates ''repos'' (tq_Repos tq),
      (if tq_Orgs tq = [] \<and> tq_Repos tq = []
       then Some ([CHR 0x27] @ ''orgs'' @ [CHR 0x27] @ '' and '' @ [CHR 0x27] @ ''repos'' @ [CHR 0x27]
                  @ '' cannot both be empty'') else None),
      check_each (check_excluded_repo (tq_Orgs tq)) 0 (tq_ExcludedRepos tq),
      duplicates ''excludedRepos'' (tq_ExcludedRepos tq),
      (let invalids = filter (\<lambda>l. l \<in> set (tq_MissingLabels tq)) (tq_Labels tq)
       in if invalids \<noteq> []
          then Some (''the labels: '' @ quote_list (set_list invalids)
                     @ '' are both required and forbidden'') else None),
      duplicates ''labels'' (tq_Labels tq),
      duplicates ''missingLabels'' (tq_MissingLabels tq),
      (if tq_ExcludedBranches tq \<noteq> [] \<and> tq_IncludedBranches tq \<noteq> []
       then Some (''both '' @ [CHR 0x27] @ ''includedBranches'' @ [CHR 0x27] @ '' and '' @ [CHR 0x27]
                  @ ''excludedBranches'' @ [CHR 0x27] @ '' are specified ('' @ [CHR 0x27]
                  @ ''excludedBranches'' @ [CHR 0x27] @ '' have no effect)'') else None),
      duplicates ''includedBranches'' (tq_IncludedBranches tq),
      duplicates ''excludedBranches'' (tq_ExcludedBranches tq)]"

subsection \<open>Context policies\<close>

definition inter_error :: "string list \<Rightarrow> string list \<Rightarrow> string \<Rightarrow> error option" where
  "inter_error a b msg =
     (let inter = filter (\<lambda>c. c \<in> set b) a
      in if inter \<noteq> [] then Some (''contexts '' @ join '', '' (set_list inter) @ '' are defined as '' @ msg)
         else None)"

definition TideContextPolicy_Validate :: "TideContextPolicy \<Rightarrow> error option" where
  "TideContextPolicy_Validate cp = first_error
     [inter_error (tcp_RequiredContexts cp) (tcp_OptionalContexts cp) ''required and optional'',
      inter_error (tcp_RequiredContexts cp) (tcp_RequiredIfPresentContexts cp)
        ''required and required if present'',
      inter_error (tcp_OptionalContexts cp) (tcp_RequiredIfPresentContexts cp)
        ''optional and required if present'']"

text \<open>\<open>mergeBool\<close> is the closure of the source; an empty \<open>List()\<close> stays nil.\<close>

definition mergeBool :: "bool option \<Rightarrow> bool option \<Rightarrow> bool option" where
  "mergeBool a b = (if b = None then a else b)"

definition mergeTideContextPolicy ::
    "TideContextPolicy \<Rightarrow> TideContextPolicy \<Rightarrow> TideContextPolicy" where
  "mergeTideContextPolicy a b =
     \<lparr>tcp_SkipUnknownContexts = mergeBool (tcp_SkipUnknownContexts a) (tcp_SkipUnknownContexts b),
      tcp_RequiredContexts = set_list (tcp_RequiredContexts a @ tcp_RequiredContexts b),
      tcp_RequiredIfPresentContexts =
        set_list (tcp_RequiredIfPresentContexts a @ tcp_RequiredIfPresentContexts b),
      tcp_OptionalContexts = set_list (tcp_OptionalContexts a @ tcp_OptionalContexts b),
      tcp_FromBranchProtection = mergeBool (tcp_FromBranchProtection a) (tcp_FromBranchProtection b)\<rparr>"

definition parseTideContextPolicyOptions ::
    "string \<Rightarrow> string \<Rightarrow> string \<Rightarrow> TideContextPolicyOptions \<Rightarrow> TideContextPolicy" where
  "parseTideContextPolicyOptions org repo branch options =
     (let option = tcpo_Policy options
      in case tcpo_Orgs options org of
           None \<Rightarrow> option
         | Some o' \<Rightarrow>
             (let option = mergeTideContextPolicy option (tocp_Policy o')
              in case tocp_Repos o' repo of
                   None \<Rightarrow> option
                 | Some r \<Rightarrow>
                     (let option = mergeTideContextPolicy option (trcp_Policy r)
                      in case trcp_Branches r branch of
                           None \<Rightarrow> option
                         | Some b \<Rightarrow> mergeTideContextPolicy option b)))"

subsection \<open>The presubmits of a repo\<close>

text \<open>
  A \<open>RefGetter\<close> is given by what it returns when it is called; the getters are called in
  order and only when in-repo configuration is enabled.
\<close>

type_synonym RefGetter = "string result"

fun get_heads :: "RefGetter list \<Rightarrow> string list result" where
  "get_heads [] = Inr []"
| "get_heads (g # gs) =
     (case g of
        Inl err \<Rightarrow> Inl (''failed to get headRef: '' @ err)
      | Inr headSHA \<Rightarrow>
          (case get_heads gs of Inl err \<Rightarrow> Inl err | Inr shas \<Rightarrow> Inr (headSHA # shas)))"

definition GetPresubmits ::
    "Config \<Rightarrow> string \<Rightarrow> RefGetter \<Rightarrow> RefGetter list \<Rightarrow> Presubmit list result" where
  "GetPresubmits c identifier baseSHAGetter headSHAGetters =
     (if identifier = [] then Inl ''no identifier for repo given''
      else if \<not> InRepoConfigEnabled c identifier
      then Inr (map_get [] (cfg_PresubmitsStatic c) identifier)
      else
        (case baseSHAGetter of
           Inl err \<Rightarrow> Inl (''failed to get baseSHA: '' @ err)
         | Inr baseSHA \<Rightarrow>
             (case get_heads headSHAGetters of
                Inl err \<Rightarrow> Inl err
              | Inr headSHAs \<Rightarrow>
                  (case cfg_ProwYAMLGetter c identifier baseSHA headSHAs of
                     Inl err \<Rightarrow> Inl err
                   | Inr yaml \<Rightarrow> Inr (map_get [] (cfg_PresubmitsStatic c) identifier @ yaml)))))"

subsection \<open>The context policy of a branch\<close>

text \<open>
  The function may return a policy together with an error, so its result is the pair: the
  policy is \<open>None\<close> when the presubmits cannot be had.
\<close>

definition protection_contexts ::
    "Config \<Rightarrow> string \<Rightarrow> string \<Rightarrow> string \<Rightarrow> Presubmit list \<Rightarrow> TideContextPolicy \<Rightarrow> string list" where
  "protection_contexts c org repo branch presubmits options =
     (if tcp_FromBranchProtection options = Some True then
        (case GetBranchProtection (cfg_BranchProtection c) org repo branch presubmits of
           Inr (Some bp) \<Rightarrow>
             if pol_Protect bp = Some True then
               (case pol_RequiredStatusChecks bp of
                  None \<Rightarrow> []
                | Some cp \<Rightarrow> (case cp_Contexts cp of None \<Rightarrow> [] | Some cs \<Rightarrow> cs))
             else []
         | _ \<Rightarrow> [])
      else [])"

definition GetTideContextPolicy ::
    "Config \<Rightarrow> string \<Rightarrow> string \<Rightarrow> string \<Rightarrow> RefGetter \<Rightarrow> string
     \<Rightarrow> TideContextPolicy option \<times> error option" where
  "GetTideContextPolicy c org repo branch baseSHAGetter headSHA =
     (let options = parseTideContextPolicyOptions org repo branch (td_ContextOptions (cfg_Tide c))
      in case GetPresubmits c (full_name org repo) baseSHAGetter [Inr headSHA] of
           Inl err \<Rightarrow> (None, Some (''failed to get presubmits: '' @ err))
         | Inr presubmits \<Rightarrow>
             (let (prowRequired, prowRequiredIfPresent, prowOptional) =
                    BranchRequirements branch presubmits;
                  t = \<lparr>tcp_SkipUnknownContexts = tcp_SkipUnknownContexts options,
                       tcp_RequiredContexts =
                         set_list (tcp_RequiredContexts options @ prowRequired
                           @ protection_contexts c org repo branch presubmits options),
                       tcp_RequiredIfPresentContexts =
                         set_list (tcp_RequiredIfPresentContexts options @ prowRequiredIfPresent),
                       tcp_OptionalContexts = set_list (tcp_OptionalContexts options @ prowOptional),
                       tcp_FromBranchProtection = None\<rparr>
              in (Some t, TideContextPolicy_Validate t)))"

definition IsOptional :: "TideContextPolicy \<Rightarrow> string \<Rightarrow> bool" where
  "IsOptional cp c =
     (if c \<in> set (tcp_OptionalContexts cp) then True
      else if c \<in> set (tcp_RequiredContexts cp) then False
      else if c \<in> set (tcp_RequiredIfPresentContexts cp) then False
      else tcp_SkipUnknownContexts cp = Some True)"

text \<open>The missing contexts come in the order of a range over a set, \<open>iter\<close>.\<close>

definition MissingRequiredContexts ::
    "(string list \<Rightarrow> string list) \<Rightarrow> TideContextPolicy \<Rightarrow> string list \<Rightarrow> string list" where
  "MissingRequiredContexts iter cp contexts =
     (if tcp_RequiredContexts cp = [] then []
      else iter (filter (\<lambda>c. c \<notin> set contexts) (set_list (tcp_RequiredContexts cp))))"

subsection \<open>Lemmas\<close>

interpretation merge_bools: pointer_merge mergeBool "\<lambda>_ b. b"
  by unfold_locales (simp_all add: mergeBool_def)

interpretation context_policies: merging mergeTideContextPolicy
  by unfold_locales (simp add: mergeTideContextPolicy_def merge_bools.merge_assoc)

text \<open>The options configured for a branch, from the global ones down.\<close>

definition option_levels ::
    "string \<Rightarrow> string \<Rightarrow> string \<Rightarrow> TideContextPolicyOptions \<Rightarrow> TideContextPolicy list" where
  "option_levels org repo branch options =
     tcpo_Policy options #
     (case tcpo_Orgs options org of
        None \<Rightarrow> []
      | Some o' \<Rightarrow> tocp_Policy o' #
          (case tocp_Repos o' repo of
             None \<Rightarrow> []
           | Some r \<Rightarrow> trcp_Policy r #
               (case trcp_Branches r branch of None \<Rightarrow> [] | Some b \<Rightarrow> [b])))"

lemma parse_options_levels:
  "parseTideContextPolicyOptions org repo branch options =
     foldl mergeTideContextPolicy (tcpo_Policy options) (tl (option_levels org repo branch options))"
  by (auto simp: parseTideContextPolicyOptions_def option_levels_def Let_def split: option.splits)

lemma merge_policy_sets [simp]:
  "set (tcp_RequiredContexts (mergeTideContextPolicy a b)) =
     set (tcp_RequiredContexts a) \<union> set (tcp_RequiredContexts b)"
  "set (tcp_RequiredIfPresentContexts (mergeTideContextPolicy a b)) =
     set (tcp_RequiredIfPresentContexts a) \<union> set (tcp_RequiredIfPresentContexts b)"
  "set (tcp_OptionalContexts (mergeTideContextPolicy a b)) =
     set (tcp_OptionalContexts a) \<union> set (tcp_OptionalContexts b)"
  by (simp_all add: mergeTideContextPolicy_def)

lemma foldl_policy_required:
  "set (tcp_RequiredContexts (foldl mergeTideContextPolicy a ps)) =
     (\<Union>p \<in> set (a # ps). set (tcp_RequiredContexts p))"
  by (induction ps arbitrary: a) auto

lemma parse_options_required:
  "set (tcp_RequiredContexts (parseTideContextPolicyOptions org repo branch options)) =
     (\<Union>p \<in> set (option_levels org repo branch options). set (tcp_RequiredContexts p))"
  unfolding parse_options_levels foldl_policy_required
  by (simp add: option_levels_def)

lemma inter_error_None [simp]: "inter_error a b msg = None \<longleftrightarrow> set a \<inter> set b = {}"
  by (auto simp: inter_error_def Let_def filter_empty_conv)

lemma policy_valid_iff:
  "TideContextPolicy_Validate cp = None \<longleftrightarrow>
     set (tcp_RequiredContexts cp) \<inter> set (tcp_OptionalContexts cp) = {}
     \<and> set (tcp_RequiredContexts cp) \<inter> set (tcp_RequiredIfPresentContexts cp) = {}
     \<and> set (tcp_OptionalContexts cp) \<inter> set (tcp_RequiredIfPresentContexts cp) = {}"
  by (simp add: TideContextPolicy_Validate_def)

lemma MissingRequiredContexts_set:
  "range_order iter \<Longrightarrow>
   set (MissingRequiredContexts iter cp cs) = set (tcp_RequiredContexts cp) - set cs"
  by (auto simp: MissingRequiredContexts_def)

lemma MissingRequiredContexts_distinct:
  "range_order iter \<Longrightarrow> distinct (MissingRequiredContexts iter cp cs)"
  by (simp add: MissingRequiredContexts_def)

lemma scan_dups_seen:
  "distinct seen \<Longrightarrow> distinct (fst (scan_dups seen dups xs))
     \<and> set (fst (scan_dups seen dups xs)) = set seen \<union> set xs"
  by (induction seen dups xs rule: scan_dups.induct) auto

lemma duplicates_None [simp]: "duplicates field xs = None \<longleftrightarrow> distinct xs"
proof -
  have "distinct (fst (scan_dups [] [] xs)) \<and> set (fst (scan_dups [] [] xs)) = set xs"
    using scan_dups_seen [of "[]"] by simp
  then have "length (fst (scan_dups [] [] xs)) = card (set xs)"
    by (metis distinct_card)
  moreover have "distinct xs \<longleftrightarrow> length xs = card (set xs)"
    by (metis card_distinct distinct_card)
  ultimately show ?thesis
    by (auto simp: duplicates_def Let_def split: prod.splits)
qed

lemma contains_slash: "contains_sub s ''/'' \<longleftrightarrow> CHR ''/'' \<in> set s"
  by (induction s) auto

lemma hd_split_full_name: "CHR ''/'' \<notin> set org \<Longrightarrow> hd (split_on (CHR ''/'') (full_name org repo)) = org"
  by (simp add: full_name_def split_on_append)

text \<open>What a valid query guarantees of orgs and repos.\<close>

lemma valid_query:
  assumes "TideQuery_Validate tq = None"
  shows "org \<in> set (tq_Orgs tq) \<Longrightarrow> CHR ''/'' \<notin> set org \<and> org \<noteq> []"
    and "org \<in> set (tq_Orgs tq) \<Longrightarrow> full_name org repo \<notin> set (tq_Repos tq)"
    and "tq_Orgs tq \<noteq> [] \<or> tq_Repos tq \<noteq> []"
proof -
  have orgs: "check_each check_org 0 (tq_Orgs tq) = None"
    and repos: "check_each (check_repo (tq_Orgs tq)) 0 (tq_Repos tq) = None"
    using assms by (simp_all add: TideQuery_Validate_def)
  have ne: "tq_Orgs tq \<noteq> [] \<or> tq_Repos tq \<noteq> []"
    using assms by (cases "tq_Orgs tq = []"; cases "tq_Repos tq = []") (simp_all add: TideQuery_Validate_def)
  show ok: "CHR ''/'' \<notin> set org \<and> org \<noteq> []" if "org \<in> set (tq_Orgs tq)" for org
    using check_each_NoneD [OF orgs that] by (auto simp: check_org_def contains_slash split: if_splits)
  show "full_name org repo \<notin> set (tq_Repos tq)" if "org \<in> set (tq_Orgs tq)"
    using check_each_NoneD [OF repos, of "full_name org repo"] ok [OF that] that
    by (auto simp: check_repo_def Let_def hd_split_full_name split: if_splits)
  show "tq_Orgs tq \<noteq> [] \<or> tq_Repos tq \<noteq> []"
    by (rule ne)
qed

subsection \<open>Which repos the queries cover\<close>

text \<open>A repo is excluded from an org by every query that names the org.\<close>

definition excluded_from :: "TideQuery list \<Rightarrow> string \<Rightarrow> string \<Rightarrow> bool" where
  "excluded_from tqs org r \<longleftrightarrow>
     (\<forall>tq \<in> set tqs. org \<in> set (tq_Orgs tq) \<longrightarrow> r \<in> set (reposInOrg org (tq_ExcludedRepos tq)))"

lemma map_of_add_org:
  "map_of (add_org excluded o' orgs) org =
     (if org = o' then
        Some (case map_of orgs org of
                None \<Rightarrow> reposInOrg org excluded
              | Some e \<Rightarrow> filter (\<lambda>r. r \<in> set (reposInOrg org excluded)) e)
      else map_of orgs org)"
  by (simp add: add_org_def Let_def update_conv split: option.splits)

lemma fold_add_org:
  "map_of (fold (add_org excluded) os orgs) org = None \<longleftrightarrow>
     map_of orgs org = None \<and> org \<notin> set os"
  "map_of (fold (add_org excluded) os orgs) org = Some e \<Longrightarrow>
     (r \<in> set e \<longleftrightarrow>
        (org \<in> set os \<longrightarrow> r \<in> set (reposInOrg org excluded))
        \<and> (\<forall>e'. map_of orgs org = Some e' \<longrightarrow> r \<in> set e'))"
proof (induction os arbitrary: orgs)
  case (Cons o' os)
  { case 1 then show ?case by (simp add: Cons.IH(1) map_of_add_org) }
  { case 2 then show ?case
      using Cons.IH(2) [of "add_org excluded o' orgs"]
      by (auto simp: map_of_add_org split: option.splits if_splits) }
qed auto

lemma fold_queries:
  "map_of (fold (\<lambda>tq. fold (add_org (tq_ExcludedRepos tq)) (tq_Orgs tq)) tqs orgs) org = None \<longleftrightarrow>
     map_of orgs org = None \<and> (\<forall>tq \<in> set tqs. org \<notin> set (tq_Orgs tq))"
  "map_of (fold (\<lambda>tq. fold (add_org (tq_ExcludedRepos tq)) (tq_Orgs tq)) tqs orgs) org = Some e \<Longrightarrow>
     (r \<in> set e \<longleftrightarrow> excluded_from tqs org r \<and> (\<forall>e'. map_of orgs org = Some e' \<longrightarrow> r \<in> set e'))"
proof (induction tqs arbitrary: orgs)
  case (Cons tq tqs)
  { case 1 then show ?case by (auto simp: Cons.IH(1) fold_add_org) }
  { case 2
    let ?orgs = "fold (add_org (tq_ExcludedRepos tq)) (tq_Orgs tq) orgs"
    have step: "r \<in> set e \<longleftrightarrow> excluded_from tqs org r \<and> (\<forall>e'. map_of ?orgs org = Some e' \<longrightarrow> r \<in> set e')"
      using 2 Cons.IH(2) [of ?orgs] by simp
    show ?case
    proof (cases "map_of ?orgs org")
      case None
      then have "map_of orgs org = None \<and> org \<notin> set (tq_Orgs tq)"
        by (simp add: fold_add_org(1))
      then show ?thesis using step None by (auto simp: excluded_from_def)
    next
      case (Some e')
      then show ?thesis using step fold_add_org(2) [OF Some] by (auto simp: excluded_from_def)
    qed }
qed (auto simp: excluded_from_def)

lemma full_name_in_reposInOrg:
  "full_name org repo \<in> set (reposInOrg org rs) \<longleftrightarrow> full_name org repo \<in> set rs"
  by (auto simp: reposInOrg_def full_name_def has_prefix_iff)

subsection \<open>Properties\<close>

text \<open>
  For valid queries, the orgs with their exceptions and the repos that
  \<open>OrgExceptionsAndRepos\<close> returns are exactly the repos some query applies to, so the search
  built from them neither misses a repo nor adds one.
\<close>

theorem org_exceptions_cover_queries:
  assumes "\<forall>tq \<in> set tqs. TideQuery_Validate tq = None"
    and "OrgExceptionsAndRepos tqs = (orgs, repos)"
  shows "(\<exists>tq \<in> set tqs. TideQuery_ForRepo tq org repo) \<longleftrightarrow>
     full_name org repo \<in> set repos
     \<or> (\<exists>excepts. map_of orgs org = Some excepts \<and> full_name org repo \<notin> set excepts)"
proof -
  let ?full = "full_name org repo"
  let ?m = "fold (\<lambda>tq. fold (add_org (tq_ExcludedRepos tq)) (tq_Orgs tq)) tqs []"
  have repos: "set repos = (\<Union>tq \<in> set tqs. set (tq_Repos tq))"
    and orgs: "map_of orgs org = map_option (filter (\<lambda>r. r \<notin> set repos)) (map_of ?m org)"
    using assms(2) by (auto simp: OrgExceptionsAndRepos_def Let_def map_of_map)
  have applies: "TideQuery_ForRepo tq org repo \<longleftrightarrow>
      ?full \<in> set (tq_Repos tq) \<or> org \<in> set (tq_Orgs tq) \<and> ?full \<notin> set (tq_ExcludedRepos tq)"
    if "tq \<in> set tqs" for tq
    using valid_query(2) assms(1) that by (auto simp: TideQuery_ForRepo_def)
  show ?thesis
  proof (cases "map_of ?m org")
    case None
    then have "\<forall>tq \<in> set tqs. org \<notin> set (tq_Orgs tq)"
      by (simp add: fold_queries(1))
    then show ?thesis using None orgs repos applies by auto
  next
    case (Some e)
    have "?full \<in> set e \<longleftrightarrow> excluded_from tqs org ?full"
      using fold_queries(2) [OF Some] by simp
    then show ?thesis
      using orgs repos applies Some
      by (auto simp: excluded_from_def full_name_in_reposInOrg)
  qed
qed

definition sample_TideQuery :: "string list \<Rightarrow> string list \<Rightarrow> string list \<Rightarrow> TideQuery" where
  "sample_TideQuery orgs repos excluded =
     \<lparr>tq_Orgs = orgs, tq_Repos = repos, tq_ExcludedRepos = excluded, tq_ExcludedBranches = [],
      tq_IncludedBranches = [], tq_Labels = [''lgtm''], tq_MissingLabels = [''hold''],
      tq_Milestone = [], tq_ReviewApprovedRequired = False\<rparr>"

lemma sample_query_valid:
  "TideQuery_Validate (sample_TideQuery [''a''] [''b/x''] [''a/y'']) = None"
  "TideQuery_Validate (sample_TideQuery [] [''a/y''] []) = None"
  by (simp_all add: TideQuery_Validate_def sample_TideQuery_def check_org_def check_repo_def
      check_excluded_repo_def org_slash_repo_def Let_def)

theorem org_exceptions_cover_queries_witness:
  "let tqs = [sample_TideQuery [''a''] [''b/x''] [''a/y''], sample_TideQuery [] [''a/y''] []]
   in OrgExceptionsAndRepos tqs = ([(''a'', [])], [''b/x'', ''a/y''])
      \<and> (\<exists>tq \<in> set tqs. TideQuery_ForRepo tq ''a'' ''y'')"
proof -
  let ?tqs = "[sample_TideQuery [''a''] [''b/x''] [''a/y''], sample_TideQuery [] [''a/y''] []]"
  have "OrgExceptionsAndRepos ?tqs = ([(''a'', [])], [''b/x'', ''a/y''])"
    by (simp add: OrgExceptionsAndRepos_def sample_TideQuery_def add_org_def reposInOrg_def Let_def)
  then show ?thesis
    using org_exceptions_cover_queries [of ?tqs _ _ "''a''" "''y''"] sample_query_valid
    by (auto simp: full_name_def)
qed

text \<open>
  When \<open>GetTideContextPolicy\<close> succeeds, a context is required exactly when a level of
  the context options lists it, a presubmit that runs unconditionally on the branch reports
  it, or (with from-branch-protection) the protection of the branch requires it; and no
  required context is ever treated as optional.
\<close>

theorem context_policy_required:
  assumes "GetTideContextPolicy c org repo branch baseSHAGetter headSHA = (Some t, None)"
    and "GetPresubmits c (full_name org repo) baseSHAGetter [Inr headSHA] = Inr presubmits"
  shows "set (tcp_RequiredContexts t) =
      (\<Union>p \<in> set (option_levels org repo branch (td_ContextOptions (cfg_Tide c))).
          set (tcp_RequiredContexts p))
      \<union> set (fst (BranchRequirements branch presubmits))
      \<union> set (protection_contexts c org repo branch presubmits
               (parseTideContextPolicyOptions org repo branch (td_ContextOptions (cfg_Tide c))))
    \<and> (\<forall>x \<in> set (tcp_RequiredContexts t). \<not> IsOptional t x)"
proof
  have t: "TideContextPolicy_Validate t = None"
    using assms by (auto simp: GetTideContextPolicy_def Let_def split: prod.splits)
  show "\<forall>x \<in> set (tcp_RequiredContexts t). \<not> IsOptional t x"
    using t unfolding policy_valid_iff by (auto simp: IsOptional_def)
  show "set (tcp_RequiredContexts t) =
      (\<Union>p \<in> set (option_levels org repo branch (td_ContextOptions (cfg_Tide c))).
          set (tcp_RequiredContexts p))
      \<union> set (fst (BranchRequirements branch presubmits))
      \<union> set (protection_contexts c org repo branch presubmits
               (parseTideContextPolicyOptions org repo branch (td_ContextOptions (cfg_Tide c))))"
    using assms
    by (auto simp: GetTideContextPolicy_def Let_def parse_options_required split: prod.splits)
qed

definition zero_TideContextPolicy :: TideContextPolicy where
  "zero_TideContextPolicy =
     \<lparr>tcp_SkipUnknownContexts = None, tcp_RequiredContexts = [], tcp_RequiredIfPresentContexts = [],
      tcp_OptionalContexts = [], tcp_FromBranchProtection = None\<rparr>"

definition sample_Tide :: Tide where
  "sample_Tide =
     \<lparr>td_SyncPeriod = None, td_StatusUpdatePeriod = None,
      td_Queries = [sample_TideQuery [''org''] [] []], td_MergeType = Map.empty,
      td_MergeTemplate = Map.empty, td_TargetURL = [], td_PRStatusBaseURL = [],
      td_BlockerLabel = [], td_SquashLabel = ''squash-me'', td_RebaseLabel = ''rebase-me'',
      td_MergeLabel = [], td_MaxGoroutines = 20,
      td_ContextOptions =
        \<lparr>tcpo_Policy = zero_TideContextPolicy\<lparr>tcp_RequiredContexts := [''cla''],
                                               tcp_FromBranchProtection := Some True\<rparr>,
         tcpo_Orgs = Map.empty\<rparr>,
      td_BatchSizeLimitMap = Map.empty\<rparr>"

definition sample_Config :: "Presubmit list \<Rightarrow> Config" where
  "sample_Config presubmits =
     \<lparr>cfg_InRepoConfigEnabled = Map.empty,
      cfg_PresubmitsStatic = [''org/repo'' \<mapsto> presubmits],
      cfg_ProwYAMLGetter = (\<lambda>_ _ _. Inl ''no such file''),
      cfg_BranchProtection = sample_BranchProtection, cfg_Tide = sample_Tide\<rparr>"

theorem context_policy_required_witness:
  "let c = sample_Config [sample_Presubmit ''unit'' True False [], sample_Presubmit ''lint'' True True []]
   in \<exists>t. GetTideContextPolicy c ''org'' ''repo'' ''master'' (Inr ''base'') ''head'' = (Some t, None)
        \<and> (\<forall>x \<in> set (tcp_RequiredContexts t). \<not> IsOptional t x)"
proof -
  let ?ps = "[sample_Presubmit ''unit'' True False [], sample_Presubmit ''lint'' True True []]"
  let ?c = "sample_Config ?ps"
  have ps: "GetPresubmits ?c (full_name ''org'' ''repo'') (Inr ''base'') [Inr ''head''] = Inr ?ps"
    by (simp add: GetPresubmits_def InRepoConfigEnabled_def sample_Config_def full_name_def Let_def)
  have "\<exists>t. GetTideContextPolicy ?c ''org'' ''repo'' ''master'' (Inr ''base'') ''head'' = (Some t, None)"
    using ps
    by (simp add: GetTideContextPolicy_def Let_def presubmit_defs sample_job_defs policy_valid_iff
        sample_Config_def sample_Tide_def parseTideContextPolicyOptions_def
        zero_TideContextPolicy_def protection_contexts_def GetBranchProtection_def
        sample_BranchProtection_def GetBranch_def GetRepo_def GetOrg_def GetPolicy_def
        disable_check_def Policy_defined_def Apply_def zero_Policy_def selectBool_def
        mergeTideContextPolicy_def mergeBool_def ex_bool_eq)
  then show ?thesis
    using context_policy_required [OF _ ps] by (auto simp: Let_def)
qed

definition lookups :: "(string \<times> string) list \<Rightarrow> QueryMap \<Rightarrow> QueryMap" where
  "lookups calls qm = fold (\<lambda>(org, repo) qm. snd (QueryMap_ForRepo qm org repo)) calls qm"

definition cache_ok :: "TideQuery list \<Rightarrow> QueryMap \<Rightarrow> bool" where
  "cache_ok tqs qm \<longleftrightarrow> qm_queries qm = tqs \<and>
     (\<forall>org repo qs. CHR ''/'' \<notin> set org \<longrightarrow> qm_cache qm (full_name org repo) = Some qs \<longrightarrow>
        qs = filter (\<lambda>q. TideQuery_ForRepo q org repo) tqs)"

lemma cache_ok_step:
  assumes "cache_ok tqs qm" and "CHR ''/'' \<notin> set org"
  shows "cache_ok tqs (snd (QueryMap_ForRepo qm org repo))"
    and "fst (QueryMap_ForRepo qm org repo) = filter (\<lambda>q. TideQuery_ForRepo q org repo) tqs"
  using assms by (auto simp: cache_ok_def QueryMap_ForRepo_def Let_def full_name_inj split: option.splits)

lemma cache_ok_lookups:
  "cache_ok tqs qm \<Longrightarrow> \<forall>(org, repo) \<in> set calls. CHR ''/'' \<notin> set org \<Longrightarrow>
   cache_ok tqs (lookups calls qm)"
  by (induction calls arbitrary: qm) (auto simp: lookups_def cache_ok_step)

text \<open>
  The lazily filled cache of a query map is transparent: as long as org names have no
  slash, after any sequence of lookups \<open>QueryMap.ForRepo\<close> returns the queries that apply to
  the repo, in configuration order.
\<close>
theorem query_cache_transparent:
  assumes "\<forall>(org, repo) \<in> set ((org, repo) # calls). CHR ''/'' \<notin> set org"
  shows "fst (QueryMap_ForRepo (lookups calls (TideQueries_QueryMap tqs)) org repo) =
    filter (\<lambda>q. TideQuery_ForRepo q org repo) tqs"
proof -
  have "cache_ok tqs (TideQueries_QueryMap tqs)"
    by (simp add: cache_ok_def TideQueries_QueryMap_def)
  then show ?thesis
    using assms cache_ok_step(2) cache_ok_lookups by force
qed

theorem query_cache_transparent_witness:
  "fst (QueryMap_ForRepo (lookups [(''a'', ''y''), (''b'', ''x'')]
      (TideQueries_QueryMap [sample_TideQuery [''a''] [''b/x''] [''a/y'']])) ''b'' ''x'') =
    [sample_TideQuery [''a''] [''b/x''] [''a/y'']]"
  using query_cache_transparent
    [of "''b''" "''x''" "[(''a'', ''y''), (''b'', ''x'')]" "[sample_TideQuery [''a''] [''b/x''] [''a/y'']]"]
  by (simp add: TideQuery_ForRepo_def sample_TideQuery_def full_name_def)

end
