(* ===== verification/Tide_Contexts.thy ===== *)
theory Tide_Contexts
  imports Tide_Config
begin

text \<open>
  Status contexts of pull requests in tide, \<open>src/tide/tide.go\<close>: the contexts of the head
  commit, which of them block a merge, whether a pull request is passing, and which pull
  requests stay in a subpool.

  The interface \<open>contextChecker\<close> is a record of its two methods; what tide relies on is the
  locale \<open>context_checker\<close>, which the context policies of the configuration satisfy.
  \<open>GetCombinedStatus\<close> of the GitHub client is the parameter \<open>ghc\<close>.
\<close>

subsection \<open>Data\<close>

record contextChecker =
  cc_IsOptional :: "string \<Rightarrow> bool"
  cc_MissingRequiredContexts :: "string list \<Rightarrow> string list"

record Status =
  gs_State :: string
  gs_Description :: string
  gs_Context :: string

type_synonym combined_status = "string \<Rightarrow> string \<Rightarrow> string \<Rightarrow> Status list result"

text \<open>
  A subpool.  \<open>presubmits\<close> is asked for its length, so it is an association list.  The
  checkers are put in for every pull request of the subpool by \<open>initSubpoolData\<close> and looked up
  for those only, so the map of checkers is a function.
\<close>

record subpool =
  sp_org :: string
  sp_repo :: string
  sp_branch :: string
  sp_sha :: string
  sp_pjs :: "ProwJob list"
  sp_prs :: "PullRequest list"
  sp_cc :: "int \<Rightarrow> contextChecker"
  sp_presubmits :: "(int \<times> Presubmit list) list"

definition presubmits_of :: "(int \<times> Presubmit list) list \<Rightarrow> int \<Rightarrow> Presubmit list" where
  "presubmits_of m n = map_get [] (map_of m) n"

definition statusContext :: string where "statusContext = ''tide''"
definition StatusStatePending :: string where "StatusStatePending = ''PENDING''"

subsection \<open>Contexts of the head commit\<close>

definition newExpectedContext :: "string \<Rightarrow> Context" where
  "newExpectedContext c = \<lparr>cx_Context = c, cx_Description = [], cx_State = StatusStateExpected\<rparr>"

definition contextsToStrings :: "Context list \<Rightarrow> string list" where
  "contextsToStrings contexts = map cx_Context contexts"

text \<open>The contexts, and the pull request with the commit that a query to GitHub adds to it.\<close>

definition headContexts :: "combined_status \<Rightarrow> PullRequest \<Rightarrow> Context list result \<times> PullRequest" where
  "headContexts ghc pr =
     (case find (\<lambda>node. cm_OID node = pr_HeadRefOID pr) (pr_Commits pr) of
        Some node \<Rightarrow> (Inr (cm_Contexts node), pr)
      | None \<Rightarrow>
          (case ghc (pr_Org pr) (pr_Repo pr) (pr_HeadRefOID pr) of
             Inl err \<Rightarrow> (Inl (''failed to get the combined status: '' @ err), pr)
           | Inr statuses \<Rightarrow>
               (let contexts = map (\<lambda>status. \<lparr>cx_Context = gs_Context status,
                        cx_Description = gs_Description status,
                        cx_State = to_upper (gs_State status)\<rparr>) statuses
                in (Inr contexts,
                    pr\<lparr>pr_Commits := pr_Commits pr
                        @ [\<lparr>cm_Contexts = contexts, cm_OID = pr_HeadRefOID pr\<rparr>]\<rparr>))))"

subsection \<open>Passing pull requests\<close>

definition unsuccessfulContexts :: "Context list \<Rightarrow> contextChecker \<Rightarrow> Context list" where
  "unsuccessfulContexts contexts cc =
     filter (\<lambda>ctx. cx_Context ctx \<noteq> statusContext \<and> \<not> cc_IsOptional cc (cx_Context ctx)
                 \<and> cx_State ctx \<noteq> StatusStateSuccess) contexts
     @ map newExpectedContext (cc_MissingRequiredContexts cc (contextsToStrings contexts))"

definition isPassingTests :: "combined_status \<Rightarrow> PullRequest \<Rightarrow> contextChecker \<Rightarrow> bool" where
  "isPassingTests ghc pr cc =
     (case fst (headContexts ghc pr) of
        Inl err \<Rightarrow> False
      | Inr contexts \<Rightarrow> unsuccessfulContexts contexts cc = [])"

text \<open>The loop carries the smallest number so far, \<open>-1\<close> at first, and its pull request.\<close>

fun pick_loop ::
    "combined_status \<Rightarrow> (int \<Rightarrow> contextChecker) \<Rightarrow> PullRequest list \<Rightarrow> int \<Rightarrow> PullRequest option
     \<Rightarrow> int \<times> PullRequest option" where
  "pick_loop ghc cc [] smallestNumber smallestPR = (smallestNumber, smallestPR)"
| "pick_loop ghc cc (pr # prs) smallestNumber smallestPR =
     (if smallestNumber \<noteq> - 1 \<and> pr_Number pr \<ge> smallestNumber then
        pick_loop ghc cc prs smallestNumber smallestPR
      else if pr_Commits pr = [] then pick_loop ghc cc prs smallestNumber smallestPR
      else if \<not> isPassingTests ghc pr (cc (pr_Number pr)) then
        pick_loop ghc cc prs smallestNumber smallestPR
      else pick_loop ghc cc prs (pr_Number pr) (Some pr))"

text \<open>The pull request is \<open>None\<close> where the source returns false and a zero value.\<close>

definition pickSmallestPassingNumber ::
    "combined_status \<Rightarrow> PullRequest list \<Rightarrow> (int \<Rightarrow> contextChecker) \<Rightarrow> PullRequest option" where
  "pickSmallestPassingNumber ghc prs cc =
     (case pick_loop ghc cc prs (- 1) None of
        (smallestNumber, smallestPR) \<Rightarrow> if smallestNumber > - 1 then smallestPR else None)"

subsection \<open>Filtering a subpool\<close>

text \<open>Whether the pull request is filtered out, and the pull request as \<open>headContexts\<close> leaves it.\<close>

definition filterPR :: "combined_status \<Rightarrow> subpool \<Rightarrow> PullRequest \<Rightarrow> bool \<times> PullRequest" where
  "filterPR ghc sp pr =
     (if pr_Mergeable pr = MergeableStateConflicting then (True, pr)
      else
        (case headContexts ghc pr of
           (Inl err, pr') \<Rightarrow> (True, pr')
         | (Inr contexts, pr') \<Rightarrow>
             (let jobs = presubmits_of (sp_presubmits sp) (pr_Number pr);
                  failed = unsuccessfulContexts contexts (sp_cc sp (pr_Number pr))
              in (list_ex (\<lambda>ctx. cx_State ctx \<noteq> StatusStatePending
                     \<or> \<not> list_ex (\<lambda>job. ps_Context job = cx_Context ctx) jobs) failed, pr'))))"

definition filterSubpool :: "combined_status \<Rightarrow> subpool \<Rightarrow> subpool option" where
  "filterSubpool ghc sp =
     (let toKeep = map snd (filter (\<lambda>(out, _). \<not> out) (map (filterPR ghc sp) (sp_prs sp)))
      in if toKeep = [] then None else Some (sp\<lparr>sp_prs := toKeep\<rparr>))"

subsection \<open>What tide relies on of a checker\<close>

locale context_checker =
  fixes checker :: "'p \<Rightarrow> contextChecker" and valid :: "'p \<Rightarrow> bool" and required :: "'p \<Rightarrow> string set"
  assumes missing: "valid p \<Longrightarrow> set (cc_MissingRequiredContexts (checker p) cs) = required p - set cs"
    and not_optional: "valid p \<Longrightarrow> c \<in> required p \<Longrightarrow> \<not> cc_IsOptional (checker p) c"
begin

text \<open>Nothing unsuccessful: every required context is there, and only with success.\<close>

lemma all_successful:
  assumes "valid p" and "unsuccessfulContexts contexts (checker p) = []"
    and "c \<in> required p" and "c \<noteq> statusContext"
  shows "c \<in> cx_Context ` set contexts
    \<and> (\<forall>ctx \<in> set contexts. cx_Context ctx = c \<longrightarrow> cx_State ctx = StatusStateSuccess)"
proof -
  have "required p \<subseteq> set (contextsToStrings contexts)"
    using assms(2) missing [OF assms(1), of "contextsToStrings contexts"]
    by (auto simp: unsuccessfulContexts_def)
  then show ?thesis
    using assms not_optional
    by (fastforce simp: unsuccessfulContexts_def contextsToStrings_def filter_empty_conv)
qed

lemma passing_requires:
  assumes "valid p" and "isPassingTests ghc pr (checker p)" and "c \<in> required p" and "c \<noteq> statusContext"
  shows "\<exists>contexts. fst (headContexts ghc pr) = Inr contexts \<and> c \<in> cx_Context ` set contexts
    \<and> (\<forall>ctx \<in> set contexts. cx_Context ctx = c \<longrightarrow> cx_State ctx = StatusStateSuccess)"
  using assms all_successful by (auto simp: isPassingTests_def split: sum.splits)

end

text \<open>
  The checkers of the configuration: a policy, with the order in which its missing contexts
  are ranged over.
\<close>

definition policy_checker :: "(string list \<Rightarrow> string list) \<times> TideContextPolicy \<Rightarrow> contextChecker" where
  "policy_checker p = \<lparr>cc_IsOptional = IsOptional (snd p),
     cc_MissingRequiredContexts = MissingRequiredContexts (fst p) (snd p)\<rparr>"

interpretation policy: context_checker policy_checker
  "\<lambda>p. range_order (fst p) \<and> TideContextPolicy_Validate (snd p) = None"
  "\<lambda>p. set (tcp_RequiredContexts (snd p))"
  by unfold_locales
     (auto simp: policy_checker_def MissingRequiredContexts_set policy_valid_iff IsOptional_def)

subsection \<open>Lemmas\<close>

lemma headContexts_frame:
  "pr_Number (snd (headContexts ghc pr)) = pr_Number pr"
  "pr_HeadRefOID (snd (headContexts ghc pr)) = pr_HeadRefOID pr"
  by (auto simp: headContexts_def Let_def split: option.splits sum.splits)

text \<open>The commit added to the pull request makes later look-ups give the same answer.\<close>

lemma find_append_None: "find P xs = None \<Longrightarrow> find P (xs @ ys) = find P ys"
  by (induction xs) auto

lemma headContexts_again:
  assumes "headContexts ghc pr = (Inr contexts, pr')"
  shows "headContexts ghc' pr' = (Inr contexts, pr')"
proof (cases "find (\<lambda>node. cm_OID node = pr_HeadRefOID pr) (pr_Commits pr)")
  case None
  then show ?thesis
    using assms by (auto simp: headContexts_def Let_def find_append_None split: sum.splits)
next
  case (Some node)
  then show ?thesis using assms by (auto simp: headContexts_def)
qed

definition candidate :: "combined_status \<Rightarrow> (int \<Rightarrow> contextChecker) \<Rightarrow> PullRequest \<Rightarrow> bool" where
  "candidate ghc cc pr \<longleftrightarrow> pr_Commits pr \<noteq> [] \<and> isPassingTests ghc pr (cc (pr_Number pr))"

lemma pick_loop_candidate:
  "snd (pick_loop ghc cc prs n best) = Some b \<Longrightarrow>
     best = Some b \<or> b \<in> set prs \<and> candidate ghc cc b"
  by (induction prs arbitrary: n best) (auto simp: candidate_def split: if_splits)

lemma pickSmallest_candidate:
  "pickSmallestPassingNumber ghc prs cc = Some b \<Longrightarrow> b \<in> set prs \<and> candidate ghc cc b"
  using pick_loop_candidate [of ghc cc prs "- 1" None b]
  by (auto simp: pickSmallestPassingNumber_def split: prod.splits if_splits)

lemma pick_loop_min:
  assumes "\<forall>pr \<in> set prs. 0 \<le> pr_Number pr"
    and "case best of None \<Rightarrow> n = - 1 | Some b \<Rightarrow> n = pr_Number b \<and> 0 \<le> n \<and> candidate ghc cc b"
  shows "case pick_loop ghc cc prs n best of
      (m, None) \<Rightarrow> m = - 1 \<and> best = None \<and> (\<forall>pr \<in> set prs. \<not> candidate ghc cc pr)
    | (m, Some b) \<Rightarrow> m = pr_Number b \<and> 0 \<le> m \<and> candidate ghc cc b
        \<and> (Some b = best \<or> b \<in> set prs)
        \<and> (\<forall>pr \<in> set prs. candidate ghc cc pr \<longrightarrow> m \<le> pr_Number pr)
        \<and> (\<forall>b'. best = Some b' \<longrightarrow> m \<le> pr_Number b')"
  using assms
proof (induction prs arbitrary: n best)
  case (Cons pr prs)
  show ?case
  proof (cases "(n \<noteq> - 1 \<and> pr_Number pr \<ge> n) \<or> \<not> candidate ghc cc pr")
    case True
    then have "pick_loop ghc cc (pr # prs) n best = pick_loop ghc cc prs n best"
      by (auto simp: candidate_def)
    moreover have "best \<noteq> None" if "candidate ghc cc pr"
      using that True Cons.prems(2) by (auto split: option.splits)
    ultimately show ?thesis
      using Cons.IH [of n best] Cons.prems True by (fastforce split: prod.splits option.splits)
  next
    case False
    then have "pick_loop ghc cc (pr # prs) n best = pick_loop ghc cc prs (pr_Number pr) (Some pr)"
      by (auto simp: candidate_def)
    then show ?thesis
      using Cons.IH [of "pr_Number pr" "Some pr"] Cons.prems False
      by (fastforce split: prod.splits option.splits)
  qed
qed (auto split: option.splits)

subsection \<open>Properties\<close>

text \<open>
  A pull request passes under a valid context policy only if the statuses of its head
  commit could be had and every required context (tide's own aside) is among them, each of
  its entries with state SUCCESS.
\<close>

theorem passing_needs_required_success:
  assumes "range_order iter" and "TideContextPolicy_Validate cp = None"
    and "isPassingTests ghc pr (policy_checker (iter, cp))"
    and "c \<in> set (tcp_RequiredContexts cp)" and "c \<noteq> statusContext"
  shows "\<exists>contexts. fst (headContexts ghc pr) = Inr contexts \<and> c \<in> cx_Context ` set contexts
    \<and> (\<forall>ctx \<in> set contexts. cx_Context ctx = c \<longrightarrow> cx_State ctx = StatusStateSuccess)"
  using policy.passing_requires [of "(iter, cp)"] assms by simp

definition sample_checker :: contextChecker where
  "sample_checker = policy_checker (\<lambda>xs. xs, zero_TideContextPolicy\<lparr>tcp_RequiredContexts := [''unit'']\<rparr>)"

definition sample_passing_pr :: "int \<Rightarrow> PullRequest" where
  "sample_passing_pr n = (sample_PullRequest ''org'' ''repo'' ''master'' n ''sha'')\<lparr>pr_Commits :=
     [\<lparr>cm_Contexts = [\<lparr>cx_Context = ''unit'', cx_Description = [], cx_State = StatusStateSuccess\<rparr>],
       cm_OID = ''sha''\<rparr>]\<rparr>"

lemma sample_passing: "isPassingTests ghc (sample_passing_pr n) sample_checker"
  by (simp add: isPassingTests_def headContexts_def sample_passing_pr_def sample_PullRequest_def
      unsuccessfulContexts_def sample_checker_def policy_checker_def MissingRequiredContexts_def
      zero_TideContextPolicy_def contextsToStrings_def set_list_def)

theorem passing_needs_required_success_witness:
  "\<exists>contexts. fst (headContexts (\<lambda>_ _ _. Inl ''down'') (sample_passing_pr 7)) = Inr contexts
     \<and> ''unit'' \<in> cx_Context ` set contexts"
  using passing_needs_required_success [of "\<lambda>xs. xs"
      "zero_TideContextPolicy\<lparr>tcp_RequiredContexts := [''unit'']\<rparr>" "\<lambda>_ _ _. Inl ''down''"
      "sample_passing_pr 7" "''unit''"]
    sample_passing [of "\<lambda>_ _ _. Inl ''down''" 7]
  by (auto simp: sample_checker_def policy_valid_iff zero_TideContextPolicy_def statusContext_def)

text \<open>
  \<open>pickSmallestPassingNumber\<close> returns a passing pull request (with a commit) of smallest
  number, and returns none only if there is no passing one.  Pull request numbers are not
  negative, the value \<open>-1\<close> being the mark for no result yet.
\<close>

theorem pick_smallest_passing:
  assumes "\<forall>pr \<in> set prs. 0 \<le> pr_Number pr"
  shows "case pickSmallestPassingNumber ghc prs cc of
      None \<Rightarrow> \<forall>pr \<in> set prs. \<not> candidate ghc cc pr
    | Some best \<Rightarrow> best \<in> set prs \<and> candidate ghc cc best
        \<and> (\<forall>pr \<in> set prs. candidate ghc cc pr \<longrightarrow> pr_Number best \<le> pr_Number pr)"
  using pick_loop_min [OF assms, where best = None and n = "- 1" and ghc = ghc and cc = cc]
  by (auto simp: pickSmallestPassingNumber_def split: prod.splits option.splits)

theorem pick_smallest_passing_witness:
  "\<exists>best. pickSmallestPassingNumber (\<lambda>_ _ _. Inl ''down'')
       [sample_passing_pr 9, sample_passing_pr 4] (\<lambda>_. sample_checker) = Some best
     \<and> pr_Number best \<le> 4"
proof -
  have cand: "candidate ghc (\<lambda>_. sample_checker) (sample_passing_pr n)" for ghc n
    using sample_passing by (simp add: candidate_def) (simp add: sample_passing_pr_def)
  have num: "pr_Number (sample_passing_pr n) = n" for n
    by (simp add: sample_passing_pr_def sample_PullRequest_def)
  show ?thesis
    using pick_smallest_passing [of "[sample_passing_pr 9, sample_passing_pr 4]" "\<lambda>_ _ _. Inl ''down''"
        "\<lambda>_. sample_checker"] cand num
    by (auto split: option.splits)
qed

text \<open>
  A pull request stays in its subpool only if it is not known to conflict, the statuses of
  its head could be had, and whatever is not successful there is a pending context of a
  presubmit that tide can wait for; it stays with the statuses recorded, so that later
  look-ups need not ask GitHub again.
\<close>

theorem filtered_subpool_mergeable:
  assumes "filterSubpool ghc sp = Some sp'" and "pr' \<in> set (sp_prs sp')"
  shows "\<exists>pr contexts. pr \<in> set (sp_prs sp) \<and> pr_Mergeable pr \<noteq> MergeableStateConflicting
    \<and> headContexts ghc pr = (Inr contexts, pr') \<and> headContexts ghc' pr' = (Inr contexts, pr')
    \<and> (\<forall>ctx \<in> set (unsuccessfulContexts contexts (sp_cc sp (pr_Number pr))).
         cx_State ctx = StatusStatePending
         \<and> (\<exists>job \<in> set (presubmits_of (sp_presubmits sp) (pr_Number pr)). ps_Context job = cx_Context ctx))"
proof -
  obtain pr where pr: "pr \<in> set (sp_prs sp)" "filterPR ghc sp pr = (False, pr')"
    using assms by (auto simp: filterSubpool_def Let_def split: if_splits)
  then show ?thesis
    by (intro exI [of _ pr])
       (auto simp: filterPR_def Let_def list_ex_iff headContexts_again split: if_splits sum.splits prod.splits)
qed

definition sample_subpool :: "PullRequest list \<Rightarrow> subpool" where
  "sample_subpool prs =
     \<lparr>sp_org = ''org'', sp_repo = ''repo'', sp_branch = ''master'', sp_sha = ''base'', sp_pjs = [],
      sp_prs = prs, sp_cc = (\<lambda>_. sample_checker),
      sp_presubmits = map (\<lambda>pr. (pr_Number pr, [sample_Presubmit ''unit'' True False []])) prs\<rparr>"

theorem filtered_subpool_mergeable_witness:
  "\<exists>sp'. filterSubpool (\<lambda>_ _ _. Inl ''down'') (sample_subpool [sample_passing_pr 4]) = Some sp'
     \<and> (\<exists>pr contexts. pr \<in> set (sp_prs (sample_subpool [sample_passing_pr 4]))
          \<and> headContexts (\<lambda>_ _ _. Inl ''down'') pr = (Inr contexts, sample_passing_pr 4))"
proof -
  let ?ghc = "(\<lambda>_ _ _. Inl ''down'') :: combined_status"
  let ?sp = "sample_subpool [sample_passing_pr 4]"
  have "filterPR ?ghc ?sp (sample_passing_pr 4) = (False, sample_passing_pr 4)"
    using sample_passing [of ?ghc 4]
    by (simp add: filterPR_def isPassingTests_def headContexts_def sample_passing_pr_def
        sample_PullRequest_def MergeableStateConflicting_def sample_subpool_def)
  then have "filterSubpool ?ghc ?sp = Some (?sp\<lparr>sp_prs := [sample_passing_pr 4]\<rparr>)"
    by (simp add: filterSubpool_def) (simp add: sample_subpool_def)
  then show ?thesis
    using filtered_subpool_mergeable [of ?ghc ?sp _ "sample_passing_pr 4" ?ghc] by fastforce
qed

end
