(* ===== verification/Tide_Changes.thy ===== *)
theory Tide_Changes
  imports Tide_Contexts
begin

text \<open>
  Which presubmits a pull request or a batch needs, \<open>src/tide/tide.go\<close>: the agent that caches
  the files changed by pull requests, and the selection of the required presubmits by pull
  request and for a batch.

  The agent's two providers keep the contract \<open>changed_files\<close> of the job configuration, so
  the selection is decided by the files GitHub reports, whatever the caches hold.
  \<open>GetPullRequestChanges\<close> (the file names) is the parameter \<open>client\<close>; it answers the same
  for the same head during a sync.
\<close>

subsection \<open>The agent\<close>

type_synonym changeCacheKey = "string \<times> string \<times> int \<times> string"
type_synonym changes_client = "string \<Rightarrow> string \<Rightarrow> int \<Rightarrow> string list result"

record changedFilesAgent =
  cfa_changeCache :: "changeCacheKey \<rightharpoonup> string list"
  cfa_nextChangeCache :: "changeCacheKey \<rightharpoonup> string list"

definition change_key :: "PullRequest \<Rightarrow> changeCacheKey" where
  "change_key pr = (pr_Org pr, pr_Repo pr, pr_Number pr, pr_HeadRefOID pr)"

definition prChanges :: "changes_client \<Rightarrow> PullRequest \<Rightarrow> changedFilesAgent ChangedFilesProvider" where
  "prChanges client pr c =
     (let cacheKey = change_key pr
      in case cfa_changeCache c cacheKey of
           Some changedFiles \<Rightarrow>
             (Inr changedFiles,
              c\<lparr>cfa_nextChangeCache := (cfa_nextChangeCache c)(cacheKey \<mapsto> changedFiles)\<rparr>)
         | None \<Rightarrow>
             (case cfa_nextChangeCache c cacheKey of
                Some changedFiles \<Rightarrow> (Inr changedFiles, c)
              | None \<Rightarrow>
                  (case client (pr_Org pr) (pr_Repo pr) (pr_Number pr) of
                     Inl err \<Rightarrow>
                       (Inl (''error getting PR changes for #'' @ itoa (pr_Number pr) @ '': '' @ err), c)
                   | Inr changedFiles \<Rightarrow>
                       (Inr changedFiles,
                        c\<lparr>cfa_nextChangeCache := (cfa_nextChangeCache c)(cacheKey \<mapsto> changedFiles)\<rparr>))))"

fun batch_loop ::
    "changes_client \<Rightarrow> PullRequest list \<Rightarrow> string list \<Rightarrow> changedFilesAgent ChangedFilesProvider" where
  "batch_loop client [] result c = (Inr (set_list result), c)"
| "batch_loop client (pr # prs) result c =
     (case prChanges client pr c of
        (Inl err, c') \<Rightarrow> (Inl err, c')
      | (Inr changes, c') \<Rightarrow> batch_loop client prs (result @ changes) c')"

definition batchChanges ::
    "changes_client \<Rightarrow> PullRequest list \<Rightarrow> changedFilesAgent ChangedFilesProvider" where
  "batchChanges client prs c = batch_loop client prs [] c"

definition prune :: "changedFilesAgent \<Rightarrow> changedFilesAgent" where
  "prune c = c\<lparr>cfa_changeCache := cfa_nextChangeCache c, cfa_nextChangeCache := Map.empty\<rparr>"

subsection \<open>The agent keeps the contract of a provider\<close>

definition agent_inv :: "changes_client \<Rightarrow> changedFilesAgent \<Rightarrow> bool" where
  "agent_inv client c \<longleftrightarrow>
     (\<forall>org repo num sha files.
        cfa_changeCache c (org, repo, num, sha) = Some files
        \<or> cfa_nextChangeCache c (org, repo, num, sha) = Some files \<longrightarrow> client org repo num = Inr files)"

definition pr_truth :: "changes_client \<Rightarrow> PullRequest \<Rightarrow> string list result" where
  "pr_truth client pr =
     map_sum (\<lambda>err. ''error getting PR changes for #'' @ itoa (pr_Number pr) @ '': '' @ err) id
       (client (pr_Org pr) (pr_Repo pr) (pr_Number pr))"

fun truths :: "changes_client \<Rightarrow> PullRequest list \<Rightarrow> string list \<Rightarrow> string list result" where
  "truths client [] result = Inr (set_list result)"
| "truths client (pr # prs) result =
     (case pr_truth client pr of
        Inl err \<Rightarrow> Inl err | Inr changes \<Rightarrow> truths client prs (result @ changes))"

interpretation agent: changed_files "prChanges client pr" "agent_inv client" "pr_truth client pr"
  for client pr
proof unfold_locales
  fix c assume inv: "agent_inv client c"
  show "fst (prChanges client pr c) = pr_truth client pr"
    using inv unfolding agent_inv_def
    by (auto simp: prChanges_def Let_def change_key_def pr_truth_def split: option.splits sum.splits)
  show "agent_inv client (snd (prChanges client pr c))"
    using inv unfolding agent_inv_def
    by (auto simp: prChanges_def Let_def change_key_def split: option.splits sum.splits)
qed

lemma batch_loop_truth:
  "agent_inv client c \<Longrightarrow>
   fst (batch_loop client prs result c) = truths client prs result
   \<and> agent_inv client (snd (batch_loop client prs result c))"
proof (induction prs arbitrary: result c)
  case (Cons pr prs)
  obtain r c' where run: "prChanges client pr c = (r, c')" by fastforce
  then have "r = pr_truth client pr" "agent_inv client c'"
    using agent.answers [OF Cons.prems] agent.keeps [OF Cons.prems] by (metis fst_conv snd_conv)+
  then show ?case
    using Cons.IH [of c'] run by (auto split: sum.splits)
qed simp

interpretation batch: changed_files "batchChanges client prs" "agent_inv client" "truths client prs []"
  for client prs
  by unfold_locales (simp_all add: batchChanges_def batch_loop_truth)

lemma agent_inv_prune: "agent_inv client c \<Longrightarrow> agent_inv client (prune c)"
  by (simp add: agent_inv_def prune_def)

subsection \<open>Selecting presubmits\<close>

text \<open>
  The loop that both selections share: the presubmits whose context is required and that
  should run, the provider's state threaded through; it stops at the first error.
\<close>

fun select_presubmits ::
    "string \<Rightarrow> 's ChangedFilesProvider \<Rightarrow> Presubmit list \<Rightarrow> 's \<Rightarrow> Presubmit list result \<times> 's" where
  "select_presubmits branch changes [] s = (Inr [], s)"
| "select_presubmits branch changes (ps # pss) s =
     (if \<not> ContextRequired ps then select_presubmits branch changes pss s
      else
        (case ShouldRun ps branch changes False False s of
           (Inl err, s') \<Rightarrow> (Inl err, s')
         | (Inr shouldRun, s') \<Rightarrow>
             (case select_presubmits branch changes pss s' of
                (Inl err, s'') \<Rightarrow> (Inl err, s'')
              | (Inr rest, s'') \<Rightarrow> (Inr (if shouldRun then ps # rest else rest), s''))))"

definition refGetterFactory :: "string \<Rightarrow> RefGetter" where
  "refGetterFactory ref = Inr ref"

text \<open>\<open>record\<close>: append to the entry of the number, creating it; nothing when nothing is added.\<close>

definition record_jobs ::
    "int \<Rightarrow> Presubmit list \<Rightarrow> (int \<times> Presubmit list) list \<Rightarrow> (int \<times> Presubmit list) list" where
  "record_jobs num jobs m =
     (if jobs = [] then m else AList.update num (presubmits_of m num @ jobs) m)"

fun presubmits_loop ::
    "Config \<Rightarrow> changes_client \<Rightarrow> subpool \<Rightarrow> PullRequest list \<Rightarrow> (int \<times> Presubmit list) list
     \<Rightarrow> changedFilesAgent \<Rightarrow> (int \<times> Presubmit list) list result \<times> changedFilesAgent" where
  "presubmits_loop cfg client sp [] m c = (Inr m, c)"
| "presubmits_loop cfg client sp (pr # prs) m c =
     (case GetPresubmits cfg (full_name (sp_org sp) (sp_repo sp)) (refGetterFactory (sp_sha sp))
             [refGetterFactory (pr_HeadRefOID pr)] of
        Inl err \<Rightarrow> (Inl (''failed to get presubmits for PR '' @ itoa (pr_Number pr) @ '': '' @ err), c)
      | Inr presubmitsForPull \<Rightarrow>
          (case select_presubmits (sp_branch sp) (prChanges client pr) presubmitsForPull c of
             (Inl err, c') \<Rightarrow> (Inl err, c')
           | (Inr jobs, c') \<Rightarrow>
               presubmits_loop cfg client sp prs (record_jobs (pr_Number pr) jobs m) c'))"

definition presubmitsByPull ::
    "Config \<Rightarrow> changes_client \<Rightarrow> subpool \<Rightarrow> changedFilesAgent
     \<Rightarrow> (int \<times> Presubmit list) list result \<times> changedFilesAgent" where
  "presubmitsByPull cfg client sp c = presubmits_loop cfg client sp (sp_prs sp) [] c"

definition presubmitsForBatch ::
    "Config \<Rightarrow> changes_client \<Rightarrow> PullRequest list \<Rightarrow> string \<Rightarrow> string \<Rightarrow> string \<Rightarrow> string
     \<Rightarrow> changedFilesAgent \<Rightarrow> Presubmit list result \<times> changedFilesAgent" where
  "presubmitsForBatch cfg client prs org repo baseSHA baseBranch c =
     (case GetPresubmits cfg (full_name org repo) (refGetterFactory baseSHA)
             (map (\<lambda>pr. refGetterFactory (pr_HeadRefOID pr)) prs) of
        Inl err \<Rightarrow> (Inl (''failed to get presubmits for batch: '' @ err), c)
      | Inr presubmits \<Rightarrow> select_presubmits baseBranch (batchChanges client prs) presubmits c)"

subsection \<open>What is selected\<close>

text \<open>The decision on one presubmit, from the changed files alone.\<close>

definition wanted :: "string \<Rightarrow> string list \<Rightarrow> Presubmit \<Rightarrow> bool" where
  "wanted branch files ps \<longleftrightarrow> ContextRequired ps \<and> CouldRun ps branch
     \<and> (ps_AlwaysRun ps
        \<or> cm_RunIfChanged (ps_RegexpChangeMatcher ps) \<noteq> []
          \<and> (\<exists>f \<in> set files. cm_reChanges (ps_RegexpChangeMatcher ps) f))"

context changed_files
begin

lemma select_state: "inv s \<Longrightarrow> inv (snd (select_presubmits branch changes pss s))"
proof (induction pss arbitrary: s)
  case (Cons ps pss)
  obtain r s' where run: "ShouldRun ps branch changes False False s = (r, s')" by fastforce
  then have "inv s'"
    using should_run_state [OF Cons.prems] by (metis snd_conv)
  then show ?case
    using Cons.IH [of s] Cons.IH [of s'] Cons.prems run by (cases r) (auto split: prod.splits sum.splits)
qed simp

lemma select_value:
  assumes "truth = Inr files"
  shows "inv s \<Longrightarrow> fst (select_presubmits branch changes pss s) = Inr (filter (wanted branch files) pss)"
proof (induction pss arbitrary: s)
  case (Cons ps pss)
  obtain r s' where run: "ShouldRun ps branch changes False False s = (r, s')" by fastforce
  then have inv: "inv s'"
    using should_run_state [OF Cons.prems] by (metis snd_conv)
  have "r = Inr (CouldRun ps branch \<and> (ps_AlwaysRun ps \<or> cm_RunIfChanged (ps_RegexpChangeMatcher ps) \<noteq> []
        \<and> (\<exists>f \<in> set files. cm_reChanges (ps_RegexpChangeMatcher ps) f)))"
    using should_run_value [OF Cons.prems, of ps branch False False] run
    by (auto simp: decides_files [OF assms])
  then show ?case
    using Cons.IH [of s] Cons.IH [of s'] Cons.prems inv run
    by (auto simp: wanted_def split: prod.splits sum.splits)
qed simp

end

lemmas agent_select = agent.select_value agent.select_state batch.select_value batch.select_state

subsection \<open>Properties\<close>

text \<open>The presubmits of one pull request, from the configuration and GitHub's answer.\<close>

definition required_for :: "Config \<Rightarrow> changes_client \<Rightarrow> subpool \<Rightarrow> PullRequest \<Rightarrow> Presubmit list" where
  "required_for cfg client sp pr =
     (case GetPresubmits cfg (full_name (sp_org sp) (sp_repo sp)) (Inr (sp_sha sp)) [Inr (pr_HeadRefOID pr)] of
        Inl _ \<Rightarrow> []
      | Inr pss \<Rightarrow>
          (case client (pr_Org pr) (pr_Repo pr) (pr_Number pr) of
             Inl _ \<Rightarrow> [] | Inr files \<Rightarrow> filter (wanted (sp_branch sp) files) pss))"

lemma presubmits_of_record:
  "presubmits_of (record_jobs num jobs m) n = (if n = num then presubmits_of m num @ jobs else presubmits_of m n)"
  by (simp add: record_jobs_def presubmits_of_def update_conv' map_get_upd)

lemma presubmits_loop_value:
  assumes "\<forall>pr \<in> set prs. \<exists>files. client (pr_Org pr) (pr_Repo pr) (pr_Number pr) = Inr files"
    and "\<forall>pr \<in> set prs. \<exists>pss. GetPresubmits cfg (full_name (sp_org sp) (sp_repo sp)) (Inr (sp_sha sp))
           [Inr (pr_HeadRefOID pr)] = Inr pss"
    and "distinct (map pr_Number prs)" and "\<forall>pr \<in> set prs. presubmits_of m (pr_Number pr) = []"
    and "agent_inv client c"
  shows "\<exists>m' c'. presubmits_loop cfg client sp prs m c = (Inr m', c') \<and> agent_inv client c'
    \<and> (\<forall>pr \<in> set prs. presubmits_of m' (pr_Number pr) = required_for cfg client sp pr)
    \<and> (\<forall>n. n \<notin> pr_Number ` set prs \<longrightarrow> presubmits_of m' n = presubmits_of m n)"
  using assms
proof (induction prs arbitrary: m c)
  case (Cons pr prs)
  obtain files pss where files: "client (pr_Org pr) (pr_Repo pr) (pr_Number pr) = Inr files"
    and pss: "GetPresubmits cfg (full_name (sp_org sp) (sp_repo sp)) (Inr (sp_sha sp))
           [Inr (pr_HeadRefOID pr)] = Inr pss"
    using Cons.prems(1,2) by auto
  have "pr_truth client pr = Inr files"
    using files by (simp add: pr_truth_def)
  then obtain c' where sel: "select_presubmits (sp_branch sp) (prChanges client pr) pss c =
        (Inr (required_for cfg client sp pr), c')" "agent_inv client c'"
    using agent.select_value [of client pr files c "sp_branch sp" pss]
      agent.select_state [of client c "sp_branch sp" pr pss] Cons.prems(5) files pss
    by (auto simp: required_for_def prod_eq_iff)
  let ?m = "record_jobs (pr_Number pr) (required_for cfg client sp pr) m"
  have "\<forall>pr \<in> set prs. presubmits_of ?m (pr_Number pr) = []"
    using Cons.prems(3,4) by (auto simp: presubmits_of_record) (metis imageI)
  then obtain m' c'' where "presubmits_loop cfg client sp prs ?m c' = (Inr m', c'')" "agent_inv client c''"
    "\<forall>pr \<in> set prs. presubmits_of m' (pr_Number pr) = required_for cfg client sp pr"
    "\<forall>n. n \<notin> pr_Number ` set prs \<longrightarrow> presubmits_of m' n = presubmits_of ?m n"
    using Cons.IH [of ?m c'] Cons.prems sel(2) by auto
  then show ?case
    using sel pss Cons.prems(3,4) by (auto simp: refGetterFactory_def presubmits_of_record)
qed auto

text \<open>
  When configuration and GitHub answer for every pull request of a subpool,
  \<open>presubmitsByPull\<close> succeeds and gives each the presubmits of its configuration, in order,
  whose context is required, that can run on the branch and that always run or whose pattern
  matches a changed file, whatever valid entries the caches of changed files hold.
\<close>

theorem presubmits_by_pull:
  assumes "\<forall>pr \<in> set (sp_prs sp). \<exists>files. client (pr_Org pr) (pr_Repo pr) (pr_Number pr) = Inr files"
    and "\<forall>pr \<in> set (sp_prs sp). \<exists>pss. GetPresubmits cfg (full_name (sp_org sp) (sp_repo sp)) (Inr (sp_sha sp))
           [Inr (pr_HeadRefOID pr)] = Inr pss"
    and "distinct (map pr_Number (sp_prs sp))" and "agent_inv client c"
  shows "\<exists>m c'. presubmitsByPull cfg client sp c = (Inr m, c') \<and> agent_inv client c'
    \<and> (\<forall>pr \<in> set (sp_prs sp). presubmits_of m (pr_Number pr) = required_for cfg client sp pr)"
  using presubmits_loop_value [OF assms(1-3) _ assms(4), of "[]"]
  by (auto simp: presubmitsByPull_def presubmits_of_def)

definition empty_agent :: changedFilesAgent where
  "empty_agent = \<lparr>cfa_changeCache = Map.empty, cfa_nextChangeCache = Map.empty\<rparr>"

theorem presubmits_by_pull_witness:
  "let cfg = sample_Config [sample_Presubmit ''unit'' True False [], sample_Presubmit ''docs'' False False ''README''];
       sp = sample_subpool [sample_passing_pr 4]
   in \<exists>m c'. presubmitsByPull cfg (\<lambda>_ _ _. Inr [''main.go'']) sp empty_agent = (Inr m, c')
        \<and> map ps_Name (presubmits_of m 4) = [''unit'']"
proof -
  let ?pss = "[sample_Presubmit ''unit'' True False [], sample_Presubmit ''docs'' False False ''README'']"
  let ?sp = "sample_subpool [sample_passing_pr 4]"
  let ?client = "(\<lambda>_ _ _. Inr [''main.go'']) :: changes_client"
  have pss: "GetPresubmits (sample_Config ?pss) (full_name (sp_org ?sp) (sp_repo ?sp)) b hs = Inr ?pss" for b hs
    by (simp add: GetPresubmits_def InRepoConfigEnabled_def sample_Config_def full_name_def
        sample_subpool_def Let_def)
  have pr: "sp_prs ?sp = [sample_passing_pr 4]" "pr_Number (sample_passing_pr 4) = 4"
    by (simp_all add: sample_subpool_def sample_passing_pr_def sample_PullRequest_def)
  have "map ps_Name (required_for (sample_Config ?pss) ?client ?sp (sample_passing_pr 4)) = [''unit'']"
    unfolding required_for_def pss
    by (simp add: wanted_def presubmit_defs sample_job_defs)
  then show ?thesis
    using presubmits_by_pull [of ?sp ?client "sample_Config ?pss" empty_agent] pss pr
    by (auto simp: Let_def agent_inv_def empty_agent_def)
qed

end
