(* ===== verification/Tide_Accumulate.thy ===== *)
theory Tide_Accumulate
  imports Tide_Changes "HOL-Library.Option_ord"
begin

text \<open>
  How tide reads test results, \<open>src/tide/tide.go\<close>: \<open>accumulate\<close> sorts pull requests into
  passing, pending and missing by the best result of each required presubmit, and
  \<open>accumulateBatch\<close> finds batches that passed or are still running.

  The states are linearly ordered (failure, pending, success), and with no result below them
  all: the best result so far is then a maximum, and the order of the jobs does not matter.
  A ProwJob without refs or pulls where the source reads them is a panic, \<open>None\<close>.
\<close>

subsection \<open>Simple states\<close>

datatype simpleState = failureState | pendingState | successState

primrec state_rank :: "simpleState \<Rightarrow> nat" where
  "state_rank failureState = 0" | "state_rank pendingState = 1" | "state_rank successState = 2"

lemma state_rank_inj: "state_rank a = state_rank b \<Longrightarrow> a = b"
  by (cases a; cases b) simp_all

instantiation simpleState :: linorder
begin

definition less_eq_simpleState :: "simpleState \<Rightarrow> simpleState \<Rightarrow> bool" where
  "less_eq_simpleState a b \<longleftrightarrow> state_rank a \<le> state_rank b"

definition less_simpleState :: "simpleState \<Rightarrow> simpleState \<Rightarrow> bool" where
  "less_simpleState a b \<longleftrightarrow> state_rank a < state_rank b"

instance
  by standard (auto simp: less_eq_simpleState_def less_simpleState_def dest: state_rank_inj)

end

lemmas state_order = less_eq_simpleState_def less_simpleState_def

definition toSimpleState :: "ProwJobState \<Rightarrow> simpleState" where
  "toSimpleState s =
     (if s = TriggeredState \<or> s = PendingState then pendingState
      else if s = SuccessState then successState
      else failureState)"

lemma toSimpleState_success [simp]:
  "toSimpleState s = successState \<longleftrightarrow> s = SuccessState"
  "successState = toSimpleState s \<longleftrightarrow> s = SuccessState"
  by (cases s; simp add: toSimpleState_def)+

lemma state_bounds [simp]: "s \<le> successState" "failureState \<le> s" "Some s \<le> Some successState"
  by (cases s; simp add: state_order)+

subsection \<open>accumulate\<close>

text \<open>The results of the presubmits of one pull request, by context.\<close>

fun ps_states ::
    "PullRequest \<Rightarrow> ProwJob list \<Rightarrow> (string \<rightharpoonup> simpleState) \<Rightarrow> (string \<rightharpoonup> simpleState) option" where
  "ps_states pr [] psStates = Some psStates"
| "ps_states pr (pj # pjs) psStates =
     (if pj_Type pj \<noteq> PresubmitJob then ps_states pr pjs psStates
      else
        (case spec_Refs (pj_Spec pj) of
           None \<Rightarrow> None
         | Some refs \<Rightarrow>
             (case refs_Pulls refs of
                [] \<Rightarrow> None
              | pull # _ \<Rightarrow>
                  if pull_Number pull \<noteq> pr_Number pr then ps_states pr pjs psStates
                  else if pull_SHA pull \<noteq> pr_HeadRefOID pr then ps_states pr pjs psStates
                  else
                    (let name = spec_Context (pj_Spec pj);
                         newState = toSimpleState (pj_State pj)
                     in ps_states pr pjs
                          (case psStates name of
                             None \<Rightarrow> psStates(name \<mapsto> newState)
                           | Some oldState \<Rightarrow>
                               if oldState = failureState then psStates(name \<mapsto> newState)
                               else if oldState = pendingState \<and> newState = successState
                               then psStates(name \<mapsto> successState)
                               else psStates)))))"

record accumulated =
  acc_successes :: "PullRequest list"
  acc_pendings :: "PullRequest list"
  acc_missings :: "PullRequest list"
  acc_missingTests :: "(int \<times> Presubmit list) list"

text \<open>The presubmits with no result or a failed one, and whether some result is pending.\<close>

definition missing_presubmits :: "(string \<rightharpoonup> simpleState) \<Rightarrow> Presubmit list \<Rightarrow> Presubmit list" where
  "missing_presubmits psStates pss =
     filter (\<lambda>ps. case psStates (ps_Context ps) of None \<Rightarrow> True | Some s \<Rightarrow> s = failureState) pss"

definition some_pending :: "(string \<rightharpoonup> simpleState) \<Rightarrow> Presubmit list \<Rightarrow> bool" where
  "some_pending psStates pss \<longleftrightarrow> list_ex (\<lambda>ps. psStates (ps_Context ps) = Some pendingState) pss"

fun accumulate_loop ::
    "(int \<times> Presubmit list) list \<Rightarrow> ProwJob list \<Rightarrow> PullRequest list \<Rightarrow> accumulated \<Rightarrow> accumulated option" where
  "accumulate_loop presubmits pjs [] a = Some a"
| "accumulate_loop presubmits pjs (pr # prs) a =
     (case ps_states pr pjs Map.empty of
        None \<Rightarrow> None
      | Some psStates \<Rightarrow>
          (let pss = presubmits_of presubmits (pr_Number pr);
               missingTests = record_jobs (pr_Number pr) (missing_presubmits psStates pss)
                                (acc_missingTests a);
               overallState =
                 (if presubmits_of missingTests (pr_Number pr) \<noteq> [] then failureState
                  else if some_pending psStates pss then pendingState else successState);
               a' = a\<lparr>acc_missingTests := missingTests\<rparr>
           in accumulate_loop presubmits pjs prs
                (case overallState of
                   successState \<Rightarrow> a'\<lparr>acc_successes := acc_successes a @ [pr]\<rparr>
                 | pendingState \<Rightarrow> a'\<lparr>acc_pendings := acc_pendings a @ [pr]\<rparr>
                 | failureState \<Rightarrow> a'\<lparr>acc_missings := acc_missings a @ [pr]\<rparr>)))"

definition accumulate ::
    "(int \<times> Presubmit list) list \<Rightarrow> PullRequest list \<Rightarrow> ProwJob list \<Rightarrow> accumulated option" where
  "accumulate presubmits prs pjs =
     accumulate_loop presubmits pjs prs
       \<lparr>acc_successes = [], acc_pendings = [], acc_missings = [], acc_missingTests = []\<rparr>"

subsection \<open>accumulateBatch\<close>

record accState =
  as_prs :: "PullRequest list"
  as_jobStates :: "string \<rightharpoonup> simpleState"
  as_validPulls :: bool

definition pr_nums :: "PullRequest list \<Rightarrow> (int \<rightharpoonup> PullRequest)" where
  "pr_nums prs = fold (\<lambda>pr m. m(pr_Number pr \<mapsto> pr)) prs Map.empty"

fun validate_pulls :: "(int \<rightharpoonup> PullRequest) \<Rightarrow> Pull list \<Rightarrow> PullRequest list \<times> bool" where
  "validate_pulls prNums [] = ([], True)"
| "validate_pulls prNums (pull # pulls) =
     (case prNums (pull_Number pull) of
        Some pr \<Rightarrow>
          if pr_HeadRefOID pr = pull_SHA pull then
            (let (prs, valid) = validate_pulls prNums pulls in (pr # prs, valid))
          else ([], False)
      | None \<Rightarrow> ([], False))"

definition new_accState :: "(int \<rightharpoonup> PullRequest) \<Rightarrow> Refs \<Rightarrow> accState" where
  "new_accState prNums refs =
     (let (prs, valid) = validate_pulls prNums (refs_Pulls refs)
      in \<lparr>as_prs = prs, as_jobStates = Map.empty, as_validPulls = valid\<rparr>)"

definition best_state ::
    "(string \<rightharpoonup> simpleState) \<Rightarrow> string \<Rightarrow> simpleState \<Rightarrow> (string \<rightharpoonup> simpleState)" where
  "best_state jobStates ctx jobState =
     (case jobStates ctx of
        None \<Rightarrow> jobStates(ctx \<mapsto> jobState)
      | Some s \<Rightarrow>
          if s = failureState \<or> jobState = successState then jobStates(ctx \<mapsto> jobState) else jobStates)"

fun batch_states ::
    "(int \<rightharpoonup> PullRequest) \<Rightarrow> ProwJob list \<Rightarrow> (string \<times> accState) list \<Rightarrow> (string \<times> accState) list option" where
  "batch_states prNums [] states = Some states"
| "batch_states prNums (pj # pjs) states =
     (if pj_Type pj \<noteq> BatchJob then batch_states prNums pjs states
      else
        (case spec_Refs (pj_Spec pj) of
           None \<Rightarrow> None
         | Some refs \<Rightarrow>
             (let ref = Refs_String refs;
                  st = (case map_of states ref of
                          None \<Rightarrow> new_accState prNums refs | Some st \<Rightarrow> st);
                  st' = (if as_validPulls st
                         then st\<lparr>as_jobStates := best_state (as_jobStates st) (spec_Context (pj_Spec pj))
                                   (toSimpleState (pj_State pj))\<rparr>
                         else st)
              in batch_states prNums pjs (AList.update ref st' states))))"

fun batch_overall :: "(string \<rightharpoonup> simpleState) \<Rightarrow> Presubmit list \<Rightarrow> simpleState \<Rightarrow> simpleState" where
  "batch_overall jobStates [] overallState = overallState"
| "batch_overall jobStates (p # ps) overallState =
     (case jobStates (ps_Context p) of
        None \<Rightarrow> failureState
      | Some s \<Rightarrow>
          if s = failureState then failureState
          else if s = pendingState \<and> overallState = successState
          then batch_overall jobStates ps pendingState
          else batch_overall jobStates ps overallState)"

fun pick_batches ::
    "Config \<Rightarrow> changes_client \<Rightarrow> subpool \<Rightarrow> (string \<times> accState) list \<Rightarrow> PullRequest list \<Rightarrow> PullRequest list
     \<Rightarrow> changedFilesAgent \<Rightarrow> (PullRequest list \<times> PullRequest list) \<times> changedFilesAgent" where
  "pick_batches cfg client sp [] successBatch pendingBatch c = ((successBatch, pendingBatch), c)"
| "pick_batches cfg client sp ((ref, state) # states) successBatch pendingBatch c =
     (if \<not> as_validPulls state then pick_batches cfg client sp states successBatch pendingBatch c
      else
        (case presubmitsForBatch cfg client (as_prs state) (sp_org sp) (sp_repo sp) (sp_sha sp)
                (sp_branch sp) c of
           (Inl err, c') \<Rightarrow> pick_batches cfg client sp states successBatch pendingBatch c'
         | (Inr required, c') \<Rightarrow>
             (case batch_overall (as_jobStates state) required successState of
                pendingState \<Rightarrow> pick_batches cfg client sp states successBatch (as_prs state) c'
              | successState \<Rightarrow> pick_batches cfg client sp states (as_prs state) pendingBatch c'
              | failureState \<Rightarrow> pick_batches cfg client sp states successBatch pendingBatch c')))"

text \<open>\<open>iter\<close> is the order in which the batches are ranged over.\<close>

definition accumulateBatch ::
    "((string \<times> accState) list \<Rightarrow> (string \<times> accState) list) \<Rightarrow> Config \<Rightarrow> changes_client \<Rightarrow> subpool
     \<Rightarrow> changedFilesAgent \<Rightarrow> ((PullRequest list \<times> PullRequest list) \<times> changedFilesAgent) option" where
  "accumulateBatch iter cfg client sp c =
     map_option (\<lambda>states. pick_batches cfg client sp (iter states) [] [] c)
       (batch_states (pr_nums (sp_prs sp)) (sp_pjs sp) [])"

subsection \<open>The best result is a maximum\<close>

text \<open>A presubmit job that tested the head of the pull request.\<close>

definition tests_head :: "PullRequest \<Rightarrow> ProwJob \<Rightarrow> bool" where
  "tests_head pr pj \<longleftrightarrow> pj_Type pj = PresubmitJob
     \<and> (\<exists>refs pull pulls. spec_Refs (pj_Spec pj) = Some refs \<and> refs_Pulls refs = pull # pulls
          \<and> pull_Number pull = pr_Number pr \<and> pull_SHA pull = pr_HeadRefOID pr)"

definition results :: "PullRequest \<Rightarrow> ProwJob list \<Rightarrow> string \<Rightarrow> simpleState option set" where
  "results pr pjs ctx =
     {Some (toSimpleState (pj_State pj)) | pj. pj \<in> set pjs \<and> tests_head pr pj
        \<and> spec_Context (pj_Spec pj) = ctx}"

definition best :: "PullRequest \<Rightarrow> ProwJob list \<Rightarrow> string \<Rightarrow> simpleState option" where
  "best pr pjs ctx = Max (insert None (results pr pjs ctx))"

definition refs_ok :: "ProwJob \<Rightarrow> bool" where
  "refs_ok pj \<longleftrightarrow> (pj_Type pj = PresubmitJob \<longrightarrow>
     (\<exists>refs. spec_Refs (pj_Spec pj) = Some refs \<and> refs_Pulls refs \<noteq> []))"

lemma results_Cons:
  "results pr (pj # pjs) ctx =
     (if tests_head pr pj \<and> spec_Context (pj_Spec pj) = ctx
      then insert (Some (toSimpleState (pj_State pj))) (results pr pjs ctx) else results pr pjs ctx)"
  by (auto simp: results_def)

lemma finite_results [simp]: "finite (results pr pjs ctx)"
  by (induction pjs) (auto simp: results_Cons results_def [of pr "[]"])

text \<open>The update of the source is the maximum with no result below every state.\<close>

lemma max_step:
  "(case (old :: simpleState option) of
      None \<Rightarrow> m(name \<mapsto> new)
    | Some s \<Rightarrow> if s = failureState then m(name \<mapsto> new)
        else if s = pendingState \<and> new = successState then m(name \<mapsto> successState) else m)
   = m(name := max (m name) (Some new))" if "m name = old"
  using that
  by (cases old; cases new; cases "the old") (auto simp: max_def state_order fun_eq_iff)

lemma Max_insert_max:
  "finite A \<Longrightarrow> Max (insert (max a b) A) = Max (insert a (insert (b :: 'a :: linorder) A))"
  by (cases "A = {}") (simp_all add: max.assoc max.left_commute)

lemma ps_states_max:
  assumes "\<forall>pj \<in> set pjs. refs_ok pj"
  shows "\<exists>m'. ps_states pr pjs m = Some m'
    \<and> (\<forall>ctx. m' ctx = Max (insert (m ctx) (results pr pjs ctx)))"
  using assms
proof (induction pjs arbitrary: m)
  case Nil
  then show ?case by (simp add: results_def)
next
  case (Cons pj pjs)
  let ?ctx = "spec_Context (pj_Spec pj)" and ?new = "toSimpleState (pj_State pj)"
  show ?case
  proof (cases "tests_head pr pj")
    case True
    define m1 where "m1 = m(?ctx := max (m ?ctx) (Some ?new))"
    have "ps_states pr (pj # pjs) m = ps_states pr pjs m1"
      using True max_step [of m ?ctx "m ?ctx" ?new] by (auto simp: m1_def tests_head_def Let_def)
    moreover obtain m' where "ps_states pr pjs m1 = Some m'"
      and "\<forall>ctx. m' ctx = Max (insert (m1 ctx) (results pr pjs ctx))"
      using Cons.IH [of m1] Cons.prems by auto
    ultimately show ?thesis
      using True by (auto simp: m1_def results_Cons Max_insert_max insert_commute)
  next
    case False
    then have "ps_states pr (pj # pjs) m = ps_states pr pjs m"
      using Cons.prems by (auto simp: tests_head_def refs_ok_def split: list.splits)
    then show ?thesis using Cons False by (simp add: results_Cons)
  qed
qed

lemma ps_states_best:
  assumes "\<forall>pj \<in> set pjs. refs_ok pj"
  shows "ps_states pr pjs Map.empty = Some (best pr pjs)"
  using ps_states_max [OF assms, of pr Map.empty] by (auto simp: best_def fun_eq_iff)

lemma best_success:
  "best pr pjs ctx = Some successState \<longleftrightarrow>
     (\<exists>pj \<in> set pjs. tests_head pr pj \<and> spec_Context (pj_Spec pj) = ctx \<and> pj_State pj = SuccessState)"
proof -
  have "best pr pjs ctx = Some successState \<longleftrightarrow> Some successState \<in> results pr pjs ctx"
    unfolding best_def by (subst Max_eq_iff) (auto simp: results_def)
  then show ?thesis by (auto simp: results_def)
qed

lemma best_missing:
  "(case best pr pjs ctx of None \<Rightarrow> True | Some s \<Rightarrow> s = failureState) \<longleftrightarrow>
     (\<forall>pj \<in> set pjs. tests_head pr pj \<and> spec_Context (pj_Spec pj) = ctx \<longrightarrow>
        toSimpleState (pj_State pj) = failureState)"
proof -
  have "(case b of None \<Rightarrow> True | Some s \<Rightarrow> s = failureState) \<longleftrightarrow> b \<le> Some failureState"
    for b :: "simpleState option"
    by (auto split: option.splits simp: antisym_conv)
  moreover have "best pr pjs ctx \<le> Some failureState \<longleftrightarrow>
      (\<forall>r \<in> results pr pjs ctx. r \<le> Some failureState)"
    by (simp add: best_def)
  ultimately show ?thesis
    by (auto simp: results_def antisym_conv)
qed

subsection \<open>accumulate sorts the pull requests\<close>

definition passes :: "(int \<times> Presubmit list) list \<Rightarrow> ProwJob list \<Rightarrow> PullRequest \<Rightarrow> bool" where
  "passes presubmits pjs pr \<longleftrightarrow>
     (\<forall>ps \<in> set (presubmits_of presubmits (pr_Number pr)). best pr pjs (ps_Context ps) = Some successState)"

definition lacks :: "(int \<times> Presubmit list) list \<Rightarrow> ProwJob list \<Rightarrow> PullRequest \<Rightarrow> Presubmit list" where
  "lacks presubmits pjs pr =
     missing_presubmits (best pr pjs) (presubmits_of presubmits (pr_Number pr))"

lemma not_failed_cases:
  "\<not> (case b of None \<Rightarrow> True | Some s \<Rightarrow> s = failureState) \<longleftrightarrow> b = Some pendingState \<or> b = Some successState"
  by (auto split: option.splits) (metis simpleState.exhaust)

lemma not_lacking_not_pending:
  assumes "lacks presubmits pjs pr = []"
  shows "some_pending (best pr pjs) (presubmits_of presubmits (pr_Number pr)) \<longleftrightarrow> \<not> passes presubmits pjs pr"
proof -
  have "best pr pjs (ps_Context ps) = Some pendingState \<or> best pr pjs (ps_Context ps) = Some successState"
    if "ps \<in> set (presubmits_of presubmits (pr_Number pr))" for ps
    using assms that not_failed_cases
    by (auto simp: lacks_def missing_presubmits_def filter_empty_conv)
  then show ?thesis
    by (fastforce simp: some_pending_def passes_def list_ex_iff)
qed

lemma lacking_not_passes:
  assumes "lacks presubmits pjs pr \<noteq> []" shows "\<not> passes presubmits pjs pr"
proof -
  obtain ps where "ps \<in> set (presubmits_of presubmits (pr_Number pr))"
    "case best pr pjs (ps_Context ps) of None \<Rightarrow> True | Some s \<Rightarrow> s = failureState"
    using assms by (auto simp: lacks_def missing_presubmits_def filter_empty_conv)
  then show ?thesis using not_failed_cases by (auto simp: passes_def)
qed

lemma accumulate_loop_value:
  assumes "\<forall>pj \<in> set pjs. refs_ok pj" and "distinct (map pr_Number prs)"
    and "\<forall>pr \<in> set prs. presubmits_of (acc_missingTests a) (pr_Number pr) = []"
  shows "\<exists>a'. accumulate_loop presubmits pjs prs a = Some a'
    \<and> acc_successes a' = acc_successes a @ filter (passes presubmits pjs) prs
    \<and> acc_missings a' = acc_missings a @ filter (\<lambda>pr. lacks presubmits pjs pr \<noteq> []) prs
    \<and> acc_pendings a' = acc_pendings a
        @ filter (\<lambda>pr. lacks presubmits pjs pr = [] \<and> \<not> passes presubmits pjs pr) prs
    \<and> (\<forall>pr \<in> set prs. presubmits_of (acc_missingTests a') (pr_Number pr) = lacks presubmits pjs pr)
    \<and> (\<forall>n. n \<notin> pr_Number ` set prs \<longrightarrow>
         presubmits_of (acc_missingTests a') n = presubmits_of (acc_missingTests a) n)"
  using assms(2,3)
proof (induction prs arbitrary: a)
  case (Cons pr prs)
  let ?mt = "record_jobs (pr_Number pr) (lacks presubmits pjs pr) (acc_missingTests a)"
  have mt: "presubmits_of ?mt (pr_Number pr) = lacks presubmits pjs pr"
    using Cons.prems by (simp add: presubmits_of_record)
  have rest: "\<forall>pr \<in> set prs. presubmits_of ?mt (pr_Number pr) = []"
    using Cons.prems by (auto simp: presubmits_of_record) (metis imageI)
  let ?a = "a\<lparr>acc_missingTests := ?mt\<rparr>"
  define a1 where "a1 = (if lacks presubmits pjs pr \<noteq> [] then ?a\<lparr>acc_missings := acc_missings a @ [pr]\<rparr>
    else if passes presubmits pjs pr then ?a\<lparr>acc_successes := acc_successes a @ [pr]\<rparr>
    else ?a\<lparr>acc_pendings := acc_pendings a @ [pr]\<rparr>)"
  have step: "accumulate_loop presubmits pjs (pr # prs) a = accumulate_loop presubmits pjs prs a1"
    using ps_states_best [OF assms(1), of pr] mt not_lacking_not_pending [of presubmits pjs pr]
    by (auto simp: a1_def Let_def lacks_def [symmetric])
  have a1: "acc_missingTests a1 = ?mt" by (simp add: a1_def)
  then have "\<forall>pr \<in> set prs. presubmits_of (acc_missingTests a1) (pr_Number pr) = []"
    using rest by simp
  then show ?case
    using Cons.IH [of a1] Cons.prems(1) step a1 mt lacking_not_passes [of presubmits pjs pr]
    by (auto simp: a1_def presubmits_of_record split: if_splits)
qed simp

lemma accumulate_value:
  assumes "\<forall>pj \<in> set pjs. refs_ok pj" and "distinct (map pr_Number prs)"
  shows "\<exists>a. accumulate presubmits prs pjs = Some a
    \<and> acc_successes a = filter (passes presubmits pjs) prs
    \<and> acc_missings a = filter (\<lambda>pr. lacks presubmits pjs pr \<noteq> []) prs
    \<and> acc_pendings a = filter (\<lambda>pr. lacks presubmits pjs pr = [] \<and> \<not> passes presubmits pjs pr) prs
    \<and> (\<forall>pr \<in> set prs. presubmits_of (acc_missingTests a) (pr_Number pr) = lacks presubmits pjs pr)"
  using accumulate_loop_value [OF assms, of "\<lparr>acc_successes = [], acc_pendings = [], acc_missings = [],
      acc_missingTests = []\<rparr>" presubmits]
  by (auto simp: accumulate_def presubmits_of_def)

lemma passes_success:
  "passes presubmits pjs pr \<longleftrightarrow>
     (\<forall>ps \<in> set (presubmits_of presubmits (pr_Number pr)).
        \<exists>pj \<in> set pjs. tests_head pr pj \<and> spec_Context (pj_Spec pj) = ps_Context ps
          \<and> pj_State pj = SuccessState)"
  by (auto simp: passes_def best_success)

subsection \<open>Batches rest on the refs of their jobs\<close>

definition batch_of :: "string \<Rightarrow> ProwJob \<Rightarrow> bool" where
  "batch_of ref pj \<longleftrightarrow> pj_Type pj = BatchJob
     \<and> (\<exists>refs. spec_Refs (pj_Spec pj) = Some refs \<and> Refs_String refs = ref)"

text \<open>The pulls of the refs are these pull requests, at their heads.\<close>

definition pulls_are :: "Refs \<Rightarrow> PullRequest list \<Rightarrow> bool" where
  "pulls_are refs prs \<longleftrightarrow>
     map (\<lambda>p. (pull_Number p, pull_SHA p)) (refs_Pulls refs) = map (\<lambda>pr. (pr_Number pr, pr_HeadRefOID pr)) prs"

definition state_ok :: "PullRequest list \<Rightarrow> ProwJob list \<Rightarrow> string \<Rightarrow> accState \<Rightarrow> bool" where
  "state_ok prs pjs ref st \<longleftrightarrow> as_validPulls st \<longrightarrow>
     (\<exists>pj \<in> set pjs. batch_of ref pj \<and> pulls_are (the (spec_Refs (pj_Spec pj))) (as_prs st))
     \<and> set (as_prs st) \<subseteq> set prs
     \<and> (\<forall>ctx s. as_jobStates st ctx = Some s \<longrightarrow>
          (\<exists>pj \<in> set pjs. batch_of ref pj \<and> spec_Context (pj_Spec pj) = ctx \<and> toSimpleState (pj_State pj) = s))"

lemma fold_pr_nums:
  "fold (\<lambda>pr m. m(pr_Number pr \<mapsto> pr)) prs m n = Some pr \<Longrightarrow>
   (pr \<in> set prs \<and> pr_Number pr = n) \<or> m n = Some pr"
  by (induction prs arbitrary: m) (fastforce split: if_splits)+

lemma pr_nums_Some: "pr_nums prs n = Some pr \<Longrightarrow> pr \<in> set prs \<and> pr_Number pr = n"
  using fold_pr_nums by (fastforce simp: pr_nums_def)

lemma validate_pulls_ok:
  "validate_pulls (pr_nums prs) pulls = (ps, True) \<Longrightarrow>
   map (\<lambda>p. (pull_Number p, pull_SHA p)) pulls = map (\<lambda>pr. (pr_Number pr, pr_HeadRefOID pr)) ps
   \<and> set ps \<subseteq> set prs"
  by (induction pulls arbitrary: ps)
     (auto dest: pr_nums_Some split: option.splits if_splits prod.splits)

lemma best_state_new:
  "best_state m ctx s ctx' = Some s' \<Longrightarrow> m ctx' = Some s' \<or> ctx' = ctx \<and> s' = s"
  by (auto simp: best_state_def split: option.splits if_splits)

lemma state_ok_mono: "state_ok prs pjs ref st \<Longrightarrow> set pjs \<subseteq> set pjs' \<Longrightarrow> state_ok prs pjs' ref st"
  unfolding state_ok_def by (meson subsetD)

lemma batch_states_ok:
  assumes "batch_states (pr_nums prs) pjs states = Some states'"
    and "\<And>ref st. map_of states ref = Some st \<Longrightarrow> state_ok prs all ref st"
    and "set pjs \<subseteq> set all" and "distinct (map fst states)"
  shows "(\<forall>ref st. map_of states' ref = Some st \<longrightarrow> state_ok prs all ref st) \<and> distinct (map fst states')"
  using assms
proof (induction pjs arbitrary: states)
  case (Cons pj pjs)
  show ?case
  proof (cases "pj_Type pj = BatchJob")
    case True
    then obtain refs where refs: "spec_Refs (pj_Spec pj) = Some refs"
      using Cons.prems(1) by (auto split: option.splits)
    let ?ref = "Refs_String refs" and ?ctx = "spec_Context (pj_Spec pj)"
      and ?new = "toSimpleState (pj_State pj)"
    define st where "st = (case map_of states ?ref of None \<Rightarrow> new_accState (pr_nums prs) refs | Some st \<Rightarrow> st)"
    define st' where "st' = (if as_validPulls st
      then st\<lparr>as_jobStates := best_state (as_jobStates st) ?ctx ?new\<rparr> else st)"
    have pj: "pj \<in> set all" "batch_of ?ref pj" "the (spec_Refs (pj_Spec pj)) = refs"
      using Cons.prems(3) True refs by (auto simp: batch_of_def)
    have "state_ok prs all ?ref (new_accState (pr_nums prs) refs)"
      using pj validate_pulls_ok [of prs "refs_Pulls refs"]
      by (auto simp: state_ok_def new_accState_def pulls_are_def split: prod.splits)
    then have "state_ok prs all ?ref st"
      using Cons.prems(2) by (auto simp: st_def split: option.splits)
    then have "state_ok prs all ?ref st'"
      using pj by (fastforce simp: state_ok_def st'_def dest: best_state_new)
    then have upd: "state_ok prs all r s" if "map_of (AList.update ?ref st' states) r = Some s" for r s
      using that Cons.prems(2) by (auto simp: update_conv' split: if_splits)
    have step: "batch_states (pr_nums prs) pjs (AList.update ?ref st' states) = Some states'"
      unfolding st'_def st_def using Cons.prems(1) True refs by (simp add: Let_def split del: if_split)
    show ?thesis
      using Cons.IH [OF step upd] Cons.prems(3,4) by (simp add: distinct_update)
  next
    case False
    then show ?thesis
      using Cons.IH [OF _ Cons.prems(2)] Cons.prems(1,3,4) by simp
  qed
qed simp

lemma batch_overall_success:
  "batch_overall m ps s = successState \<Longrightarrow> s = successState \<and> (\<forall>p \<in> set ps. m (ps_Context p) = Some successState)"
proof (induction ps arbitrary: s)
  case (Cons p ps)
  obtain t where t: "m (ps_Context p) = Some t"
    using Cons.prems by (cases "m (ps_Context p)") auto
  show ?case
  proof (cases t)
    case pendingState
    then show ?thesis
      using Cons.prems Cons.IH [of pendingState] Cons.IH [of s] t
      by (cases "s = successState") auto
  qed (use Cons t in auto)
qed simp

text \<open>A batch among the states, whose required presubmits all have a successful result.\<close>

definition tested_batch ::
    "Config \<Rightarrow> changes_client \<Rightarrow> subpool \<Rightarrow> (string \<times> accState) list \<Rightarrow> PullRequest list \<Rightarrow> bool" where
  "tested_batch cfg client sp states b \<longleftrightarrow>
     (\<exists>ref st required c0 c1. (ref, st) \<in> set states \<and> as_validPulls st \<and> b = as_prs st
        \<and> presubmitsForBatch cfg client b (sp_org sp) (sp_repo sp) (sp_sha sp) (sp_branch sp) c0 = (Inr required, c1)
        \<and> (\<forall>p \<in> set required. as_jobStates st (ps_Context p) = Some successState))"

lemma tested_batch_Cons: "tested_batch cfg client sp states b \<Longrightarrow> tested_batch cfg client sp (x # states) b"
  unfolding tested_batch_def by (metis list.set_intros(2))

lemma pick_batches_success:
  assumes "pick_batches cfg client sp states succ pend c = ((b, p), c')"
  shows "b = succ \<or> tested_batch cfg client sp states b"
  using assms
proof (induction states arbitrary: succ pend c)
  case (Cons rs states)
  obtain ref st where rs: "rs = (ref, st)" by fastforce
  obtain r c1 where r: "presubmitsForBatch cfg client (as_prs st) (sp_org sp) (sp_repo sp) (sp_sha sp)
      (sp_branch sp) c = (r, c1)" by fastforce
  have rest: "b = succ' \<or> tested_batch cfg client sp (rs # states) b"
    if "pick_batches cfg client sp states succ' pend' c2 = ((b, p), c')" for succ' pend' c2
    using Cons.IH [OF that] tested_batch_Cons by blast
  show ?case
  proof (cases "as_validPulls st")
    case False
    then show ?thesis using rest [of succ pend c] Cons.prems rs by simp
  next
    case valid: True
    show ?thesis
    proof (cases r)
      case (Inl err)
      then show ?thesis using rest [of succ pend c1] Cons.prems rs r valid by simp
    next
      case (Inr required)
      show ?thesis
      proof (cases "batch_overall (as_jobStates st) required successState")
        case failureState
        then show ?thesis using rest [of succ pend c1] Cons.prems rs r valid Inr by simp
      next
        case pendingState
        then show ?thesis using rest [of succ "as_prs st" c1] Cons.prems rs r valid Inr by simp
      next
        case successState
        then have "tested_batch cfg client sp (rs # states) (as_prs st)"
          unfolding tested_batch_def using rs r valid Inr batch_overall_success
          by (metis list.set_intros(1))
        then show ?thesis
          using rest [of "as_prs st" pend c1] successState Cons.prems rs r valid Inr by auto
      qed
    qed
  qed
qed simp

text \<open>
  What merging a batch rests on: it was the set of pulls of a batch job at exactly these
  heads, and each presubmit the configuration requires for it has a successful batch job for
  the same refs.
\<close>

definition batch_tested :: "Config \<Rightarrow> changes_client \<Rightarrow> subpool \<Rightarrow> PullRequest list \<Rightarrow> bool" where
  "batch_tested cfg client sp b \<longleftrightarrow>
     (\<exists>ref required c0 c1. set b \<subseteq> set (sp_prs sp)
        \<and> (\<exists>pj \<in> set (sp_pjs sp). batch_of ref pj \<and> pulls_are (the (spec_Refs (pj_Spec pj))) b)
        \<and> presubmitsForBatch cfg client b (sp_org sp) (sp_repo sp) (sp_sha sp) (sp_branch sp) c0 = (Inr required, c1)
        \<and> (\<forall>p \<in> set required. \<exists>pj \<in> set (sp_pjs sp). batch_of ref pj
             \<and> spec_Context (pj_Spec pj) = ps_Context p \<and> pj_State pj = SuccessState))"

lemma accumulateBatch_tested:
  assumes "accumulateBatch iter cfg client sp c = Some ((b, pending), c')"
    and "range_order iter" and "b \<noteq> []"
  shows "batch_tested cfg client sp b"
proof -
  obtain states where states: "batch_states (pr_nums (sp_prs sp)) (sp_pjs sp) [] = Some states"
    and pick: "pick_batches cfg client sp (iter states) [] [] c = ((b, pending), c')"
    using assms(1) by (auto simp: accumulateBatch_def)
  have ok: "state_ok (sp_prs sp) (sp_pjs sp) ref st" if "(ref, st) \<in> set (iter states)" for ref st
    using batch_states_ok [OF states, of "sp_pjs sp"] that assms(2) by auto
  obtain ref st required c0 c1 where st: "(ref, st) \<in> set (iter states)" "as_validPulls st" "b = as_prs st"
    and req: "presubmitsForBatch cfg client b (sp_org sp) (sp_repo sp) (sp_sha sp) (sp_branch sp) c0 = (Inr required, c1)"
    and succ: "\<forall>p \<in> set required. as_jobStates st (ps_Context p) = Some successState"
    using pick_batches_success [OF pick] assms(3) by (auto simp: tested_batch_def)
  have "\<exists>pj \<in> set (sp_pjs sp). batch_of ref pj \<and> spec_Context (pj_Spec pj) = ps_Context p \<and> pj_State pj = SuccessState"
    if "p \<in> set required" for p
    using ok [OF st(1)] st(2) succ that unfolding state_ok_def by fastforce
  then show ?thesis
    using ok [OF st(1)] st(2,3) req unfolding state_ok_def batch_tested_def by blast
qed

subsection \<open>Properties\<close>

text \<open>
  C4: \<open>accumulate\<close> puts every pull request in exactly one bucket: it is passing when each of its
  required presubmits has a successful job that tested its head; missing when some has none
  but failed jobs or no job at all, and those are its missing tests, in order; else pending.
  The jobs may come in any order.
\<close>

theorem accumulate_buckets:
  assumes "\<forall>pj \<in> set pjs. refs_ok pj" and "distinct (map pr_Number prs)"
  shows "\<exists>a. accumulate presubmits prs pjs = Some a
    \<and> mset (acc_successes a) + mset (acc_pendings a) + mset (acc_missings a) = mset prs
    \<and> (\<forall>pr \<in> set prs. pr \<in> set (acc_successes a) \<longleftrightarrow>
         (\<forall>ps \<in> set (presubmits_of presubmits (pr_Number pr)).
            \<exists>pj \<in> set pjs. tests_head pr pj \<and> spec_Context (pj_Spec pj) = ps_Context ps
              \<and> pj_State pj = SuccessState))
    \<and> (\<forall>pr \<in> set prs. presubmits_of (acc_missingTests a) (pr_Number pr) =
         filter (\<lambda>ps. \<forall>pj \<in> set pjs. tests_head pr pj \<and> spec_Context (pj_Spec pj) = ps_Context ps \<longrightarrow>
                   toSimpleState (pj_State pj) = failureState)
           (presubmits_of presubmits (pr_Number pr)))
    \<and> (\<forall>pr \<in> set prs. pr \<in> set (acc_missings a) \<longleftrightarrow> presubmits_of (acc_missingTests a) (pr_Number pr) \<noteq> [])"
proof -
  obtain a where a: "accumulate presubmits prs pjs = Some a"
    "acc_successes a = filter (passes presubmits pjs) prs"
    "acc_missings a = filter (\<lambda>pr. lacks presubmits pjs pr \<noteq> []) prs"
    "acc_pendings a = filter (\<lambda>pr. lacks presubmits pjs pr = [] \<and> \<not> passes presubmits pjs pr) prs"
    "\<forall>pr \<in> set prs. presubmits_of (acc_missingTests a) (pr_Number pr) = lacks presubmits pjs pr"
    using accumulate_value [OF assms] by blast
  have "mset (filter (passes presubmits pjs) xs)
      + mset (filter (\<lambda>pr. lacks presubmits pjs pr = [] \<and> \<not> passes presubmits pjs pr) xs)
      + mset (filter (\<lambda>pr. lacks presubmits pjs pr \<noteq> []) xs) = mset xs" for xs
    using lacking_not_passes by (induction xs) auto
  then show ?thesis
    using a by (auto simp: passes_success lacks_def missing_presubmits_def best_missing)
qed

definition sample_ProwJob :: "ProwJobType \<Rightarrow> string \<Rightarrow> ProwJobState \<Rightarrow> (int \<times> string) list \<Rightarrow> ProwJob" where
  "sample_ProwJob type ctx state pulls =
     \<lparr>pj_APIVersion = [], pj_Kind = [], pj_Name = ctx, pj_Namespace = [], pj_Labels = Map.empty,
      pj_Annotations = Map.empty, pj_CreationTimestamp = 0,
      pj_Spec = \<lparr>spec_Type = type, spec_Agent = KubernetesAgent, spec_Cluster = [], spec_Namespace = [],
        spec_Job = ctx,
        spec_Refs = Some \<lparr>refs_Org = ''org'', refs_Repo = ''repo'', refs_RepoLink = [],
          refs_BaseRef = ''master'', refs_BaseSHA = ''base'', refs_BaseLink = [],
          refs_Pulls = map (\<lambda>(n, sha). \<lparr>pull_Number = n, pull_Author = [], pull_SHA = sha, pull_Title = [],
            pull_Ref = [], pull_Link = [], pull_CommitLink = [], pull_AuthorLink = []\<rparr>) pulls,
          refs_PathAlias = [], refs_WorkDir = False, refs_CloneURI = [], refs_SkipSubmodules = False,
          refs_CloneDepth = 0\<rparr>,
        spec_ExtraRefs = [], spec_Report = True, spec_Context = ctx, spec_RerunCommand = [],
        spec_MaxConcurrency = 0, spec_ErrorOnEviction = False, spec_PodSpec = None,
        spec_JenkinsSpec = None, spec_PipelineRunSpec = None, spec_DecorationConfig = None,
        spec_ReporterConfig = None, spec_RerunAuthConfig = None, spec_Hidden = False\<rparr>,
      pj_Status = \<lparr>st_StartTime = 0, st_PendingTime = None, st_CompletionTime = None, st_State = state,
        st_Description = [], st_URL = [], st_PodName = [], st_BuildID = [], st_JenkinsBuildID = [],
        st_PrevReportStates = Map.empty\<rparr>\<rparr>"

theorem accumulate_buckets_witness:
  "let pr = sample_passing_pr 4; pjs = [sample_ProwJob PresubmitJob ''unit'' FailureState [(4, ''sha'')],
         sample_ProwJob PresubmitJob ''unit'' SuccessState [(4, ''sha'')]];
       presubmits = [(4, [sample_Presubmit ''unit'' True False []])]
   in \<exists>a. accumulate presubmits [pr] pjs = Some a \<and> pr \<in> set (acc_successes a)"
proof -
  let ?pjs = "[sample_ProwJob PresubmitJob ''unit'' FailureState [(4, ''sha'')],
    sample_ProwJob PresubmitJob ''unit'' SuccessState [(4, ''sha'')]]"
  let ?ps = "[(4, [sample_Presubmit ''unit'' True False []])] :: (int \<times> Presubmit list) list"
  have "tests_head (sample_passing_pr 4) (sample_ProwJob PresubmitJob ''unit'' SuccessState [(4, ''sha'')])"
    by (simp add: tests_head_def sample_ProwJob_def sample_passing_pr_def sample_PullRequest_def)
  then have "\<forall>ps \<in> set (presubmits_of ?ps (pr_Number (sample_passing_pr 4))). \<exists>pj \<in> set ?pjs.
      tests_head (sample_passing_pr 4) pj \<and> spec_Context (pj_Spec pj) = ps_Context ps \<and> pj_State pj = SuccessState"
    by (auto simp: presubmits_of_def sample_passing_pr_def sample_PullRequest_def sample_ProwJob_def
        sample_job_defs)
  moreover have "\<forall>pj \<in> set ?pjs. refs_ok pj"
    by (simp add: refs_ok_def sample_ProwJob_def)
  ultimately show ?thesis
    using accumulate_buckets [of ?pjs "[sample_passing_pr 4]" ?ps] by (auto simp: Let_def)
qed



end
