(* ===== verification/Tide_Merge.thy ===== *)
theory Tide_Merge
  imports Tide_Contexts
begin

text \<open>
  Merging pull requests, \<open>src/tide/tide.go\<close> with the errors of \<open>src/github/client.go\<close>.

  The merge call of the GitHub client is an oracle that may depend on all calls made before:
  a function from the list of earlier calls and the present one to an error, if any.  The list
  of calls is threaded through, so what was asked of GitHub, and in which order, is part of
  every result.  Sleeping between calls is left out.
\<close>

subsection \<open>The merge call\<close>

record MergeDetails =
  md_CommitTitle :: string
  md_CommitMessage :: string
  md_SHA :: string
  md_MergeMethod :: string

datatype merge_error =
    ModifiedHeadError string
  | UnmergablePRError string
  | UnmergablePRBaseChangedError string
  | UnauthorizedToPushError string
  | MergeCommitsForbiddenError string
  | RequestError string

text \<open>
  \<open>client.Merge\<close>, from what the request gives: an error (also for an unexpected status), or
  the status, one of 200, 405 and 409, with GitHub's message.
\<close>

definition client_Merge :: "(int \<times> string) result \<Rightarrow> merge_error option" where
  "client_Merge response =
     (case response of
        Inl err \<Rightarrow> Some (RequestError err)
      | Inr (ec, message) \<Rightarrow>
          if ec = 405 then
            if contains_sub message ''Base branch was modified''
            then Some (UnmergablePRBaseChangedError message)
            else if contains_sub message (''You'' @ [CHR 0x27] @ ''re not authorized to push to this branch'')
            then Some (UnauthorizedToPushError message)
            else if contains_sub message ''Merge commits are not allowed on this repository''
            then Some (MergeCommitsForbiddenError message)
            else Some (UnmergablePRError message)
          else if ec = 409 then Some (ModifiedHeadError message)
          else None)"

record merge_call =
  mc_org :: string
  mc_repo :: string
  mc_number :: int
  mc_details :: MergeDetails

type_synonym merger = "merge_call list \<Rightarrow> merge_call \<Rightarrow> merge_error option"

subsection \<open>One pull request\<close>

fun check_labels ::
    "string \<Rightarrow> string \<Rightarrow> string \<Rightarrow> string list \<Rightarrow> nat \<Rightarrow> PullRequestMergeType \<Rightarrow> PullRequestMergeType result" where
  "check_labels squash rebase merge [] labelCount method = Inr method"
| "check_labels squash rebase merge (prlabel # prlabels) labelCount method =
     (let (labelCount, method) =
            (if prlabel = squash then (Suc labelCount, MergeSquash)
             else if prlabel = rebase then (Suc labelCount, MergeRebase)
             else if prlabel = merge then (Suc labelCount, MergeMerge)
             else (labelCount, method))
      in if labelCount > 1 then Inl ''conflicting merge method override labels''
         else check_labels squash rebase merge prlabels labelCount method)"

definition checkMergeLabels ::
    "PullRequest \<Rightarrow> string \<Rightarrow> string \<Rightarrow> string \<Rightarrow> PullRequestMergeType \<Rightarrow> PullRequestMergeType result" where
  "checkMergeLabels pr squash rebase merge method =
     check_labels squash rebase merge (pr_Labels pr) 0 method"

definition execute_or_empty :: "template option \<Rightarrow> PullRequest \<Rightarrow> string" where
  "execute_or_empty t pr =
     (case t of None \<Rightarrow> [] | Some t \<Rightarrow> (case t pr of Inl err \<Rightarrow> [] | Inr s \<Rightarrow> s))"

definition prepareMergeDetails ::
    "TideMergeCommitTemplate \<Rightarrow> PullRequest \<Rightarrow> PullRequestMergeType \<Rightarrow> MergeDetails" where
  "prepareMergeDetails commitTemplates pr mergeMethod =
     \<lparr>md_CommitTitle = execute_or_empty (tmct_Title commitTemplates) pr,
      md_CommitMessage = execute_or_empty (tmct_Body commitTemplates) pr,
      md_SHA = pr_HeadRefOID pr, md_MergeMethod = mergeMethod\<rparr>"

text \<open>The retries that are left, and the last transient error.\<close>

fun try_loop ::
    "nat \<Rightarrow> merger \<Rightarrow> merge_call \<Rightarrow> error option \<Rightarrow> merge_call list
     \<Rightarrow> (bool \<times> error option) \<times> merge_call list" where
  "try_loop 0 merge call err calls = ((True, err), calls)"
| "try_loop (Suc n) merge call err calls =
     (let calls' = calls @ [call]
      in case merge calls call of
           None \<Rightarrow> ((True, None), calls')
         | Some (ModifiedHeadError m) \<Rightarrow> ((True, Some (''PR was modified: '' @ m)), calls')
         | Some (UnmergablePRBaseChangedError m) \<Rightarrow>
             try_loop n merge call (Some (''base branch was modified: '' @ m)) calls'
         | Some (UnauthorizedToPushError m) \<Rightarrow>
             ((False, Some (''branch needs to be configured to allow this robot to push: '' @ m)), calls')
         | Some (MergeCommitsForbiddenError m) \<Rightarrow>
             ((False, Some (''Tide needs to be configured to use the '' @ [CHR 0x27] @ ''rebase'' @ [CHR 0x27]
                @ '' merge method for this repo or the repo needs to allow merge commits: '' @ m)), calls')
         | Some (UnmergablePRError m) \<Rightarrow>
             ((True, Some (''PR is unmergable. Do the Tide merge requirements match the GitHub settings for the repo? ''
                @ m)), calls')
         | Some (RequestError m) \<Rightarrow> ((True, Some m), calls'))"

definition maxRetries :: nat where "maxRetries = 3"

definition tryMerge ::
    "merger \<Rightarrow> merge_call \<Rightarrow> merge_call list \<Rightarrow> (bool \<times> error option) \<times> merge_call list" where
  "tryMerge merge call calls = try_loop maxRetries merge call None calls"

subsection \<open>Several pull requests\<close>

record merge_state =
  mg_merged :: "int list"
  mg_failed :: "int list"
  mg_errs :: "error list"
  mg_calls :: "merge_call list"

definition merge_method_for :: "Tide \<Rightarrow> subpool \<Rightarrow> PullRequest \<Rightarrow> PullRequestMergeType result" where
  "merge_method_for t sp pr =
     (let mergeMethod = MergeMethod t (sp_org sp) (sp_repo sp)
      in if td_SquashLabel t \<noteq> [] \<or> td_RebaseLabel t \<noteq> [] \<or> td_MergeLabel t \<noteq> []
         then checkMergeLabels pr (td_SquashLabel t) (td_RebaseLabel t) (td_MergeLabel t) mergeMethod
         else Inr mergeMethod)"

definition call_for :: "Tide \<Rightarrow> subpool \<Rightarrow> PullRequest \<Rightarrow> PullRequestMergeType \<Rightarrow> merge_call" where
  "call_for t sp pr mergeMethod =
     \<lparr>mc_org = sp_org sp, mc_repo = sp_repo sp, mc_number = pr_Number pr,
      mc_details = prepareMergeDetails (MergeCommitTemplate t (sp_org sp) (sp_repo sp)) pr mergeMethod\<rparr>"

fun merge_loop :: "Tide \<Rightarrow> merger \<Rightarrow> subpool \<Rightarrow> PullRequest list \<Rightarrow> merge_state \<Rightarrow> merge_state" where
  "merge_loop t merge sp [] st = st"
| "merge_loop t merge sp (pr # prs) st =
     (case merge_method_for t sp pr of
        Inl err \<Rightarrow>
          merge_loop t merge sp prs
            (st\<lparr>mg_errs := mg_errs st @ [err], mg_failed := mg_failed st @ [pr_Number pr]\<rparr>)
      | Inr mergeMethod \<Rightarrow>
          (case tryMerge merge (call_for t sp pr mergeMethod) (mg_calls st) of
             ((keepTrying, err), calls') \<Rightarrow>
               (let st' = (case err of
                     Some e \<Rightarrow> st\<lparr>mg_errs := mg_errs st @ [e], mg_failed := mg_failed st @ [pr_Number pr],
                                  mg_calls := calls'\<rparr>
                   | None \<Rightarrow> st\<lparr>mg_merged := mg_merged st @ [pr_Number pr], mg_calls := calls'\<rparr>)
                in if keepTrying then merge_loop t merge sp prs st' else st')))"

definition aggregate_error :: "error list \<Rightarrow> string" where
  "aggregate_error errs = ''['' @ join '', '' errs @ '']''"

definition mergePRs ::
    "Tide \<Rightarrow> merger \<Rightarrow> subpool \<Rightarrow> PullRequest list \<Rightarrow> merge_call list \<Rightarrow> error option \<times> merge_call list" where
  "mergePRs t merge sp prs calls =
     (let st = merge_loop t merge sp prs \<lparr>mg_merged = [], mg_failed = [], mg_errs = [], mg_calls = calls\<rparr>;
          batch = (if length prs > 1
                   then '' from batch '' @ int_list_string (map pr_Number prs)
                        @ (if mg_merged st \<noteq> [] then '', partial merge '' @ int_list_string (mg_merged st) else [])
                   else [])
      in (if mg_errs st = [] then None
          else Some (''failed merging '' @ int_list_string (mg_failed st) @ batch @ '': ''
                     @ aggregate_error (mg_errs st)),
          mg_calls st))"

subsection \<open>What is asked of GitHub\<close>

text \<open>
  A merge is attempted again only after GitHub said that the base was modified, with the
  same call each time.
\<close>

lemma try_loop_calls:
  assumes "try_loop n merge call err calls = ((keep, res), calls')" and "0 < n"
  shows "\<exists>k. 1 \<le> k \<and> k \<le> n \<and> calls' = calls @ replicate k call
    \<and> (\<forall>i < k - 1. \<exists>m. merge (calls @ replicate i call) call = Some (UnmergablePRBaseChangedError m))
    \<and> (res = None \<longleftrightarrow> merge (calls @ replicate (k - 1) call) call = None)
    \<and> (\<not> keep \<longrightarrow> res \<noteq> None)"
  using assms
proof (induction n arbitrary: err calls)
  case (Suc n)
  show ?case
  proof (cases "\<exists>m. merge calls call = Some (UnmergablePRBaseChangedError m) \<and> 0 < n")
    case True
    then obtain m where m: "merge calls call = Some (UnmergablePRBaseChangedError m)" and n: "0 < n" by blast
    then obtain k where k: "1 \<le> k" "k \<le> n" "calls' = (calls @ [call]) @ replicate k call"
      "\<forall>i < k - 1. \<exists>m. merge ((calls @ [call]) @ replicate i call) call = Some (UnmergablePRBaseChangedError m)"
      "res = None \<longleftrightarrow> merge ((calls @ [call]) @ replicate (k - 1) call) call = None" "\<not> keep \<longrightarrow> res \<noteq> None"
      using Suc.IH [of "Some (''base branch was modified: '' @ m)" "calls @ [call]"] Suc.prems by (auto simp: Let_def)
    have "\<exists>m. merge (calls @ replicate i call) call = Some (UnmergablePRBaseChangedError m)" if "i < k" for i
      using m k(1,4) that by (cases i) auto
    moreover obtain j where "k = Suc j" using k(1) by (cases k) auto
    ultimately show ?thesis
      using k by (intro exI [of _ "Suc k"]) auto
  next
    case False
    then show ?thesis
      using Suc.prems by (intro exI [of _ 1]) (auto simp: Let_def split: option.splits merge_error.splits)
  qed
qed simp

lemma merge_loop_calls:
  "\<exists>new. mg_calls (merge_loop t merge sp prs st) = mg_calls st @ new
    \<and> (\<forall>call \<in> set new. \<exists>pr \<in> set prs. \<exists>mergeMethod.
         merge_method_for t sp pr = Inr mergeMethod \<and> call = call_for t sp pr mergeMethod)"
proof (induction prs arbitrary: st)
  case (Cons pr prs)
  show ?case
  proof (cases "merge_method_for t sp pr")
    case (Inl err)
    then show ?thesis
      using Cons.IH [of "st\<lparr>mg_errs := mg_errs st @ [err], mg_failed := mg_failed st @ [pr_Number pr]\<rparr>"]
      by auto
  next
    case (Inr mergeMethod)
    let ?call = "call_for t sp pr mergeMethod"
    obtain keep err calls' where tried: "tryMerge merge ?call (mg_calls st) = ((keep, err), calls')"
      by (metis surj_pair)
    then obtain k where k: "calls' = mg_calls st @ replicate k ?call"
      using try_loop_calls [of maxRetries merge ?call None "mg_calls st" keep err calls']
      by (auto simp: tryMerge_def maxRetries_def)
    define st' where "st' = (case err of
        Some e \<Rightarrow> st\<lparr>mg_errs := mg_errs st @ [e], mg_failed := mg_failed st @ [pr_Number pr], mg_calls := calls'\<rparr>
      | None \<Rightarrow> st\<lparr>mg_merged := mg_merged st @ [pr_Number pr], mg_calls := calls'\<rparr>)"
    have st': "mg_calls st' = mg_calls st @ replicate k ?call"
      by (simp add: st'_def k split: option.splits)
    have step: "merge_loop t merge sp (pr # prs) st = (if keep then merge_loop t merge sp prs st' else st')"
      using Inr tried by (simp add: st'_def Let_def)
    obtain new where "mg_calls (merge_loop t merge sp prs st') = mg_calls st' @ new"
      "\<forall>call \<in> set new. \<exists>pr \<in> set prs. \<exists>mergeMethod.
         merge_method_for t sp pr = Inr mergeMethod \<and> call = call_for t sp pr mergeMethod"
      using Cons.IH [of st'] by blast
    then show ?thesis
      using step st' Inr
      by (intro exI [of _ "replicate k ?call @ (if keep then new else [])"]) auto
  qed
qed simp

lemma merge_loop_accounts:
  "\<exists>ms es. mg_merged (merge_loop t merge sp prs st) = mg_merged st @ ms
    \<and> mg_errs (merge_loop t merge sp prs st) = mg_errs st @ es
    \<and> (es = [] \<longrightarrow> ms = map pr_Number prs)"
proof (induction prs arbitrary: st)
  case (Cons pr prs)
  show ?case
  proof (cases "merge_method_for t sp pr")
    case (Inl err)
    then show ?thesis
      using Cons.IH [of "st\<lparr>mg_errs := mg_errs st @ [err], mg_failed := mg_failed st @ [pr_Number pr]\<rparr>"]
      by auto
  next
    case (Inr mergeMethod)
    obtain keep err calls' where tried:
      "tryMerge merge (call_for t sp pr mergeMethod) (mg_calls st) = ((keep, err), calls')"
      by (metis surj_pair)
    then have "\<not> keep \<longrightarrow> err \<noteq> None"
      using try_loop_calls [of maxRetries merge _ None "mg_calls st" keep err calls']
      by (auto simp: tryMerge_def maxRetries_def)
    then show ?thesis
      using Inr tried
        Cons.IH [of "st\<lparr>mg_merged := mg_merged st @ [pr_Number pr], mg_calls := calls'\<rparr>"]
        Cons.IH [of "st\<lparr>mg_errs := mg_errs st @ [the err], mg_failed := mg_failed st @ [pr_Number pr],
          mg_calls := calls'\<rparr>"]
      by (cases err; cases keep) (auto simp: Let_def)
  qed
qed simp

text \<open>A call that asks to merge this pull request of the subpool, at the head tide knows.\<close>

definition asks_merge :: "Tide \<Rightarrow> subpool \<Rightarrow> PullRequest \<Rightarrow> merge_call \<Rightarrow> bool" where
  "asks_merge t sp pr call \<longleftrightarrow> mc_number call = pr_Number pr \<and> mc_org call = sp_org sp
     \<and> mc_repo call = sp_repo sp \<and> md_SHA (mc_details call) = pr_HeadRefOID pr
     \<and> merge_method_for t sp pr = Inr (md_MergeMethod (mc_details call))"

lemma mergePRs_asks:
  assumes "mergePRs t merge sp prs calls = (err, calls')"
  shows "\<exists>new. calls' = calls @ new \<and> (\<forall>call \<in> set new. \<exists>pr \<in> set prs. asks_merge t sp pr call)"
proof -
  let ?st = "\<lparr>mg_merged = [], mg_failed = [], mg_errs = [], mg_calls = calls\<rparr>"
  obtain new where new: "mg_calls (merge_loop t merge sp prs ?st) = calls @ new"
    "\<forall>call \<in> set new. \<exists>pr \<in> set prs. \<exists>mergeMethod.
       merge_method_for t sp pr = Inr mergeMethod \<and> call = call_for t sp pr mergeMethod"
    using merge_loop_calls [of t merge sp prs ?st] by auto
  have "\<forall>call \<in> set new. \<exists>pr \<in> set prs. asks_merge t sp pr call"
    using new(2) by (fastforce simp: asks_merge_def call_for_def prepareMergeDetails_def)
  moreover have "calls' = calls @ new"
    using assms new(1) by (simp add: mergePRs_def Let_def)
  ultimately show ?thesis by blast
qed

subsection \<open>Properties\<close>

text \<open>
  One merge makes between one and three calls, all the same; it repeats a call only
  after GitHub said that the base was modified; it reports success exactly when the last call
  succeeded, and gives up on the remaining pull requests only with an error.
\<close>

theorem try_merge_calls:
  assumes "tryMerge merge call calls = ((keepTrying, err), calls')"
  shows "\<exists>k. 1 \<le> k \<and> k \<le> 3 \<and> calls' = calls @ replicate k call
    \<and> (\<forall>i < k - 1. \<exists>m. merge (calls @ replicate i call) call = Some (UnmergablePRBaseChangedError m))
    \<and> (err = None \<longleftrightarrow> merge (calls @ replicate (k - 1) call) call = None)
    \<and> (\<not> keepTrying \<longrightarrow> err \<noteq> None)"
  using try_loop_calls [of maxRetries merge call None calls keepTrying err calls'] assms
  by (simp add: tryMerge_def maxRetries_def)

definition sample_call :: merge_call where
  "sample_call = call_for sample_Tide (sample_subpool []) (sample_passing_pr 4) MergeMerge"

theorem try_merge_calls_witness:
  "\<exists>k. 1 \<le> k \<and> k \<le> 3 \<and> snd (tryMerge (\<lambda>calls _. if length calls < 1
       then Some (UnmergablePRBaseChangedError ''modified'') else None) sample_call []) = replicate k sample_call"
proof -
  let ?merge = "\<lambda>calls _. if length calls < 1 then Some (UnmergablePRBaseChangedError ''modified'') else None"
  have "tryMerge ?merge sample_call [] = ((True, None), [sample_call, sample_call])"
    by (simp add: tryMerge_def maxRetries_def numeral_3_eq_3 Let_def)
  then show ?thesis
    using try_merge_calls [of ?merge sample_call "[]"] by auto
qed



text \<open>
  The labels of a pull request override the merge method when exactly one of them is an
  override label, conflict when there are several, and leave it as configured when there is
  none.
\<close>

theorem merge_labels:
  "checkMergeLabels pr squash rebase merge method =
     (case filter (\<lambda>l. l \<in> {squash, rebase, merge}) (pr_Labels pr) of
        [] \<Rightarrow> Inr method
      | [l] \<Rightarrow> Inr (if l = squash then MergeSquash else if l = rebase then MergeRebase else MergeMerge)
      | _ \<Rightarrow> Inl ''conflicting merge method override labels'')"
proof -
  let ?P = "\<lambda>l. l = squash \<or> l = rebase \<or> l = merge"
  have one: "check_labels squash rebase merge ls (Suc 0) m =
      (case filter ?P ls of [] \<Rightarrow> Inr m | _ \<Rightarrow> Inl ''conflicting merge method override labels'')" for ls m
    by (induction ls arbitrary: m) (auto simp: Let_def)
  have "check_labels squash rebase merge ls 0 method =
      (case filter ?P ls of
         [] \<Rightarrow> Inr method
       | [l] \<Rightarrow> Inr (if l = squash then MergeSquash else if l = rebase then MergeRebase else MergeMerge)
       | _ \<Rightarrow> Inl ''conflicting merge method override labels'')" for ls
  proof (induction ls)
    case (Cons l ls)
    then show ?case
      by (cases "?P l"; cases "filter ?P ls") (auto simp: Let_def one)
  qed simp
  then show ?thesis by (simp add: checkMergeLabels_def)
qed

end
