(* ===== verification/Tide_Search.thy ===== *)
theory Tide_Search
  imports Tide_Types
begin

text \<open>
  Paged GraphQL searches: \<open>src/tide/search.go\<close> and the loop of
  \<open>src/tide/blockers/blockers.go\<close>.  A query is an oracle from the cursor to a page or an error;
  nothing stops a server from claiming a next page for ever, so the loop has fuel, the number
  of pages it may ask for, and \<open>None\<close> is running out of it.  The relation \<open>pages\<close> says that
  the server answers with a finite chain of pages; then one unit of fuel per page is enough.
\<close>

record 'n page =
  pg_Nodes :: "'n list"
  pg_HasNextPage :: bool
  pg_EndCursor :: string

type_synonym 'n querier = "string option \<Rightarrow> 'n page result"

text \<open>The nodes read so far and, if a query failed, its cursor and error.\<close>

fun search_loop ::
    "nat \<Rightarrow> 'n querier \<Rightarrow> string option \<Rightarrow> 'n list \<Rightarrow> ('n list \<times> (string option \<times> error) option) option" where
  "search_loop 0 query cursor ret = None"
| "search_loop (Suc fuel) query cursor ret =
     (case query cursor of
        Inl err \<Rightarrow> Some (ret, Some (cursor, err))
      | Inr sq \<Rightarrow>
          (let ret = ret @ pg_Nodes sq
           in if pg_HasNextPage sq then search_loop fuel query (Some (pg_EndCursor sq)) ret
              else Some (ret, None)))"

subsection \<open>tide/search.go\<close>

text \<open>
  \<open>github.FoundingYear\<close> and the start of 1970, in nanoseconds since the zero time;
  \<open>fmt_time\<close> is \<open>time.Format\<close> with the layout of the search syntax.
\<close>

definition FoundingYear :: time where "FoundingYear = 732676 * 86400 * time_second"
definition unix_epoch :: time where "unix_epoch = 719162 * 86400 * time_second"

definition floor_time :: "time \<Rightarrow> time" where
  "floor_time t = (if t < FoundingYear then FoundingYear else t)"

definition dateToken :: "(time \<Rightarrow> string) \<Rightarrow> time \<Rightarrow> time \<Rightarrow> string" where
  "dateToken fmt_time start end =
     ''updated:'' @ (if unix_epoch \<le> start then fmt_time start else ''*'')
     @ ''..'' @ (if unix_epoch \<le> end then fmt_time end else ''*'')"

definition datedQuery :: "(time \<Rightarrow> string) \<Rightarrow> string \<Rightarrow> time \<Rightarrow> time \<Rightarrow> string" where
  "datedQuery fmt_time q start end = q @ '' '' @ dateToken fmt_time start end"

text \<open>A failed search also returns the pull requests read before the failure.\<close>

definition search ::
    "nat \<Rightarrow> (time \<Rightarrow> string) \<Rightarrow> (string \<Rightarrow> PullRequest querier) \<Rightarrow> string \<Rightarrow> time \<Rightarrow> time
     \<Rightarrow> (PullRequest list \<times> error option) option" where
  "search fuel fmt_time query q start end =
     (let start = floor_time start; end = floor_time end
      in map_option
           (\<lambda>(ret, failure).
              (ret, map_option
                 (\<lambda>(cursor, err).
                    case cursor of
                      None \<Rightarrow> err
                    | Some c \<Rightarrow> ''cursor: '' @ quote c @ '', err: '' @ err) failure))
           (search_loop fuel (query (datedQuery fmt_time q start end)) None []))"

subsection \<open>The loop reads every page\<close>

inductive pages :: "'n querier \<Rightarrow> string option \<Rightarrow> 'n page list \<Rightarrow> bool" for query where
  last_page: "query cursor = Inr pg \<Longrightarrow> \<not> pg_HasNextPage pg \<Longrightarrow> pages query cursor [pg]"
| next_page: "query cursor = Inr pg \<Longrightarrow> pg_HasNextPage pg \<Longrightarrow>
    pages query (Some (pg_EndCursor pg)) pgs \<Longrightarrow> pages query cursor (pg # pgs)"

inductive_cases pages_NilE: "pages query cursor []"

lemma search_loop_pages:
  "pages query cursor pgs \<Longrightarrow> length pgs \<le> fuel \<Longrightarrow>
   search_loop fuel query cursor ret = Some (ret @ concat (map pg_Nodes pgs), None)"
proof (induction cursor pgs arbitrary: fuel ret rule: pages.induct)
  case (last_page cursor pg)
  then show ?case by (cases fuel) simp_all
next
  case (next_page cursor pg pgs)
  then show ?case by (cases fuel) simp_all
qed

lemma search_loop_more_fuel:
  "search_loop fuel query cursor ret = Some r \<Longrightarrow> fuel \<le> fuel' \<Longrightarrow>
   search_loop fuel' query cursor ret = Some r"
proof (induction fuel arbitrary: fuel' cursor ret)
  case (Suc fuel)
  then obtain f where "fuel' = Suc f" by (cases fuel') auto
  then show ?case using Suc by (auto simp: Let_def split: sum.splits if_splits)
qed simp

lemma search_loop_deterministic:
  "search_loop fuel query cursor ret = Some r \<Longrightarrow> search_loop fuel' query cursor ret = Some r' \<Longrightarrow>
   r = r'"
  by (metis nat_le_linear option.inject search_loop_more_fuel)

subsection \<open>Properties\<close>

text \<open>
  C12: When GitHub answers the dated query with a finite chain of pages, the search returns the
  pull requests of all of them in order and without error, given one step per page, and any
  amount of steps on which it returns gives that same result.
\<close>

theorem search_returns_all_pages:
  assumes "pages (query (datedQuery fmt_time q (floor_time start) (floor_time end))) None pgs"
  shows "search (length pgs) fmt_time query q start end = Some (concat (map pg_Nodes pgs), None)
    \<and> (\<forall>fuel r. search fuel fmt_time query q start end = Some r \<longrightarrow> r = (concat (map pg_Nodes pgs), None))"
proof -
  let ?query = "query (datedQuery fmt_time q (floor_time start) (floor_time end))"
  have all: "search_loop (length pgs) ?query None [] = Some (concat (map pg_Nodes pgs), None)"
    using search_loop_pages [OF assms, of "length pgs" "[]"] by simp
  show ?thesis
  proof (intro conjI allI impI)
    show "search (length pgs) fmt_time query q start end = Some (concat (map pg_Nodes pgs), None)"
      using all by (simp add: search_def)
    show "r = (concat (map pg_Nodes pgs), None)"
      if found: "search fuel fmt_time query q start end = Some r" for fuel r
    proof -
      obtain x where x: "search_loop fuel ?query None [] = Some x"
        using found by (auto simp: search_def)
      then have "x = (concat (map pg_Nodes pgs), None)"
        using search_loop_deterministic [OF all] by simp
      then show ?thesis using found x by (simp add: search_def)
    qed
  qed
qed

definition sample_querier :: "string \<Rightarrow> PullRequest querier" where
  "sample_querier q cursor =
     (let pr = (\<lambda>n. sample_PullRequest ''org'' ''repo'' ''master'' n ''sha'')
      in case cursor of
           None \<Rightarrow> Inr \<lparr>pg_Nodes = [pr 1, pr 2], pg_HasNextPage = True, pg_EndCursor = ''c''\<rparr>
         | Some _ \<Rightarrow> Inr \<lparr>pg_Nodes = [pr 3], pg_HasNextPage = False, pg_EndCursor = []\<rparr>)"

theorem search_returns_all_pages_witness:
  "map_option (\<lambda>(prs, err). (map pr_Number prs, err))
     (search 2 (\<lambda>_. ''t'') sample_querier ''is:pr'' 0 1) = Some ([1, 2, 3], None)"
proof -
  let ?pr = "\<lambda>n. sample_PullRequest ''org'' ''repo'' ''master'' n ''sha''"
  let ?pgs = "[\<lparr>pg_Nodes = [?pr 1, ?pr 2], pg_HasNextPage = True, pg_EndCursor = ''c''\<rparr>,
               \<lparr>pg_Nodes = [?pr 3], pg_HasNextPage = False, pg_EndCursor = []\<rparr>]"
  have "pages (sample_querier q) None ?pgs" for q
    by (rule next_page) (auto simp: sample_querier_def intro!: last_page)
  then show ?thesis
    using search_returns_all_pages [of sample_querier "\<lambda>_. ''t''" "''is:pr''" 0 1 ?pgs]
    by (simp add: numeral_2_eq_2 sample_PullRequest_def)
qed

end
