(* ===== verification/Tide_Blockers.thy ===== *)
theory Tide_Blockers
  imports Tide_Search
begin

text \<open>
  Merge blockers, \<open>src/tide/blockers/blockers.go\<close>: open issues with the blocker label stop tide
  from merging into a repo, or into the branches their title names.

  The expression \<open>(?im)\bbranch:[^\w-]*([\w-./]+)\b\<close> is matched by a scanner.  The class before
  the group takes everything up to the first word character or dash, so the group starts
  there; it then takes the longest run of word characters, dashes, dots and slashes that ends
  at a word boundary, that is up to the last word character of the run; without a word
  character in the run there is no boundary and no match.  Matches do not overlap.
\<close>

subsection \<open>Data\<close>

record Blocker =
  bl_Number :: int
  bl_Title :: string
  bl_URL :: string

record Issue =
  is_Number :: int
  is_Title :: string
  is_URL :: string
  is_Repo :: string
  is_Org :: string

type_synonym OrgRepo = "string \<times> string"
type_synonym OrgRepoBranch = "string \<times> string \<times> string"

record Blockers =
  bs_Repo :: "OrgRepo \<rightharpoonup> Blocker list"
  bs_Branch :: "OrgRepoBranch \<rightharpoonup> Blocker list"

definition GetApplicable :: "Blockers \<Rightarrow> string \<Rightarrow> string \<Rightarrow> string \<Rightarrow> Blocker list" where
  "GetApplicable b org repo branch =
     sort_key bl_Number
       (map_get [] (bs_Repo b) (org, repo) @ map_get [] (bs_Branch b) (org, repo, branch))"

subsection \<open>Branches named by a title\<close>

definition word_char :: "char \<Rightarrow> bool" where
  "word_char c \<longleftrightarrow> c = CHR ''_'' \<or>
     list_ex (\<lambda>(lo, hi). lo \<le> c \<and> c \<le> hi)
       [(CHR ''0'', CHR ''9''), (CHR ''A'', CHR ''Z''), (CHR ''a'', CHR ''z'')]"

definition ref_char :: "char \<Rightarrow> bool" where
  "ref_char c \<longleftrightarrow> word_char c \<or> c = CHR ''-'' \<or> c = CHR ''.'' \<or> c = CHR ''/''"

text \<open>A match at the front of the text: the group, and the length of the match after its first character.\<close>

definition branch_match :: "string \<Rightarrow> (string \<times> nat) option" where
  "branch_match s =
     (if to_lower (take 7 s) = ''branch:'' then
        (let rest = drop 7 s;
             gap = takeWhile (\<lambda>c. \<not> word_char c \<and> c \<noteq> CHR ''-'') rest;
             run = takeWhile ref_char (drop (length gap) rest);
             grp = rev (dropWhile (\<lambda>c. \<not> word_char c) (rev run))
         in if grp = [] then None else Some (grp, 6 + length gap + length grp))
      else None)"

text \<open>The groups of all matches, and the text without the matches.\<close>

fun scan_branches :: "bool \<Rightarrow> string \<Rightarrow> string list \<times> string" where
  "scan_branches after_word [] = ([], [])"
| "scan_branches after_word (c # cs) =
     (case (if after_word then None else branch_match (c # cs)) of
        Some (grp, n) \<Rightarrow> (let (bs, txt) = scan_branches True (drop n cs) in (grp # bs, txt))
      | None \<Rightarrow> (let (bs, txt) = scan_branches (word_char c) cs in (bs, c # txt)))"

definition parseBranches :: "string \<Rightarrow> string list" where
  "parseBranches str = fst (scan_branches False str)"

definition stripped_title :: "string \<Rightarrow> string" where
  "stripped_title title = snd (scan_branches False title)"

subsection \<open>Blockers from issues\<close>

definition block_of :: "Issue \<Rightarrow> Blocker" where
  "block_of issue = \<lparr>bl_Number = is_Number issue, bl_Title = stripped_title (is_Title issue),
     bl_URL = is_URL issue\<rparr>"

definition add_branch :: "Issue \<Rightarrow> string \<Rightarrow> Blockers \<Rightarrow> Blockers" where
  "add_branch issue branch res =
     (let key = (is_Org issue, is_Repo issue, branch)
      in res\<lparr>bs_Branch := (bs_Branch res)(key \<mapsto> map_get [] (bs_Branch res) key @ [block_of issue])\<rparr>)"

definition add_issue :: "Issue \<Rightarrow> Blockers \<Rightarrow> Blockers" where
  "add_issue issue res =
     (let branches = parseBranches (is_Title issue)
      in if branches \<noteq> [] then fold (add_branch issue) branches res
         else
           (let key = (is_Org issue, is_Repo issue)
            in res\<lparr>bs_Repo := (bs_Repo res)(key \<mapsto> map_get [] (bs_Repo res) key @ [block_of issue])\<rparr>))"

definition fromIssues :: "Issue list \<Rightarrow> Blockers" where
  "fromIssues issues = fold add_issue issues \<lparr>bs_Repo = Map.empty, bs_Branch = Map.empty\<rparr>"

definition blockerQuery :: "string \<Rightarrow> string \<Rightarrow> string" where
  "blockerQuery label orgRepoTokens =
     join '' '' [''is:issue'', ''state:open'', ''label:'' @ quote label, orgRepoTokens]"

text \<open>The search for issues drops what it read when a query fails.\<close>

definition search_issues ::
    "nat \<Rightarrow> (string \<Rightarrow> Issue querier) \<Rightarrow> string \<Rightarrow> Issue list result option" where
  "search_issues fuel query q =
     map_option (\<lambda>(ret, failure). case failure of Some (_, err) \<Rightarrow> Inl err | None \<Rightarrow> Inr ret)
       (search_loop fuel (query q) None [])"

definition FindAll ::
    "nat \<Rightarrow> (string \<Rightarrow> Issue querier) \<Rightarrow> string \<Rightarrow> string \<Rightarrow> Blockers result option" where
  "FindAll fuel query label orgRepoTokens =
     map_option
       (map_sum (\<lambda>err. ''error searching for blocker issues: '' @ err) fromIssues)
       (search_issues fuel query (blockerQuery label orgRepoTokens))"

subsection \<open>Lemmas\<close>

lemma fold_add_branch:
  "bs_Repo (fold (add_branch issue) bs res) = bs_Repo res"
  "map_get [] (bs_Branch (fold (add_branch issue) bs res)) (org, repo, branch) =
     map_get [] (bs_Branch res) (org, repo, branch)
     @ (if org = is_Org issue \<and> repo = is_Repo issue
        then replicate (count_list bs branch) (block_of issue) else [])"
proof (induction bs arbitrary: res)
  case (Cons b bs)
  { case 1 show ?case by (simp add: Cons.IH(1)) (simp add: add_branch_def Let_def) }
  { case 2 show ?case
      by (simp add: Cons.IH(2)) (auto simp: add_branch_def Let_def map_get_upd) }
qed simp_all

text \<open>How often an issue is listed as a blocker of a branch.\<close>

definition block_count :: "Issue \<Rightarrow> string \<Rightarrow> string \<Rightarrow> string \<Rightarrow> nat" where
  "block_count issue org repo branch =
     (if is_Org issue = org \<and> is_Repo issue = repo then
        (if parseBranches (is_Title issue) = [] then 1
         else count_list (parseBranches (is_Title issue)) branch)
      else 0)"

lemma count_list_pos: "0 < count_list xs x \<longleftrightarrow> x \<in> set xs"
  by (metis count_list_0_iff neq0_conv)

lemma block_count_pos:
  "0 < block_count issue org repo branch \<longleftrightarrow> is_Org issue = org \<and> is_Repo issue = repo
     \<and> (parseBranches (is_Title issue) = [] \<or> branch \<in> set (parseBranches (is_Title issue)))"
  by (auto simp: block_count_def count_list_pos)

definition applicable :: "Blockers \<Rightarrow> string \<Rightarrow> string \<Rightarrow> string \<Rightarrow> Blocker multiset" where
  "applicable b org repo branch =
     mset (map_get [] (bs_Repo b) (org, repo)) + mset (map_get [] (bs_Branch b) (org, repo, branch))"

lemma applicable_add_issue:
  "applicable (add_issue issue res) org repo branch =
     applicable res org repo branch + replicate_mset (block_count issue org repo branch) (block_of issue)"
  by (auto simp: applicable_def add_issue_def Let_def fold_add_branch block_count_def map_get_upd)

lemma applicable_fold:
  "applicable (fold add_issue issues res) org repo branch =
     applicable res org repo branch
     + (\<Sum>issue \<leftarrow> issues. replicate_mset (block_count issue org repo branch) (block_of issue))"
  by (induction issues arbitrary: res) (simp_all add: applicable_add_issue)

lemma mset_GetApplicable: "mset (GetApplicable b org repo branch) = applicable b org repo branch"
  by (simp add: GetApplicable_def applicable_def)

lemma sum_list_replicate_set:
  "set_mset (\<Sum>x \<leftarrow> xs. replicate_mset (n x) (f x)) = {f x | x. x \<in> set xs \<and> n x > 0}"
  by (induction xs) auto

subsection \<open>Properties\<close>

text \<open>
  The blockers of a branch are exactly the issues of its repo whose title names no branch
  or names this branch, in order of issue number.
\<close>

theorem blockers_applicable:
  "set (GetApplicable (fromIssues issues) org repo branch) =
     {block_of issue | issue. issue \<in> set issues \<and> is_Org issue = org \<and> is_Repo issue = repo
        \<and> (parseBranches (is_Title issue) = [] \<or> branch \<in> set (parseBranches (is_Title issue)))}
   \<and> sorted (map bl_Number (GetApplicable (fromIssues issues) org repo branch))"
proof
  have "set (GetApplicable (fromIssues issues) org repo branch) =
      set_mset (applicable (fromIssues issues) org repo branch)"
    by (metis mset_GetApplicable set_mset_mset)
  also have "\<dots> = {block_of issue | issue. issue \<in> set issues \<and> block_count issue org repo branch > 0}"
    unfolding fromIssues_def applicable_fold set_mset_union sum_list_replicate_set
    by (simp add: applicable_def)
  also have "\<dots> = {block_of issue | issue. issue \<in> set issues \<and> is_Org issue = org \<and> is_Repo issue = repo
        \<and> (parseBranches (is_Title issue) = [] \<or> branch \<in> set (parseBranches (is_Title issue)))}"
    by (simp add: block_count_pos)
  finally show "set (GetApplicable (fromIssues issues) org repo branch) = \<dots>" .
qed (simp add: GetApplicable_def)

text \<open>
  A branch name made of word characters, dashes, dots and slashes that starts with a word
  character or dash and ends with a word character is read back from a title that names it,
  and the stripped title is what stands before it.
\<close>

theorem branch_title_round_trip:
  assumes "name \<noteq> []" and "list_all ref_char name"
    and "word_char (hd name) \<or> hd name = CHR ''-''" and "word_char (last name)"
  shows "parseBranches (''branch:'' @ name) = [name] \<and> stripped_title (''branch:'' @ name) = []"
proof -
  obtain c cs where name: "name = c # cs"
    using assms(1) by (cases name) auto
  have gap: "takeWhile (\<lambda>c. \<not> word_char c \<and> c \<noteq> CHR ''-'') name = []"
    using assms(3) name by auto
  have run: "takeWhile ref_char name = name"
    using assms(2) by (simp add: takeWhile_eq_all_conv list_all_iff)
  have "rev name = last name # rev (butlast name)"
    using assms(1) by (metis append_butlast_last_id rev.simps(2) rev_rev_ident rev_append rev_singleton_conv append.simps(1,2))
  then have grp: "rev (dropWhile (\<lambda>c. \<not> word_char c) (rev name)) = name"
    using assms(4) by (metis (no_types, lifting) dropWhile.simps(2) rev_rev_ident)
  have "length (dropWhile (\<lambda>c. \<not> word_char c) (rev name)) = length name"
    using arg_cong [OF grp, of length] by simp
  then have "branch_match (''branch:'' @ name) = Some (name, 6 + length name)"
    using assms(1,4)
    by (simp add: branch_match_def to_lower_def to_lower_char_def Let_def gap run grp)
       (metis last_in_set)
  then show ?thesis
    by (simp add: parseBranches_def stripped_title_def)
qed

theorem branch_title_round_trip_witness:
  "parseBranches (''branch:'' @ ''release-1.17'') = [''release-1.17'']"
  using branch_title_round_trip [of "''release-1.17''"]
  by (simp add: ref_char_def word_char_def)

end
