(* ===== verification/Tide_History.thy ===== *)
theory Tide_History
  imports ProwJobs
begin

text \<open>
  Tide's record of the actions it took, \<open>src/tide/history/history.go\<close>: one ring buffer of
  bounded size per pool, served and flushed newest record first.

  The locale \<open>bounded_log\<close> is the contract of a log (newest first, the oldest dropped beyond
  the limit); the ring buffer is shown to keep it, and the history rests on the contract.  An
  integer division by zero or an index out of range is \<open>None\<close>.
\<close>

subsection \<open>The ring buffer\<close>

record Record =
  rec_Time :: time
  rec_Action :: string
  rec_BaseSHA :: string
  rec_Target :: "Pull list"
  rec_Err :: string

record recordLog =
  rl_buff :: "Record list"
  rl_head :: int
  rl_limit :: int
  rl_cachedSlice :: "Record list option"

definition newRecordLog :: "int \<Rightarrow> recordLog" where
  "newRecordLog sizeLimit =
     \<lparr>rl_buff = [], rl_head = - 1, rl_limit = sizeLimit, rl_cachedSlice = None\<rparr>"

definition recordLog_add :: "recordLog \<Rightarrow> Record \<Rightarrow> recordLog option" where
  "recordLog_add rl rec =
     (if rl_limit rl = 0 then None
      else
        (let head = go_rem (rl_head rl + 1) (rl_limit rl);
             rl1 = rl\<lparr>rl_cachedSlice := None, rl_head := head\<rparr>
         in if int (length (rl_buff rl)) < rl_limit rl then Some (rl1\<lparr>rl_buff := rl_buff rl @ [rec]\<rparr>)
            else if 0 \<le> head \<and> head < int (length (rl_buff rl))
            then Some (rl1\<lparr>rl_buff := (rl_buff rl)[nat head := rec]\<rparr>)
            else None))"

text \<open>The loop of \<open>toSlice\<close>: the remaining indices, the result so far.\<close>

fun collect :: "recordLog \<Rightarrow> nat list \<Rightarrow> Record list \<Rightarrow> Record list option" where
  "collect rl [] res = Some res"
| "collect rl (i # is) res =
     (if rl_limit rl = 0 then None
      else
        (let index = go_rem (rl_limit rl + rl_head rl - int i) (rl_limit rl)
         in if 0 \<le> index \<and> index < int (length (rl_buff rl))
            then collect rl is (res @ [rl_buff rl ! nat index]) else None))"

definition toSlice :: "recordLog \<Rightarrow> (Record list \<times> recordLog) option" where
  "toSlice rl =
     (case rl_cachedSlice rl of
        Some s \<Rightarrow> Some (s, rl)
      | None \<Rightarrow>
          (case collect rl [0..<length (rl_buff rl)] [] of
             None \<Rightarrow> None
           | Some res \<Rightarrow> Some (res, rl\<lparr>rl_cachedSlice := Some res\<rparr>)))"

subsection \<open>The history\<close>

record History =
  h_logs :: "(string \<times> recordLog) list"
  h_logSizeLimit :: int
  h_path :: string

definition addRecord :: "History \<Rightarrow> string \<Rightarrow> Record \<Rightarrow> History option" where
  "addRecord h poolKey rec =
     (let log = (case map_of (h_logs h) poolKey of
                   None \<Rightarrow> newRecordLog (h_logSizeLimit h)
                 | Some log \<Rightarrow> log)
      in map_option (\<lambda>log'. h\<lparr>h_logs := AList.update poolKey log' (h_logs h)\<rparr>) (recordLog_add log rec))"

text \<open>\<open>History.Record\<close>; the clock is the argument \<open>t\<close>.\<close>

definition History_Record ::
    "History \<Rightarrow> time \<Rightarrow> string \<Rightarrow> string \<Rightarrow> string \<Rightarrow> error \<Rightarrow> Pull list \<Rightarrow> History option" where
  "History_Record h t poolKey action baseSHA err targets =
     addRecord h poolKey
       \<lparr>rec_Time = t, rec_Action = action, rec_BaseSHA = baseSHA,
        rec_Target = sort_key pull_Number targets, rec_Err = err\<rparr>"

fun all_slices :: "(string \<times> recordLog) list
    \<Rightarrow> ((string \<times> Record list) list \<times> (string \<times> recordLog) list) option" where
  "all_slices [] = Some ([], [])"
| "all_slices ((key, log) # logs) =
     (case toSlice log of
        None \<Rightarrow> None
      | Some (s, log') \<Rightarrow>
          map_option (\<lambda>(res, logs'). ((key, s) # res, (key, log') # logs')) (all_slices logs))"

definition AllRecords :: "History \<Rightarrow> ((string \<times> Record list) list \<times> History) option" where
  "AllRecords h = map_option (\<lambda>(res, logs'). (res, h\<lparr>h_logs := logs'\<rparr>)) (all_slices (h_logs h))"

text \<open>
  The storage behind \<open>io.Opener\<close> is given by what opening and reading the path gives, and by
  the error of opening, writing or closing it; \<open>json.Marshal\<close> and \<open>json.Unmarshal\<close> are the
  parameters \<open>marshal\<close> and \<open>unmarshal\<close>.
\<close>

datatype stored = NotExist | OpenError error | ReadError error | Content string

record writer_errors =
  we_open :: "error option"
  we_write :: "error option"
  we_close :: "error option"

fun add_all :: "recordLog \<Rightarrow> Record list \<Rightarrow> recordLog option" where
  "add_all log [] = Some log"
| "add_all log (r # rs) = (case recordLog_add log r of None \<Rightarrow> None | Some log' \<Rightarrow> add_all log' rs)"

fun load_logs :: "int \<Rightarrow> (string \<times> Record list) list \<Rightarrow> (string \<times> recordLog) list option" where
  "load_logs maxRecordsPerKey [] = Some []"
| "load_logs maxRecordsPerKey ((key, records) # rest) =
     (case add_all (newRecordLog maxRecordsPerKey) (rev (take (nat maxRecordsPerKey) records)) of
        None \<Rightarrow> None
      | Some log \<Rightarrow> map_option (\<lambda>logs. (key, log) # logs) (load_logs maxRecordsPerKey rest))"

definition readHistory ::
    "(string \<Rightarrow> (string \<times> Record list) list result) \<Rightarrow> int \<Rightarrow> stored
     \<Rightarrow> (string \<times> recordLog) list result option" where
  "readHistory unmarshal maxRecordsPerKey file =
     (case file of
        NotExist \<Rightarrow> Some (Inr [])
      | OpenError err \<Rightarrow> Some (Inl (''open: '' @ err))
      | ReadError err \<Rightarrow> Some (Inl (''read: '' @ err))
      | Content raw \<Rightarrow>
          (case unmarshal raw of
             Inl err \<Rightarrow> Some (Inl (''unmarshal: '' @ err))
           | Inr recordsByPool \<Rightarrow> map_option Inr (load_logs maxRecordsPerKey recordsByPool)))"

definition New ::
    "(string \<Rightarrow> (string \<times> Record list) list result) \<Rightarrow> int \<Rightarrow> stored \<Rightarrow> string
     \<Rightarrow> History result option" where
  "New unmarshal maxRecordsPerKey file path =
     (if path \<noteq> [] then
        map_option (map_sum id (\<lambda>logs. \<lparr>h_logs = logs, h_logSizeLimit = maxRecordsPerKey, h_path = path\<rparr>))
          (readHistory unmarshal maxRecordsPerKey file)
      else Some (Inr \<lparr>h_logs = [], h_logSizeLimit = maxRecordsPerKey, h_path = path\<rparr>))"

definition writeHistory ::
    "((string \<times> Record list) list \<Rightarrow> string result) \<Rightarrow> writer_errors \<Rightarrow> (string \<times> Record list) list
     \<Rightarrow> error option \<times> string option" where
  "writeHistory marshal w hist =
     (case we_open w of
        Some err \<Rightarrow> (Some (''open: '' @ err), None)
      | None \<Rightarrow>
          (case marshal hist of
             Inl err \<Rightarrow> (Some (''marshal: '' @ err), None)
           | Inr b \<Rightarrow>
               (case we_write w of
                  Some err \<Rightarrow> (Some (''write: '' @ err), None)
                | None \<Rightarrow>
                    (case we_close w of
                       Some err \<Rightarrow> (Some (''close: '' @ err), None)
                     | None \<Rightarrow> (None, Some b)))))"

text \<open>The history after \<open>Flush\<close>, and what was stored if anything was.\<close>

definition Flush ::
    "((string \<times> Record list) list \<Rightarrow> string result) \<Rightarrow> writer_errors \<Rightarrow> History
     \<Rightarrow> (History \<times> string option) option" where
  "Flush marshal w h =
     (if h_path h = [] then Some (h, None)
      else
        (case AllRecords h of
           None \<Rightarrow> None
         | Some (records, h') \<Rightarrow> Some (h', snd (writeHistory marshal w records))))"

subsection \<open>The contract of a bounded log\<close>

text \<open>
  A log of at most \<open>limit\<close> entries shows them newest first; adding one drops the oldest
  beyond the limit, and reading changes nothing that is seen.
\<close>

locale bounded_log =
  fixes new :: "int \<Rightarrow> 'l" and add :: "'l \<Rightarrow> 'a \<Rightarrow> 'l option" and slice :: "'l \<Rightarrow> ('a list \<times> 'l) option"
    and inv :: "int \<Rightarrow> 'l \<Rightarrow> bool" and view :: "'l \<Rightarrow> 'a list"
  assumes new_inv: "0 < n \<Longrightarrow> inv n (new n)"
    and new_view: "view (new n) = []"
    and view_length: "inv n l \<Longrightarrow> length (view l) \<le> nat n"
    and add_ok: "inv n l \<Longrightarrow> \<exists>l'. add l x = Some l' \<and> inv n l' \<and> view l' = take (nat n) (x # view l)"
    and slice_ok: "inv n l \<Longrightarrow> \<exists>l'. slice l = Some (view l, l') \<and> inv n l' \<and> view l' = view l"
begin

primrec adds :: "'l \<Rightarrow> 'a list \<Rightarrow> 'l option" where
  "adds l [] = Some l"
| "adds l (x # xs) = (case add l x of None \<Rightarrow> None | Some l' \<Rightarrow> adds l' xs)"

lemma adds_ok:
  "inv n l \<Longrightarrow> \<exists>l'. adds l xs = Some l' \<and> inv n l' \<and> view l' = take (nat n) (rev xs @ view l)"
proof (induction xs arbitrary: l)
  case Nil
  then show ?case by (simp add: view_length)
next
  case (Cons x xs)
  obtain l1 where l1: "add l x = Some l1" "inv n l1" "view l1 = take (nat n) (x # view l)"
    using add_ok [OF Cons.prems] by blast
  obtain l' where "adds l1 xs = Some l'" "inv n l'" "view l' = take (nat n) (rev xs @ view l1)"
    using Cons.IH [OF l1(2)] by blast
  then show ?case using l1 take_append_take [of "nat n" "rev xs"] by simp
qed

lemma adds_new:
  "0 < n \<Longrightarrow> \<exists>l. adds (new n) xs = Some l \<and> inv n l \<and> view l = take (nat n) (rev xs)"
  using adds_ok [OF new_inv] by (simp add: new_view)

end

subsection \<open>The ring buffer keeps the contract\<close>

definition ring_view :: "recordLog \<Rightarrow> Record list" where
  "ring_view rl =
     (let k = nat (rl_head rl + 1) in rev (take k (rl_buff rl)) @ rev (drop k (rl_buff rl)))"

definition ring_inv :: "int \<Rightarrow> recordLog \<Rightarrow> bool" where
  "ring_inv n rl \<longleftrightarrow> 0 < n \<and> rl_limit rl = n \<and> int (length (rl_buff rl)) \<le> n
     \<and> (if int (length (rl_buff rl)) < n then rl_head rl = int (length (rl_buff rl)) - 1
        else 0 \<le> rl_head rl \<and> rl_head rl < n)
     \<and> (\<forall>s. rl_cachedSlice rl = Some s \<longrightarrow> s = ring_view rl)"

lemma ring_index:
  assumes "ring_inv n rl" and "i < length (rl_buff rl)"
  defines "index \<equiv> go_rem (rl_limit rl + rl_head rl - int i) (rl_limit rl)"
  shows "0 \<le> index \<and> index < int (length (rl_buff rl)) \<and> rl_buff rl ! nat index = ring_view rl ! i"
proof -
  let ?len = "length (rl_buff rl)"
  have inv: "0 < n" "rl_limit rl = n" "int ?len \<le> n" "0 \<le> rl_head rl" "rl_head rl < int ?len"
    "int ?len < n \<Longrightarrow> rl_head rl = int ?len - 1"
    using assms(1,2) by (auto simp: ring_inv_def split: if_splits)
  have idx: "index = (if int i \<le> rl_head rl then rl_head rl - int i else n + rl_head rl - int i)"
  proof -
    have "index = (n + rl_head rl - int i) mod n"
      unfolding index_def using inv assms(2) by simp
    moreover have "(n + rl_head rl - int i) mod n = rl_head rl - int i" if "int i \<le> rl_head rl"
      using that inv by (simp add: add_diff_eq [symmetric])
    moreover have "(n + rl_head rl - int i) mod n = n + rl_head rl - int i" if "\<not> int i \<le> rl_head rl"
      using that inv assms(2) by (intro mod_pos_pos_trivial) linarith+
    ultimately show ?thesis by simp
  qed
  have full: "n = int ?len" if "\<not> int i \<le> rl_head rl"
    using that inv assms(2) by linarith
  show ?thesis
    using idx inv assms(2) full
    by (auto simp: ring_view_def Let_def nth_append rev_nth nat_diff_distrib intro!: arg_cong [of _ _ "(!) _"])
qed

lemma collect_ring:
  assumes "ring_inv n rl"
  shows "\<forall>i \<in> set is. i < length (rl_buff rl) \<Longrightarrow>
    collect rl is res = Some (res @ map (\<lambda>i. ring_view rl ! i) is)"
proof (induction "is" arbitrary: res)
  case (Cons i "is")
  then show ?case
    using ring_index [OF assms, of i] assms by (auto simp: Let_def ring_inv_def)
qed simp

lemma ring_view_length [simp]: "length (ring_view rl) = length (rl_buff rl)"
  by (simp add: ring_view_def Let_def)

lemma ring_slice:
  assumes "ring_inv n rl"
  shows "\<exists>rl'. toSlice rl = Some (ring_view rl, rl') \<and> ring_inv n rl' \<and> ring_view rl' = ring_view rl"
proof (cases "rl_cachedSlice rl")
  case None
  have "collect rl [0..<length (rl_buff rl)] [] = Some (ring_view rl)"
    using collect_ring [OF assms, of "[0..<length (rl_buff rl)]" "[]"]
      map_nth [of "ring_view rl"] by simp
  then show ?thesis
    using None assms by (auto simp: toSlice_def ring_inv_def ring_view_def)
next
  case (Some s)
  then show ?thesis using assms by (auto simp: toSlice_def ring_inv_def)
qed

lemma ring_add:
  assumes "ring_inv n rl"
  shows "\<exists>rl'. recordLog_add rl r = Some rl' \<and> ring_inv n rl'
    \<and> ring_view rl' = take (nat n) (r # ring_view rl)"
proof (cases "int (length (rl_buff rl)) < n")
  case True
  then have inv: "0 < n" "rl_limit rl = n" "rl_head rl + 1 = int (length (rl_buff rl))"
    using assms by (auto simp: ring_inv_def)
  moreover have "go_rem (rl_head rl + 1) n = int (length (rl_buff rl))"
    using True inv by simp
  ultimately show ?thesis
    using True by (auto simp: recordLog_add_def Let_def ring_inv_def ring_view_def)
next
  case False
  let ?b = "rl_buff rl" and ?k = "nat (rl_head rl + 1)"
  have inv: "0 < n" "rl_limit rl = n" "n = int (length ?b)" "0 \<le> rl_head rl" "rl_head rl < n"
    using False assms by (auto simp: ring_inv_def)
  define h where "h = (if ?k = length ?b then 0 else ?k)"
  have rem: "go_rem (rl_head rl + 1) n = int h"
  proof (cases "?k = length ?b")
    case True
    then have "rl_head rl + 1 = n" using inv by linarith
    then show ?thesis using inv True by (simp add: h_def)
  next
    case False
    then have "rl_head rl + 1 < n" using inv by linarith
    then show ?thesis using inv False by (simp add: h_def)
  qed
  have h: "h < length ?b"
    using inv by (auto simp: h_def)
  have older: "butlast (ring_view rl) = rev (take h ?b) @ rev (drop (Suc h) ?b)"
  proof (cases "?k = length ?b")
    case True
    then show ?thesis
      by (simp add: h_def ring_view_def Let_def drop_Suc butlast_rev)
  next
    case False
    then have "drop ?k ?b = ?b ! ?k # drop (Suc ?k) ?b"
      using h by (simp add: h_def Cons_nth_drop_Suc)
    then show ?thesis using False by (simp add: h_def ring_view_def Let_def butlast_append)
  qed
  let ?rl = "rl\<lparr>rl_cachedSlice := None, rl_head := int h, rl_buff := ?b[h := r]\<rparr>"
  have "ring_view ?rl = r # rev (take h ?b) @ rev (drop (Suc h) ?b)"
    using h by (simp add: ring_view_def Let_def take_Suc_conv_app_nth nat_add_distrib)
  then have "ring_view ?rl = take (nat n) (r # ring_view rl)"
    using older inv by (simp add: take_Cons' butlast_conv_take)
  moreover have "recordLog_add rl r = Some ?rl"
    using inv rem h False by (simp add: recordLog_add_def Let_def)
  moreover have "ring_inv n ?rl"
    using inv h by (simp add: ring_inv_def)
  ultimately show ?thesis by blast
qed

interpretation ring: bounded_log newRecordLog recordLog_add toSlice ring_inv ring_view
proof unfold_locales
  show "ring_inv n (newRecordLog n)" if "0 < n" for n
    using that by (simp add: ring_inv_def newRecordLog_def)
  show "ring_view (newRecordLog n) = []" for n
    by (simp add: ring_view_def newRecordLog_def)
  show "length (ring_view l) \<le> nat n" if "ring_inv n l" for n l
    using that by (auto simp: ring_inv_def)
  show "\<exists>l'. recordLog_add l x = Some l' \<and> ring_inv n l' \<and> ring_view l' = take (nat n) (x # ring_view l)"
    if "ring_inv n l" for n l x
    using that by (rule ring_add)
  show "\<exists>l'. toSlice l = Some (ring_view l, l') \<and> ring_inv n l' \<and> ring_view l' = ring_view l"
    if "ring_inv n l" for n l
    using that by (rule ring_slice)
qed

lemma add_all_adds: "add_all l rs = ring.adds l rs"
  by (induction rs arbitrary: l) (auto split: option.splits)

subsection \<open>The history keeps the newest records of every pool\<close>

fun record_all :: "History \<Rightarrow> (string \<times> Record) list \<Rightarrow> History option" where
  "record_all h [] = Some h"
| "record_all h ((key, r) # rs) =
     (case addRecord h key r of None \<Rightarrow> None | Some h' \<Rightarrow> record_all h' rs)"

definition records_of :: "string \<Rightarrow> (string \<times> Record) list \<Rightarrow> Record list" where
  "records_of key rs = map snd (filter (\<lambda>(k, _). k = key) rs)"

definition history_inv :: "int \<Rightarrow> History \<Rightarrow> bool" where
  "history_inv n h \<longleftrightarrow> h_logSizeLimit h = n \<and> 0 < n \<and> distinct (map fst (h_logs h))
     \<and> (\<forall>k l. map_of (h_logs h) k = Some l \<longrightarrow> ring_inv n l)"

definition history_view :: "History \<Rightarrow> string \<Rightarrow> Record list" where
  "history_view h key = (case map_of (h_logs h) key of None \<Rightarrow> [] | Some l \<Rightarrow> ring_view l)"

lemma addRecord_ok:
  assumes "history_inv n h"
  shows "\<exists>h'. addRecord h key r = Some h' \<and> history_inv n h'
    \<and> history_view h' = (history_view h)(key := take (nat n) (r # history_view h key))"
proof -
  define l where "l = (case map_of (h_logs h) key of None \<Rightarrow> newRecordLog n | Some l \<Rightarrow> l)"
  have l: "ring_inv n l" "ring_view l = history_view h key"
    using assms ring.new_inv ring.new_view
    by (auto simp: l_def history_inv_def history_view_def split: option.splits)
  obtain l' where l': "recordLog_add l r = Some l'" "ring_inv n l'"
    "ring_view l' = take (nat n) (r # history_view h key)"
    using ring.add_ok [OF l(1)] l(2) by metis
  let ?h = "h\<lparr>h_logs := AList.update key l' (h_logs h)\<rparr>"
  have "addRecord h key r = Some ?h"
    using l' assms by (auto simp: addRecord_def Let_def l_def history_inv_def)
  moreover have "history_inv n ?h"
    using assms l' by (auto simp: history_inv_def distinct_update update_conv')
  moreover have "history_view ?h = (history_view h)(key := take (nat n) (r # history_view h key))"
    using l' by (auto simp: history_view_def update_conv')
  ultimately show ?thesis by blast
qed

lemma record_all_ok:
  assumes "history_inv n h"
  shows "\<exists>h'. record_all h rs = Some h' \<and> history_inv n h'
    \<and> (\<forall>key. history_view h' key = take (nat n) (rev (records_of key rs) @ history_view h key))"
  using assms
proof (induction rs arbitrary: h)
  case Nil
  then have "length (history_view h key) \<le> nat n" for key
    using ring.view_length by (auto simp: history_view_def history_inv_def split: option.splits)
  then show ?case using Nil by (simp add: records_of_def)
next
  case (Cons kr rs)
  obtain k r where kr: "kr = (k, r)" by fastforce
  obtain h1 where h1: "addRecord h k r = Some h1" "history_inv n h1"
    "history_view h1 = (history_view h)(k := take (nat n) (r # history_view h k))"
    using addRecord_ok [OF Cons.prems] by blast
  obtain h' where "record_all h1 rs = Some h'" "history_inv n h'"
    "\<forall>key. history_view h' key = take (nat n) (rev (records_of key rs) @ history_view h1 key)"
    using Cons.IH [OF h1(2)] by blast
  then show ?case
    using h1 kr by (auto simp: records_of_def take_append_take take_Cons')
qed

lemma all_slices_ok:
  "\<forall>(k, l) \<in> set logs. ring_inv n l \<Longrightarrow>
   \<exists>logs'. all_slices logs = Some (map (\<lambda>(k, l). (k, ring_view l)) logs, logs')
     \<and> map fst logs' = map fst logs \<and> (\<forall>(k, l) \<in> set logs'. ring_inv n l)
     \<and> map (\<lambda>(k, l). (k, ring_view l)) logs' = map (\<lambda>(k, l). (k, ring_view l)) logs"
proof (induction logs)
  case (Cons kl logs)
  obtain k l where kl: "kl = (k, l)" by fastforce
  obtain l' where "toSlice l = Some (ring_view l, l')" "ring_inv n l'" "ring_view l' = ring_view l"
    using ring.slice_ok Cons.prems kl by fastforce
  then show ?case using Cons kl by fastforce
qed simp

lemma map_of_views:
  "map_of (map (\<lambda>(k, l). (k, ring_view l)) logs) key = map_option ring_view (map_of logs key)"
  by (simp add: map_of_map)

lemma AllRecords_ok:
  assumes "history_inv n h"
  shows "\<exists>h'. AllRecords h = Some (map (\<lambda>(k, l). (k, ring_view l)) (h_logs h), h')
    \<and> history_inv n h' \<and> history_view h' = history_view h"
proof -
  have "\<forall>(k, l) \<in> set (h_logs h). ring_inv n l"
    using assms by (auto simp: history_inv_def)
  then obtain logs' where logs': "all_slices (h_logs h) =
        Some (map (\<lambda>(k, l). (k, ring_view l)) (h_logs h), logs')"
      "map fst logs' = map fst (h_logs h)" "\<forall>(k, l) \<in> set logs'. ring_inv n l"
      "map (\<lambda>(k, l). (k, ring_view l)) logs' = map (\<lambda>(k, l). (k, ring_view l)) (h_logs h)"
    using all_slices_ok by blast
  have "map_option ring_view (map_of logs' key) = map_option ring_view (map_of (h_logs h) key)" for key
    using logs'(4) by (metis map_of_views)
  then have "history_view (h\<lparr>h_logs := logs'\<rparr>) key = history_view h key" for key
    by (auto simp: history_view_def option.map_sel split: option.splits) (metis option.map(1,2) option.sel option.distinct(1))+
  moreover have "history_inv n (h\<lparr>h_logs := logs'\<rparr>)"
    using assms logs' by (auto simp: history_inv_def dest: map_of_SomeD)
  ultimately show ?thesis
    using logs'(1) by (auto simp: AllRecords_def)
qed

lemma load_logs_ok:
  assumes "0 < m"
  shows "\<exists>logs. load_logs m recs = Some logs \<and> map fst logs = map fst recs
    \<and> (\<forall>(k, l) \<in> set logs. ring_inv m l)
    \<and> map (\<lambda>(k, l). (k, ring_view l)) logs = map (\<lambda>(k, rs). (k, take (nat m) rs)) recs"
proof (induction recs)
  case (Cons kr recs)
  obtain k rs where kr: "kr = (k, rs)" by fastforce
  obtain l where "add_all (newRecordLog m) (rev (take (nat m) rs)) = Some l" "ring_inv m l"
    "ring_view l = take (nat m) rs"
    using ring.adds_new [OF assms, of "rev (take (nat m) rs)"] by (auto simp: add_all_adds)
  then show ?case using Cons kr by fastforce
qed simp

subsection \<open>Properties\<close>

definition empty_History :: "int \<Rightarrow> string \<Rightarrow> History" where
  "empty_History n path = \<lparr>h_logs = [], h_logSizeLimit = n, h_path = path\<rparr>"

lemma empty_History_inv: "0 < n \<Longrightarrow> history_inv n (empty_History n path)"
  and empty_History_view: "history_view (empty_History n path) key = []"
  by (simp_all add: history_inv_def history_view_def empty_History_def)

definition slice_of :: "(string \<times> Record list) list \<Rightarrow> string \<Rightarrow> Record list" where
  "slice_of recs key = (case map_of recs key of None \<Rightarrow> [] | Some rs \<Rightarrow> rs)"

lemma slice_of_views: "slice_of (map (\<lambda>(k, l). (k, ring_view l)) (h_logs h)) = history_view h"
  by (rule ext) (auto simp: slice_of_def history_view_def map_of_views split: option.splits)

text \<open>
  C9: With a positive limit, recording actions never fails, and \<open>AllRecords\<close> then returns for
  every pool its newest records, as many as the limit allows, newest first, whatever was
  recorded for other pools: the ring buffers with their cached slices implement exactly that.
\<close>

theorem history_keeps_newest:
  assumes "0 < n"
  shows "\<exists>h res h'. record_all (empty_History n path) rs = Some h \<and> AllRecords h = Some (res, h')
    \<and> (\<forall>key. slice_of res key = take (nat n) (rev (records_of key rs)))"
proof -
  obtain h where h: "record_all (empty_History n path) rs = Some h" "history_inv n h"
    "\<forall>key. history_view h key = take (nat n) (rev (records_of key rs))"
    using record_all_ok [OF empty_History_inv [OF assms], of path rs]
    by (auto simp: empty_History_view)
  then show ?thesis
    using AllRecords_ok [OF h(2)] slice_of_views by metis
qed

definition sample_Record :: "string \<Rightarrow> Record" where
  "sample_Record action =
     \<lparr>rec_Time = 0, rec_Action = action, rec_BaseSHA = [], rec_Target = [], rec_Err = []\<rparr>"

theorem history_keeps_newest_witness:
  "\<exists>h res h'. record_all (empty_History 2 [])
       [(''p'', sample_Record ''a''), (''q'', sample_Record ''x''), (''p'', sample_Record ''b''),
        (''p'', sample_Record ''c'')] = Some h
     \<and> AllRecords h = Some (res, h')
     \<and> slice_of res ''p'' = [sample_Record ''c'', sample_Record ''b'']"
  using history_keeps_newest [of 2 "[]"
      "[(''p'', sample_Record ''a''), (''q'', sample_Record ''x''), (''p'', sample_Record ''b''),
        (''p'', sample_Record ''c'')]"]
  by (force simp: records_of_def)

text \<open>
  C11: Flushing a history and loading it again (decoding undoes encoding) gives back for every
  pool what it showed, cut to the limit of the new history.
\<close>

theorem history_round_trip:
  assumes json: "\<forall>r s. marshal r = Inr s \<longrightarrow> unmarshal s = Inr r"
    and "history_inv n h" and "0 < m" and "h_path h = path"
    and "Flush marshal w h = Some (h', Some raw)"
  shows "\<exists>h2. New unmarshal m (Content raw) path = Some (Inr h2) \<and> history_inv m h2
    \<and> (\<forall>key. history_view h2 key = take (nat m) (history_view h key))"
proof -
  let ?recs = "map (\<lambda>(k, l). (k, ring_view l)) (h_logs h)"
  obtain h'' where "AllRecords h = Some (?recs, h'')" using AllRecords_ok [OF assms(2)] by blast
  then have "marshal ?recs = Inr raw" and path: "path \<noteq> []"
    using assms(4,5) by (auto simp: Flush_def writeHistory_def split: if_splits option.splits sum.splits)
  then have raw: "unmarshal raw = Inr ?recs" using json by blast
  obtain logs where logs: "load_logs m ?recs = Some logs" "map fst logs = map fst ?recs"
    "\<forall>(k, l) \<in> set logs. ring_inv m l"
    "map (\<lambda>(k, l). (k, ring_view l)) logs = map (\<lambda>(k, rs). (k, take (nat m) rs)) ?recs"
    using load_logs_ok [OF \<open>0 < m\<close>] by blast
  let ?h2 = "\<lparr>h_logs = logs, h_logSizeLimit = m, h_path = path\<rparr>"
  have new: "New unmarshal m (Content raw) path = Some (Inr ?h2)"
    using raw logs(1) path by (simp add: New_def readHistory_def)
  have "map fst logs = map fst (h_logs h)"
    using logs(2) by (simp add: comp_def split_def)
  then have "distinct (map fst logs)"
    using assms(2) by (simp add: history_inv_def)
  then have inv: "history_inv m ?h2"
    using assms(3) logs(3) by (auto simp: history_inv_def)
  have "history_view ?h2 key = slice_of (map (\<lambda>(k, rs). (k, take (nat m) rs)) ?recs) key" for key
    using slice_of_views [of ?h2] logs(4) by (simp add: fun_eq_iff)
  also have "\<dots> key = take (nat m) (slice_of ?recs key)" for key
    by (simp add: slice_of_def map_of_map split: option.splits del: map_map)
  finally show ?thesis
    using new inv slice_of_views [of h] by auto
qed

definition sample_History :: History where
  "sample_History = \<lparr>h_logs = [(''p'', \<lparr>rl_buff = [sample_Record ''a''], rl_head = 0, rl_limit = 1,
     rl_cachedSlice = None\<rparr>)], h_logSizeLimit = 1, h_path = ''gs://bucket''\<rparr>"

theorem history_round_trip_witness:
  "let recs = [(''p'', [sample_Record ''a''])];
       marshal = (\<lambda>r. if r = recs then Inr ''json'' else Inl ''unsupported'');
       unmarshal = (\<lambda>s. if s = ''json'' then Inr recs else Inl ''syntax'')
   in \<exists>h2. New unmarshal 5 (Content ''json'') ''gs://bucket'' = Some (Inr h2)
        \<and> history_view h2 ''p'' = [sample_Record ''a'']"
proof -
  let ?recs = "[(''p'', [sample_Record ''a''])]"
  let ?marshal = "\<lambda>r. if r = ?recs then Inr ''json'' else Inl ''unsupported''"
  let ?unmarshal = "\<lambda>s. if s = ''json'' then Inr ?recs else Inl ''syntax''"
  let ?w = "\<lparr>we_open = None, we_write = None, we_close = None\<rparr>"
  have inv: "history_inv 1 sample_History"
    by (auto simp: history_inv_def sample_History_def ring_inv_def split: if_splits)
  have view: "history_view sample_History ''p'' = [sample_Record ''a'']"
    by (simp add: history_view_def sample_History_def ring_view_def)
  obtain h' where flush: "Flush ?marshal ?w sample_History = Some (h', Some ''json'')"
    by (simp add: Flush_def sample_History_def AllRecords_def toSlice_def writeHistory_def)
  show ?thesis
    using history_round_trip [OF _ inv _ _ flush, of ?unmarshal 5 "''gs://bucket''"] view
    by (force simp: sample_History_def Let_def split: if_splits)
qed

text \<open>
  A limit that is not positive is not caught when the history is created: the first record
  of a pool then panics (a division by zero, or an index out of range).
\<close>

theorem history_limit_panics:
  assumes "n \<le> 0"
  shows "addRecord (empty_History n path) key r = None"
  using assms
  by (auto simp: addRecord_def empty_History_def recordLog_add_def newRecordLog_def go_rem_def Let_def)

theorem history_limit_panics_witness:
  "addRecord (empty_History 0 []) ''pool'' (sample_Record ''MERGE'') = None"
  using history_limit_panics [of 0] by simp

end
