(* ===== verification/Pjutil.thy ===== *)
theory Pjutil
  imports Config_Jobs
begin

text \<open>
  Helpers on ProwJobs, \<open>src/pjutil\<close> (\<open>pjutil.go\<close>, \<open>filter.go\<close>, \<open>abort.go\<close>) with the labels of
  \<open>src/pod-utils/decorate/podspec.go\<close>: making jobs from their configuration, choosing the
  presubmits a comment asks for, and aborting jobs that a newer one supersedes.

  The name of a new job (\<open>uuid.NewV1\<close>) and the clock are arguments.
  \<open>validation.IsValidLabelValue\<close> of the Kubernetes libraries is the parameter \<open>valid_label\<close>.
\<close>

subsection \<open>Labels and annotations\<close>

definition CreatedByProw :: string where "CreatedByProw = ''created-by-prow''"
definition ProwJobTypeLabel :: string where "ProwJobTypeLabel = ''prow.k8s.io/type''"
definition ProwJobAnnotation :: string where "ProwJobAnnotation = ''prow.k8s.io/job''"
definition OrgLabel :: string where "OrgLabel = ''prow.k8s.io/refs.org''"
definition RepoLabel :: string where "RepoLabel = ''prow.k8s.io/refs.repo''"
definition PullLabel :: string where "PullLabel = ''prow.k8s.io/refs.pull''"
definition EventGUID :: string where "EventGUID = ''event-GUID''"
definition LabelValueMaxLength :: nat where "LabelValueMaxLength = 63"

lemmas label_keys = CreatedByProw_def ProwJobTypeLabel_def ProwJobAnnotation_def OrgLabel_def
  RepoLabel_def PullLabel_def EventGUID_def

definition trim_right :: "string \<Rightarrow> string \<Rightarrow> string" where
  "trim_right s cutset = rev (dropWhile (\<lambda>c. c \<in> set cutset) (rev s))"

text \<open>\<open>filepath.Base\<close>.\<close>

definition path_base :: "string \<Rightarrow> string" where
  "path_base p =
     (if p = [] then ''.''
      else
        (let s = trim_right p ''/''
         in if s = [] then ''/'' else last (split_on (CHR ''/'') s)))"

definition job_name_label :: "string \<Rightarrow> string" where
  "job_name_label job =
     (if LabelValueMaxLength < length job then trim_right (take LabelValueMaxLength job) ''.-'' else job)"

text \<open>Each entry is checked on its own, so the order of the range does not matter.\<close>

definition LabelsAndAnnotationsForSpec ::
    "(string \<Rightarrow> bool) \<Rightarrow> ProwJobSpec \<Rightarrow> (string \<rightharpoonup> string) \<Rightarrow> (string \<rightharpoonup> string)
     \<Rightarrow> (string \<rightharpoonup> string) \<times> (string \<rightharpoonup> string)" where
  "LabelsAndAnnotationsForSpec valid_label spec extraLabels extraAnnotations =
     (let labels0 = [CreatedByProw \<mapsto> ''true'', ProwJobTypeLabel \<mapsto> job_type_string (spec_Type spec),
                     ProwJobAnnotation \<mapsto> job_name_label (spec_Job spec)];
          labels1 =
            (case spec_Refs spec of
               Some refs \<Rightarrow>
                 if spec_Type spec \<noteq> PeriodicJob then
                   (let l = labels0(OrgLabel \<mapsto> refs_Org refs, RepoLabel \<mapsto> refs_Repo refs)
                    in case refs_Pulls refs of
                         [] \<Rightarrow> l
                       | pull # _ \<Rightarrow> l(PullLabel \<mapsto> itoa (pull_Number pull)))
                 else labels0
             | None \<Rightarrow> labels0);
          labels2 = labels1 ++ extraLabels;
          labels = (\<lambda>key. case labels2 key of
                      None \<Rightarrow> None
                    | Some v \<Rightarrow>
                        if valid_label v then Some v
                        else if valid_label (path_base v) then Some (path_base v)
                        else None)
      in (labels, [ProwJobAnnotation \<mapsto> spec_Job spec] ++ extraAnnotations))"

subsection \<open>Making jobs\<close>

definition zero_ProwJobStatus :: ProwJobStatus where
  "zero_ProwJobStatus =
     \<lparr>st_StartTime = 0, st_PendingTime = None, st_CompletionTime = None, st_State = TriggeredState,
      st_Description = [], st_URL = [], st_PodName = [], st_BuildID = [], st_JenkinsBuildID = [],
      st_PrevReportStates = Map.empty\<rparr>"

definition NewProwJob ::
    "(string \<Rightarrow> bool) \<Rightarrow> string \<Rightarrow> time \<Rightarrow> ProwJobSpec \<Rightarrow> (string \<rightharpoonup> string) \<Rightarrow> (string \<rightharpoonup> string) \<Rightarrow> ProwJob" where
  "NewProwJob valid_label name now spec extraLabels extraAnnotations =
     (let (labels, annotations) =
            LabelsAndAnnotationsForSpec valid_label spec extraLabels extraAnnotations
      in \<lparr>pj_APIVersion = ''prow.k8s.io/v1'', pj_Kind = ''ProwJob'', pj_Name = name, pj_Namespace = [],
          pj_Labels = labels, pj_Annotations = annotations, pj_CreationTimestamp = 0, pj_Spec = spec,
          pj_Status = zero_ProwJobStatus\<lparr>st_StartTime := now, st_State := TriggeredState\<rparr>\<rparr>)"

text \<open>The fields of \<open>github.PullRequest\<close> that are read here.\<close>

record GitHubPullRequest =
  ghpr_Number :: int
  ghpr_HTMLURL :: string
  ghpr_User_Login :: string
  ghpr_User_HTMLURL :: string
  ghpr_Base_Ref :: string
  ghpr_Base_Org :: string
  ghpr_Base_Repo :: string
  ghpr_Base_HTMLURL :: string
  ghpr_Head_SHA :: string

definition zero_Refs :: Refs where
  "zero_Refs = \<lparr>refs_Org = [], refs_Repo = [], refs_RepoLink = [], refs_BaseRef = [], refs_BaseSHA = [],
     refs_BaseLink = [], refs_Pulls = [], refs_PathAlias = [], refs_WorkDir = False, refs_CloneURI = [],
     refs_SkipSubmodules = False, refs_CloneDepth = 0\<rparr>"

definition createRefs :: "GitHubPullRequest \<Rightarrow> string \<Rightarrow> Refs" where
  "createRefs pr baseSHA =
     (let repoLink = ghpr_Base_HTMLURL pr; number = ghpr_Number pr
      in zero_Refs\<lparr>refs_Org := ghpr_Base_Org pr, refs_Repo := ghpr_Base_Repo pr, refs_RepoLink := repoLink,
           refs_BaseRef := ghpr_Base_Ref pr, refs_BaseSHA := baseSHA,
           refs_BaseLink := repoLink @ ''/commit/'' @ baseSHA,
           refs_Pulls := [\<lparr>pull_Number = number, pull_Author = ghpr_User_Login pr,
             pull_SHA = ghpr_Head_SHA pr, pull_Title = [], pull_Ref = [], pull_Link = ghpr_HTMLURL pr,
             pull_CommitLink = repoLink @ ''/pull/'' @ itoa number @ ''/commits/'' @ ghpr_Head_SHA pr,
             pull_AuthorLink = ghpr_User_HTMLURL pr\<rparr>]\<rparr>)"

text \<open>The type is the zero value of a string in the source until the caller sets it.\<close>

definition specFromJobBase :: "ProwJobType \<Rightarrow> JobBase \<Rightarrow> ProwJobSpec" where
  "specFromJobBase type jb =
     \<lparr>spec_Type = type, spec_Agent = jb_Agent jb, spec_Cluster = jb_Cluster jb,
      spec_Namespace = (case jb_Namespace jb of None \<Rightarrow> [] | Some n \<Rightarrow> n), spec_Job = jb_Name jb,
      spec_Refs = None, spec_ExtraRefs = uc_ExtraRefs jb, spec_Report = False, spec_Context = [],
      spec_RerunCommand = [], spec_MaxConcurrency = jb_MaxConcurrency jb,
      spec_ErrorOnEviction = jb_ErrorOnEviction jb, spec_PodSpec = jb_Spec jb, spec_JenkinsSpec = None,
      spec_PipelineRunSpec = jb_PipelineRunSpec jb, spec_DecorationConfig = uc_DecorationConfig jb,
      spec_ReporterConfig = jb_ReporterConfig jb, spec_RerunAuthConfig = jb_RerunAuthConfig jb,
      spec_Hidden = jb_Hidden jb\<rparr>"

definition CompletePrimaryRefs :: "Refs \<Rightarrow> JobBase \<Rightarrow> Refs option" where
  "CompletePrimaryRefs refs jb =
     Some (refs\<lparr>refs_PathAlias := (if uc_PathAlias jb \<noteq> [] then uc_PathAlias jb else refs_PathAlias refs),
                refs_CloneURI := (if uc_CloneURI jb \<noteq> [] then uc_CloneURI jb else refs_CloneURI refs),
                refs_SkipSubmodules := uc_SkipSubmodules jb, refs_CloneDepth := uc_CloneDepth jb\<rparr>)"

definition PresubmitSpec :: "Presubmit \<Rightarrow> Refs \<Rightarrow> ProwJobSpec" where
  "PresubmitSpec p refs =
     (specFromJobBase PresubmitJob (ps_JobBase p))\<lparr>
        spec_Context := ps_Context p, spec_Report := \<not> rep_SkipReport (ps_Reporter p),
        spec_RerunCommand := ps_RerunCommand p, spec_JenkinsSpec := ps_JenkinsSpec p,
        spec_Refs := CompletePrimaryRefs refs (ps_JobBase p)\<rparr>"

definition PostsubmitSpec :: "Postsubmit \<Rightarrow> Refs \<Rightarrow> ProwJobSpec" where
  "PostsubmitSpec p refs =
     (specFromJobBase PostsubmitJob (post_JobBase p))\<lparr>
        spec_Context := rep_Context (post_Reporter p), spec_Report := \<not> rep_SkipReport (post_Reporter p),
        spec_Refs := CompletePrimaryRefs refs (post_JobBase p), spec_JenkinsSpec := post_JenkinsSpec p\<rparr>"

definition PeriodicSpec :: "Periodic \<Rightarrow> ProwJobSpec" where
  "PeriodicSpec p = specFromJobBase PeriodicJob (per_JobBase p)"

definition BatchSpec :: "Presubmit \<Rightarrow> Refs \<Rightarrow> ProwJobSpec" where
  "BatchSpec p refs =
     (specFromJobBase BatchJob (ps_JobBase p))\<lparr>
        spec_Context := ps_Context p, spec_Refs := CompletePrimaryRefs refs (ps_JobBase p)\<rparr>"

definition NewPresubmit ::
    "(string \<Rightarrow> bool) \<Rightarrow> string \<Rightarrow> time \<Rightarrow> GitHubPullRequest \<Rightarrow> string \<Rightarrow> Presubmit \<Rightarrow> string \<Rightarrow> ProwJob" where
  "NewPresubmit valid_label name now pr baseSHA job eventGUID =
     NewProwJob valid_label name now (PresubmitSpec job (createRefs pr baseSHA))
       ((jb_Labels (ps_JobBase job))(EventGUID \<mapsto> eventGUID)) (jb_Annotations (ps_JobBase job))"

subsection \<open>Sorting jobs\<close>

text \<open>The two closed channels are the lists of what they hold.\<close>

definition PartitionActive :: "ProwJob list \<Rightarrow> ProwJob list \<times> ProwJob list" where
  "PartitionActive pjs =
     (filter (\<lambda>pj. pj_State pj = PendingState) pjs, filter (\<lambda>pj. pj_State pj = TriggeredState) pjs)"

fun latest_loop :: "ProwJobType \<Rightarrow> ProwJob list \<Rightarrow> (string \<rightharpoonup> ProwJob) \<Rightarrow> (string \<rightharpoonup> ProwJob)" where
  "latest_loop jobType [] latestJobs = latestJobs"
| "latest_loop jobType (j # js) latestJobs =
     (if pj_Type j \<noteq> jobType then latest_loop jobType js latestJobs
      else
        (let name = spec_Job (pj_Spec j);
             start = (case latestJobs name of None \<Rightarrow> zero_time | Some l \<Rightarrow> pj_StartTime l)
         in if start < pj_StartTime j then latest_loop jobType js (latestJobs(name \<mapsto> j))
            else latest_loop jobType js latestJobs))"

definition GetLatestProwJobs :: "ProwJob list \<Rightarrow> ProwJobType \<Rightarrow> (string \<rightharpoonup> ProwJob)" where
  "GetLatestProwJobs pjs jobType = latest_loop jobType pjs Map.empty"

definition ClusterToCtx :: "string \<Rightarrow> string" where
  "ClusterToCtx cluster = (if cluster = [] then DefaultClusterAlias else cluster)"

subsection \<open>Properties\<close>

text \<open>
  The labels of a job are all valid label values; a valid label of the configuration is
  kept as it is, over an automatic one of the same name; and the annotation with the full job
  name is there unless the configuration overrides it.
\<close>

theorem labels_valid:
  "case LabelsAndAnnotationsForSpec valid_label spec extraLabels extraAnnotations of
     (labels, annotations) \<Rightarrow>
       (\<forall>key v. labels key = Some v \<longrightarrow> valid_label v)
       \<and> (\<forall>key v. extraLabels key = Some v \<and> valid_label v \<longrightarrow> labels key = Some v)
       \<and> (extraAnnotations ProwJobAnnotation = None \<longrightarrow>
            annotations ProwJobAnnotation = Some (spec_Job spec))"
  unfolding LabelsAndAnnotationsForSpec_def Let_def prod.case
  by (auto simp: map_add_def fun_upd_same simp del: fun_upd_apply split: option.splits if_splits)

definition sample_PeriodicSpec :: ProwJobSpec where
  "sample_PeriodicSpec = PeriodicSpec \<lparr>per_JobBase = sample_JobBase ''nightly'', per_Interval = [],
     per_Cron = [], per_Tags = [], per_interval = 0\<rparr>"

theorem labels_valid_witness:
  "fst (LabelsAndAnnotationsForSpec (\<lambda>v. v \<noteq> ''bad'') sample_PeriodicSpec [CreatedByProw \<mapsto> ''me'']
     Map.empty) CreatedByProw = Some ''me''"
proof -
  obtain labels annotations where eq: "LabelsAndAnnotationsForSpec (\<lambda>v. v \<noteq> ''bad'') sample_PeriodicSpec
      [CreatedByProw \<mapsto> ''me''] Map.empty = (labels, annotations)"
    by fastforce
  have "labels CreatedByProw = Some ''me''"
    by (rule labels_valid [where valid_label = "\<lambda>v. v \<noteq> ''bad''" and spec = sample_PeriodicSpec
        and extraLabels = "[CreatedByProw \<mapsto> ''me'']" and extraAnnotations = Map.empty,
        unfolded eq prod.case, THEN conjunct2, THEN conjunct1, rule_format]) simp
  then show ?thesis by (simp add: eq)
qed

lemma latest_loop_invariant:
  assumes "\<forall>name j. latest name = Some j \<longrightarrow> 0 < pj_StartTime j"
  shows "case latest_loop jobType js latest name of
      None \<Rightarrow> latest name = None
        \<and> (\<forall>j \<in> set js. pj_Type j = jobType \<and> spec_Job (pj_Spec j) = name \<longrightarrow> pj_StartTime j \<le> 0)
    | Some l \<Rightarrow> 0 < pj_StartTime l
        \<and> (latest name = Some l \<or> l \<in> set js \<and> pj_Type l = jobType \<and> spec_Job (pj_Spec l) = name)
        \<and> (\<forall>j. latest name = Some j \<longrightarrow> pj_StartTime j \<le> pj_StartTime l)
        \<and> (\<forall>j \<in> set js. pj_Type j = jobType \<and> spec_Job (pj_Spec j) = name \<longrightarrow> pj_StartTime j \<le> pj_StartTime l)"
  using assms
proof (induction js arbitrary: latest)
  case (Cons j js)
  define start where "start = (case latest (spec_Job (pj_Spec j)) of None \<Rightarrow> 0 | Some l \<Rightarrow> pj_StartTime l)"
  have start: "0 \<le> start"
    using Cons.prems by (auto simp: start_def less_imp_le split: option.splits)
  show ?case
  proof (cases "pj_Type j = jobType \<and> start < pj_StartTime j")
    case True
    then have step: "latest_loop jobType (j # js) latest = latest_loop jobType js (latest(spec_Job (pj_Spec j) \<mapsto> j))"
      by (simp add: start_def Let_def)
    have "\<forall>name k. (latest(spec_Job (pj_Spec j) \<mapsto> j)) name = Some k \<longrightarrow> 0 < pj_StartTime k"
      using Cons.prems True start by auto
    then show ?thesis
      using Cons.IH [of "latest(spec_Job (pj_Spec j) \<mapsto> j)"] step True
      by (fastforce simp: start_def split: option.splits if_splits)
  next
    case False
    then have step: "latest_loop jobType (j # js) latest = latest_loop jobType js latest"
      by (auto simp: start_def Let_def)
    have "pj_StartTime j \<le> start" if "pj_Type j = jobType"
      using False that by simp
    then show ?thesis
      using Cons.IH [of latest] Cons.prems step by (fastforce simp: start_def split: option.splits)
  qed
qed (auto split: option.splits)

text \<open>
  \<open>GetLatestProwJobs\<close> gives for every job name a job of the type and name with the latest
  start time, and gives none only if no such job was started after the zero time.
\<close>

theorem latest_prow_jobs:
  "case GetLatestProwJobs pjs jobType name of
     None \<Rightarrow> \<forall>j \<in> set pjs. pj_Type j = jobType \<and> spec_Job (pj_Spec j) = name \<longrightarrow> pj_StartTime j \<le> 0
   | Some l \<Rightarrow> l \<in> set pjs \<and> pj_Type l = jobType \<and> spec_Job (pj_Spec l) = name
       \<and> (\<forall>j \<in> set pjs. pj_Type j = jobType \<and> spec_Job (pj_Spec j) = name \<longrightarrow> pj_StartTime j \<le> pj_StartTime l)"
  using latest_loop_invariant [where latest = Map.empty and jobType = jobType and js = pjs and name = name]
  by (auto simp: GetLatestProwJobs_def split: option.splits)

definition sample_started :: "string \<Rightarrow> time \<Rightarrow> ProwJob" where
  "sample_started name start =
     NewProwJob (\<lambda>_. True) name start (specFromJobBase PeriodicJob (sample_JobBase ''nightly'')) Map.empty Map.empty"

theorem latest_prow_jobs_witness:
  "\<exists>l. GetLatestProwJobs [sample_started ''a'' 2, sample_started ''b'' 5, sample_started ''c'' 3]
       PeriodicJob ''nightly'' = Some l \<and> 5 \<le> pj_StartTime l"
proof -
  have "pj_Type (sample_started n t) = PeriodicJob \<and> spec_Job (pj_Spec (sample_started n t)) = ''nightly''
      \<and> pj_StartTime (sample_started n t) = t" for n t
    by (simp add: sample_started_def NewProwJob_def specFromJobBase_def sample_JobBase_def split: prod.splits)
  then show ?thesis
    using latest_prow_jobs [where pjs = "[sample_started ''a'' 2, sample_started ''b'' 5, sample_started ''c'' 3]"
        and jobType = PeriodicJob and name = "''nightly''"]
    by (auto split: option.splits)
qed

end
