(* ===== verification/Tide_Action.thy ===== *)
theory Tide_Action
  imports Tide_Accumulate Tide_Merge Tide_Blockers Tide_History Pjutil "HOL-Library.Sublist"
begin

text \<open>
  What tide does with a subpool, \<open>src/tide/tide.go\<close>: picking a batch, triggering tests, taking
  one action, and the sync of one subpool.

  The services the controller talks to are the record \<open>tide_env\<close>: the configuration, the
  GitHub client (statuses, changed files, merges), the git client, and the API server that
  ProwJobs are created at.  What the controller changes is the record \<open>tide_state\<close>: the merge
  calls made, the jobs created, the cache of changed files and the history.
\<close>

subsection \<open>Data\<close>

datatype Action = Wait | Trigger | TriggerBatch | Merge | MergeBatch | PoolBlocked

primrec action_string :: "Action \<Rightarrow> string" where
  "action_string Wait = ''WAIT''"
| "action_string Trigger = ''TRIGGER''"
| "action_string TriggerBatch = ''TRIGGER_BATCH''"
| "action_string Merge = ''MERGE''"
| "action_string MergeBatch = ''MERGE_BATCH''"
| "action_string PoolBlocked = ''BLOCKED''"

definition recordableActions :: "Action \<Rightarrow> bool" where
  "recordableActions act \<longleftrightarrow> act \<in> {Trigger, TriggerBatch, Merge, MergeBatch}"

record Pool =
  pool_Org :: string
  pool_Repo :: string
  pool_Branch :: string
  pool_SuccessPRs :: "PullRequest list"
  pool_PendingPRs :: "PullRequest list"
  pool_MissingPRs :: "PullRequest list"
  pool_BatchPending :: "PullRequest list"
  pool_Action :: Action
  pool_Target :: "PullRequest list"
  pool_Blockers :: "Blocker list"
  pool_Error :: string

text \<open>
  The git repository: cloning, setting a config key, checking out, and merging a head given
  those merged before (true, a conflict, or an error that leaves it in a bad state).
\<close>

record git_ops =
  git_Clone :: "string \<Rightarrow> error option"
  git_Config :: "string \<Rightarrow> string \<Rightarrow> error option"
  git_Checkout :: "string \<Rightarrow> error option"
  git_Merge :: "string list \<Rightarrow> string \<Rightarrow> bool result"

record tide_env =
  env_cfg :: Config
  env_ProwJobNamespace :: string
  env_status :: combined_status
  env_changes :: changes_client
  env_merge :: merger
  env_git :: git_ops
  env_create :: "ProwJob list \<Rightarrow> ProwJob \<Rightarrow> error option"
  env_valid_label :: "string \<Rightarrow> bool"
  env_uuid :: "nat \<Rightarrow> string"
  env_now :: time
  env_batch_iter :: "(string \<times> accState) list \<Rightarrow> (string \<times> accState) list"

record tide_state =
  ts_calls :: "merge_call list"
  ts_created :: "ProwJob list"
  ts_agent :: changedFilesAgent
  ts_history :: History

definition poolKey :: "string \<Rightarrow> string \<Rightarrow> string \<Rightarrow> string" where
  "poolKey org repo branch = org @ ''/'' @ repo @ '':'' @ branch"

definition prMeta :: "PullRequest list \<Rightarrow> Pull list" where
  "prMeta prs = map (\<lambda>pr. \<lparr>pull_Number = pr_Number pr, pull_Author = pr_Author pr,
     pull_SHA = pr_HeadRefOID pr, pull_Title = pr_Title pr, pull_Ref = [], pull_Link = [],
     pull_CommitLink = [], pull_AuthorLink = []\<rparr>) prs"

subsection \<open>Picking a batch\<close>

fun batch_merges ::
    "git_ops \<Rightarrow> int \<Rightarrow> PullRequest list \<Rightarrow> string list \<Rightarrow> PullRequest list \<Rightarrow> PullRequest list result" where
  "batch_merges git batchLimit [] merged res = Inr res"
| "batch_merges git batchLimit (pr # prs) merged res =
     (case git_Merge git merged (pr_HeadRefOID pr) of
        Inl err \<Rightarrow> Inl err
      | Inr ok \<Rightarrow>
          if ok then
            (let res' = res @ [pr]
             in if batchLimit > 0 \<and> int (length res') \<ge> batchLimit then Inr res'
                else batch_merges git batchLimit prs (merged @ [pr_HeadRefOID pr]) res')
          else batch_merges git batchLimit prs merged res)"

text \<open>Failing to set \<open>commit.gpgsign\<close> is only logged.\<close>

definition git_setup :: "git_ops \<Rightarrow> string \<Rightarrow> string \<Rightarrow> error option" where
  "git_setup git repo sha = first_error
     [git_Clone git repo, git_Config git ''user.name'' ''prow'', git_Config git ''user.email'' ''prow@localhost'',
      git_Checkout git sha]"

definition pickBatch ::
    "tide_env \<Rightarrow> subpool \<Rightarrow> changedFilesAgent \<Rightarrow> (PullRequest list \<times> Presubmit list) result \<times> changedFilesAgent" where
  "pickBatch env sp c =
     (let batchLimit = BatchSizeLimit (cfg_Tide (env_cfg env)) (sp_org sp) (sp_repo sp);
          candidates = filter (\<lambda>pr. isPassingTests (env_status env) pr (sp_cc sp (pr_Number pr)))
                         (sort_key pr_Number (sp_prs sp))
      in if batchLimit < 0 then (Inr ([], []), c)
         else if candidates = [] then (Inr ([], []), c)
         else
           (case git_setup (env_git env) (full_name (sp_org sp) (sp_repo sp)) (sp_sha sp) of
              Some err \<Rightarrow> (Inl err, c)
            | None \<Rightarrow>
                (case batch_merges (env_git env) batchLimit candidates [] [] of
                   Inl err \<Rightarrow> (Inl err, c)
                 | Inr res \<Rightarrow>
                     (case presubmitsForBatch (env_cfg env) (env_changes env) res (sp_org sp) (sp_repo sp)
                             (sp_sha sp) (sp_branch sp) c of
                        (Inl err, c') \<Rightarrow> (Inl err, c')
                      | (Inr presubmits, c') \<Rightarrow> (Inr (res, presubmits), c')))))"

subsection \<open>Triggering tests\<close>

definition trigger_refs :: "subpool \<Rightarrow> PullRequest list \<Rightarrow> Refs" where
  "trigger_refs sp prs =
     zero_Refs\<lparr>refs_Org := sp_org sp, refs_Repo := sp_repo sp, refs_BaseRef := sp_branch sp,
       refs_BaseSHA := sp_sha sp,
       refs_Pulls := map (\<lambda>pr. \<lparr>pull_Number = pr_Number pr, pull_Author = pr_Author pr,
         pull_SHA = pr_HeadRefOID pr, pull_Title = [], pull_Ref = [], pull_Link = [],
         pull_CommitLink = [], pull_AuthorLink = []\<rparr>) prs\<rparr>"

definition trigger_job :: "tide_env \<Rightarrow> subpool \<Rightarrow> PullRequest list \<Rightarrow> nat \<Rightarrow> Presubmit \<Rightarrow> ProwJob" where
  "trigger_job env sp prs n ps =
     (let refs = trigger_refs sp prs;
          spec = (if length prs = 1 then PresubmitSpec ps refs else BatchSpec ps refs);
          pj = NewProwJob (env_valid_label env) (env_uuid env n) (env_now env) spec
                 (jb_Labels (ps_JobBase ps)) (jb_Annotations (ps_JobBase ps))
      in pj\<lparr>pj_Namespace := env_ProwJobNamespace env\<rparr>)"

fun trigger_loop ::
    "tide_env \<Rightarrow> subpool \<Rightarrow> PullRequest list \<Rightarrow> Presubmit list \<Rightarrow> string list \<Rightarrow> ProwJob list
     \<Rightarrow> error option \<times> ProwJob list" where
  "trigger_loop env sp prs [] triggeredContexts created = (None, created)"
| "trigger_loop env sp prs (ps # pss) triggeredContexts created =
     (if ps_Context ps \<in> set triggeredContexts then trigger_loop env sp prs pss triggeredContexts created
      else
        (let pj = trigger_job env sp prs (length created) ps
         in case env_create env created pj of
              Some err \<Rightarrow>
                (Some (''failed to create a ProwJob for job: '' @ quote (spec_Job (pj_Spec pj)) @ '', PRs: ''
                       @ int_list_string (map pr_Number prs) @ '': '' @ err), created)
            | None \<Rightarrow> trigger_loop env sp prs pss (ps_Context ps # triggeredContexts) (created @ [pj])))"

definition trigger ::
    "tide_env \<Rightarrow> subpool \<Rightarrow> Presubmit list \<Rightarrow> PullRequest list \<Rightarrow> tide_state \<Rightarrow> error option \<times> tide_state" where
  "trigger env sp presubmits prs st =
     (let (err, created) = trigger_loop env sp prs presubmits [] (ts_created st)
      in (err, st\<lparr>ts_created := created\<rparr>))"

subsection \<open>Taking an action\<close>

definition merge_action ::
    "tide_env \<Rightarrow> subpool \<Rightarrow> PullRequest list \<Rightarrow> tide_state \<Rightarrow> error option \<times> tide_state" where
  "merge_action env sp prs st =
     (let (err, calls) = mergePRs (cfg_Tide (env_cfg env)) (env_merge env) sp prs (ts_calls st)
      in (err, st\<lparr>ts_calls := calls\<rparr>))"

definition pick_serial ::
    "tide_env \<Rightarrow> subpool \<Rightarrow> accumulated \<Rightarrow> tide_state \<Rightarrow> Action \<times> PullRequest list \<times> error option \<times> tide_state" where
  "pick_serial env sp a st =
     (if acc_missings a \<noteq> [] \<and> acc_pendings a = [] \<and> acc_successes a = [] then
        (case pickSmallestPassingNumber (env_status env) (acc_missings a) (sp_cc sp) of
           Some pr \<Rightarrow>
             (let (err, st') = trigger env sp (presubmits_of (acc_missingTests a) (pr_Number pr)) [pr] st
              in (Trigger, [pr], err, st'))
         | None \<Rightarrow> (Wait, [], None, st))
      else (Wait, [], None, st))"

definition takeAction ::
    "tide_env \<Rightarrow> subpool \<Rightarrow> PullRequest list \<Rightarrow> accumulated \<Rightarrow> PullRequest list \<Rightarrow> tide_state
     \<Rightarrow> Action \<times> PullRequest list \<times> error option \<times> tide_state" where
  "takeAction env sp batchPending a batchMerges st =
     (if batchMerges \<noteq> [] then
        (let (err, st') = merge_action env sp batchMerges st in (MergeBatch, batchMerges, err, st'))
      else
        (case (if acc_successes a \<noteq> [] \<and> batchPending = []
               then pickSmallestPassingNumber (env_status env) (acc_successes a) (sp_cc sp) else None) of
           Some pr \<Rightarrow> (let (err, st') = merge_action env sp [pr] st in (Merge, [pr], err, st'))
         | None \<Rightarrow>
             if sp_presubmits sp = [] then (Wait, [], None, st)
             else if length (sp_prs sp) > 1 \<and> batchPending = [] then
               (case pickBatch env sp (ts_agent st) of
                  (Inl err, c') \<Rightarrow> (Wait, [], Some err, st\<lparr>ts_agent := c'\<rparr>)
                | (Inr (batch, presubmits), c') \<Rightarrow>
                    (let st' = st\<lparr>ts_agent := c'\<rparr>
                     in if length batch > 1 then
                          (let (err, st'') = trigger env sp presubmits batch st'
                           in (TriggerBatch, batch, err, st''))
                        else pick_serial env sp a st'))
             else pick_serial env sp a st))"

text \<open>\<open>None\<close> is a panic of \<open>accumulate\<close>, \<open>accumulateBatch\<close> or the history.\<close>

definition syncSubpool ::
    "tide_env \<Rightarrow> subpool \<Rightarrow> Blocker list \<Rightarrow> tide_state \<Rightarrow> (Pool \<times> error option \<times> tide_state) option" where
  "syncSubpool env sp blocks st =
     (case accumulate (sp_presubmits sp) (sp_prs sp) (sp_pjs sp) of
        None \<Rightarrow> None
      | Some a \<Rightarrow>
          (case accumulateBatch (env_batch_iter env) (env_cfg env) (env_changes env) sp (ts_agent st) of
             None \<Rightarrow> None
           | Some ((batchMerge, batchPending), c') \<Rightarrow>
               (let st1 = st\<lparr>ts_agent := c'\<rparr>;
                    (act, targets, err, st2) =
                      (if blocks \<noteq> [] then (PoolBlocked, [], None, st1)
                       else takeAction env sp batchPending a batchMerge st1);
                    errorString = (case err of None \<Rightarrow> [] | Some e \<Rightarrow> e);
                    pool = \<lparr>pool_Org = sp_org sp, pool_Repo = sp_repo sp, pool_Branch = sp_branch sp,
                            pool_SuccessPRs = acc_successes a, pool_PendingPRs = acc_pendings a,
                            pool_MissingPRs = acc_missings a, pool_BatchPending = batchPending,
                            pool_Action = act, pool_Target = targets, pool_Blockers = blocks,
                            pool_Error = errorString\<rparr>
                in if blocks = [] \<and> recordableActions act then
                     map_option (\<lambda>h. (pool, err, st2\<lparr>ts_history := h\<rparr>))
                       (History_Record (ts_history st2) (env_now env)
                          (poolKey (sp_org sp) (sp_repo sp) (sp_branch sp)) (action_string act) (sp_sha sp)
                          errorString (prMeta targets))
                   else Some (pool, err, st2))))"

subsection \<open>The actions as a step relation\<close>

text \<open>
  What one action may be: each rule has the conditions under which it is taken and the work it
  does.  \<open>takeAction\<close> refines this relation; the order in which it tries the actions is left
  out of it.
\<close>

inductive action_step ::
    "tide_env \<Rightarrow> subpool \<Rightarrow> PullRequest list \<Rightarrow> accumulated \<Rightarrow> PullRequest list
     \<Rightarrow> tide_state \<Rightarrow> Action \<Rightarrow> PullRequest list \<Rightarrow> error option \<Rightarrow> tide_state \<Rightarrow> bool"
  for env sp batchPending a batchMerges where
  merge_batch:
    "batchMerges \<noteq> [] \<Longrightarrow> merge_action env sp batchMerges st = (err, st') \<Longrightarrow>
     action_step env sp batchPending a batchMerges st MergeBatch batchMerges err st'"
| merge_one:
    "batchMerges = [] \<Longrightarrow> batchPending = [] \<Longrightarrow> pr \<in> set (acc_successes a) \<Longrightarrow>
     candidate (env_status env) (sp_cc sp) pr \<Longrightarrow> merge_action env sp [pr] st = (err, st') \<Longrightarrow>
     action_step env sp batchPending a batchMerges st Merge [pr] err st'"
| trigger_batch:
    "batchMerges = [] \<Longrightarrow> batchPending = [] \<Longrightarrow> sp_presubmits sp \<noteq> [] \<Longrightarrow>
     pickBatch env sp (ts_agent st) = (Inr (batch, presubmits), c') \<Longrightarrow> 1 < length batch \<Longrightarrow>
     trigger env sp presubmits batch (st\<lparr>ts_agent := c'\<rparr>) = (err, st') \<Longrightarrow>
     action_step env sp batchPending a batchMerges st TriggerBatch batch err st'"
| trigger_one:
    "batchMerges = [] \<Longrightarrow> sp_presubmits sp \<noteq> [] \<Longrightarrow> pr \<in> set (acc_missings a) \<Longrightarrow>
     acc_pendings a = [] \<Longrightarrow> acc_successes a = [] \<Longrightarrow> candidate (env_status env) (sp_cc sp) pr \<Longrightarrow>
     trigger env sp (presubmits_of (acc_missingTests a) (pr_Number pr)) [pr] (st\<lparr>ts_agent := c'\<rparr>) = (err, st') \<Longrightarrow>
     action_step env sp batchPending a batchMerges st Trigger [pr] err st'"
| wait:
    "batchMerges = [] \<Longrightarrow> action_step env sp batchPending a batchMerges st Wait [] err (st\<lparr>ts_agent := c'\<rparr>)"

inductive_cases action_stepE: "action_step env sp batchPending a batchMerges st act targets err st'"

lemma pick_serial_step:
  assumes "pick_serial env sp a (st\<lparr>ts_agent := c'\<rparr>) = (act, targets, err, st')" and "sp_presubmits sp \<noteq> []"
  shows "action_step env sp batchPending a [] st act targets err st'"
  using assms pickSmallest_candidate [of "env_status env" "acc_missings a" "sp_cc sp"]
  by (auto simp: pick_serial_def split: if_splits option.splits prod.splits intro: trigger_one wait)

lemma takeAction_step:
  assumes "takeAction env sp batchPending a batchMerges st = (act, targets, err, st')"
  shows "action_step env sp batchPending a batchMerges st act targets err st'"
proof (cases "batchMerges = []")
  case False
  then show ?thesis
    using assms by (auto simp: takeAction_def split: prod.splits intro: merge_batch)
next
  case none: True
  have same: "st\<lparr>ts_agent := ts_agent st\<rparr> = st" by simp
  let ?pick = "if acc_successes a \<noteq> [] \<and> batchPending = []
    then pickSmallestPassingNumber (env_status env) (acc_successes a) (sp_cc sp) else None"
  show ?thesis
  proof (cases ?pick)
    case (Some pr)
    then have "batchPending = []" "pr \<in> set (acc_successes a)" "candidate (env_status env) (sp_cc sp) pr"
      using pickSmallest_candidate by (auto split: if_splits)
    then show ?thesis
      using assms none Some unfolding takeAction_def
      by (auto split: prod.splits intro: merge_one)
  next
    case no_pick: None
    note serial = pick_serial_step [where st = st and st' = st' and batchPending = batchPending]
    have wait': "action_step env sp batchPending a batchMerges st Wait [] e st" for e
      using wait [OF none, where st = st and c' = "ts_agent st"] same by simp
    show ?thesis
    proof (cases "sp_presubmits sp \<noteq> [] \<and> 1 < length (sp_prs sp) \<and> batchPending = []")
      case batch: True
      then show ?thesis
        using assms none no_pick serial unfolding takeAction_def
        by (auto simp: Let_def split: prod.splits sum.splits if_splits intro: trigger_batch wait)
    next
      case False
      then show ?thesis
        using assms none no_pick serial [where c' = "ts_agent st"] wait' same unfolding takeAction_def
        by (auto split: if_splits)
    qed
  qed
qed

subsection \<open>Merges, jobs and batches\<close>

lemma merge_action_asks:
  assumes "merge_action env sp prs st = (err, st')"
  shows "(\<exists>new. ts_calls st' = ts_calls st @ new
      \<and> (\<forall>call \<in> set new. \<exists>pr \<in> set prs. asks_merge (cfg_Tide (env_cfg env)) sp pr call))
    \<and> ts_created st' = ts_created st \<and> ts_history st' = ts_history st"
  using assms mergePRs_asks [of "cfg_Tide (env_cfg env)" "env_merge env" sp prs "ts_calls st" err]
  by (auto simp: merge_action_def split: prod.splits)

text \<open>A job that tests these pull requests at their heads on the base of the subpool.\<close>

definition tests_prs :: "subpool \<Rightarrow> PullRequest list \<Rightarrow> ProwJob \<Rightarrow> bool" where
  "tests_prs sp prs pj \<longleftrightarrow>
     pj_Type pj = (if length prs = 1 then PresubmitJob else BatchJob) \<and> pj_State pj = TriggeredState
     \<and> (\<exists>refs. spec_Refs (pj_Spec pj) = Some refs \<and> pulls_are refs prs \<and> refs_Org refs = sp_org sp
          \<and> refs_Repo refs = sp_repo sp \<and> refs_BaseRef refs = sp_branch sp \<and> refs_BaseSHA refs = sp_sha sp)"

lemma trigger_job_tests:
  "tests_prs sp prs (trigger_job env sp prs n ps)"
  "spec_Context (pj_Spec (trigger_job env sp prs n ps)) = ps_Context ps"
  by (auto simp: tests_prs_def trigger_job_def Let_def NewProwJob_def PresubmitSpec_def BatchSpec_def
      specFromJobBase_def CompletePrimaryRefs_def trigger_refs_def pulls_are_def zero_Refs_def
      split: prod.splits)

lemma trigger_loop_jobs:
  assumes "trigger_loop env sp prs pss seen created = (err, created')"
  shows "\<exists>jobs. created' = created @ jobs \<and> (\<forall>pj \<in> set jobs. tests_prs sp prs pj)
    \<and> distinct (map (\<lambda>pj. spec_Context (pj_Spec pj)) jobs)
    \<and> (\<forall>pj \<in> set jobs. spec_Context (pj_Spec pj) \<in> ps_Context ` set pss - set seen)
    \<and> (err = None \<longleftrightarrow> (\<lambda>pj. spec_Context (pj_Spec pj)) ` set jobs = ps_Context ` set pss - set seen)"
  using assms
proof (induction pss arbitrary: seen created)
  case (Cons ps pss)
  let ?ctx = "\<lambda>pj. spec_Context (pj_Spec pj)"
  show ?case
  proof (cases "ps_Context ps \<in> set seen")
    case True
    then have "ps_Context ` set (ps # pss) - set seen = ps_Context ` set pss - set seen" by auto
    then show ?thesis using Cons.IH [of seen created] Cons.prems True by simp
  next
    case new: False
    let ?pj = "trigger_job env sp prs (length created) ps"
    show ?thesis
    proof (cases "env_create env created ?pj")
      case (Some e)
      then have "created' = created" "err \<noteq> None" using Cons.prems new by (auto simp: Let_def)
      then show ?thesis using new by auto
    next
      case None
      then obtain jobs where jobs: "created' = (created @ [?pj]) @ jobs" "\<forall>pj \<in> set jobs. tests_prs sp prs pj"
        "distinct (map ?ctx jobs)" "\<forall>pj \<in> set jobs. ?ctx pj \<in> ps_Context ` set pss - set (ps_Context ps # seen)"
        "err = None \<longleftrightarrow> ?ctx ` set jobs = ps_Context ` set pss - set (ps_Context ps # seen)"
        using Cons.IH [of "ps_Context ps # seen" "created @ [?pj]"] Cons.prems new by (auto simp: Let_def)
      have "(?ctx ` set (?pj # jobs) = ps_Context ` set (ps # pss) - set seen)
          \<longleftrightarrow> ?ctx ` set jobs = ps_Context ` set pss - set (ps_Context ps # seen)"
        using jobs(4) new trigger_job_tests(2) [of env sp prs "length created" ps] by auto
      then show ?thesis
        using jobs new trigger_job_tests [where env = env and sp = sp and prs = prs and n = "length created" and ps = ps]
        by (intro exI [of _ "?pj # jobs"]) auto
    qed
  qed
qed auto

lemma trigger_jobs:
  assumes "trigger env sp presubmits prs st = (err, st')"
  shows "\<exists>jobs. ts_created st' = ts_created st @ jobs \<and> ts_calls st' = ts_calls st
    \<and> ts_history st' = ts_history st
    \<and> (\<forall>pj \<in> set jobs. tests_prs sp prs pj) \<and> distinct (map (\<lambda>pj. spec_Context (pj_Spec pj)) jobs)
    \<and> (\<lambda>pj. spec_Context (pj_Spec pj)) ` set jobs \<subseteq> ps_Context ` set presubmits
    \<and> (err = None \<longleftrightarrow> (\<lambda>pj. spec_Context (pj_Spec pj)) ` set jobs = ps_Context ` set presubmits)"
  using assms trigger_loop_jobs [of env sp prs presubmits "[]" "ts_created st" err]
  by (fastforce simp: trigger_def split: prod.splits)

lemma batch_merges_picks:
  assumes "batch_merges git batchLimit prs merged res = Inr res'"
    and "0 < batchLimit \<longrightarrow> int (length res) < batchLimit"
  shows "\<exists>picked. res' = res @ picked \<and> subseq picked prs
    \<and> (0 < batchLimit \<longrightarrow> int (length res') \<le> batchLimit)
    \<and> (\<forall>i < length picked. git_Merge git (merged @ map pr_HeadRefOID (take i picked))
         (pr_HeadRefOID (picked ! i)) = Inr True)"
  using assms
proof (induction prs arbitrary: merged res)
  case (Cons pr prs)
  obtain ok where ok: "git_Merge git merged (pr_HeadRefOID pr) = Inr ok"
    using Cons.prems(1) by (cases "git_Merge git merged (pr_HeadRefOID pr)") auto
  show ?case
  proof (cases "ok \<and> \<not> (batchLimit > 0 \<and> int (length (res @ [pr])) \<ge> batchLimit)")
    case True
    then have "batch_merges git batchLimit prs (merged @ [pr_HeadRefOID pr]) (res @ [pr]) = Inr res'"
      "0 < batchLimit \<longrightarrow> int (length (res @ [pr])) < batchLimit"
      using Cons.prems ok by (auto simp: Let_def split: if_splits)
    from Cons.IH [OF this] obtain picked where p: "res' = (res @ [pr]) @ picked" "subseq picked prs"
      "0 < batchLimit \<longrightarrow> int (length res') \<le> batchLimit"
      "\<forall>i < length picked. git_Merge git ((merged @ [pr_HeadRefOID pr]) @ map pr_HeadRefOID (take i picked))
         (pr_HeadRefOID (picked ! i)) = Inr True"
      by blast
    have "git_Merge git (merged @ map pr_HeadRefOID (take i (pr # picked)))
         (pr_HeadRefOID ((pr # picked) ! i)) = Inr True" if "i < length (pr # picked)" for i
      using p(4) ok True that by (cases i) auto
    then show ?thesis using p by (intro exI [of _ "pr # picked"]) auto
  next
    case stop: False
    show ?thesis
    proof (cases ok)
      case True
      then have "res' = res @ [pr]" using Cons.prems(1) ok stop by (auto simp: Let_def)
      then show ?thesis
        using True ok Cons.prems(2) by (intro exI [of _ "[pr]"]) (auto simp: subseq_singleton_left)
    next
      case False
      then show ?thesis using Cons.IH [of merged res] Cons.prems ok by (fastforce simp: Let_def)
    qed
  qed
qed auto

lemma pickBatch_picks:
  assumes "pickBatch env sp c = (Inr (batch, presubmits), c')"
  shows "subseq batch (filter (\<lambda>pr. isPassingTests (env_status env) pr (sp_cc sp (pr_Number pr)))
           (sort_key pr_Number (sp_prs sp)))
    \<and> (let batchLimit = BatchSizeLimit (cfg_Tide (env_cfg env)) (sp_org sp) (sp_repo sp)
       in (batchLimit < 0 \<longrightarrow> batch = []) \<and> (0 < batchLimit \<longrightarrow> int (length batch) \<le> batchLimit))
    \<and> (\<forall>i < length batch. git_Merge (env_git env) (map pr_HeadRefOID (take i batch))
         (pr_HeadRefOID (batch ! i)) = Inr True)
    \<and> (batch \<noteq> [] \<longrightarrow> presubmitsForBatch (env_cfg env) (env_changes env) batch (sp_org sp) (sp_repo sp)
         (sp_sha sp) (sp_branch sp) c = (Inr presubmits, c'))"
proof (cases "batch = []")
  case False
  then have limit: "\<not> BatchSizeLimit (cfg_Tide (env_cfg env)) (sp_org sp) (sp_repo sp) < 0"
    and merges: "batch_merges (env_git env) (BatchSizeLimit (cfg_Tide (env_cfg env)) (sp_org sp) (sp_repo sp))
      (filter (\<lambda>pr. isPassingTests (env_status env) pr (sp_cc sp (pr_Number pr)))
         (sort_key pr_Number (sp_prs sp))) [] [] = Inr batch"
    and pre: "presubmitsForBatch (env_cfg env) (env_changes env) batch (sp_org sp) (sp_repo sp)
         (sp_sha sp) (sp_branch sp) c = (Inr presubmits, c')"
    using assms unfolding pickBatch_def Let_def
    by (auto split: if_splits option.splits sum.splits prod.splits)
  show ?thesis
    using batch_merges_picks [OF merges] limit pre by (auto simp: Let_def)
qed (use assms in \<open>auto simp: Let_def\<close>)

text \<open>The state that \<open>takeAction\<close> starts from in \<open>syncSubpool\<close>, and what comes after it.\<close>

lemma syncSubpool_open:
  assumes "syncSubpool env sp blocks st = Some (pool, err, st')"
    and "\<forall>pj \<in> set (sp_pjs sp). refs_ok pj" and "distinct (map pr_Number (sp_prs sp))"
  obtains a batchMerge c' st2 where
    "accumulate (sp_presubmits sp) (sp_prs sp) (sp_pjs sp) = Some a"
    "acc_successes a = filter (passes (sp_presubmits sp) (sp_pjs sp)) (sp_prs sp)"
    "accumulateBatch (env_batch_iter env) (env_cfg env) (env_changes env) sp (ts_agent st)
       = Some ((batchMerge, pool_BatchPending pool), c')"
    "ts_calls st' = ts_calls st2" "ts_created st' = ts_created st2"
    "if blocks = []
     then action_step env sp (pool_BatchPending pool) a batchMerge (st\<lparr>ts_agent := c'\<rparr>)
            (pool_Action pool) (pool_Target pool) err st2
     else pool_Action pool = PoolBlocked \<and> pool_Target pool = [] \<and> err = None \<and> st2 = st\<lparr>ts_agent := c'\<rparr>"
proof -
  obtain a where a: "accumulate (sp_presubmits sp) (sp_prs sp) (sp_pjs sp) = Some a"
    "acc_successes a = filter (passes (sp_presubmits sp) (sp_pjs sp)) (sp_prs sp)"
    using accumulate_value [OF assms(2,3)] by blast
  obtain batchMerge batchPending c' where b:
    "accumulateBatch (env_batch_iter env) (env_cfg env) (env_changes env) sp (ts_agent st)
       = Some ((batchMerge, batchPending), c')"
    using assms(1) a(1) by (auto simp: syncSubpool_def split: option.splits)
  define r where "r = (if blocks \<noteq> [] then (PoolBlocked, [], None, st\<lparr>ts_agent := c'\<rparr>)
    else takeAction env sp batchPending a batchMerge (st\<lparr>ts_agent := c'\<rparr>))"
  obtain act targets err2 st2 where r: "r = (act, targets, err2, st2)" by (metis surj_pair)
  have out: "pool_BatchPending pool = batchPending" "pool_Action pool = act" "pool_Target pool = targets"
    "err = err2" "ts_calls st' = ts_calls st2" "ts_created st' = ts_created st2"
    using assms(1) unfolding syncSubpool_def Let_def a(1) b option.case prod.case r_def [symmetric] r
    by (auto split: if_splits)
  show thesis
    using a b out r takeAction_step by (auto simp: r_def split: if_splits intro!: that)
qed

text \<open>What merging a single pull request rests on.\<close>

definition tested_alone :: "tide_env \<Rightarrow> subpool \<Rightarrow> PullRequest \<Rightarrow> bool" where
  "tested_alone env sp pr \<longleftrightarrow>
     isPassingTests (env_status env) pr (sp_cc sp (pr_Number pr))
     \<and> (\<forall>ps \<in> set (presubmits_of (sp_presubmits sp) (pr_Number pr)). \<exists>pj \<in> set (sp_pjs sp).
          tests_head pr pj \<and> spec_Context (pj_Spec pj) = ps_Context ps \<and> pj_State pj = SuccessState)"

lemma syncSubpool_safe:
  assumes "syncSubpool env sp blocks st = Some (pool, err, st')"
    and "\<forall>pj \<in> set (sp_pjs sp). refs_ok pj" and "distinct (map pr_Number (sp_prs sp))"
    and "range_order (env_batch_iter env)"
  shows "\<exists>new. ts_calls st' = ts_calls st @ new
    \<and> (\<forall>call \<in> set new. blocks = [] \<and> (\<exists>pr \<in> set (sp_prs sp). asks_merge (cfg_Tide (env_cfg env)) sp pr call
         \<and> ((\<exists>b. pr \<in> set b \<and> batch_tested (env_cfg env) (env_changes env) sp b)
            \<or> pool_BatchPending pool = [] \<and> tested_alone env sp pr)))"
    (is "\<exists>new. _ \<and> (\<forall>call \<in> set new. ?safe call)")
proof -
  obtain a batchMerge c' st2 where succ: "acc_successes a = filter (passes (sp_presubmits sp) (sp_pjs sp)) (sp_prs sp)"
    and b: "accumulateBatch (env_batch_iter env) (env_cfg env) (env_changes env) sp (ts_agent st)
       = Some ((batchMerge, pool_BatchPending pool), c')"
    and calls: "ts_calls st' = ts_calls st2"
    and act: "if blocks = []
     then action_step env sp (pool_BatchPending pool) a batchMerge (st\<lparr>ts_agent := c'\<rparr>)
            (pool_Action pool) (pool_Target pool) err st2
     else pool_Action pool = PoolBlocked \<and> pool_Target pool = [] \<and> err = None \<and> st2 = st\<lparr>ts_agent := c'\<rparr>"
    using syncSubpool_open [OF assms(1-3)] by metis
  have batch: "batch_tested (env_cfg env) (env_changes env) sp batchMerge" if "batchMerge \<noteq> []"
    using accumulateBatch_tested [OF b assms(4) that] .
  then have sub: "set batchMerge \<subseteq> set (sp_prs sp)" by (cases "batchMerge = []") (auto simp: batch_tested_def)
  show ?thesis
  proof (cases "blocks = []")
    case False
    then show ?thesis using act calls by auto
  next
    case True
    then have "action_step env sp (pool_BatchPending pool) a batchMerge (st\<lparr>ts_agent := c'\<rparr>)
            (pool_Action pool) (pool_Target pool) err st2" using act by simp
    then have "\<exists>new. ts_calls st2 = ts_calls st @ new \<and> (\<forall>call \<in> set new. ?safe call)"
    proof cases
      case merge_batch
      then obtain new where "ts_calls st2 = ts_calls st @ new"
        "\<forall>call \<in> set new. \<exists>pr \<in> set batchMerge. asks_merge (cfg_Tide (env_cfg env)) sp pr call"
        using merge_action_asks by (metis tide_state.select_convs(1) tide_state.surjective tide_state.update_convs(3))
      then show ?thesis using True batch merge_batch(3) sub by blast
    next
      case (merge_one pr)
      then obtain new where "ts_calls st2 = ts_calls st @ new"
        "\<forall>call \<in> set new. asks_merge (cfg_Tide (env_cfg env)) sp pr call"
        using merge_action_asks [OF merge_one(7)] by auto
      then show ?thesis
        using True merge_one(4-6) succ by (auto simp: candidate_def tested_alone_def passes_success)
    qed (auto dest!: trigger_jobs)
    then show ?thesis using calls by simp
  qed
qed

subsection \<open>Properties\<close>


definition sample_env :: tide_env where
  "sample_env =
     \<lparr>env_cfg = sample_Config [sample_Presubmit ''unit'' True False []], env_ProwJobNamespace = ''prow'',
      env_status = (\<lambda>_ _ _. Inl ''down''), env_changes = (\<lambda>_ _ _. Inr []), env_merge = (\<lambda>_ _. None),
      env_git = \<lparr>git_Clone = (\<lambda>_. None), git_Config = (\<lambda>_ _. None), git_Checkout = (\<lambda>_. None),
        git_Merge = (\<lambda>_ _. Inr True)\<rparr>,
      env_create = (\<lambda>_ _. None), env_valid_label = (\<lambda>_. True), env_uuid = (\<lambda>n. itoa (int n)), env_now = 1,
      env_batch_iter = (\<lambda>xs. xs)\<rparr>"

definition sample_state :: tide_state where
  "sample_state = \<lparr>ts_calls = [], ts_created = [], ts_agent = empty_agent,
     ts_history = \<lparr>h_logs = [], h_logSizeLimit = 2, h_path = []\<rparr>\<rparr>"

definition sample_ready :: subpool where
  "sample_ready = (sample_subpool [sample_passing_pr 4])\<lparr>sp_pjs :=
     [sample_ProwJob PresubmitJob ''unit'' SuccessState [(4, ''sha'')]]\<rparr>"

lemmas sample_env_defs = sample_env_def sample_state_def sample_Config_def sample_Tide_def

lemma sample_ready_frame:
  "sp_prs sample_ready = [sample_passing_pr 4]" "pr_Number (sample_passing_pr n) = n"
  "pr_HeadRefOID (sample_passing_pr n) = ''sha''" "pr_Labels (sample_passing_pr n) = []"
  "\<forall>pj \<in> set (sp_pjs sample_ready). refs_ok pj"
  by (auto simp: sample_ready_def sample_subpool_def sample_passing_pr_def sample_PullRequest_def refs_ok_def
      sample_ProwJob_def)

lemma sample_candidate: "candidate ghc (\<lambda>_. sample_checker) (sample_passing_pr n)"
  using sample_passing by (simp add: candidate_def) (simp add: sample_passing_pr_def)

lemma sample_ready_merges:
  "\<exists>pool err st'. syncSubpool sample_env sample_ready [] sample_state = Some (pool, err, st')
     \<and> pool_Action pool = Merge \<and> length (ts_calls st') = 1"
proof -
  let ?sp = sample_ready
  have acc: "accumulate (sp_presubmits ?sp) (sp_prs ?sp) (sp_pjs ?sp) =
      Some \<lparr>acc_successes = [sample_passing_pr 4], acc_pendings = [], acc_missings = [], acc_missingTests = []\<rparr>"
    by (simp add: accumulate_def sample_ready_frame sample_ready_def sample_subpool_def sample_ProwJob_def
        sample_job_defs presubmits_of_def record_jobs_def missing_presubmits_def some_pending_def
        toSimpleState_def)
  have batch: "accumulateBatch (env_batch_iter sample_env) (env_cfg sample_env) (env_changes sample_env) ?sp
      (ts_agent sample_state) = Some (([], []), empty_agent)"
    by (simp add: accumulateBatch_def sample_ready_def sample_ProwJob_def sample_env_defs)
  have pick: "pickSmallestPassingNumber (env_status sample_env) [sample_passing_pr 4] (sp_cc ?sp) =
      Some (sample_passing_pr 4)"
    using sample_candidate [of "env_status sample_env" 4]
    by (simp add: pickSmallestPassingNumber_def candidate_def sample_ready_def sample_subpool_def
        sample_ready_frame)
  have merge: "\<exists>calls. mergePRs (cfg_Tide (env_cfg sample_env)) (env_merge sample_env) ?sp [sample_passing_pr 4] []
      = (None, calls) \<and> length calls = 1"
    by (simp add: mergePRs_def merge_method_for_def checkMergeLabels_def sample_ready_frame tryMerge_def
        maxRetries_def numeral_3_eq_3 sample_env_defs Let_def)
  show ?thesis
    using acc batch pick merge
    by (auto simp: syncSubpool_def takeAction_def merge_action_def sample_ready_frame Let_def recordableActions_def
        History_Record_def addRecord_def recordLog_add_def newRecordLog_def sample_env_defs)
qed


text \<open>
  C3: One sync of a subpool takes one action.  It never both merges and triggers; what it does
  is about the targets it reports; it does nothing when it reports to wait or that the
  pool is blocked; and the jobs it creates test exactly the targets, at their heads and on the
  base of the subpool.
\<close>

theorem subpool_one_action:
  assumes "syncSubpool env sp blocks st = Some (pool, err, st')"
    and "\<forall>pj \<in> set (sp_pjs sp). refs_ok pj" and "distinct (map pr_Number (sp_prs sp))"
  shows "\<exists>calls jobs. ts_calls st' = ts_calls st @ calls \<and> ts_created st' = ts_created st @ jobs
    \<and> (\<forall>call \<in> set calls. \<exists>pr \<in> set (pool_Target pool). asks_merge (cfg_Tide (env_cfg env)) sp pr call)
    \<and> (\<forall>pj \<in> set jobs. tests_prs sp (pool_Target pool) pj)
    \<and> (case pool_Action pool of
         Wait \<Rightarrow> calls = [] \<and> jobs = [] \<and> pool_Target pool = []
       | PoolBlocked \<Rightarrow> blocks \<noteq> [] \<and> calls = [] \<and> jobs = [] \<and> pool_Target pool = []
       | Merge \<Rightarrow> jobs = [] \<and> length (pool_Target pool) = 1 \<and> pool_BatchPending pool = []
       | MergeBatch \<Rightarrow> jobs = [] \<and> pool_Target pool \<noteq> []
       | Trigger \<Rightarrow> calls = [] \<and> length (pool_Target pool) = 1
       | TriggerBatch \<Rightarrow> calls = [] \<and> 1 < length (pool_Target pool) \<and> pool_BatchPending pool = [])"
proof -
  obtain a batchMerge c' st2 where
    frame: "ts_calls st' = ts_calls st2" "ts_created st' = ts_created st2"
    and act: "if blocks = []
     then action_step env sp (pool_BatchPending pool) a batchMerge (st\<lparr>ts_agent := c'\<rparr>)
            (pool_Action pool) (pool_Target pool) err st2
     else pool_Action pool = PoolBlocked \<and> pool_Target pool = [] \<and> err = None \<and> st2 = st\<lparr>ts_agent := c'\<rparr>"
    using syncSubpool_open [OF assms] by metis
  show ?thesis
  proof (cases "blocks = []")
    case False
    then show ?thesis using act frame by auto
  next
    case True
    then have "action_step env sp (pool_BatchPending pool) a batchMerge (st\<lparr>ts_agent := c'\<rparr>)
            (pool_Action pool) (pool_Target pool) err st2" using act by simp
    then show ?thesis
    proof cases
      case merge_batch
      then show ?thesis using merge_action_asks [OF merge_batch(4)] frame by auto
    next
      case (merge_one pr)
      then show ?thesis using merge_action_asks [OF merge_one(7)] frame by auto
    next
      case (trigger_batch presubmits c'')
      then show ?thesis using trigger_jobs [OF trigger_batch(7)] frame by auto
    next
      case (trigger_one pr c'')
      then show ?thesis using trigger_jobs [OF trigger_one(9)] frame by auto
    next
      case (wait c'')
      then show ?thesis using frame by auto
    qed
  qed
qed

theorem subpool_one_action_witness:
  "\<exists>pool err st'. syncSubpool sample_env sample_ready [] sample_state = Some (pool, err, st')
     \<and> length (pool_Target pool) = 1 \<and> ts_created st' = []"
proof -
  obtain pool err st' where sync: "syncSubpool sample_env sample_ready [] sample_state = Some (pool, err, st')"
    "pool_Action pool = Merge"
    using sample_ready_merges by blast
  then show ?thesis
    using subpool_one_action [OF sync(1)] sample_ready_frame by (auto simp: sample_env_defs)
qed

text \<open>
  Triggering creates at most one job per context, of the presubmits asked for only; each job
  tests exactly the given pull requests at their heads, as a presubmit or, for several, as a
  batch, on the base of the subpool; and it reports no error exactly when every context has
  its job.
\<close>

theorem trigger_contexts_once:
  assumes "trigger env sp presubmits prs st = (err, st')"
  shows "\<exists>jobs. ts_created st' = ts_created st @ jobs \<and> ts_calls st' = ts_calls st
    \<and> (\<forall>pj \<in> set jobs. tests_prs sp prs pj) \<and> distinct (map (\<lambda>pj. spec_Context (pj_Spec pj)) jobs)
    \<and> (\<lambda>pj. spec_Context (pj_Spec pj)) ` set jobs \<subseteq> ps_Context ` set presubmits
    \<and> (err = None \<longleftrightarrow> (\<lambda>pj. spec_Context (pj_Spec pj)) ` set jobs = ps_Context ` set presubmits)"
  using trigger_jobs [OF assms] by blast

theorem trigger_contexts_once_witness:
  "\<exists>jobs. ts_created (snd (trigger sample_env sample_ready [sample_Presubmit ''unit'' True False [],
       sample_Presubmit ''unit'' True False []] [sample_passing_pr 4] sample_state)) = jobs
     \<and> distinct (map (\<lambda>pj. spec_Context (pj_Spec pj)) jobs)
     \<and> (\<forall>pj \<in> set jobs. tests_prs sample_ready [sample_passing_pr 4] pj)"
  using trigger_contexts_once [of sample_env sample_ready "[sample_Presubmit ''unit'' True False [],
       sample_Presubmit ''unit'' True False []]" "[sample_passing_pr 4]" sample_state,
       OF surjective_pairing]
  by (auto simp: sample_state_def)

text \<open>
  A batch consists of passing pull requests of the subpool, the oldest first, whose heads
  merge one after another onto the base; it is no larger than the configured limit, and
  empty where batches are disabled; and it is tested with the presubmits required for it.
\<close>

theorem picked_batch:
  assumes "pickBatch env sp c = (Inr (batch, presubmits), c')"
  shows "subseq batch (filter (\<lambda>pr. isPassingTests (env_status env) pr (sp_cc sp (pr_Number pr)))
           (sort_key pr_Number (sp_prs sp)))
    \<and> (let batchLimit = BatchSizeLimit (cfg_Tide (env_cfg env)) (sp_org sp) (sp_repo sp)
       in (batchLimit < 0 \<longrightarrow> batch = []) \<and> (0 < batchLimit \<longrightarrow> int (length batch) \<le> batchLimit))
    \<and> (\<forall>i < length batch. git_Merge (env_git env) (map pr_HeadRefOID (take i batch))
         (pr_HeadRefOID (batch ! i)) = Inr True)
    \<and> (batch \<noteq> [] \<longrightarrow> presubmitsForBatch (env_cfg env) (env_changes env) batch (sp_org sp) (sp_repo sp)
         (sp_sha sp) (sp_branch sp) c = (Inr presubmits, c'))"
  using pickBatch_picks [OF assms] .

definition sample_two :: subpool where
  "sample_two = sample_subpool [sample_passing_pr 7, sample_passing_pr 4]"

theorem picked_batch_witness:
  "\<exists>presubmits c'. pickBatch sample_env sample_two empty_agent =
       (Inr ([sample_passing_pr 4, sample_passing_pr 7], presubmits), c')
     \<and> git_Merge (env_git sample_env) [''sha''] ''sha'' = Inr True"
proof -
  have pass: "isPassingTests ghc (sample_passing_pr n) (sp_cc sample_two k)" for ghc n k
    using sample_passing by (simp add: sample_two_def sample_subpool_def)
  have "\<exists>presubmits c'. pickBatch sample_env sample_two empty_agent =
       (Inr ([sample_passing_pr 4, sample_passing_pr 7], presubmits), c')"
    using pass [of "env_status sample_env"]
    by (simp add: pickBatch_def Let_def BatchSizeLimit_def sample_two_def sample_subpool_def
        sample_ready_frame git_setup_def presubmitsForBatch_def GetPresubmits_def InRepoConfigEnabled_def
        full_name_def presubmit_defs sample_job_defs ShouldRun_def sample_env_defs)
  then obtain presubmits c' where eq: "pickBatch sample_env sample_two empty_agent =
       (Inr ([sample_passing_pr 4, sample_passing_pr 7], presubmits), c')" by blast
  have "\<forall>i < 2. git_Merge (env_git sample_env) (map pr_HeadRefOID (take i [sample_passing_pr 4, sample_passing_pr 7]))
      (pr_HeadRefOID ([sample_passing_pr 4, sample_passing_pr 7] ! i)) = Inr True"
    using picked_batch [OF eq] by simp
  then show ?thesis
    using eq by (auto simp: sample_ready_frame dest!: spec [of _ 1])
qed

end
