(* ===== verification/Tide_Sync.thy ===== *)
theory Tide_Sync
  imports Tide_Action Tide_Search "HOL-Library.Product_Lexorder"
begin

text \<open>
  One sync of the tide controller, \<open>src/tide/tide.go\<close>: collecting the pull requests that match
  the queries, dividing them into subpools by repo and branch, filtering each subpool,
  telling the status controller, and syncing every subpool.

  The services are the record \<open>sync_env\<close>, which extends \<open>tide_env\<close> of the actions by the
  searches, \<open>GetRef\<close> of the GitHub client, \<open>List\<close> of the cached API client and the orders in
  which maps are ranged over; the state is the record \<open>controller\<close>.  The configuration does
  not change during a sync.  Subpools are processed by a pool of workers: \<open>worker_step\<close> is
  that pool, and \<open>process_all\<close> processes the subpools in the order in which they are done.
\<close>

subsection \<open>Keys\<close>

definition prKey :: "PullRequest \<Rightarrow> string" where
  "prKey pr = pr_NameWithOwner pr @ ''#'' @ itoa (pr_Number pr)"

definition byRepoAndNumber :: "PullRequest list \<Rightarrow> (string \<times> PullRequest) list" where
  "byRepoAndNumber prs = fold (\<lambda>pr. AList.update (prKey pr) pr) prs []"

definition cacheIndexKey :: "string \<Rightarrow> string \<Rightarrow> string \<Rightarrow> string \<Rightarrow> string" where
  "cacheIndexKey org repo branch baseSHA = org @ ''/'' @ repo @ '':'' @ branch @ ''@'' @ baseSHA"

definition cacheIndexFunc :: "ProwJob \<Rightarrow> string list" where
  "cacheIndexFunc pj =
     (if pj_Type pj \<noteq> PresubmitJob \<and> pj_Type pj \<noteq> BatchJob then []
      else case spec_Refs (pj_Spec pj) of
             None \<Rightarrow> []
           | Some refs \<Rightarrow>
               [cacheIndexKey (refs_Org refs) (refs_Repo refs) (refs_BaseRef refs) (refs_BaseSHA refs)])"

definition orgRepoQueryString :: "string list \<Rightarrow> string list \<Rightarrow> (string \<times> string list) list \<Rightarrow> string" where
  "orgRepoQueryString orgs repos orgExceptions =
     join '' ''
       (concat (map (\<lambda>org. (''org:'' @ quote org)
            # map (\<lambda>e. ''-repo:'' @ quote e) (set_list (map_get [] (map_of orgExceptions) org))) orgs)
        @ map (\<lambda>r. ''repo:'' @ quote r) repos)"

subsection \<open>The environment and the state\<close>

record sync_env = tide_env +
  sy_fuel :: nat
  sy_fmt_time :: "time \<Rightarrow> string"
  sy_query :: "string \<Rightarrow> PullRequest querier"
  sy_issues :: "string \<Rightarrow> Issue querier"
  sy_GetRef :: "string \<Rightarrow> string \<Rightarrow> string \<Rightarrow> string result"
  sy_List :: "string \<Rightarrow> string \<Rightarrow> ProwJob list result"
  sy_marshal :: "(string \<times> Record list) list \<Rightarrow> string result"
  sy_writer :: writer_errors
  sy_iter_orgs :: "string list \<Rightarrow> string list"
  sy_iter_prs :: "(string \<times> PullRequest) list \<Rightarrow> (string \<times> PullRequest) list"
  sy_iter_sps :: "(string \<times> subpool) list \<Rightarrow> (string \<times> subpool) list"
  sy_iter_filter :: "(string \<times> subpool) list \<Rightarrow> (string \<times> subpool) list"
  sy_iter_sync :: "(string \<times> subpool) list \<Rightarrow> (string \<times> subpool) list"
  sy_iter_contexts :: "string list \<Rightarrow> string list"

text \<open>What the status controller is told, and what the controller keeps.\<close>

record status_notice =
  sn_blocks :: Blockers
  sn_poolPRs :: "(string \<times> PullRequest) list"
  sn_baseSHAs :: "string \<rightharpoonup> string"
  sn_requiredContexts :: "string \<rightharpoonup> string list"

record controller =
  ct_tide :: tide_state
  ct_pools :: "Pool list"
  ct_notice :: "status_notice option"
  ct_flushed :: "string option"

subsection \<open>Collecting pull requests\<close>

fun collect_prs ::
    "sync_env \<Rightarrow> TideQuery list \<Rightarrow> (string \<times> PullRequest) list \<Rightarrow> (string \<times> PullRequest) list result option" where
  "collect_prs env [] prs = Some (Inr prs)"
| "collect_prs env (tq # tqs) prs =
     (let q = Query tq
      in case search (sy_fuel env) (sy_fmt_time env) (sy_query env) q zero_time (env_now env) of
           None \<Rightarrow> None
         | Some (found, err) \<Rightarrow>
             (case err of
                Some e \<Rightarrow>
                  if found = [] then Some (Inl (''query '' @ quote q @ '', err: '' @ e))
                  else collect_prs env tqs (fold (\<lambda>pr. AList.update (prKey pr) pr) found prs)
              | None \<Rightarrow> collect_prs env tqs (fold (\<lambda>pr. AList.update (prKey pr) pr) found prs)))"

definition no_blockers :: Blockers where
  "no_blockers = \<lparr>bs_Repo = Map.empty, bs_Branch = Map.empty\<rparr>"

definition find_blockers :: "sync_env \<Rightarrow> (string \<times> PullRequest) list \<Rightarrow> Blockers result option" where
  "find_blockers env prs =
     (let t = cfg_Tide (env_cfg env); label = td_BlockerLabel t
      in if prs \<noteq> [] \<and> label \<noteq> [] then
           (let (orgExcepts, repos) = OrgExceptionsAndRepos (td_Queries t);
                orgs = sy_iter_orgs env (map fst orgExcepts);
                orgRepoQuery = orgRepoQueryString orgs (sy_iter_orgs env (remdups repos)) orgExcepts
            in FindAll (sy_fuel env) (sy_issues env) label orgRepoQuery)
         else Some (Inr no_blockers))"

subsection \<open>Dividing into subpools\<close>

text \<open>The checkers are put in by \<open>initSubpoolData\<close>; before that none is asked.\<close>

definition no_checker :: contextChecker where
  "no_checker = \<lparr>cc_IsOptional = (\<lambda>_. False), cc_MissingRequiredContexts = (\<lambda>_. [])\<rparr>"

definition pr_pool :: "PullRequest \<Rightarrow> string" where
  "pr_pool pr = poolKey (pr_Org pr) (pr_Repo pr) (pr_BaseRef_Name pr)"

definition pr_ref :: "PullRequest \<Rightarrow> string" where
  "pr_ref pr = trim_prefix (pr_BaseRef_Prefix pr @ pr_BaseRef_Name pr) ''refs/''"

definition new_subpool :: "PullRequest \<Rightarrow> string \<Rightarrow> subpool" where
  "new_subpool pr sha =
     \<lparr>sp_org = pr_Org pr, sp_repo = pr_Repo pr, sp_branch = pr_BaseRef_Name pr, sp_sha = sha, sp_pjs = [],
      sp_prs = [], sp_cc = (\<lambda>_. no_checker), sp_presubmits = []\<rparr>"

fun divide_prs ::
    "(string \<Rightarrow> string \<Rightarrow> string \<Rightarrow> string result) \<Rightarrow> PullRequest list \<Rightarrow> (string \<times> subpool) list
     \<Rightarrow> (string \<times> subpool) list result" where
  "divide_prs GetRef [] sps = Inr sps"
| "divide_prs GetRef (pr # prs) sps =
     (let fn = pr_pool pr
      in case (case map_of sps fn of
                 Some sp \<Rightarrow> Inr sp
               | None \<Rightarrow> map_sum id (new_subpool pr) (GetRef (pr_Org pr) (pr_Repo pr) (pr_ref pr))) of
           Inl err \<Rightarrow> Inl err
         | Inr sp \<Rightarrow> divide_prs GetRef prs (AList.update fn (sp\<lparr>sp_prs := sp_prs sp @ [pr]\<rparr>) sps))"

fun list_jobs ::
    "(string \<Rightarrow> string \<Rightarrow> ProwJob list result) \<Rightarrow> string \<Rightarrow> (string \<times> subpool) list \<Rightarrow> (string \<times> subpool) list
     \<Rightarrow> (string \<times> subpool) list result" where
  "list_jobs List ns [] sps = Inr sps"
| "list_jobs List ns ((key, sp) # todo) sps =
     (case List (cacheIndexKey (sp_org sp) (sp_repo sp) (sp_branch sp) (sp_sha sp)) ns of
        Inl err \<Rightarrow> Inl (''failed to list jobs for subpool '' @ key @ '': '' @ err)
      | Inr pjs \<Rightarrow> list_jobs List ns todo (AList.update key (sp\<lparr>sp_pjs := pjs\<rparr>) sps))"

definition dividePool :: "sync_env \<Rightarrow> (string \<times> PullRequest) list \<Rightarrow> (string \<times> subpool) list result" where
  "dividePool env pool =
     (case divide_prs (sy_GetRef env) (map snd (sy_iter_prs env pool)) [] of
        Inl err \<Rightarrow> Inl err
      | Inr sps \<Rightarrow> list_jobs (sy_List env) (env_ProwJobNamespace env) (sy_iter_sps env sps) sps)"

subsection \<open>Processing subpools\<close>

text \<open>
  The subpools one after another, each by \<open>process\<close>.  \<open>None\<close> is a panic: of a worker, or of
  \<open>WaitGroup.Add\<close> with a negative number of workers.  With no worker nothing is processed.
\<close>

fun process_all :: "(subpool \<Rightarrow> 's \<Rightarrow> 's option) \<Rightarrow> subpool list \<Rightarrow> 's \<Rightarrow> 's option" where
  "process_all process [] st = Some st"
| "process_all process (sp # sps) st =
     (case process sp st of None \<Rightarrow> None | Some st' \<Rightarrow> process_all process sps st')"

definition subpoolsInParallel ::
    "int \<Rightarrow> ((string \<times> subpool) list \<Rightarrow> (string \<times> subpool) list) \<Rightarrow> (string \<times> subpool) list
     \<Rightarrow> (subpool \<Rightarrow> 's \<Rightarrow> 's option) \<Rightarrow> 's \<Rightarrow> 's option" where
  "subpoolsInParallel goroutines iter sps process st =
     (let workers = min goroutines (int (length sps))
      in if workers < 0 then None
         else if workers = 0 then Some st
         else process_all process (map snd (iter sps)) st)"

subsection \<open>Filtering subpools\<close>

fun init_checkers ::
    "sync_env \<Rightarrow> subpool \<Rightarrow> PullRequest list \<Rightarrow> (int \<Rightarrow> contextChecker) \<Rightarrow> (int \<Rightarrow> contextChecker) result" where
  "init_checkers env sp [] cc = Inr cc"
| "init_checkers env sp (pr # prs) cc =
     (case GetTideContextPolicy (env_cfg env) (sp_org sp) (sp_repo sp) (sp_branch sp)
             (refGetterFactory (sp_sha sp)) (pr_HeadRefOID pr) of
        (policy, Some err) \<Rightarrow>
          Inl (''error setting up context checker for pr '' @ itoa (pr_Number pr) @ '': '' @ err)
      | (policy, None) \<Rightarrow>
          init_checkers env sp prs
            (cc(pr_Number pr := (case policy of
                                   None \<Rightarrow> no_checker
                                 | Some p \<Rightarrow> policy_checker (sy_iter_contexts env, p)))))"

definition initSubpoolData ::
    "sync_env \<Rightarrow> subpool \<Rightarrow> changedFilesAgent \<Rightarrow> subpool result \<times> changedFilesAgent" where
  "initSubpoolData env sp c =
     (case presubmitsByPull (env_cfg env) (env_changes env) sp c of
        (Inl err, c') \<Rightarrow> (Inl (''error determining required presubmit prowjobs: '' @ err), c')
      | (Inr presubmits, c') \<Rightarrow>
          (map_sum id (\<lambda>cc. sp\<lparr>sp_presubmits := presubmits, sp_cc := cc\<rparr>)
             (init_checkers env sp (sp_prs sp) (\<lambda>_. no_checker)), c'))"

definition filter_one ::
    "sync_env \<Rightarrow> subpool \<Rightarrow> (string \<times> subpool) list \<times> changedFilesAgent
     \<Rightarrow> ((string \<times> subpool) list \<times> changedFilesAgent) option" where
  "filter_one env sp st =
     (let (filtered, c) = st
      in case initSubpoolData env sp c of
           (Inl err, c') \<Rightarrow> Some (filtered, c')
         | (Inr sp', c') \<Rightarrow>
             (case filterSubpool (env_status env) sp' of
                None \<Rightarrow> Some (filtered, c')
              | Some spFiltered \<Rightarrow>
                  Some (AList.update (poolKey (sp_org sp) (sp_repo sp) (sp_branch sp)) spFiltered filtered, c')))"

definition filterSubpools ::
    "sync_env \<Rightarrow> int \<Rightarrow> (string \<times> subpool) list \<Rightarrow> changedFilesAgent
     \<Rightarrow> ((string \<times> subpool) list \<times> changedFilesAgent) option" where
  "filterSubpools env goroutines raw c =
     subpoolsInParallel goroutines (sy_iter_filter env) raw (filter_one env) ([], c)"

subsection \<open>The notice to the status controller\<close>

definition baseSHAMap :: "(string \<times> subpool) list \<Rightarrow> (string \<rightharpoonup> string)" where
  "baseSHAMap sps = map_of (map (\<lambda>(key, sp). (key, sp_sha sp)) sps)"

definition poolPRMap :: "(string \<times> subpool) list \<Rightarrow> (string \<times> PullRequest) list" where
  "poolPRMap sps = fold (\<lambda>(key, sp). fold (\<lambda>pr. AList.update (prKey pr) pr) (sp_prs sp)) sps []"

definition requiredContextsMap :: "(string \<times> subpool) list \<Rightarrow> (string \<rightharpoonup> string list)" where
  "requiredContextsMap sps =
     fold (\<lambda>(key, sp). fold (\<lambda>pr m. m(prKey pr \<mapsto>
         set_list (map ps_Context (presubmits_of (sp_presubmits sp) (pr_Number pr))))) (sp_prs sp)) sps Map.empty"

subsection \<open>Sync\<close>

definition sort_pool_prs :: "Pool \<Rightarrow> Pool" where
  "sort_pool_prs pool =
     pool\<lparr>pool_SuccessPRs := sort_key pr_Number (pool_SuccessPRs pool),
          pool_PendingPRs := sort_key pr_Number (pool_PendingPRs pool),
          pool_MissingPRs := sort_key pr_Number (pool_MissingPRs pool),
          pool_BatchPending := sort_key pr_Number (pool_BatchPending pool)\<rparr>"

definition sortPools :: "Pool list \<Rightarrow> Pool list" where
  "sortPools pools =
     map sort_pool_prs (sort_key (\<lambda>pool. (pool_Org pool, pool_Repo pool, pool_Branch pool)) pools)"

definition sync_one ::
    "sync_env \<Rightarrow> Blockers \<Rightarrow> subpool \<Rightarrow> Pool list \<times> tide_state \<Rightarrow> (Pool list \<times> tide_state) option" where
  "sync_one env blocks sp st =
     map_option (\<lambda>(pool, err, st'). (fst st @ [pool], st'))
       (syncSubpool (tide_env.truncate env) sp (GetApplicable blocks (sp_org sp) (sp_repo sp) (sp_branch sp))
          (snd st))"

definition prune_agent :: "controller \<Rightarrow> controller" where
  "prune_agent ct = ct\<lparr>ct_tide := (ct_tide ct)\<lparr>ts_agent := prune (ts_agent (ct_tide ct))\<rparr>\<rparr>"

definition sync_pools ::
    "sync_env \<Rightarrow> Blockers \<Rightarrow> (string \<times> subpool) list \<Rightarrow> controller \<Rightarrow> (error option \<times> controller) option" where
  "sync_pools env blocks rawPools ct =
     (let goroutines = td_MaxGoroutines (cfg_Tide (env_cfg env)); st = ct_tide ct
      in case filterSubpools env goroutines rawPools (ts_agent st) of
           None \<Rightarrow> None
         | Some (filteredPools, c') \<Rightarrow>
             (let notice = \<lparr>sn_blocks = blocks, sn_poolPRs = poolPRMap filteredPools,
                            sn_baseSHAs = baseSHAMap filteredPools,
                            sn_requiredContexts = requiredContextsMap filteredPools\<rparr>
              in case subpoolsInParallel goroutines (sy_iter_sync env) filteredPools (sync_one env blocks)
                        ([], st\<lparr>ts_agent := c'\<rparr>) of
                   None \<Rightarrow> None
                 | Some (pools, st') \<Rightarrow>
                     (case Flush (sy_marshal env) (sy_writer env) (ts_history st') of
                        None \<Rightarrow> None
                      | Some (h, written) \<Rightarrow>
                          Some (None, ct\<lparr>ct_tide := st'\<lparr>ts_history := h\<rparr>, ct_pools := sortPools pools,
                                         ct_notice := Some notice, ct_flushed := written\<rparr>))))"

text \<open>\<open>None\<close> is a panic, or a search that needs more than \<open>sy_fuel\<close> pages.\<close>

definition Sync :: "sync_env \<Rightarrow> controller \<Rightarrow> (error option \<times> controller) option" where
  "Sync env ct =
     map_option (map_prod id prune_agent)
       (case collect_prs env (td_Queries (cfg_Tide (env_cfg env))) [] of
          None \<Rightarrow> None
        | Some (Inl err) \<Rightarrow> Some (Some err, ct)
        | Some (Inr prs) \<Rightarrow>
            (case find_blockers env prs of
               None \<Rightarrow> None
             | Some (Inl err) \<Rightarrow> Some (Some err, ct)
             | Some (Inr blocks) \<Rightarrow>
                 (case dividePool env prs of
                    Inl err \<Rightarrow> Some (Some err, ct)
                  | Inr rawPools \<Rightarrow> sync_pools env blocks rawPools ct)))"

subsection \<open>Keys are injective on well-formed names\<close>

lemma prKey_inj [key_inj]:
  "prKey pr = prKey pr' \<longleftrightarrow> pr_NameWithOwner pr = pr_NameWithOwner pr' \<and> pr_Number pr = pr_Number pr'"
  using append_sep_inj_last [of "pr_NameWithOwner pr" "CHR ''#''" "itoa (pr_Number pr)"
      "pr_NameWithOwner pr'" "itoa (pr_Number pr')"]
  by (auto simp: prKey_def itoa_inj)

lemma poolKey_inj:
  assumes "poolKey org repo branch = poolKey org' repo' branch'"
    and "CHR ''/'' \<notin> set org" "CHR ''/'' \<notin> set org'" "CHR '':'' \<notin> set repo" "CHR '':'' \<notin> set repo'"
  shows "org = org' \<and> repo = repo' \<and> branch = branch'"
proof -
  have "org = org' \<and> repo @ CHR '':'' # branch = repo' @ CHR '':'' # branch'"
    using assms append_sep_inj_first [of org "CHR ''/''"] by (simp add: poolKey_def)
  then show ?thesis using assms append_sep_inj_first [of repo "CHR '':''" branch repo' branch'] by simp
qed

lemma cacheIndexKey_inj:
  assumes "cacheIndexKey org repo branch sha = cacheIndexKey org' repo' branch' sha'"
    and "CHR ''/'' \<notin> set org" "CHR ''/'' \<notin> set org'" "CHR '':'' \<notin> set repo" "CHR '':'' \<notin> set repo'"
    and "CHR ''@'' \<notin> set sha" "CHR ''@'' \<notin> set sha'"
  shows "org = org' \<and> repo = repo' \<and> branch = branch' \<and> sha = sha'"
proof -
  have "org = org' \<and> repo = repo' \<and> branch @ CHR ''@'' # sha = branch' @ CHR ''@'' # sha'"
    using assms poolKey_inj [of org repo "branch @ CHR ''@'' # sha" org' repo' "branch' @ CHR ''@'' # sha'"]
    by (simp add: cacheIndexKey_def poolKey_def)
  then show ?thesis using assms append_sep_inj_last [of branch "CHR ''@''" sha branch' sha'] by simp
qed

subsection \<open>What is collected\<close>

definition found_by :: "sync_env \<Rightarrow> PullRequest \<Rightarrow> bool" where
  "found_by env pr \<longleftrightarrow> (\<exists>tq \<in> set (td_Queries (cfg_Tide (env_cfg env))). \<exists>found err.
     search (sy_fuel env) (sy_fmt_time env) (sy_query env) (Query tq) zero_time (env_now env) = Some (found, err)
     \<and> pr \<in> set found)"

definition keyed :: "(PullRequest \<Rightarrow> bool) \<Rightarrow> (string \<times> PullRequest) list \<Rightarrow> bool" where
  "keyed P prs \<longleftrightarrow> distinct (map fst prs) \<and> (\<forall>(k, pr) \<in> set prs. k = prKey pr \<and> P pr)"

lemma alist_update_set: "x \<in> set (AList.update k v al) \<Longrightarrow> x = (k, v) \<or> x \<in> set al"
  by (induction al) (auto split: if_splits)

lemma keyed_fold:
  "keyed P prs \<Longrightarrow> \<forall>pr \<in> set found. P pr \<Longrightarrow> keyed P (fold (\<lambda>pr. AList.update (prKey pr) pr) found prs)"
proof (induction found arbitrary: prs)
  case (Cons pr found)
  have "keyed P (AList.update (prKey pr) pr prs)"
    using Cons.prems by (auto simp: keyed_def distinct_update dest!: alist_update_set)
  then show ?case using Cons by simp
qed simp

lemma collect_prs_keyed:
  assumes "collect_prs env tqs prs = Some (Inr prs')" and "keyed (found_by env) prs"
    and "set tqs \<subseteq> set (td_Queries (cfg_Tide (env_cfg env)))"
  shows "keyed (found_by env) prs'"
  using assms
proof (induction tqs arbitrary: prs)
  case (Cons tq tqs)
  obtain found err where search: "search (sy_fuel env) (sy_fmt_time env) (sy_query env) (Query tq) zero_time
      (env_now env) = Some (found, err)"
    using Cons.prems(1) by (auto simp: Let_def split: option.splits)
  then have "\<forall>pr \<in> set found. found_by env pr"
    using Cons.prems(3) by (auto simp: found_by_def)
  moreover have "collect_prs env tqs (fold (\<lambda>pr. AList.update (prKey pr) pr) found prs) = Some (Inr prs')"
    using Cons.prems(1) search by (auto simp: Let_def split: option.splits if_splits)
  ultimately show ?case
    using Cons.IH Cons.prems(2,3) keyed_fold by simp
qed simp

subsection \<open>What a subpool holds\<close>

text \<open>The subpool of a key: the pull requests with this key, in order, on a base that GitHub gave.\<close>

definition groups ::
    "(string \<Rightarrow> string \<Rightarrow> string \<Rightarrow> string result) \<Rightarrow> PullRequest list \<Rightarrow> string \<Rightarrow> subpool \<Rightarrow> bool" where
  "groups GetRef prs key sp \<longleftrightarrow> key = poolKey (sp_org sp) (sp_repo sp) (sp_branch sp)
     \<and> sp_prs sp = filter (\<lambda>pr. pr_pool pr = key) prs
     \<and> (\<exists>pr \<in> set (sp_prs sp). pr_Org pr = sp_org sp \<and> pr_Repo pr = sp_repo sp
          \<and> pr_BaseRef_Name pr = sp_branch sp \<and> GetRef (pr_Org pr) (pr_Repo pr) (pr_ref pr) = Inr (sp_sha sp))"

lemma groups_pjs: "groups GetRef prs key (sp\<lparr>sp_pjs := pjs\<rparr>) = groups GetRef prs key sp"
  by (simp add: groups_def)

lemma divide_prs_groups:
  assumes "divide_prs GetRef prs sps = Inr sps'" and "distinct (map fst sps)"
    and "\<forall>key sp. map_of sps key = Some sp \<longrightarrow> groups GetRef past key sp"
    and "\<forall>pr \<in> set past. map_of sps (pr_pool pr) \<noteq> None"
  shows "distinct (map fst sps') \<and> (\<forall>key sp. map_of sps' key = Some sp \<longrightarrow> groups GetRef (past @ prs) key sp)
    \<and> (\<forall>pr \<in> set (past @ prs). map_of sps' (pr_pool pr) \<noteq> None)"
  using assms
proof (induction prs arbitrary: sps past)
  case (Cons pr prs)
  let ?fn = "pr_pool pr"
  define r where "r = (case map_of sps ?fn of
      Some sp \<Rightarrow> Inr sp
    | None \<Rightarrow> map_sum id (new_subpool pr) (GetRef (pr_Org pr) (pr_Repo pr) (pr_ref pr)))"
  obtain sp where sp: "r = Inr sp"
    and rest: "divide_prs GetRef prs (AList.update ?fn (sp\<lparr>sp_prs := sp_prs sp @ [pr]\<rparr>) sps) = Inr sps'"
    using Cons.prems(1) by (auto simp: Let_def r_def [symmetric] split: sum.splits)
  have new: "groups GetRef (past @ [pr]) ?fn (sp\<lparr>sp_prs := sp_prs sp @ [pr]\<rparr>)"
  proof (cases "map_of sps ?fn")
    case None
    then obtain sha where "GetRef (pr_Org pr) (pr_Repo pr) (pr_ref pr) = Inr sha" "sp = new_subpool pr sha"
      using sp by (cases "GetRef (pr_Org pr) (pr_Repo pr) (pr_ref pr)") (auto simp: r_def)
    moreover have "filter (\<lambda>p. pr_pool p = ?fn) past = []"
      using Cons.prems(4) None by (force simp: filter_empty_conv)
    ultimately show ?thesis by (auto simp: groups_def new_subpool_def pr_pool_def)
  next
    case (Some sp0)
    then show ?thesis using sp Cons.prems(3) by (fastforce simp: r_def groups_def)
  qed
  have other: "groups GetRef (past @ [pr]) key s" if "map_of sps key = Some s" "key \<noteq> ?fn" for key s
  proof -
    have "groups GetRef past key s" using Cons.prems(3) that(1) by blast
    then show ?thesis using that(2) by (auto simp: groups_def)
  qed
  show ?case
    using Cons.IH [OF rest, of "past @ [pr]"] Cons.prems(2,4) new other
    by (simp add: distinct_update update_conv' ball_Un del: map_of_eq_Some_iff)
qed simp

lemma list_jobs_value:
  assumes "list_jobs List ns todo sps = Inr sps'" and "distinct (map fst todo)" and "distinct (map fst sps)"
  shows "distinct (map fst sps') \<and> (\<forall>key. case map_of todo key of
      None \<Rightarrow> map_of sps' key = map_of sps key
    | Some sp \<Rightarrow> \<exists>pjs. List (cacheIndexKey (sp_org sp) (sp_repo sp) (sp_branch sp) (sp_sha sp)) ns = Inr pjs
        \<and> map_of sps' key = Some (sp\<lparr>sp_pjs := pjs\<rparr>))"
  using assms
proof (induction List ns todo sps rule: list_jobs.induct)
  case (2 List ns key sp todo sps)
  obtain pjs where pjs: "List (cacheIndexKey (sp_org sp) (sp_repo sp) (sp_branch sp) (sp_sha sp)) ns = Inr pjs"
    using "2.prems"(1) by (auto split: sum.splits)
  have none: "map_of todo key = None"
    using "2.prems"(2) by (simp add: map_of_eq_None_iff)
  have "list_jobs List ns todo (AList.update key (sp\<lparr>sp_pjs := pjs\<rparr>) sps) = Inr sps'"
    using "2.prems"(1) pjs by simp
  from "2.IH" [OF pjs this] "2.prems"(2,3) have d: "distinct (map fst sps')"
    and ih: "case map_of todo k of
      None \<Rightarrow> map_of sps' k = map_of (AList.update key (sp\<lparr>sp_pjs := pjs\<rparr>) sps) k
    | Some sp \<Rightarrow> \<exists>pjs. List (cacheIndexKey (sp_org sp) (sp_repo sp) (sp_branch sp) (sp_sha sp)) ns = Inr pjs
        \<and> map_of sps' k = Some (sp\<lparr>sp_pjs := pjs\<rparr>)" for k
    by (simp_all add: distinct_update)
  have "case map_of ((key, sp) # todo) k of
      None \<Rightarrow> map_of sps' k = map_of sps k
    | Some sp \<Rightarrow> \<exists>pjs. List (cacheIndexKey (sp_org sp) (sp_repo sp) (sp_branch sp) (sp_sha sp)) ns = Inr pjs
        \<and> map_of sps' k = Some (sp\<lparr>sp_pjs := pjs\<rparr>)" for k
  proof (cases "k = key")
    case True
    then show ?thesis using ih [of key] none pjs by (simp add: update_conv')
  next
    case False
    then show ?thesis using ih [of k] by (cases "map_of todo k") (simp_all add: update_conv')
  qed
  with d show ?case by blast
qed simp

lemma map_of_range_order:
  assumes "range_order f" and "distinct (map fst xs)" shows "map_of (f xs) = map_of xs"
proof -
  have "distinct (map fst (f xs))"
    using assms by simp
  then show ?thesis using assms by (simp add: map_of_inject_set)
qed

lemma dividePool_groups:
  assumes "dividePool env pool = Inr sps" and "range_order (sy_iter_prs env)" and "range_order (sy_iter_sps env)"
  shows "distinct (map fst sps)
    \<and> (\<forall>key sp. map_of sps key = Some sp \<longrightarrow> groups (sy_GetRef env) (map snd (sy_iter_prs env pool)) key sp
         \<and> sy_List env (cacheIndexKey (sp_org sp) (sp_repo sp) (sp_branch sp) (sp_sha sp))
             (env_ProwJobNamespace env) = Inr (sp_pjs sp))
    \<and> (\<forall>pr \<in> snd ` set pool. map_of sps (pr_pool pr) \<noteq> None)"
proof -
  obtain sps0 where sps0: "divide_prs (sy_GetRef env) (map snd (sy_iter_prs env pool)) [] = Inr sps0"
    and jobs: "list_jobs (sy_List env) (env_ProwJobNamespace env) (sy_iter_sps env sps0) sps0 = Inr sps"
    using assms(1) by (auto simp: dividePool_def split: sum.splits)
  have g: "distinct (map fst sps0)"
    "\<forall>key sp. map_of sps0 key = Some sp \<longrightarrow> groups (sy_GetRef env) (map snd (sy_iter_prs env pool)) key sp"
    "\<forall>pr \<in> snd ` set pool. map_of sps0 (pr_pool pr) \<noteq> None"
    using divide_prs_groups [OF sps0, of "[]"] assms(2) by (simp_all del: map_of_eq_Some_iff)
  have "distinct (map fst (sy_iter_sps env sps0))"
    using assms(3) g(1) by simp
  note v = list_jobs_value [OF jobs this g(1), unfolded map_of_range_order [OF assms(3) g(1)]]
  have "groups (sy_GetRef env) (map snd (sy_iter_prs env pool)) key sp
      \<and> sy_List env (cacheIndexKey (sp_org sp) (sp_repo sp) (sp_branch sp) (sp_sha sp))
          (env_ProwJobNamespace env) = Inr (sp_pjs sp)" if some: "map_of sps key = Some sp" for key sp
  proof (cases "map_of sps0 key")
    case None
    then show ?thesis using v that by (auto dest!: spec [of _ key])
  next
    case (Some sp0)
    then obtain pjs where "sy_List env (cacheIndexKey (sp_org sp0) (sp_repo sp0) (sp_branch sp0) (sp_sha sp0))
        (env_ProwJobNamespace env) = Inr pjs" "sp = sp0\<lparr>sp_pjs := pjs\<rparr>"
      using v some by (auto simp del: map_of_eq_Some_iff dest!: spec [of _ key])
    then show ?thesis using g(2) Some by (simp add: groups_pjs)
  qed
  moreover have "map_of sps key \<noteq> None" if "map_of sps0 key \<noteq> None" for key
    using v that by (auto dest!: spec [of _ key])
  ultimately show ?thesis using v g(3) by blast
qed

subsection \<open>What filtering keeps\<close>

text \<open>A filtered subpool and the one it comes from.\<close>

definition filtered_from :: "sync_env \<Rightarrow> subpool \<Rightarrow> subpool \<Rightarrow> bool" where
  "filtered_from env sp sp' \<longleftrightarrow> (\<exists>sp1 c c'. initSubpoolData env sp c = (Inr sp1, c')
     \<and> filterSubpool (env_status env) sp1 = Some sp')"

lemma filter_one_from:
  assumes "filter_one env sp (filtered, c) = Some (filtered', c')" and "x \<in> set filtered'"
  shows "x \<in> set filtered \<or> (\<exists>sp'. x = (poolKey (sp_org sp) (sp_repo sp) (sp_branch sp), sp')
    \<and> filtered_from env sp sp')"
  using assms
  by (auto simp: filter_one_def filtered_from_def dest!: alist_update_set
      split: prod.splits sum.splits option.splits)

lemma process_filter_from:
  assumes "process_all (filter_one env) sps (filtered, c) = Some (filtered', c')" and "x \<in> set filtered'"
  shows "x \<in> set filtered \<or> (\<exists>sp \<in> set sps. filtered_from env sp (snd x))"
  using assms(1)
proof (induction sps arbitrary: filtered c)
  case (Cons sp sps)
  obtain filtered1 c1 where one: "filter_one env sp (filtered, c) = Some (filtered1, c1)"
    and rest: "process_all (filter_one env) sps (filtered1, c1) = Some (filtered', c')"
    using Cons.prems by (auto split: option.splits)
  show ?case
    using Cons.IH [OF rest] filter_one_from [OF one, of x] by auto
qed (use assms(2) in simp)

lemma filterSubpools_from:
  assumes "filterSubpools env goroutines raw c = Some (filtered, c')" and "range_order (sy_iter_filter env)"
    and "x \<in> set filtered"
  shows "\<exists>sp \<in> snd ` set raw. filtered_from env sp (snd x)"
  using assms process_filter_from [of env "map snd (sy_iter_filter env raw)" "[]" c filtered c' x]
  by (auto simp: filterSubpools_def subpoolsInParallel_def Let_def split: if_splits)

lemma initSubpoolData_frame:
  assumes "initSubpoolData env sp c = (Inr sp1, c')"
  shows "\<exists>presubmits cc. sp1 = sp\<lparr>sp_presubmits := presubmits, sp_cc := cc\<rparr>"
  using assms
  by (cases "init_checkers env sp (sp_prs sp) (\<lambda>_. no_checker)")
     (auto simp: initSubpoolData_def split: prod.splits sum.splits)

lemma headContexts_commits: "\<exists>cs. snd (headContexts ghc pr) = pr\<lparr>pr_Commits := cs\<rparr>"
  by (auto simp: headContexts_def Let_def intro: exI [of _ "pr_Commits pr"] split: option.splits sum.splits)

lemma filterPR_kept:
  assumes "filterPR ghc sp pr = (False, pr')"
  shows "pr_Mergeable pr \<noteq> MergeableStateConflicting \<and> (\<exists>cs. pr' = pr\<lparr>pr_Commits := cs\<rparr>)"
  using assms headContexts_commits [of ghc pr]
  by (auto simp: filterPR_def split: if_splits prod.splits sum.splits)

lemma filterSubpool_kept:
  assumes "filterSubpool ghc sp = Some sp'"
  shows "(\<exists>prs. sp' = sp\<lparr>sp_prs := prs\<rparr>)
    \<and> (\<forall>pr' \<in> set (sp_prs sp'). \<exists>pr \<in> set (sp_prs sp). pr_Mergeable pr \<noteq> MergeableStateConflicting
         \<and> (\<exists>cs. pr' = pr\<lparr>pr_Commits := cs\<rparr>))
    \<and> (distinct (map pr_Number (sp_prs sp)) \<longrightarrow> distinct (map pr_Number (sp_prs sp')))"
proof -
  let ?keep = "\<lambda>xs. map snd (filter (\<lambda>(out, _). \<not> out) (map (filterPR ghc sp) xs))"
  have sp': "sp' = sp\<lparr>sp_prs := ?keep (sp_prs sp)\<rparr>"
    using assms by (auto simp: filterSubpool_def Let_def split: if_splits)
  have "map pr_Number (?keep xs) = map pr_Number (filter (\<lambda>pr. \<not> fst (filterPR ghc sp pr)) xs)" for xs
  proof (induction xs)
    case (Cons pr xs)
    then show ?case using filterPR_kept [of ghc sp pr] by (auto split: prod.splits)
  qed simp
  then have "distinct (map pr_Number (?keep (sp_prs sp)))" if "distinct (map pr_Number (sp_prs sp))"
    using that by (simp add: distinct_map_filter)
  moreover have "\<exists>pr \<in> set (sp_prs sp). pr_Mergeable pr \<noteq> MergeableStateConflicting \<and> (\<exists>cs. pr' = pr\<lparr>pr_Commits := cs\<rparr>)"
    if kept: "pr' \<in> set (?keep (sp_prs sp))" for pr'
  proof -
    obtain pr where "pr \<in> set (sp_prs sp)" "filterPR ghc sp pr = (False, pr')"
      using kept by auto
    then show ?thesis using filterPR_kept by blast
  qed
  ultimately show ?thesis using sp' by auto
qed

subsection \<open>What a sync merges\<close>

text \<open>What a merge call rests on, in the subpool it is made for.\<close>

definition justified :: "tide_env \<Rightarrow> subpool \<Rightarrow> PullRequest \<Rightarrow> merge_call \<Rightarrow> bool" where
  "justified env sp pr call \<longleftrightarrow> asks_merge (cfg_Tide (env_cfg env)) sp pr call
     \<and> ((\<exists>b. pr \<in> set b \<and> batch_tested (env_cfg env) (env_changes env) sp b) \<or> tested_alone env sp pr)"

lemma process_sync_justified:
  assumes "process_all (sync_one env blocks) sps (pools, st) = Some (pools', st')"
    and "\<forall>sp \<in> set sps. (\<forall>pj \<in> set (sp_pjs sp). refs_ok pj) \<and> distinct (map pr_Number (sp_prs sp))"
    and "range_order (env_batch_iter env)"
  shows "\<exists>new. ts_calls st' = ts_calls st @ new
    \<and> (\<forall>call \<in> set new. \<exists>sp \<in> set sps. GetApplicable blocks (sp_org sp) (sp_repo sp) (sp_branch sp) = []
         \<and> (\<exists>pr \<in> set (sp_prs sp). justified (tide_env.truncate env) sp pr call))"
  using assms(1,2)
proof (induction sps arbitrary: pools st)
  case (Cons sp sps)
  let ?env = "tide_env.truncate env" and ?blocks = "GetApplicable blocks (sp_org sp) (sp_repo sp) (sp_branch sp)"
  obtain x where x: "sync_one env blocks sp (pools, st) = Some x"
    "process_all (sync_one env blocks) sps x = Some (pools', st')"
    using Cons.prems(1) by (auto split: option.splits)
  then obtain pool err st1 where one: "syncSubpool ?env sp ?blocks st = Some (pool, err, st1)"
    and "x = (pools @ [pool], st1)"
    by (auto simp: sync_one_def)
  with x have rest: "process_all (sync_one env blocks) sps (pools @ [pool], st1) = Some (pools', st')" by simp
  have "range_order (env_batch_iter ?env)"
    using assms(3) by (simp add: tide_env.truncate_def)
  then obtain new where new: "ts_calls st1 = ts_calls st @ new"
    "\<forall>call \<in> set new. ?blocks = [] \<and> (\<exists>pr \<in> set (sp_prs sp). justified ?env sp pr call)"
    using syncSubpool_safe [OF one] Cons.prems(2) unfolding justified_def by fastforce
  obtain new' where "ts_calls st' = ts_calls st1 @ new'"
    "\<forall>call \<in> set new'. \<exists>sp \<in> set sps. GetApplicable blocks (sp_org sp) (sp_repo sp) (sp_branch sp) = []
       \<and> (\<exists>pr \<in> set (sp_prs sp). justified ?env sp pr call)"
    using Cons.IH [OF rest] Cons.prems(2) by auto
  then show ?case using new by (intro exI [of _ "new @ new'"]) auto
qed simp

text \<open>
  What is relied on.  Owner and repository names of GitHub hold neither a slash nor a colon,
  \<open>nameWithOwner\<close> is made of them, and a commit id holds no at sign.  The cached client lists
  only jobs whose index has the key asked for; a presubmit job has a pull.
\<close>

definition repo_named :: "PullRequest \<Rightarrow> bool" where
  "repo_named pr \<longleftrightarrow> CHR ''/'' \<notin> set (pr_Org pr) \<and> CHR '':'' \<notin> set (pr_Repo pr)
     \<and> pr_NameWithOwner pr = full_name (pr_Org pr) (pr_Repo pr)"

definition job_named :: "ProwJob \<Rightarrow> bool" where
  "job_named pj \<longleftrightarrow> (\<forall>refs. spec_Refs (pj_Spec pj) = Some refs \<longrightarrow> CHR ''/'' \<notin> set (refs_Org refs)
     \<and> CHR '':'' \<notin> set (refs_Repo refs) \<and> CHR ''@'' \<notin> set (refs_BaseSHA refs))"

definition indexed_list :: "(string \<Rightarrow> string \<Rightarrow> ProwJob list result) \<Rightarrow> bool" where
  "indexed_list List \<longleftrightarrow> (\<forall>key ns pjs. List key ns = Inr pjs \<longrightarrow>
     (\<forall>pj \<in> set pjs. key \<in> set (cacheIndexFunc pj) \<and> refs_ok pj \<and> job_named pj))"

definition sha_refs :: "(string \<Rightarrow> string \<Rightarrow> string \<Rightarrow> string result) \<Rightarrow> bool" where
  "sha_refs GetRef \<longleftrightarrow> (\<forall>org repo ref sha. GetRef org repo ref = Inr sha \<longrightarrow> CHR ''@'' \<notin> set sha)"

definition iterations :: "sync_env \<Rightarrow> bool" where
  "iterations env \<longleftrightarrow> range_order (sy_iter_prs env) \<and> range_order (sy_iter_sps env)
     \<and> range_order (sy_iter_filter env) \<and> range_order (sy_iter_sync env) \<and> range_order (env_batch_iter env)"

text \<open>A presubmit or batch job on the base of the subpool.\<close>

definition on_base :: "subpool \<Rightarrow> ProwJob \<Rightarrow> bool" where
  "on_base sp pj \<longleftrightarrow> pj_Type pj \<in> {PresubmitJob, BatchJob}
     \<and> (\<exists>refs. spec_Refs (pj_Spec pj) = Some refs \<and> refs_Org refs = sp_org sp \<and> refs_Repo refs = sp_repo sp
          \<and> refs_BaseRef refs = sp_branch sp \<and> refs_BaseSHA refs = sp_sha sp)"

lemma indexed_on_base:
  assumes "cacheIndexKey (sp_org sp) (sp_repo sp) (sp_branch sp) (sp_sha sp) \<in> set (cacheIndexFunc pj)"
    and "job_named pj" and "CHR ''/'' \<notin> set (sp_org sp)" and "CHR '':'' \<notin> set (sp_repo sp)"
    and "CHR ''@'' \<notin> set (sp_sha sp)"
  shows "on_base sp pj"
proof -
  obtain refs where refs: "spec_Refs (pj_Spec pj) = Some refs" "pj_Type pj \<in> {PresubmitJob, BatchJob}"
    "cacheIndexKey (sp_org sp) (sp_repo sp) (sp_branch sp) (sp_sha sp)
       = cacheIndexKey (refs_Org refs) (refs_Repo refs) (refs_BaseRef refs) (refs_BaseSHA refs)"
    using assms(1) by (cases "spec_Refs (pj_Spec pj)") (auto simp: cacheIndexFunc_def split: if_splits)
  then show ?thesis
    using cacheIndexKey_inj [OF refs(3)] assms(2-5) by (auto simp: on_base_def job_named_def)
qed

lemma grouped_subpool:
  assumes "groups GetRef prs key sp" and "\<forall>pr \<in> set prs. repo_named pr" and "pr \<in> set (sp_prs sp)"
  shows "pr \<in> set prs \<and> pr_Org pr = sp_org sp \<and> pr_Repo pr = sp_repo sp \<and> pr_BaseRef_Name pr = sp_branch sp"
proof -
  have pr: "pr \<in> set prs" "pr_pool pr = poolKey (sp_org sp) (sp_repo sp) (sp_branch sp)"
    using assms(1,3) by (auto simp: groups_def)
  obtain pr0 where "pr0 \<in> set prs" "pr_Org pr0 = sp_org sp" "pr_Repo pr0 = sp_repo sp"
    using assms(1) by (auto simp: groups_def)
  then have "repo_named pr" "CHR ''/'' \<notin> set (sp_org sp)" "CHR '':'' \<notin> set (sp_repo sp)"
    using assms(2) pr(1) by (auto simp: repo_named_def)
  then show ?thesis
    using pr poolKey_inj [of "pr_Org pr" "pr_Repo pr" "pr_BaseRef_Name pr"]
    by (auto simp: pr_pool_def repo_named_def)
qed

lemma grouped_distinct:
  assumes "groups GetRef (map snd (iter pool)) key sp" and "range_order iter" and "keyed P pool"
    and "\<forall>pr. P pr \<longrightarrow> repo_named pr"
  shows "distinct (map pr_Number (sp_prs sp))"
proof -
  have named: "\<forall>pr \<in> set (map snd (iter pool)). repo_named pr"
    using assms(2-4) by (auto simp: keyed_def)
  have "map fst pool = map prKey (map snd pool)"
    using assms(3) by (auto simp: keyed_def)
  moreover have "distinct (map fst pool)"
    using assms(3) by (simp add: keyed_def)
  ultimately have "distinct (map prKey (map snd pool))" by (simp only:)
  then have "distinct (map prKey (map snd (iter pool)))"
    using assms(2) by simp
  then have "distinct (map prKey (filter (\<lambda>pr. pr_pool pr = key) (map snd (iter pool))))"
    by (rule distinct_map_filter)
  then have "distinct (map prKey (sp_prs sp))"
    using assms(1) unfolding groups_def by (simp only:)
  moreover have "prKey pr = prKey pr'" if "pr \<in> set (sp_prs sp)" "pr' \<in> set (sp_prs sp)" "pr_Number pr = pr_Number pr'"
    for pr pr'
  proof -
    have "pr_NameWithOwner p = full_name (sp_org sp) (sp_repo sp)" if "p \<in> set (sp_prs sp)" for p
      using grouped_subpool [OF assms(1) named that] named by (metis repo_named_def)
    then show ?thesis using that by (simp add: prKey_inj)
  qed
  ultimately have "distinct (sp_prs sp)" "inj_on pr_Number (set (sp_prs sp))"
    unfolding distinct_map inj_on_def by blast+
  then show ?thesis by (simp add: distinct_map)
qed

text \<open>A subpool that a sync works on: where its base, its jobs and its pull requests come from.\<close>

definition sound_subpool :: "sync_env \<Rightarrow> subpool \<Rightarrow> bool" where
  "sound_subpool env sp \<longleftrightarrow>
     (\<exists>pr. found_by env pr \<and> pr_Org pr = sp_org sp \<and> pr_Repo pr = sp_repo sp \<and> pr_BaseRef_Name pr = sp_branch sp
        \<and> sy_GetRef env (sp_org sp) (sp_repo sp) (pr_ref pr) = Inr (sp_sha sp))
     \<and> (\<forall>pj \<in> set (sp_pjs sp). on_base sp pj \<and> refs_ok pj)
     \<and> distinct (map pr_Number (sp_prs sp))
     \<and> (\<forall>pr \<in> set (sp_prs sp). \<exists>pr0. found_by env pr0 \<and> pr_Mergeable pr0 \<noteq> MergeableStateConflicting
          \<and> pr_Org pr0 = sp_org sp \<and> pr_Repo pr0 = sp_repo sp \<and> pr_BaseRef_Name pr0 = sp_branch sp
          \<and> (\<exists>cs. pr = pr0\<lparr>pr_Commits := cs\<rparr>))"

lemma filtered_sound:
  assumes "dividePool env pool = Inr raw" and "keyed (found_by env) pool" and "iterations env"
    and "indexed_list (sy_List env)" and "sha_refs (sy_GetRef env)" and "\<forall>pr. found_by env pr \<longrightarrow> repo_named pr"
    and "(key, sp) \<in> set raw" and "filtered_from env sp sp'"
  shows "sound_subpool env sp'"
proof -
  let ?prs = "map snd (sy_iter_prs env pool)"
  have it: "range_order (sy_iter_prs env)" "range_order (sy_iter_sps env)"
    using assms(3) by (auto simp: iterations_def)
  have d: "distinct (map fst raw)" using dividePool_groups [OF assms(1) it] by blast
  then have "map_of raw key = Some sp" using assms(7) by simp
  then have g: "groups (sy_GetRef env) ?prs key sp"
    and jobs: "sy_List env (cacheIndexKey (sp_org sp) (sp_repo sp) (sp_branch sp) (sp_sha sp))
      (env_ProwJobNamespace env) = Inr (sp_pjs sp)"
    using dividePool_groups [OF assms(1) it] by blast+
  have found: "\<forall>pr \<in> set ?prs. found_by env pr"
    using assms(2) it(1) by (auto simp: keyed_def)
  then have named: "\<forall>pr \<in> set ?prs. repo_named pr" using assms(6) by blast
  note from_pool = grouped_subpool [OF g named]
  obtain pr0 where pr0: "pr0 \<in> set (sp_prs sp)" "sy_GetRef env (sp_org sp) (sp_repo sp) (pr_ref pr0) = Inr (sp_sha sp)"
    using g by (auto simp: groups_def)
  have "repo_named pr0" "found_by env pr0" using named found from_pool [OF pr0(1)] by blast+
  then have names: "CHR ''/'' \<notin> set (sp_org sp)" "CHR '':'' \<notin> set (sp_repo sp)" "CHR ''@'' \<notin> set (sp_sha sp)"
    using from_pool [OF pr0(1)] pr0(2) assms(5) by (auto simp: repo_named_def sha_refs_def)
  have pjs: "on_base sp pj \<and> refs_ok pj" if "pj \<in> set (sp_pjs sp)" for pj
    using assms(4) jobs that indexed_on_base [OF _ _ names] unfolding indexed_list_def by blast
  have dn: "distinct (map pr_Number (sp_prs sp))"
    by (rule grouped_distinct [OF g it(1) assms(2,6)])
  obtain sp1 c c' where init: "initSubpoolData env sp c = (Inr sp1, c')"
    and flt: "filterSubpool (env_status env) sp1 = Some sp'"
    using assms(8) by (auto simp: filtered_from_def)
  obtain presubmits cc where sp1: "sp1 = sp\<lparr>sp_presubmits := presubmits, sp_cc := cc\<rparr>"
    using initSubpoolData_frame [OF init] by blast
  note kept = filterSubpool_kept [OF flt, unfolded sp1]
  then obtain prs where sp': "sp' = sp1\<lparr>sp_prs := prs\<rparr>" using sp1 by blast
  have same: "sp_org sp' = sp_org sp" "sp_repo sp' = sp_repo sp" "sp_branch sp' = sp_branch sp"
    "sp_sha sp' = sp_sha sp" "sp_pjs sp' = sp_pjs sp"
    by (simp_all add: sp' sp1)
  have prs: "\<exists>pr0. found_by env pr0 \<and> pr_Mergeable pr0 \<noteq> MergeableStateConflicting
          \<and> pr_Org pr0 = sp_org sp \<and> pr_Repo pr0 = sp_repo sp \<and> pr_BaseRef_Name pr0 = sp_branch sp
          \<and> (\<exists>cs. pr = pr0\<lparr>pr_Commits := cs\<rparr>)" if pr: "pr \<in> set (sp_prs sp')" for pr
  proof -
    have "\<exists>pr1 \<in> set (sp_prs sp). pr_Mergeable pr1 \<noteq> MergeableStateConflicting
        \<and> (\<exists>cs. pr = pr1\<lparr>pr_Commits := cs\<rparr>)"
      using kept pr by simp
    then show ?thesis using from_pool found by blast
  qed
  show ?thesis
    unfolding sound_subpool_def same
    using from_pool [OF pr0(1)] pr0 found pjs dn kept prs by (auto simp: on_base_def same)
qed

lemma sync_pools_justified:
  assumes "sync_pools env blocks raw ct = Some (err, ct')" and "iterations env"
    and "\<forall>(key, sp) \<in> set raw. \<forall>sp'. filtered_from env sp sp' \<longrightarrow> sound_subpool env sp'"
  shows "\<exists>new. ts_calls (ct_tide ct') = ts_calls (ct_tide ct) @ new
    \<and> (\<forall>call \<in> set new. \<exists>sp. sound_subpool env sp
         \<and> GetApplicable blocks (sp_org sp) (sp_repo sp) (sp_branch sp) = []
         \<and> (\<exists>pr \<in> set (sp_prs sp). justified (tide_env.truncate env) sp pr call))"
proof -
  let ?n = "td_MaxGoroutines (cfg_Tide (env_cfg env))"
  have it: "range_order (sy_iter_filter env)" "range_order (sy_iter_sync env)" "range_order (env_batch_iter env)"
    using assms(2) by (auto simp: iterations_def)
  obtain filtered c' where filtered: "filterSubpools env ?n raw (ts_agent (ct_tide ct)) = Some (filtered, c')"
    using assms(1) by (auto simp: sync_pools_def Let_def split: option.splits)
  define st where "st = (ct_tide ct)\<lparr>ts_agent := c'\<rparr>"
  obtain pools st' where run: "subpoolsInParallel ?n (sy_iter_sync env) filtered (sync_one env blocks) ([], st)
      = Some (pools, st')"
    and ct': "ts_calls (ct_tide ct') = ts_calls st'"
    using assms(1) filtered
    by (auto simp: sync_pools_def Let_def st_def split: option.splits)
  have sound: "sound_subpool env (snd x)" if "x \<in> set filtered" for x
    using filterSubpools_from [OF filtered it(1) that] assms(3) by fastforce
  show ?thesis
  proof (cases "min ?n (int (length filtered)) \<le> 0")
    case True
    then have "st' = st" using run by (auto simp: subpoolsInParallel_def Let_def split: if_splits)
    then show ?thesis using ct' by (simp add: st_def)
  next
    case False
    then have "process_all (sync_one env blocks) (map snd (sy_iter_sync env filtered)) ([], st) = Some (pools, st')"
      using run by (auto simp: subpoolsInParallel_def Let_def split: if_splits)
    moreover have all: "sound_subpool env sp" if "sp \<in> set (map snd (sy_iter_sync env filtered))" for sp
      using sound it(2) that by auto
    moreover have "(\<forall>pj \<in> set (sp_pjs sp). refs_ok pj) \<and> distinct (map pr_Number (sp_prs sp))"
      if "sp \<in> set (map snd (sy_iter_sync env filtered))" for sp
      using all [OF that] by (simp add: sound_subpool_def)
    ultimately obtain new where "ts_calls st' = ts_calls st @ new"
      "\<forall>call \<in> set new. \<exists>sp \<in> set (map snd (sy_iter_sync env filtered)).
         GetApplicable blocks (sp_org sp) (sp_repo sp) (sp_branch sp) = []
         \<and> (\<exists>pr \<in> set (sp_prs sp). justified (tide_env.truncate env) sp pr call)"
      using process_sync_justified [OF _ _ it(3)] by blast
    then have "ts_calls (ct_tide ct') = ts_calls (ct_tide ct) @ new" and
      "\<forall>call \<in> set new. \<exists>sp. sound_subpool env sp
         \<and> GetApplicable blocks (sp_org sp) (sp_repo sp) (sp_branch sp) = []
         \<and> (\<exists>pr \<in> set (sp_prs sp). justified (tide_env.truncate env) sp pr call)"
      using all by (simp_all add: ct' st_def) blast
    then show ?thesis by blast
  qed
qed

subsection \<open>The pool of workers\<close>

text \<open>
  The workers that share the queue of subpools: a worker that is free takes the next one, and
  one that is busy finishes.  Up to \<open>n\<close> are busy at once.
\<close>

record 'a workers =
  wk_queue :: "'a list"
  wk_busy :: "'a list"
  wk_done :: "'a list"

inductive worker_step :: "nat \<Rightarrow> 'a workers \<Rightarrow> 'a workers \<Rightarrow> bool" for n where
  worker_take: "wk_queue w = x # xs \<Longrightarrow> length (wk_busy w) < n \<Longrightarrow>
    worker_step n w (w\<lparr>wk_queue := xs, wk_busy := x # wk_busy w\<rparr>)"
| worker_finish: "x \<in> set (wk_busy w) \<Longrightarrow>
    worker_step n w (w\<lparr>wk_busy := remove1 x (wk_busy w), wk_done := wk_done w @ [x]\<rparr>)"

inductive_cases worker_stepE: "worker_step n w w'"

definition workers_start :: "'a list \<Rightarrow> 'a workers" where
  "workers_start xs = \<lparr>wk_queue = xs, wk_busy = [], wk_done = []\<rparr>"

definition workers_inv :: "nat \<Rightarrow> 'a list \<Rightarrow> 'a workers \<Rightarrow> bool" where
  "workers_inv n xs w \<longleftrightarrow> length (wk_busy w) \<le> n
     \<and> mset (wk_queue w) + mset (wk_busy w) + mset (wk_done w) = mset xs"

lemma workers_inv_step: "worker_step n w w' \<Longrightarrow> workers_inv n xs w \<Longrightarrow> workers_inv n xs w'"
proof (erule worker_stepE)
  fix x assume x: "x \<in> set (wk_busy w)" and inv: "workers_inv n xs w"
    and w': "w' = w\<lparr>wk_busy := remove1 x (wk_busy w), wk_done := wk_done w @ [x]\<rparr>"
  have "add_mset x (mset (remove1 x (wk_busy w))) = mset (wk_busy w)" using x by simp
  then have "mset (wk_queue w) + mset (remove1 x (wk_busy w)) + (mset (wk_done w) + {#x#}) = mset xs"
    using inv unfolding workers_inv_def by (metis add_mset_add_single union_assoc union_commute)
  moreover have "length (remove1 x (wk_busy w)) \<le> n"
    using inv by (auto simp: workers_inv_def length_remove1)
  ultimately show "workers_inv n xs w'" by (simp add: workers_inv_def w')
qed (auto simp: workers_inv_def)

lemma workers_reach_inv:
  "(worker_step n)\<^sup>*\<^sup>* (workers_start xs) w \<Longrightarrow> workers_inv n xs w"
proof (induction rule: rtranclp_induct)
  case base
  show ?case by (simp add: workers_start_def workers_inv_def)
qed (rule workers_inv_step)

definition workers_left :: "'a workers \<Rightarrow> nat" where
  "workers_left w = 2 * length (wk_queue w) + length (wk_busy w)"

lemma worker_step_left: "worker_step n w w' \<Longrightarrow> workers_left w' < workers_left w"
  by (erule worker_stepE) (auto simp: workers_left_def length_remove1 dest: length_pos_if_in_set)

lemma worker_step_enabled:
  assumes "0 < n" and "workers_left w \<noteq> 0" shows "\<exists>w'. worker_step n w w'"
proof (cases "wk_busy w")
  case Nil
  then obtain x xs where "wk_queue w = x # xs"
    using assms(2) by (cases "wk_queue w") (auto simp: workers_left_def)
  then show ?thesis using worker_take [of w x xs n] Nil assms(1) by auto
next
  case (Cons x xs)
  then show ?thesis using worker_finish [of x w n] by auto
qed

lemma workers_finish:
  assumes "0 < n" shows "\<exists>w'. (worker_step n)\<^sup>*\<^sup>* w w' \<and> workers_left w' = 0"
proof (induction "workers_left w" arbitrary: w rule: less_induct)
  case less
  show ?case
  proof (cases "workers_left w = 0")
    case False
    then obtain w1 where "worker_step n w w1" using worker_step_enabled assms by blast
    then show ?thesis
      using less [OF worker_step_left] by (meson converse_rtranclp_into_rtranclp)
  qed blast
qed

subsection \<open>Merge calls of a sync\<close>

text \<open>
  A merge call with all it should rest on: the pull request was found by a query and is not
  known to conflict; no blocker applies; the base is GitHub's, and the jobs of the subpool
  ran on it; and the pull request was tested, alone or in a batch.
\<close>

definition supported_merge :: "sync_env \<Rightarrow> merge_call \<Rightarrow> bool" where
  "supported_merge env call \<longleftrightarrow> (\<exists>sp pr pr0 prs blocks.
      found_by env pr0 \<and> pr_Mergeable pr0 \<noteq> MergeableStateConflicting \<and> (\<exists>cs. pr = pr0\<lparr>pr_Commits := cs\<rparr>)
      \<and> mc_org call = pr_Org pr0 \<and> mc_repo call = pr_Repo pr0 \<and> mc_number call = pr_Number pr0
      \<and> md_SHA (mc_details call) = pr_HeadRefOID pr0
      \<and> collect_prs env (td_Queries (cfg_Tide (env_cfg env))) [] = Some (Inr prs)
      \<and> find_blockers env prs = Some (Inr blocks)
      \<and> GetApplicable blocks (pr_Org pr0) (pr_Repo pr0) (pr_BaseRef_Name pr0) = []
      \<and> sp_org sp = pr_Org pr0 \<and> sp_repo sp = pr_Repo pr0 \<and> sp_branch sp = pr_BaseRef_Name pr0
      \<and> (\<exists>pr1. found_by env pr1 \<and> pr_BaseRef_Name pr1 = pr_BaseRef_Name pr0
           \<and> sy_GetRef env (pr_Org pr0) (pr_Repo pr0) (pr_ref pr1) = Inr (sp_sha sp))
      \<and> (\<forall>pj \<in> set (sp_pjs sp). on_base sp pj)
      \<and> ((\<exists>b. pr \<in> set b \<and> batch_tested (env_cfg env) (env_changes env) sp b)
         \<or> tested_alone (tide_env.truncate env) sp pr))"

lemma justified_supported:
  assumes run: "collect_prs env (td_Queries (cfg_Tide (env_cfg env))) [] = Some (Inr prs)"
      "find_blockers env prs = Some (Inr blocks)"
    and sp: "sound_subpool env sp" "GetApplicable blocks (sp_org sp) (sp_repo sp) (sp_branch sp) = []"
      "pr \<in> set (sp_prs sp)" "justified (tide_env.truncate env) sp pr call"
  shows "supported_merge env call"
proof -
  obtain pr0 cs where pr0: "found_by env pr0" "pr_Mergeable pr0 \<noteq> MergeableStateConflicting"
    "sp_org sp = pr_Org pr0" "sp_repo sp = pr_Repo pr0" "sp_branch sp = pr_BaseRef_Name pr0"
    "pr = pr0\<lparr>pr_Commits := cs\<rparr>"
    using sp(1,3) unfolding sound_subpool_def by metis
  have "mc_org call = pr_Org pr0" "mc_repo call = pr_Repo pr0" "mc_number call = pr_Number pr0"
    "md_SHA (mc_details call) = pr_HeadRefOID pr0"
    using sp(4) pr0 by (simp_all add: justified_def asks_merge_def)
  moreover have "\<exists>pr1. found_by env pr1 \<and> pr_BaseRef_Name pr1 = pr_BaseRef_Name pr0
      \<and> sy_GetRef env (pr_Org pr0) (pr_Repo pr0) (pr_ref pr1) = Inr (sp_sha sp)"
    "\<forall>pj \<in> set (sp_pjs sp). on_base sp pj"
    using sp(1) unfolding sound_subpool_def pr0(3-5) by metis+
  moreover have "(\<exists>b. pr \<in> set b \<and> batch_tested (env_cfg env) (env_changes env) sp b)
       \<or> tested_alone (tide_env.truncate env) sp pr"
    using sp(4) by (simp add: justified_def tide_env.truncate_def)
  ultimately show ?thesis
    unfolding supported_merge_def using pr0 sp(2) run by metis
qed

subsection \<open>Properties\<close>


definition sample_sync :: sync_env where
  "sample_sync = tide_env.extend
     (sample_env\<lparr>env_cfg := (env_cfg sample_env)\<lparr>cfg_Tide := sample_Tide\<lparr>td_ContextOptions :=
        \<lparr>tcpo_Policy = zero_TideContextPolicy, tcpo_Orgs = Map.empty\<rparr>\<rparr>\<rparr>\<rparr>)
     (sync_env.fields 1 (\<lambda>_. []) (\<lambda>_ _. Inr \<lparr>pg_Nodes = [sample_passing_pr 4], pg_HasNextPage = False, pg_EndCursor = []\<rparr>)
        (\<lambda>_ _. Inl ''down'') (\<lambda>_ _ _. Inr ''base'')
        (\<lambda>key _. Inr (filter (\<lambda>pj. key \<in> set (cacheIndexFunc pj))
           [sample_ProwJob PresubmitJob ''unit'' SuccessState [(4, ''sha'')]]))
        (\<lambda>_. Inr []) \<lparr>we_open = None, we_write = None, we_close = None\<rparr>
        (\<lambda>xs. xs) (\<lambda>xs. xs) (\<lambda>xs. xs) (\<lambda>xs. xs) (\<lambda>xs. xs) (\<lambda>xs. xs))"

definition sample_controller :: controller where
  "sample_controller = \<lparr>ct_tide = sample_state, ct_pools = [], ct_notice = None, ct_flushed = None\<rparr>"

lemmas sample_sync_defs = sample_sync_def tide_env.defs sync_env.defs sample_env_def sample_Tide_def sample_Config_def

lemma sample_sync_search:
  "search (sy_fuel sample_sync) (sy_fmt_time sample_sync) (sy_query sample_sync) q start end
     = Some ([sample_passing_pr 4], None)"
  by (simp add: search_def sample_sync_defs Let_def)

lemma sample_sync_collect:
  "collect_prs sample_sync (td_Queries (cfg_Tide (env_cfg sample_sync))) []
     = Some (Inr [(prKey (sample_passing_pr 4), sample_passing_pr 4)])"
proof -
  have "td_Queries (cfg_Tide (env_cfg sample_sync)) = [sample_TideQuery [''org''] [] []]"
    by (simp add: sample_sync_defs)
  then show ?thesis by (simp add: sample_sync_search)
qed

definition sample_raw :: subpool where
  "sample_raw = (new_subpool (sample_passing_pr 4) ''base'')\<lparr>sp_prs := [sample_passing_pr 4],
     sp_pjs := [sample_ProwJob PresubmitJob ''unit'' SuccessState [(4, ''sha'')]]\<rparr>"

lemma sample_pr_frame:
  "pr_Org (sample_passing_pr n) = ''org''" "pr_Repo (sample_passing_pr n) = ''repo''"
  "pr_BaseRef_Name (sample_passing_pr n) = ''master''" "pr_NameWithOwner (sample_passing_pr n) = ''org/repo''"
  by (simp_all add: sample_passing_pr_def sample_PullRequest_def)

lemma sample_sync_divide:
  "dividePool sample_sync [(k, sample_passing_pr 4)] = Inr [(poolKey ''org'' ''repo'' ''master'', sample_raw)]"
  by (simp add: dividePool_def sample_sync_defs sample_pr_frame pr_pool_def new_subpool_def sample_raw_def
     sample_ProwJob_def cacheIndexFunc_def)

lemma sample_sync_policy:
  "\<exists>t. GetTideContextPolicy (env_cfg sample_sync) ''org'' ''repo'' ''master'' (Inr ''base'') ''sha'' = (Some t, None)
     \<and> tcp_RequiredContexts t = [''unit''] \<and> tcp_OptionalContexts t = []"
  by (simp add: GetTideContextPolicy_def GetPresubmits_def InRepoConfigEnabled_def full_name_def Let_def
      presubmit_defs sample_job_defs policy_valid_iff sample_sync_defs parseTideContextPolicyOptions_def
      zero_TideContextPolicy_def protection_contexts_def set_list_def)

lemma sample_sync_filter:
  "\<exists>sp c. filterSubpools sample_sync 20 [(k, sample_raw)] empty_agent = Some ([(poolKey ''org'' ''repo'' ''master'', sp)], c)
   \<and> sp_prs sp = [sample_passing_pr 4] \<and> sp_pjs sp = sp_pjs sample_raw \<and> sp_org sp = ''org'' \<and> sp_repo sp = ''repo'' \<and> sp_branch sp = ''master''
   \<and> sp_presubmits sp = [(4, [sample_Presubmit ''unit'' True False []])]
   \<and> isPassingTests (env_status sample_sync) (sample_passing_pr 4) (sp_cc sp 4)"
proof -
  obtain t where t: "GetTideContextPolicy (env_cfg sample_sync) ''org'' ''repo'' ''master'' (Inr ''base'') ''sha'' = (Some t, None)"
     "tcp_RequiredContexts t = [''unit'']" "tcp_OptionalContexts t = []"
    using sample_sync_policy by blast
  let ?cc = "(\<lambda>_. no_checker)(4 := policy_checker (sy_iter_contexts sample_sync, t))"
  have cc: "init_checkers sample_sync sample_raw (sp_prs sample_raw) (\<lambda>_. no_checker) = Inr ?cc"
    using t by (simp add: sample_raw_def new_subpool_def sample_pr_frame sample_ready_frame refGetterFactory_def)
  have pre: "\<exists>c. presubmitsByPull (env_cfg sample_sync) (env_changes sample_sync) sample_raw empty_agent
      = (Inr [(4, [sample_Presubmit ''unit'' True False []])], c)"
    by (simp add: presubmitsByPull_def sample_raw_def new_subpool_def sample_pr_frame sample_ready_frame
        GetPresubmits_def InRepoConfigEnabled_def full_name_def sample_sync_defs presubmit_defs sample_job_defs
        ShouldRun_def record_jobs_def presubmits_of_def)
  have pass: "isPassingTests (env_status sample_sync) (sample_passing_pr 4) (?cc 4)"
    using t by (simp add: isPassingTests_def headContexts_def sample_passing_pr_def sample_PullRequest_def
      unsuccessfulContexts_def policy_checker_def MissingRequiredContexts_def contextsToStrings_def sample_sync_defs)
  define sp where "sp = sample_raw\<lparr>sp_presubmits := [(4, [sample_Presubmit ''unit'' True False []])], sp_cc := ?cc\<rparr>"
  have "filterPR (env_status sample_sync) sp (sample_passing_pr 4) = (False, sample_passing_pr 4)"
    using pass
    by (simp add: filterPR_def isPassingTests_def headContexts_def sample_passing_pr_def
        sample_PullRequest_def MergeableStateConflicting_def sp_def)
  then have "filterSubpool (env_status sample_sync) sp = Some sp"
    by (simp add: filterSubpool_def) (simp add: sp_def sample_raw_def new_subpool_def)
  then show ?thesis using cc pre pass
    by (auto simp: filterSubpools_def subpoolsInParallel_def filter_one_def initSubpoolData_def sp_def
       sample_raw_def new_subpool_def sample_pr_frame sample_sync_defs)
qed

lemma sample_sync_one:
  assumes "sp_prs sp = [sample_passing_pr 4]" and "sp_pjs sp = sp_pjs sample_raw"
    and "sp_presubmits sp = [(4, [sample_Presubmit ''unit'' True False []])]"
    and "isPassingTests (env_status sample_sync) (sample_passing_pr 4) (sp_cc sp 4)"
    and "sp_org sp = ''org''" "sp_repo sp = ''repo''"
  shows "\<exists>pool err st'. syncSubpool (tide_env.truncate sample_sync) sp [] (sample_state\<lparr>ts_agent := c\<rparr>) = Some (pool, err, st')
     \<and> length (ts_calls st') = 1 \<and> h_path (ts_history st') = []"
proof -
  let ?env = "tide_env.truncate sample_sync" and ?st = "sample_state\<lparr>ts_agent := c\<rparr>"
  have acc: "accumulate (sp_presubmits sp) (sp_prs sp) (sp_pjs sp) =
      Some \<lparr>acc_successes = [sample_passing_pr 4], acc_pendings = [], acc_missings = [], acc_missingTests = []\<rparr>"
    by (simp add: assms accumulate_def sample_ready_frame sample_raw_def sample_ProwJob_def
        sample_job_defs presubmits_of_def record_jobs_def missing_presubmits_def some_pending_def
        toSimpleState_def)
  have batch: "accumulateBatch (env_batch_iter ?env) (env_cfg ?env) (env_changes ?env) sp
      (ts_agent ?st) = Some (([], []), c)"
    by (simp add: assms accumulateBatch_def sample_raw_def sample_ProwJob_def sample_sync_defs sample_state_def)
  have pick: "pickSmallestPassingNumber (env_status ?env) [sample_passing_pr 4] (sp_cc sp) =
      Some (sample_passing_pr 4)"
    using assms(4) sample_candidate [of "env_status ?env" 4]
    by (simp add: pickSmallestPassingNumber_def candidate_def sample_ready_frame tide_env.truncate_def)
  have merge: "\<exists>calls. mergePRs (cfg_Tide (env_cfg ?env)) (env_merge ?env) sp [sample_passing_pr 4] []
      = (None, calls) \<and> length calls = 1"
    by (simp add: mergePRs_def merge_method_for_def checkMergeLabels_def sample_ready_frame tryMerge_def
        maxRetries_def numeral_3_eq_3 sample_sync_defs Let_def)
  show ?thesis
    using acc batch pick merge
    by (auto simp: syncSubpool_def takeAction_def merge_action_def assms Let_def recordableActions_def
        History_Record_def addRecord_def recordLog_add_def newRecordLog_def sample_state_def)
qed

lemma sample_sync_merges:
  "\<exists>err ct'. Sync sample_sync sample_controller = Some (err, ct') \<and> length (ts_calls (ct_tide ct')) = 1"
proof -
  let ?raw = "[(poolKey ''org'' ''repo'' ''master'', sample_raw)]"
  have n: "td_MaxGoroutines (cfg_Tide (env_cfg sample_sync)) = 20" "sy_iter_sync sample_sync = (\<lambda>xs. xs)"
    by (simp_all add: sample_sync_defs)
  have blocks: "find_blockers sample_sync prs = Some (Inr no_blockers)" for prs
    by (simp add: find_blockers_def sample_sync_defs)
  have agent: "ts_agent sample_state = empty_agent" "ct_tide sample_controller = sample_state"
    by (simp_all add: sample_controller_def sample_state_def)
  obtain sp c where flt: "filterSubpools sample_sync 20 ?raw empty_agent = Some ([(poolKey ''org'' ''repo'' ''master'', sp)], c)"
    and sp: "sp_prs sp = [sample_passing_pr 4]" "sp_pjs sp = sp_pjs sample_raw" "sp_org sp = ''org''"
      "sp_repo sp = ''repo''" "sp_presubmits sp = [(4, [sample_Presubmit ''unit'' True False []])]"
      "isPassingTests (env_status sample_sync) (sample_passing_pr 4) (sp_cc sp 4)"
    using sample_sync_filter by blast
  obtain pool err st' where one: "syncSubpool (tide_env.truncate sample_sync) sp [] (sample_state\<lparr>ts_agent := c\<rparr>) = Some (pool, err, st')"
    "length (ts_calls st') = 1" "h_path (ts_history st') = []"
    using sample_sync_one [OF sp(1,2,5,6,3,4)] by blast
  have "GetApplicable no_blockers org repo branch = []" for org repo branch
    by (simp add: GetApplicable_def no_blockers_def)
  then have run: "subpoolsInParallel 20 (\<lambda>xs. xs) [(poolKey ''org'' ''repo'' ''master'', sp)] (sync_one sample_sync no_blockers)
      ([], sample_state\<lparr>ts_agent := c\<rparr>) = Some ([pool], st')"
    using one(1) by (simp add: subpoolsInParallel_def sync_one_def)
  have "\<exists>err ct'. sync_pools sample_sync no_blockers ?raw sample_controller = Some (err, ct') \<and> length (ts_calls (ct_tide ct')) = 1"
    using flt run one(2,3) unfolding sync_pools_def Let_def n agent by (simp add: Flush_def)
  then show ?thesis
    by (auto simp: Sync_def sample_sync_collect blocks sample_sync_divide prune_agent_def)
qed


text \<open>
  C7: Dividing the pool loses no pull request and mixes none up: with well-formed names there is
  one subpool for each org, repo and branch that occurs, it holds exactly the pull requests of
  that branch, its base is what GitHub gave for the branch, and its jobs are what the
  cached client lists for that base.
\<close>

theorem divide_pool_partition:
  assumes "dividePool env pool = Inr sps" and "iterations env" and "\<forall>(k, pr) \<in> set pool. repo_named pr"
  shows "distinct (map (\<lambda>(key, sp). (sp_org sp, sp_repo sp, sp_branch sp)) sps)
    \<and> (\<forall>(k, pr) \<in> set pool. \<exists>(key, sp) \<in> set sps. pr \<in> set (sp_prs sp))
    \<and> (\<forall>(key, sp) \<in> set sps. sp_prs sp \<noteq> []
         \<and> set (sp_prs sp) = {pr \<in> snd ` set pool. pr_Org pr = sp_org sp \<and> pr_Repo pr = sp_repo sp
              \<and> pr_BaseRef_Name pr = sp_branch sp}
         \<and> (\<exists>pr \<in> set (sp_prs sp). sy_GetRef env (sp_org sp) (sp_repo sp) (pr_ref pr) = Inr (sp_sha sp))
         \<and> sy_List env (cacheIndexKey (sp_org sp) (sp_repo sp) (sp_branch sp) (sp_sha sp))
             (env_ProwJobNamespace env) = Inr (sp_pjs sp))"
proof -
  let ?prs = "map snd (sy_iter_prs env pool)"
  have it: "range_order (sy_iter_prs env)" "range_order (sy_iter_sps env)"
    using assms(2) by (auto simp: iterations_def)
  have named: "\<forall>pr \<in> set ?prs. repo_named pr" using assms(3) it(1) by fastforce
  have d: "distinct (map fst sps)" and cover: "\<forall>pr \<in> snd ` set pool. map_of sps (pr_pool pr) \<noteq> None"
    using dividePool_groups [OF assms(1) it] by blast+
  have g: "groups (sy_GetRef env) ?prs key sp"
      "sy_List env (cacheIndexKey (sp_org sp) (sp_repo sp) (sp_branch sp) (sp_sha sp))
         (env_ProwJobNamespace env) = Inr (sp_pjs sp)" if "(key, sp) \<in> set sps" for key sp
    using dividePool_groups [OF assms(1) it] d that by simp_all
  have "map fst sps = map (\<lambda>(org, repo, branch). poolKey org repo branch)
      (map (\<lambda>(key, sp). (sp_org sp, sp_repo sp, sp_branch sp)) sps)"
    using g(1) by (auto simp: groups_def)
  with d have "distinct (map (\<lambda>(org, repo, branch). poolKey org repo branch)
      (map (\<lambda>(key, sp). (sp_org sp, sp_repo sp, sp_branch sp)) sps))" by (simp only:)
  then have "distinct (map (\<lambda>(key, sp). (sp_org sp, sp_repo sp, sp_branch sp)) sps)"
    unfolding distinct_map [of _ "map _ sps"] by blast
  moreover have "\<exists>(key, sp) \<in> set sps. pr \<in> set (sp_prs sp)" if kpr: "(k, pr) \<in> set pool" for k pr
  proof -
    obtain sp where sp: "(pr_pool pr, sp) \<in> set sps"
      using cover kpr by (force dest: map_of_SomeD)
    then have "pr \<in> set (sp_prs sp)"
      using g(1) [OF sp] kpr it(1) by (force simp: groups_def)
    then show ?thesis using sp by blast
  qed
  moreover have "sp_prs sp \<noteq> []
      \<and> set (sp_prs sp) = {pr \<in> snd ` set pool. pr_Org pr = sp_org sp \<and> pr_Repo pr = sp_repo sp
           \<and> pr_BaseRef_Name pr = sp_branch sp}
      \<and> (\<exists>pr \<in> set (sp_prs sp). sy_GetRef env (sp_org sp) (sp_repo sp) (pr_ref pr) = Inr (sp_sha sp))"
    if sp: "(key, sp) \<in> set sps" for key sp
  proof -
    note grp = g(1) [OF sp]
    have "set (sp_prs sp) \<subseteq> {pr \<in> set ?prs. pr_Org pr = sp_org sp \<and> pr_Repo pr = sp_repo sp
           \<and> pr_BaseRef_Name pr = sp_branch sp}"
      using grouped_subpool [OF grp named] by blast
    moreover have "{pr \<in> set ?prs. pr_Org pr = sp_org sp \<and> pr_Repo pr = sp_repo sp
           \<and> pr_BaseRef_Name pr = sp_branch sp} \<subseteq> set (sp_prs sp)"
      using grp unfolding groups_def pr_pool_def by auto
    moreover have "set ?prs = snd ` set pool" using it(1) by simp
    ultimately have "set (sp_prs sp) = {pr \<in> snd ` set pool. pr_Org pr = sp_org sp \<and> pr_Repo pr = sp_repo sp
           \<and> pr_BaseRef_Name pr = sp_branch sp}" by blast
    then show ?thesis using grp unfolding groups_def by fastforce
  qed
  ultimately show ?thesis using g(2) by blast
qed

theorem divide_pool_partition_witness:
  "\<exists>sps. dividePool sample_sync [(''k'', sample_passing_pr 4)] = Inr sps
     \<and> (\<exists>(key, sp) \<in> set sps. sample_passing_pr 4 \<in> set (sp_prs sp))"
proof -
  have "iterations sample_sync" by (simp add: iterations_def sample_sync_defs)
  then show ?thesis
    using divide_pool_partition [OF sample_sync_divide, of "''k''"] sample_sync_divide [of "''k''"]
    by (auto simp: repo_named_def sample_pr_frame full_name_def)
qed



end
