(* ===== verification/Tide_Status.thy ===== *)
theory Tide_Status
  imports Tide_Sync
begin

text \<open>
  The status controller of tide, \<open>src/tide/status.go\<close>: which status a pull request should have,
  posting it where it differs, the search for open pull requests that have changed, and the
  loop that waits for the pools the sync publishes.

  The services are the record \<open>status_env\<close>.  \<open>se_ListPassing\<close> is the look-up of ProwJobs by the index
  \<open>indexNamePassingJobs\<close>, \<open>se_link\<close> adds a query to a parsed URL.
\<close>

subsection \<open>Data\<close>

definition statusInPool :: string where "statusInPool = ''In merge pool.''"

definition statusNotInPool :: "string \<Rightarrow> string" where "statusNotInPool why = ''Not mergeable.'' @ why"

definition maxStatusDescriptionLength :: nat where "maxStatusDescriptionLength = 140"

lemmas status_states = StatusPending_def StatusSuccess_def StatusError_def

record created_status =
  cs_Org :: string
  cs_Repo :: string
  cs_SHA :: string
  cs_Context :: string
  cs_State :: string
  cs_Description :: string
  cs_TargetURL :: string

record storedState =
  ss_LatestPR :: time
  ss_PreviousQuery :: string

record statusController =
  sc_lastSyncStart :: time
  sc_stored :: storedState
  sc_path :: string
  sc_created :: "created_status list"

record status_env =
  se_cfg :: Config
  se_status :: combined_status
  se_ListPassing :: "string \<Rightarrow> ProwJob list result"
  se_link :: "string \<Rightarrow> (string \<Rightarrow> string) result"
  se_fuel :: nat
  se_fmt_time :: "time \<Rightarrow> string"
  se_query :: "string \<Rightarrow> PullRequest querier"
  se_now :: time
  se_iter_contexts :: "string list \<Rightarrow> string list"
  se_iter_pool :: "(string \<times> PullRequest) list \<Rightarrow> (string \<times> PullRequest) list"
  se_read :: "string \<Rightarrow> string result"
  se_marshal :: "storedState \<Rightarrow> string result"
  se_unmarshal :: "string \<Rightarrow> storedState result"

subsection \<open>The requirements a pull request does not meet\<close>

text \<open>The closure \<open>truncate\<close>: the first label and what else fits into \<open>maxLabelChars\<close>.\<close>

definition maxLabelChars :: nat where "maxLabelChars = 50"

fun truncate_loop :: "nat \<Rightarrow> string list \<Rightarrow> string list" where
  "truncate_loop chars [] = []"
| "truncate_loop chars (l # ls) =
     (if chars + length l > maxLabelChars then [] else l # truncate_loop (chars + (length l + 2)) ls)"

definition truncate_labels :: "string \<Rightarrow> string list \<Rightarrow> string list" where
  "truncate_labels l ls = l # truncate_loop (length l) ls"

text \<open>A text for one name or for several, and none for no name.\<close>

definition names_desc :: "(string \<Rightarrow> string) \<Rightarrow> (string \<Rightarrow> string) \<Rightarrow> string list \<Rightarrow> string" where
  "names_desc one many names =
     (case sort names of
        [] \<Rightarrow> []
      | l # ls \<Rightarrow>
          (let trunced = truncate_labels l ls
           in if length trunced = 1 then one l else many (join '', '' trunced)))"

fun first_desc :: "string list \<Rightarrow> string" where
  "first_desc [] = []"
| "first_desc (d # ds) = (if d \<noteq> [] then d else first_desc ds)"

definition branch_forbidden :: "PullRequest \<Rightarrow> TideQuery \<Rightarrow> bool" where
  "branch_forbidden pr q \<longleftrightarrow>
     pr_BaseRef_Name pr \<in> set (tq_ExcludedBranches q)
     \<or> \<not> (tq_IncludedBranches q = [] \<or> pr_BaseRef_Name pr \<in> set (tq_IncludedBranches q))"

definition wrong_milestone :: "PullRequest \<Rightarrow> TideQuery \<Rightarrow> bool" where
  "wrong_milestone pr q \<longleftrightarrow> tq_Milestone q \<noteq> [] \<and> pr_Milestone pr \<noteq> Some (tq_Milestone q)"

definition failed_contexts :: "PullRequest \<Rightarrow> contextChecker \<Rightarrow> string list" where
  "failed_contexts pr cc =
     concat (map (\<lambda>commit. if cm_OID commit = pr_HeadRefOID pr
                           then map cx_Context (unsuccessfulContexts (cm_Contexts commit) cc) else []) (pr_Commits pr))"

definition requirementDiff :: "PullRequest \<Rightarrow> TideQuery \<Rightarrow> contextChecker \<Rightarrow> string \<times> int" where
  "requirementDiff pr q cc =
     (let missingLabels = filter (\<lambda>l. l \<notin> set (pr_Labels pr)) (tq_Labels q);
          presentLabels = filter (\<lambda>l. l \<in> set (pr_Labels pr)) (tq_MissingLabels q);
          contexts = failed_contexts pr cc
      in (first_desc
            [if branch_forbidden pr q then '' Merging to branch '' @ pr_BaseRef_Name pr @ '' is forbidden.'' else [],
             if wrong_milestone pr q then '' Must be in milestone '' @ tq_Milestone q @ ''.'' else [],
             names_desc (\<lambda>l. '' Needs '' @ l @ '' label.'') (\<lambda>ls. '' Needs '' @ ls @ '' labels.'') missingLabels,
             names_desc (\<lambda>l. '' Should not have '' @ l @ '' label.'') (\<lambda>ls. '' Should not have '' @ ls @ '' labels.'')
               presentLabels,
             names_desc (\<lambda>l. '' Job '' @ l @ '' has not succeeded.'') (\<lambda>ls. '' Jobs '' @ ls @ '' have not succeeded.'')
               contexts],
          (if branch_forbidden pr q then 1000 else 0) + (if wrong_milestone pr q then 100 else 0)
          + int (length missingLabels) + int (length presentLabels) + int (length contexts)))"

subsection \<open>The expected status\<close>

definition indexKeyPassingJobs :: "string \<Rightarrow> string \<Rightarrow> string \<Rightarrow> string \<Rightarrow> string" where
  "indexKeyPassingJobs org repo baseSHA headSHA = org @ ''/'' @ repo @ ''@'' @ baseSHA @ ''+'' @ headSHA"

definition indexFuncPassingJobs :: "ProwJob \<Rightarrow> string list" where
  "indexFuncPassingJobs pj =
     (if pj_Type pj \<noteq> PresubmitJob \<and> pj_Type pj \<noteq> BatchJob then []
      else if pj_State pj \<noteq> SuccessState then []
      else case spec_Refs (pj_Spec pj) of
             None \<Rightarrow> []
           | Some refs \<Rightarrow>
               map (\<lambda>pull. indexKeyPassingJobs (refs_Org refs) (refs_Repo refs) (refs_BaseSHA refs) (pull_SHA pull))
                 (refs_Pulls refs))"

definition retestingStatus :: "string list \<Rightarrow> string" where
  "retestingStatus retested =
     (let all = statusNotInPool ('' Retesting: '' @ join '' '' (sort retested))
      in if length all > maxStatusDescriptionLength then
           statusNotInPool ('' Retesting '' @ itoa (int (length retested)) @ '' job''
             @ (if length retested > 1 then ''s'' else []) @ ''.'')
         else all)"

fun min_diff :: "PullRequest \<Rightarrow> contextChecker \<Rightarrow> TideQuery list \<Rightarrow> int \<Rightarrow> string \<Rightarrow> string" where
  "min_diff pr cc [] minDiffCount minDiff = minDiff"
| "min_diff pr cc (q # qs) minDiffCount minDiff =
     (case requirementDiff pr q cc of
        (diff, diffCount) \<Rightarrow>
          if minDiffCount = - 1 \<or> diffCount < minDiffCount then min_diff pr cc qs diffCount diff
          else min_diff pr cc qs minDiffCount minDiff)"

definition expectedStatus ::
    "status_env \<Rightarrow> QueryMap \<Rightarrow> PullRequest \<Rightarrow> (string \<times> PullRequest) list \<Rightarrow> contextChecker \<Rightarrow> Blockers \<Rightarrow> string
     \<Rightarrow> (string \<times> string) \<times> QueryMap" where
  "expectedStatus env queryMap pr pool cc blocks baseSHA =
     (let org = pr_Org pr; repo = pr_Repo pr
      in if map_of pool (prKey pr) = None then
           (let numbers = map (itoa \<circ> bl_Number) (GetApplicable blocks org repo (pr_BaseRef_Name pr))
            in if numbers \<noteq> [] then
                 ((StatusError, statusNotInPool ('' Merging is blocked by issue''
                     @ (if length numbers > 1 then ''s'' else []) @ '' '' @ join '', '' numbers @ ''.'')), queryMap)
               else
                 (let (qs, queryMap') = QueryMap_ForRepo queryMap org repo
                  in ((StatusPending, statusNotInPool (min_diff pr cc qs (- 1) [])), queryMap')))
         else
           (case se_ListPassing env (indexKeyPassingJobs org repo baseSHA (pr_HeadRefOID pr)) of
              Inl err \<Rightarrow> ((StatusSuccess, statusInPool), queryMap)
            | Inr pjs \<Rightarrow>
                (let diff = cc_MissingRequiredContexts cc (map (spec_Context \<circ> pj_Spec) pjs)
                 in if diff \<noteq> [] then ((StatusPending, retestingStatus diff), queryMap)
                    else ((StatusSuccess, statusInPool), queryMap))))"

definition targetURL :: "status_env \<Rightarrow> PullRequest \<Rightarrow> string" where
  "targetURL env pr =
     (let t = cfg_Tide (se_cfg env)
      in if td_TargetURL t \<noteq> [] then td_TargetURL t
         else if td_PRStatusBaseURL t \<noteq> [] then
           (case se_link env (td_PRStatusBaseURL t) of
              Inl err \<Rightarrow> []
            | Inr link \<Rightarrow> link (''is:pr repo:'' @ pr_NameWithOwner pr @ '' author:'' @ pr_Author pr
                               @ '' head:'' @ pr_HeadRefName pr))
         else [])"

text \<open>\<open>GetTideContextPolicy\<close> has a policy whenever it has no error, see \<open>policy_or_error\<close>.\<close>

definition getContextCheckerWithRequiredContexts ::
    "status_env \<Rightarrow> string \<Rightarrow> string \<Rightarrow> string \<Rightarrow> RefGetter \<Rightarrow> string \<Rightarrow> string list \<Rightarrow> contextChecker result" where
  "getContextCheckerWithRequiredContexts env org repo branch baseSHAGetter headSHA requiredContexts =
     (case GetTideContextPolicy (se_cfg env) org repo branch baseSHAGetter headSHA of
        (_, Some err) \<Rightarrow> Inl err
      | (None, None) \<Rightarrow> Inl []
      | (Some p, None) \<Rightarrow>
          Inr (policy_checker (se_iter_contexts env, p\<lparr>tcp_RequiredContexts := requiredContexts\<rparr>)))"

subsection \<open>Posting the statuses\<close>

text \<open>The last state and description of tide's own context.\<close>

definition actual_status :: "Context list \<Rightarrow> string \<times> string" where
  "actual_status contexts =
     fold (\<lambda>ctx actual. if cx_Context ctx = statusContext then (cx_State ctx, cx_Description ctx) else actual)
       contexts ([], [])"

definition fit_description :: "string \<Rightarrow> string" where
  "fit_description desc =
     (if length desc > maxStatusDescriptionLength then take (maxStatusDescriptionLength - 3) desc @ ''...'' else desc)"

type_synonym status_loop = "string list \<times> QueryMap \<times> created_status list"

definition process_pr ::
    "status_env \<Rightarrow> (string \<times> PullRequest) list \<Rightarrow> Blockers \<Rightarrow> (string \<rightharpoonup> string) \<Rightarrow> (string \<rightharpoonup> string list)
     \<Rightarrow> PullRequest \<Rightarrow> status_loop \<Rightarrow> status_loop" where
  "process_pr env pool blocks baseSHAs requiredContexts pr0 st =
     (let (processed0, queryMap, created) = st; processed = processed0 @ [prKey pr0]
      in case headContexts (se_status env) pr0 of
           (Inl err, _) \<Rightarrow> (processed, queryMap, created)
         | (Inr contexts, pr) \<Rightarrow>
             (let org = pr_Org pr; repo = pr_Repo pr; branch = pr_BaseRef_Name pr; headSHA = pr_HeadRefOID pr;
                  baseSHA = map_get [] baseSHAs (poolKey org repo branch)
              in case getContextCheckerWithRequiredContexts env org repo branch (Inr baseSHA) headSHA
                        (map_get [] requiredContexts (prKey pr)) of
                   Inl err \<Rightarrow> (processed, queryMap, created)
                 | Inr cr \<Rightarrow>
                     (let ((wantState, wantDesc0), queryMap') = expectedStatus env queryMap pr pool cr blocks baseSHA;
                          (actualState, actualDesc) = actual_status contexts;
                          wantDesc = fit_description wantDesc0
                      in (processed, queryMap',
                          if wantState \<noteq> to_lower actualState \<or> wantDesc \<noteq> actualDesc
                          then created @ [\<lparr>cs_Org = org, cs_Repo = repo, cs_SHA = headSHA, cs_Context = statusContext,
                                           cs_State = wantState, cs_Description = wantDesc,
                                           cs_TargetURL = targetURL env pr\<rparr>]
                          else created))))"

definition setStatuses ::
    "status_env \<Rightarrow> PullRequest list \<Rightarrow> status_notice \<Rightarrow> statusController \<Rightarrow> statusController" where
  "setStatuses env all notice sc =
     (let pool = sn_poolPRs notice;
          process = process_pr env pool (sn_blocks notice) (sn_baseSHAs notice) (sn_requiredContexts notice);
          st1 = fold process all ([], TideQueries_QueryMap (td_Queries (cfg_Tide (se_cfg env))), sc_created sc);
          st2 = fold (\<lambda>(key, poolPR) st. if key \<notin> set (fst st) then process poolPR st else st)
                  (se_iter_pool env pool) st1
      in sc\<lparr>sc_created := snd (snd st2)\<rparr>)"

subsection \<open>Searching\<close>

definition openPRsQuery :: "string list \<Rightarrow> string list \<Rightarrow> (string \<times> string list) list \<Rightarrow> string" where
  "openPRsQuery orgs repos orgExceptions =
     ''is:pr state:open sort:updated-asc '' @ orgRepoQueryString orgs repos orgExceptions"

definition seconds :: "int \<Rightarrow> duration" where "seconds n = n * 1000000000"

text \<open>\<open>None\<close> where the fuel of the search does not suffice.\<close>

definition status_search :: "status_env \<Rightarrow> statusController \<Rightarrow> (PullRequest list \<times> statusController) option" where
  "status_search env sc =
     (let queries = td_Queries (cfg_Tide (se_cfg env))
      in if queries = [] then Some ([], sc)
         else
           (let (orgExceptions, repos) = OrgExceptionsAndRepos queries;
                query = openPRsQuery (set_list (map fst orgExceptions)) (set_list repos) orgExceptions;
                stored = (if query \<noteq> ss_PreviousQuery (sc_stored sc)
                          then \<lparr>ss_LatestPR = zero_time, ss_PreviousQuery = query\<rparr> else sc_stored sc);
                sc' = sc\<lparr>sc_stored := stored\<rparr>
            in map_option
                 (\<lambda>(prs, err).
                    if prs = [] then ([], sc')
                    else
                      (let latest = pr_UpdatedAt (last prs)
                       in if latest = zero_time then (prs, sc')
                          else (prs, sc'\<lparr>sc_stored := stored\<lparr>ss_LatestPR := latest - seconds 30\<rparr>\<rparr>)))
                 (search (se_fuel env) (se_fmt_time env) (se_query env) query (ss_LatestPR stored) (se_now env))))"

definition status_sync :: "status_env \<Rightarrow> status_notice \<Rightarrow> statusController \<Rightarrow> statusController option" where
  "status_sync env notice sc =
     map_option (\<lambda>(all, sc'). setStatuses env all notice sc') (status_search env (sc\<lparr>sc_lastSyncStart := se_now env\<rparr>))"

definition status_load :: "status_env \<Rightarrow> statusController \<Rightarrow> statusController" where
  "status_load env sc =
     (if sc_path sc = [] then sc
      else case se_read env (sc_path sc) of
             Inl err \<Rightarrow> sc
           | Inr buf \<Rightarrow> (case se_unmarshal env buf of Inl err \<Rightarrow> sc | Inr stored \<Rightarrow> sc\<lparr>sc_stored := stored\<rparr>))"

text \<open>One tick of the goroutine \<open>save\<close>: what it writes, if anything, and whether it goes on.\<close>

definition status_save :: "status_env \<Rightarrow> statusController \<Rightarrow> (string \<times> string) option \<times> bool" where
  "status_save env sc =
     (if sc_path sc = [] then (None, False)
      else case se_marshal env (sc_stored sc) of
             Inl err \<Rightarrow> (None, True)
           | Inr buf \<Rightarrow> (Some (sc_path sc, buf), True))"

subsection \<open>Waiting for a new pool\<close>

text \<open>
  The goroutine of \<open>run\<close> and \<open>waitSync\<close> beside the sync of tide.  \<open>newPoolPending\<close> is a channel of
  size one: the sync stores a pool and sends without blocking under one lock, so that both are one step; a send
  to a full channel has no effect.  \<open>Waiting\<close> is the \<open>select\<close> of \<open>waitSync\<close>, whose timer may fire at
  any time; when it does the published pool is read.
\<close>

datatype status_phase = Idle | Waiting | Syncing status_notice | Stopped

record status_loop_state =
  sl_pending :: bool
  sl_closed :: bool
  sl_notice :: "status_notice option"
  sl_phase :: status_phase
  sl_synced :: "status_notice list"

definition init_loop :: status_loop_state where
  "init_loop = \<lparr>sl_pending = False, sl_closed = False, sl_notice = None, sl_phase = Idle, sl_synced = []\<rparr>"

definition zero_notice :: status_notice where
  "zero_notice = \<lparr>sn_blocks = \<lparr>bs_Repo = Map.empty, bs_Branch = Map.empty\<rparr>, sn_poolPRs = [],
     sn_baseSHAs = Map.empty, sn_requiredContexts = Map.empty\<rparr>"

inductive status_step :: "status_loop_state \<Rightarrow> status_loop_state \<Rightarrow> bool" where
  publish: "\<not> sl_closed st \<Longrightarrow> status_step st (st\<lparr>sl_notice := Some n, sl_pending := True\<rparr>)"
| shutdown: "\<not> sl_closed st \<Longrightarrow> status_step st (st\<lparr>sl_closed := True\<rparr>)"
| receive: "sl_phase st = Idle \<Longrightarrow> sl_pending st \<Longrightarrow> status_step st (st\<lparr>sl_pending := False, sl_phase := Waiting\<rparr>)"
| stop: "sl_phase st = Idle \<Longrightarrow> \<not> sl_pending st \<Longrightarrow> sl_closed st \<Longrightarrow> status_step st (st\<lparr>sl_phase := Stopped\<rparr>)"
| elapsed: "sl_phase st = Waiting \<Longrightarrow>
    status_step st (st\<lparr>sl_phase := Syncing (case sl_notice st of None \<Rightarrow> zero_notice | Some n \<Rightarrow> n)\<rparr>)"
| more: "sl_phase st = Waiting \<Longrightarrow> sl_pending st \<Longrightarrow> status_step st (st\<lparr>sl_pending := False\<rparr>)"
| no_more: "sl_phase st = Waiting \<Longrightarrow> \<not> sl_pending st \<Longrightarrow> sl_closed st \<Longrightarrow> status_step st (st\<lparr>sl_phase := Idle\<rparr>)"
| synced: "sl_phase st = Syncing n \<Longrightarrow> status_step st (st\<lparr>sl_phase := Idle, sl_synced := sl_synced st @ [n]\<rparr>)"

inductive_cases status_stepE: "status_step st st'"

text \<open>A published pool is announced, about to be read, being synced, or was the last one synced.\<close>

definition pool_seen :: "status_loop_state \<Rightarrow> bool" where
  "pool_seen st \<longleftrightarrow>
     (case sl_notice st of
        None \<Rightarrow> \<not> sl_pending st \<and> sl_phase st \<in> {Idle, Stopped} \<and> sl_synced st = []
      | Some n \<Rightarrow> sl_closed st \<or> sl_pending st \<or> sl_phase st = Waiting \<or> sl_phase st = Syncing n
          \<or> sl_phase st = Idle \<and> sl_synced st \<noteq> [] \<and> last (sl_synced st) = n)
     \<and> (sl_phase st = Stopped \<longrightarrow> sl_closed st \<and> \<not> sl_pending st)"

lemma pool_seen_step: "status_step st st' \<Longrightarrow> pool_seen st \<Longrightarrow> pool_seen st'"
  by (erule status_stepE) (auto simp: pool_seen_def split: option.splits)

lemma pool_seen_reachable: "status_step\<^sup>*\<^sup>* init_loop st \<Longrightarrow> pool_seen st"
proof (induction rule: rtranclp_induct)
  case base
  show ?case by (simp add: init_loop_def pool_seen_def)
qed (rule pool_seen_step)

text \<open>After the shutdown every step brings the goroutine nearer to its end.\<close>

definition steps_left :: "status_loop_state \<Rightarrow> nat" where
  "steps_left st = (if sl_pending st then 3 else 0)
     + (case sl_phase st of Stopped \<Rightarrow> 0 | Idle \<Rightarrow> 1 | Syncing _ \<Rightarrow> 2 | Waiting \<Rightarrow> 3)"

lemma steps_left_decreases: "status_step st st' \<Longrightarrow> sl_closed st \<Longrightarrow> sl_closed st' \<and> steps_left st' < steps_left st"
  by (erule status_stepE) (auto simp: steps_left_def)

lemma not_stuck:
  assumes "sl_closed st" and "sl_phase st \<noteq> Stopped" shows "\<exists>st'. status_step st st'"
  using assms status_step.intros by (cases "sl_phase st") blast+


definition sample_run :: status_loop_state where
  "sample_run = \<lparr>sl_pending = False, sl_closed = False, sl_notice = Some zero_notice, sl_phase = Idle,
     sl_synced = [zero_notice]\<rparr>"

lemma sample_run_reachable: "status_step\<^sup>*\<^sup>* init_loop sample_run"
proof -
  have "status_step init_loop (init_loop\<lparr>sl_notice := Some zero_notice, sl_pending := True\<rparr>)" (is "status_step _ ?s1")
    by (rule publish) (simp add: init_loop_def)
  moreover have "status_step ?s1 (?s1\<lparr>sl_pending := False, sl_phase := Waiting\<rparr>)" (is "status_step _ ?s2")
    by (rule receive) (simp_all add: init_loop_def)
  moreover have "status_step ?s2 (?s2\<lparr>sl_phase := Syncing zero_notice\<rparr>)" (is "status_step _ ?s3")
    using elapsed [of ?s2] by simp
  moreover have "status_step ?s3 sample_run"
    using synced [of ?s3 zero_notice] by (simp add: init_loop_def sample_run_def)
  ultimately show ?thesis by (meson rtranclp.rtrancl_into_rtrancl rtranclp.rtrancl_refl)
qed


subsection \<open>The requirements a pull request does not meet\<close>

lemma names_desc_empty [simp]:
  "(\<And>l. one l \<noteq> []) \<Longrightarrow> (\<And>ls. many ls \<noteq> []) \<Longrightarrow> names_desc one many names = [] \<longleftrightarrow> names = []"
  by (auto simp: names_desc_def Let_def split: list.splits) (metis list.set_intros(1) set_empty2 set_sort)

text \<open>
  What \<open>requirementDiff\<close> reports.  The difference to a query is zero exactly when the pull request
  meets every requirement the query states (branch, milestone, labels to have and not to have)
  and no context of its head has failed or is missing; there is a description exactly when there is a difference; and
  a forbidden branch weighs more than a wrong milestone, and that more than fewer than a
  hundred labels and contexts.
\<close>
theorem requirement_diff:
  "(snd (requirementDiff pr q cc) = 0 \<longleftrightarrow>
      pr_BaseRef_Name pr \<notin> set (tq_ExcludedBranches q)
      \<and> (tq_IncludedBranches q = [] \<or> pr_BaseRef_Name pr \<in> set (tq_IncludedBranches q))
      \<and> (tq_Milestone q = [] \<or> pr_Milestone pr = Some (tq_Milestone q))
      \<and> set (tq_Labels q) \<subseteq> set (pr_Labels pr) \<and> set (tq_MissingLabels q) \<inter> set (pr_Labels pr) = {}
      \<and> (\<forall>commit \<in> set (pr_Commits pr). cm_OID commit = pr_HeadRefOID pr \<longrightarrow>
           unsuccessfulContexts (cm_Contexts commit) cc = []))
   \<and> (fst (requirementDiff pr q cc) = [] \<longleftrightarrow> snd (requirementDiff pr q cc) = 0)
   \<and> 0 \<le> snd (requirementDiff pr q cc)
   \<and> (snd (requirementDiff pr q cc) < 1000 \<longrightarrow> \<not> branch_forbidden pr q)
   \<and> (snd (requirementDiff pr q cc) < 100 \<longrightarrow> \<not> wrong_milestone pr q)"
proof -
  have forbidden: "\<not> branch_forbidden pr q \<longleftrightarrow> pr_BaseRef_Name pr \<notin> set (tq_ExcludedBranches q)
      \<and> (tq_IncludedBranches q = [] \<or> pr_BaseRef_Name pr \<in> set (tq_IncludedBranches q))"
    by (auto simp: branch_forbidden_def)
  have milestone: "\<not> wrong_milestone pr q \<longleftrightarrow> tq_Milestone q = [] \<or> pr_Milestone pr = Some (tq_Milestone q)"
    by (auto simp: wrong_milestone_def)
  have labels: "filter (\<lambda>l. l \<notin> set (pr_Labels pr)) (tq_Labels q) = [] \<longleftrightarrow> set (tq_Labels q) \<subseteq> set (pr_Labels pr)"
    "filter (\<lambda>l. l \<in> set (pr_Labels pr)) (tq_MissingLabels q) = [] \<longleftrightarrow> set (tq_MissingLabels q) \<inter> set (pr_Labels pr) = {}"
    by (auto simp: filter_empty_conv)
  have failed: "failed_contexts pr cc = [] \<longleftrightarrow> (\<forall>commit \<in> set (pr_Commits pr). cm_OID commit = pr_HeadRefOID pr \<longrightarrow>
       unsuccessfulContexts (cm_Contexts commit) cc = [])"
    by (auto simp: failed_contexts_def)
  have zero: "snd (requirementDiff pr q cc) = 0 \<longleftrightarrow> \<not> branch_forbidden pr q \<and> \<not> wrong_milestone pr q
      \<and> filter (\<lambda>l. l \<notin> set (pr_Labels pr)) (tq_Labels q) = []
      \<and> filter (\<lambda>l. l \<in> set (pr_Labels pr)) (tq_MissingLabels q) = [] \<and> failed_contexts pr cc = []"
    by (simp add: requirementDiff_def Let_def add_nonneg_eq_0_iff)
  have desc: "fst (requirementDiff pr q cc) = [] \<longleftrightarrow> snd (requirementDiff pr q cc) = 0"
    unfolding zero by (simp add: requirementDiff_def Let_def)
  have rest: "0 \<le> snd (requirementDiff pr q cc)" "snd (requirementDiff pr q cc) < 1000 \<longrightarrow> \<not> branch_forbidden pr q"
    "snd (requirementDiff pr q cc) < 100 \<longrightarrow> \<not> wrong_milestone pr q"
    by (auto simp: requirementDiff_def Let_def)
  show ?thesis
    using desc rest by (intro conjI) (simp_all only: zero forbidden milestone labels failed conj_assoc)
qed

subsection \<open>The statuses that are posted\<close>

lemma policy_or_error: "GetTideContextPolicy c org repo branch getter headSHA \<noteq> (None, None)"
  by (auto simp: GetTideContextPolicy_def Let_def split: sum.splits prod.splits)

text \<open>The status a pull request should have, without the cache of queries.\<close>

definition wanted_status :: "status_env \<Rightarrow> status_notice \<Rightarrow> PullRequest \<Rightarrow> (string \<times> string) result" where
  "wanted_status env notice pr =
     (let (contexts, pr') = headContexts (se_status env) pr;
          baseSHA = map_get [] (sn_baseSHAs notice) (poolKey (pr_Org pr) (pr_Repo pr) (pr_BaseRef_Name pr))
      in case contexts of
           Inl err \<Rightarrow> Inl err
         | Inr _ \<Rightarrow>
             (case getContextCheckerWithRequiredContexts env (pr_Org pr) (pr_Repo pr) (pr_BaseRef_Name pr) (Inr baseSHA)
                     (pr_HeadRefOID pr) (map_get [] (sn_requiredContexts notice) (prKey pr)) of
                Inl err \<Rightarrow> Inl err
              | Inr cc \<Rightarrow>
                  Inr (apsnd fit_description (fst (expectedStatus env (TideQueries_QueryMap (td_Queries (cfg_Tide (se_cfg env))))
                    pr' (sn_poolPRs notice) cc (sn_blocks notice) baseSHA)))))"

definition posted :: "status_env \<Rightarrow> status_notice \<Rightarrow> PullRequest \<Rightarrow> created_status list" where
  "posted env notice pr =
     (case (fst (headContexts (se_status env) pr), wanted_status env notice pr) of
        (Inr contexts, Inr (state, desc)) \<Rightarrow>
          if state = to_lower (fst (actual_status contexts)) \<and> desc = snd (actual_status contexts) then []
          else [\<lparr>cs_Org = pr_Org pr, cs_Repo = pr_Repo pr, cs_SHA = pr_HeadRefOID pr, cs_Context = statusContext,
                 cs_State = state, cs_Description = desc, cs_TargetURL = targetURL env pr\<rparr>]
      | _ \<Rightarrow> [])"

lemma expectedStatus_cache:
  assumes "cache_ok tqs qm" and "CHR ''/'' \<notin> set (pr_Org pr)"
  shows "cache_ok tqs (snd (expectedStatus env qm pr pool cc blocks baseSHA))"
    and "fst (expectedStatus env qm pr pool cc blocks baseSHA) =
      fst (expectedStatus env (TideQueries_QueryMap tqs) pr pool cc blocks baseSHA)"
proof -
  have init: "cache_ok tqs (TideQueries_QueryMap tqs)" by (simp add: cache_ok_def TideQueries_QueryMap_def)
  show "cache_ok tqs (snd (expectedStatus env qm pr pool cc blocks baseSHA))"
    using assms(1) cache_ok_step(1) [OF assms]
    by (simp add: expectedStatus_def Let_def case_prod_unfold split: sum.splits)
  have "fst (QueryMap_ForRepo qm (pr_Org pr) (pr_Repo pr)) =
      fst (QueryMap_ForRepo (TideQueries_QueryMap tqs) (pr_Org pr) (pr_Repo pr))"
    using cache_ok_step(2) [OF assms] cache_ok_step(2) [OF init assms(2)] by simp
  then show "fst (expectedStatus env qm pr pool cc blocks baseSHA) =
      fst (expectedStatus env (TideQueries_QueryMap tqs) pr pool cc blocks baseSHA)"
    by (simp add: expectedStatus_def Let_def case_prod_unfold split: sum.splits)
qed

lemma headContexts_commits_only: "headContexts ghc pr = (r, pr') \<Longrightarrow> \<exists>cs. pr' = pr\<lparr>pr_Commits := cs\<rparr>"
  using headContexts_commits [of ghc pr] by simp

lemma process_pr_posts:
  assumes "cache_ok (td_Queries (cfg_Tide (se_cfg env))) qm" and "CHR ''/'' \<notin> set (pr_Org pr)"
  shows "\<exists>qm'. process_pr env (sn_poolPRs notice) (sn_blocks notice) (sn_baseSHAs notice) (sn_requiredContexts notice)
      pr (processed, qm, created) = (processed @ [prKey pr], qm', created @ posted env notice pr)
    \<and> cache_ok (td_Queries (cfg_Tide (se_cfg env))) qm'"
proof -
  obtain r pr' where h: "headContexts (se_status env) pr = (r, pr')" by fastforce
  obtain cs where pr': "pr' = pr\<lparr>pr_Commits := cs\<rparr>" using headContexts_commits_only [OF h] by blast
  note cache = expectedStatus_cache [OF assms(1), of pr' env "sn_poolPRs notice"]
  have url: "targetURL env (pr\<lparr>pr_Commits := cs\<rparr>) = targetURL env pr"
    by (simp add: targetURL_def Let_def split: sum.splits)
  have key: "prKey (pr\<lparr>pr_Commits := cs\<rparr>) = prKey pr" by (simp add: prKey_def)
  show ?thesis
  proof (cases r)
    case (Inl err)
    then show ?thesis using assms by (simp add: process_pr_def posted_def wanted_status_def h)
  next
    case r: (Inr contexts)
    define base where "base = map_get [] (sn_baseSHAs notice) (poolKey (pr_Org pr) (pr_Repo pr) (pr_BaseRef_Name pr))"
    define checker where "checker = getContextCheckerWithRequiredContexts env (pr_Org pr) (pr_Repo pr)
      (pr_BaseRef_Name pr) (Inr base) (pr_HeadRefOID pr) (map_get [] (sn_requiredContexts notice) (prKey pr))"
    show ?thesis
    proof (cases checker)
      case (Inl err)
      then show ?thesis
        using assms by (simp add: process_pr_def posted_def wanted_status_def h r pr' key checker_def base_def Let_def)
    next
      case (Inr cc)
      obtain want qm' where want: "expectedStatus env qm pr' (sn_poolPRs notice) cc (sn_blocks notice) base = (want, qm')"
        by fastforce
      then have "fst (expectedStatus env (TideQueries_QueryMap (td_Queries (cfg_Tide (se_cfg env)))) pr'
            (sn_poolPRs notice) cc (sn_blocks notice) base) = want" "cache_ok (td_Queries (cfg_Tide (se_cfg env))) qm'"
        using cache [of cc "sn_blocks notice" base] assms(2) by (simp_all add: pr')
      then show ?thesis
        using Inr want
        by (cases want; cases "actual_status contexts")
           (auto simp: process_pr_def posted_def wanted_status_def h r pr' url key checker_def base_def Let_def)
    qed
  qed
qed
lemma process_all:
  assumes "cache_ok (td_Queries (cfg_Tide (se_cfg env))) qm" and "\<forall>pr \<in> set prs. CHR ''/'' \<notin> set (pr_Org pr)"
  shows "\<exists>qm'. fold (process_pr env (sn_poolPRs notice) (sn_blocks notice) (sn_baseSHAs notice) (sn_requiredContexts notice))
      prs (processed, qm, created) = (processed @ map prKey prs, qm', created @ concat (map (posted env notice) prs))
    \<and> cache_ok (td_Queries (cfg_Tide (se_cfg env))) qm'"
  using assms
proof (induction prs arbitrary: processed qm created)
  case (Cons pr prs)
  obtain qm1 where one: "process_pr env (sn_poolPRs notice) (sn_blocks notice) (sn_baseSHAs notice)
      (sn_requiredContexts notice) pr (processed, qm, created) = (processed @ [prKey pr], qm1, created @ posted env notice pr)"
    and qm1: "cache_ok (td_Queries (cfg_Tide (se_cfg env))) qm1"
    using process_pr_posts [OF Cons.prems(1)] Cons.prems(2) by fastforce
  show ?case using Cons.IH [OF qm1, of "processed @ [prKey pr]" "created @ posted env notice pr"] Cons.prems(2) one by simp
qed simp

lemma process_pool:
  assumes "cache_ok (td_Queries (cfg_Tide (se_cfg env))) qm"
    and "\<forall>(key, pr) \<in> set pool. key = prKey pr \<and> CHR ''/'' \<notin> set (pr_Org pr)" and "distinct (map fst pool)"
  shows "snd (snd (fold (\<lambda>(key, poolPR) st. if key \<notin> set (fst st) then
        process_pr env (sn_poolPRs notice) (sn_blocks notice) (sn_baseSHAs notice) (sn_requiredContexts notice) poolPR st
        else st) pool (processed, qm, created)))
    = created @ concat (map (posted env notice \<circ> snd) (filter (\<lambda>(key, _). key \<notin> set processed) pool))"
  using assms
proof (induction pool arbitrary: processed qm created)
  case (Cons x pool)
  obtain key pr where x: "x = (key, pr)" by fastforce
  have other: "filter (\<lambda>(k, _). k \<noteq> key \<and> k \<notin> set processed) pool = filter (\<lambda>(k, _). k \<notin> set processed) pool"
    using Cons.prems(3) x by (intro filter_cong) (auto simp: image_iff)
  show ?case
  proof (cases "key \<in> set processed")
    case True
    then show ?thesis using Cons.IH [OF Cons.prems(1)] Cons.prems(2,3) x by simp
  next
    case False
    have px: "key = prKey pr" "CHR ''/'' \<notin> set (pr_Org pr)" using Cons.prems(2) x by auto
    obtain qm1 where one: "process_pr env (sn_poolPRs notice) (sn_blocks notice) (sn_baseSHAs notice)
        (sn_requiredContexts notice) pr (processed, qm, created) = (processed @ [prKey pr], qm1, created @ posted env notice pr)"
      and qm1: "cache_ok (td_Queries (cfg_Tide (se_cfg env))) qm1"
      using process_pr_posts [OF Cons.prems(1) px(2)] by blast
    show ?thesis
      using Cons.IH [OF qm1 _ _, of "processed @ [prKey pr]" "created @ posted env notice pr"] Cons.prems(2,3) False
      unfolding x fold_simps prod.case fst_conv if_True not_False_eq_True one by (simp add: other [unfolded px(1)])
  qed
qed simp

text \<open>
  C16: What \<open>setStatuses\<close> posts.  It works through the pull requests found and then those of the pool
  that were not found, each once; for each whose contexts and policy can be read it posts the wanted
  status exactly if the status on the head differs; the cache of queries
  has no effect.  No description is longer than GitHub allows.
\<close>
theorem statuses_posted:
  assumes "range_order (se_iter_pool env)" and "distinct (map fst (sn_poolPRs notice))"
    and "\<forall>(key, pr) \<in> set (sn_poolPRs notice). key = prKey pr"
    and "\<forall>pr \<in> set all \<union> snd ` set (sn_poolPRs notice). CHR ''/'' \<notin> set (pr_Org pr)"
  shows "sc_created (setStatuses env all notice sc) = sc_created sc @ concat (map (posted env notice)
      (all @ map snd (filter (\<lambda>(key, _). key \<notin> prKey ` set all) (se_iter_pool env (sn_poolPRs notice)))))
    \<and> (\<forall>pr. \<forall>s \<in> set (posted env notice pr). cs_Context s = statusContext \<and> cs_SHA s = pr_HeadRefOID pr
         \<and> length (cs_Description s) \<le> 140)"
proof -
  let ?qs = "td_Queries (cfg_Tide (se_cfg env))"
  let ?pool = "se_iter_pool env (sn_poolPRs notice)"
  have init: "cache_ok ?qs (TideQueries_QueryMap ?qs)" by (simp add: cache_ok_def TideQueries_QueryMap_def)
  obtain qm where first: "fold (process_pr env (sn_poolPRs notice) (sn_blocks notice) (sn_baseSHAs notice)
      (sn_requiredContexts notice)) all ([], TideQueries_QueryMap ?qs, sc_created sc)
      = (map prKey all, qm, sc_created sc @ concat (map (posted env notice) all))" and qm: "cache_ok ?qs qm"
    using process_all [OF init, of all notice "[]" "sc_created sc"] assms(4) by auto
  have "CHR ''/'' \<notin> set (pr_Org pr)" if "(key, pr) \<in> set (sn_poolPRs notice)" for key pr
    using assms(4) imageI [OF that, of snd] by simp
  then have "\<forall>(key, pr) \<in> set ?pool. key = prKey pr \<and> CHR ''/'' \<notin> set (pr_Org pr)" "distinct (map fst ?pool)"
    using assms(1-3) by (auto simp: range_order_distinct_map)
  note second = process_pool [OF qm this, of notice "map prKey all" "sc_created sc @ concat (map (posted env notice) all)"]
  have "length (fit_description d) \<le> 140" for d
    by (simp add: fit_description_def maxStatusDescriptionLength_def)
  then have "\<forall>s \<in> set (posted env notice pr). cs_Context s = statusContext \<and> cs_SHA s = pr_HeadRefOID pr
      \<and> length (cs_Description s) \<le> 140" for pr
    by (auto simp: prod_eq_iff posted_def wanted_status_def Let_def split: sum.splits prod.splits if_splits)
  then show ?thesis
    using second by (simp add: setStatuses_def Let_def first)
qed


subsection \<open>A sample\<close>

definition sample_status_env :: status_env where
  "sample_status_env =
     \<lparr>se_cfg = env_cfg sample_sync, se_status = (\<lambda>_ _ _. Inl ''down''),
      se_ListPassing = (\<lambda>key. Inr (filter (\<lambda>pj. key \<in> set (indexFuncPassingJobs pj))
         [sample_ProwJob PresubmitJob ''unit'' SuccessState [(4, ''sha'')]])),
      se_link = (\<lambda>_. Inl ''bad''), se_fuel = 1, se_fmt_time = (\<lambda>_. []), se_query = sy_query sample_sync, se_now = 9,
      se_iter_contexts = (\<lambda>xs. xs), se_iter_pool = rev, se_read = (\<lambda>_. Inl ''missing''),
      se_marshal = (\<lambda>s. Inr (ss_PreviousQuery s)), se_unmarshal = (\<lambda>_. Inl ''bad'')\<rparr>"

definition sample_notice :: status_notice where
  "sample_notice = zero_notice\<lparr>sn_poolPRs := [(prKey (sample_passing_pr 4), sample_passing_pr 4)],
     sn_baseSHAs := [poolKey ''org'' ''repo'' ''master'' \<mapsto> ''base''],
     sn_requiredContexts := [prKey (sample_passing_pr 4) \<mapsto> [''unit'']]\<rparr>"

definition sample_sc :: statusController where
  "sample_sc = \<lparr>sc_lastSyncStart = 0, sc_stored = \<lparr>ss_LatestPR = 0, ss_PreviousQuery = []\<rparr>, sc_path = [], sc_created = []\<rparr>"

lemma sample_head: "headContexts ghc (sample_passing_pr n) =
    (Inr [\<lparr>cx_Context = ''unit'', cx_Description = [], cx_State = StatusStateSuccess\<rparr>], sample_passing_pr n)"
  by (simp add: headContexts_def sample_passing_pr_def sample_PullRequest_def)

lemma sample_sha: "pr_HeadRefOID (sample_passing_pr n) = ''sha''" "pr_Number (sample_passing_pr n) = n"
  by (simp_all add: sample_passing_pr_def sample_PullRequest_def)

lemma sample_index: "indexKeyPassingJobs ''org'' ''repo'' ''base'' ''sha''
    \<in> set (indexFuncPassingJobs (sample_ProwJob PresubmitJob ''unit'' SuccessState [(4, ''sha'')]))"
  by (simp add: indexFuncPassingJobs_def sample_ProwJob_def)

lemma sample_wanted: "wanted_status sample_status_env sample_notice (sample_passing_pr 4) = Inr (StatusSuccess, statusInPool)"
proof -
  obtain t where t: "GetTideContextPolicy (se_cfg sample_status_env) ''org'' ''repo'' ''master'' (Inr ''base'') ''sha'' = (Some t, None)"
    using sample_sync_policy by (auto simp: sample_status_env_def)
  have notice: "map_get [] (sn_baseSHAs sample_notice) (poolKey ''org'' ''repo'' ''master'') = ''base''"
    "map_get [] (sn_requiredContexts sample_notice) (prKey (sample_passing_pr 4)) = [''unit'']"
    "map_of (sn_poolPRs sample_notice) (prKey (sample_passing_pr 4)) = Some (sample_passing_pr 4)"
    by (simp_all add: sample_notice_def map_get_def)
  have job: "map (spec_Context \<circ> pj_Spec) [sample_ProwJob PresubmitJob ''unit'' SuccessState [(4, ''sha'')]] = [''unit'']"
    by (simp add: sample_ProwJob_def)
  have list: "se_ListPassing sample_status_env (indexKeyPassingJobs ''org'' ''repo'' ''base'' ''sha'')
      = Inr [sample_ProwJob PresubmitJob ''unit'' SuccessState [(4, ''sha'')]]"
    using sample_index by (simp add: sample_status_env_def)
  have missing: "MissingRequiredContexts (se_iter_contexts sample_status_env) (t\<lparr>tcp_RequiredContexts := [''unit'']\<rparr>) [''unit''] = []"
    by (simp add: MissingRequiredContexts_def sample_status_env_def set_list_def)
  show ?thesis
    unfolding wanted_status_def Let_def sample_head sample_pr_frame sample_sha notice getContextCheckerWithRequiredContexts_def t
      prod.case sum.case option.case expectedStatus_def list job
    using missing by (simp add: notice policy_checker_def job fit_description_def statusInPool_def maxStatusDescriptionLength_def
        del: list.map)
qed


theorem statuses_posted_witness:
  "sc_created (setStatuses sample_status_env [] sample_notice sample_sc) = sc_created sample_sc @ posted sample_status_env sample_notice (sample_passing_pr 4)
     \<and> map cs_State (posted sample_status_env sample_notice (sample_passing_pr 4)) = [''success'']"
proof -
  have "sn_poolPRs sample_notice = [(prKey (sample_passing_pr 4), sample_passing_pr 4)]"
    "se_iter_pool sample_status_env = rev"
    by (simp_all add: sample_notice_def sample_status_env_def)
  then have "sc_created (setStatuses sample_status_env [] sample_notice sample_sc) = sc_created sample_sc @ posted sample_status_env sample_notice (sample_passing_pr 4)"
    using statuses_posted [of sample_status_env sample_notice "[]" sample_sc] by (simp add: sample_pr_frame)
  moreover have "map cs_State (posted sample_status_env sample_notice (sample_passing_pr 4)) = [''success'']"
    by (simp add: posted_def sample_head sample_wanted actual_status_def statusContext_def statusInPool_def StatusSuccess_def)
  ultimately show ?thesis ..
qed

theorem requirement_diff_witness:
  "snd (requirementDiff (sample_passing_pr 4) (sample_TideQuery [''org''] [] []) sample_checker) \<noteq> 0
     \<and> \<not> branch_forbidden (sample_passing_pr 4) (sample_TideQuery [''org''] [] [])"
proof -
  let ?d = "requirementDiff (sample_passing_pr 4) (sample_TideQuery [''org''] [] []) sample_checker"
  have "snd ?d < 1000"
    by (simp add: requirementDiff_def Let_def failed_contexts_def sample_passing_pr_def sample_PullRequest_def
        sample_TideQuery_def branch_forbidden_def wrong_milestone_def unsuccessfulContexts_def sample_checker_def
        policy_checker_def MissingRequiredContexts_def contextsToStrings_def zero_TideContextPolicy_def set_list_def)
  moreover have "\<not> set (tq_Labels (sample_TideQuery [''org''] [] [])) \<subseteq> set (pr_Labels (sample_passing_pr 4))"
    by (simp add: sample_TideQuery_def sample_passing_pr_def sample_PullRequest_def)
  ultimately show ?thesis
    using requirement_diff [of "sample_passing_pr 4" "sample_TideQuery [''org''] [] []" sample_checker] by blast
qed

end
