(* ===== verification/Abort_Jobs.thy ===== *)
theory Abort_Jobs
  imports Pjutil
begin

text \<open>
  Aborting superseded jobs, \<open>src/pjutil/abort.go\<close>.

  The client behind \<open>PatchProwjob\<close> is a record of what it uses: encoding a job, making a merge
  patch (\<open>jsonpatch.CreateMergePatch\<close>) and the \<open>Patch\<close> call of the API server.  The clean-up
  callback can only log a warning, so what remains of it is the list of jobs it was called for.
\<close>

record patch_client =
  pc_marshal :: "ProwJob \<Rightarrow> string result"
  pc_CreateMergePatch :: "string \<Rightarrow> string \<Rightarrow> string result"
  pc_Patch :: "string \<Rightarrow> string \<Rightarrow> ProwJob result"

definition PatchProwjob :: "patch_client \<Rightarrow> ProwJob \<Rightarrow> ProwJob \<Rightarrow> ProwJob result" where
  "PatchProwjob pjc srcPJ destPJ =
     (case pc_marshal pjc srcPJ of
        Inl err \<Rightarrow> Inl (''marshal source prow job: '' @ err)
      | Inr srcPJData \<Rightarrow>
          (case pc_marshal pjc destPJ of
             Inl err \<Rightarrow> Inl (''marshal dest prow job: '' @ err)
           | Inr destPJData \<Rightarrow>
               (case pc_CreateMergePatch pjc srcPJData destPJData of
                  Inl err \<Rightarrow> Inl (''cannot create JSON patch: '' @ err)
                | Inr patch \<Rightarrow> pc_Patch pjc (pj_Name srcPJ) patch)))"

definition digestRefs :: "Refs \<Rightarrow> string" where
  "digestRefs ref =
     refs_Org ref @ ''/'' @ refs_Repo ref @ ''@'' @ refs_BaseRef ref @ '' ''
     @ int_list_string (sort (map pull_Number (refs_Pulls ref)))"

definition job_identifier :: "ProwJob \<Rightarrow> string" where
  "job_identifier pj =
     join '',''
       (sort
         ([job_type_string (pj_Type pj), spec_Job (pj_Spec pj)]
          @ (case spec_Refs (pj_Spec pj) of None \<Rightarrow> [] | Some refs \<Rightarrow> [digestRefs refs])
          @ map digestRefs (spec_ExtraRefs (pj_Spec pj))))"

definition abort_job :: "time \<Rightarrow> ProwJob \<Rightarrow> ProwJob" where
  "abort_job now toCancel =
     (let pj = set_State AbortedState (SetComplete now toCancel)
      in pj\<lparr>pj_Status := (pj_Status pj)\<lparr>st_PrevReportStates :=
             (st_PrevReportStates (pj_Status pj))(GitHubReporterName \<mapsto> AbortedState)\<rparr>\<rparr>)"

definition abortable :: "ProwJob \<Rightarrow> bool" where
  "abortable pj \<longleftrightarrow> \<not> Complete pj \<and> (pj_Type pj = PresubmitJob \<or> pj_Type pj = BatchJob)"

record terminated =
  tm_err :: "error option"
  tm_pjs :: "ProwJob list"
  tm_cleaned :: "ProwJob list"

fun terminate_loop ::
    "patch_client \<Rightarrow> time \<Rightarrow> nat list \<Rightarrow> (string \<rightharpoonup> nat) \<Rightarrow> ProwJob list \<Rightarrow> ProwJob list \<Rightarrow> terminated" where
  "terminate_loop pjc now [] dupes pjs cleaned = \<lparr>tm_err = None, tm_pjs = pjs, tm_cleaned = cleaned\<rparr>"
| "terminate_loop pjc now (i # is) dupes pjs cleaned =
     (let pj = pjs ! i
      in if \<not> abortable pj then terminate_loop pjc now is dupes pjs cleaned
         else
           (let ji = job_identifier pj
            in case dupes ji of
                 None \<Rightarrow> terminate_loop pjc now is (dupes(ji \<mapsto> i)) pjs cleaned
               | Some prev \<Rightarrow>
                   (let newer = pj_StartTime (pjs ! prev) < pj_StartTime pj;
                        cancelIndex = (if newer then prev else i);
                        dupes' = (if newer then dupes(ji \<mapsto> i) else dupes);
                        toCancel = pjs ! cancelIndex
                    in case PatchProwjob pjc toCancel (abort_job now toCancel) of
                         Inl err \<Rightarrow> \<lparr>tm_err = Some err, tm_pjs = pjs, tm_cleaned = cleaned @ [toCancel]\<rparr>
                       | Inr newPJ \<Rightarrow>
                           terminate_loop pjc now is dupes' (pjs[cancelIndex := newPJ])
                             (cleaned @ [toCancel]))))"

definition TerminateOlderJobs :: "patch_client \<Rightarrow> time \<Rightarrow> ProwJob list \<Rightarrow> terminated" where
  "TerminateOlderJobs pjc now pjs = terminate_loop pjc now [0..<length pjs] Map.empty pjs []"

subsection \<open>What the loop keeps\<close>

lemma abort_job_simps [simp]:
  "Complete (abort_job now pj)" "pj_State (abort_job now pj) = AbortedState"
  "pj_Spec (abort_job now pj) = pj_Spec pj" "pj_StartTime (abort_job now pj) = pj_StartTime pj"
  "\<not> abortable (abort_job now pj)"
  by (simp_all add: abort_job_def Let_def abortable_def Complete_def SetComplete_def)

text \<open>
  After the first \<open>k\<close> jobs, \<open>dupes\<close> holds for every identifier seen the job that is kept, a
  newest one; the other abortable jobs among them are aborted and nothing else is changed.
\<close>

abbreviation ident :: "ProwJob list \<Rightarrow> nat \<Rightarrow> string" where "ident orig j \<equiv> job_identifier (orig ! j)"

definition kept :: "time \<Rightarrow> ProwJob list \<Rightarrow> nat \<Rightarrow> (string \<rightharpoonup> nat) \<Rightarrow> nat \<Rightarrow> ProwJob" where
  "kept now orig k dupes j =
     (if j < k \<and> abortable (orig ! j) \<and> dupes (ident orig j) \<noteq> Some j
      then abort_job now (orig ! j) else orig ! j)"

definition dupes_ok :: "ProwJob list \<Rightarrow> nat \<Rightarrow> (string \<rightharpoonup> nat) \<Rightarrow> bool" where
  "dupes_ok orig k dupes \<longleftrightarrow>
     (\<forall>ji d. dupes ji = Some d \<longrightarrow> d < k \<and> abortable (orig ! d) \<and> ident orig d = ji)
     \<and> (\<forall>j < k. abortable (orig ! j) \<longrightarrow>
          (\<exists>d. dupes (ident orig j) = Some d \<and> pj_StartTime (orig ! j) \<le> pj_StartTime (orig ! d)))"

lemma dupes_okD:
  assumes "dupes_ok orig k dupes"
  shows "dupes ji = Some d \<Longrightarrow> d < k \<and> abortable (orig ! d) \<and> ident orig d = ji"
    and "j < k \<Longrightarrow> abortable (orig ! j) \<Longrightarrow>
      \<exists>d. dupes (ident orig j) = Some d \<and> pj_StartTime (orig ! j) \<le> pj_StartTime (orig ! d)"
  using assms unfolding dupes_ok_def by blast+

lemma kept_later [simp]: "kept now orig k dupes k = orig ! k"
  by (simp add: kept_def)

lemma dupes_skip: "dupes_ok orig k dupes \<Longrightarrow> \<not> abortable (orig ! k) \<Longrightarrow> dupes_ok orig (Suc k) dupes"
  unfolding dupes_ok_def by (metis less_Suc_eq)

lemma kept_skip: "\<not> abortable (orig ! k) \<Longrightarrow> kept now orig (Suc k) dupes = kept now orig k dupes"
  by (auto simp: kept_def less_Suc_eq)

lemma dupes_add:
  assumes ok: "dupes_ok orig k dupes" and "abortable (orig ! k)"
    and older: "\<And>d. dupes (ident orig k) = Some d \<Longrightarrow> pj_StartTime (orig ! d) \<le> pj_StartTime (orig ! k)"
  shows "dupes_ok orig (Suc k) (dupes(ident orig k \<mapsto> k))"
  unfolding dupes_ok_def
proof (intro conjI allI impI)
  fix ji d assume "(dupes(ident orig k \<mapsto> k)) ji = Some d"
  then show "d < Suc k" "abortable (orig ! d)" "ident orig d = ji"
    using dupes_okD(1) [OF ok, of ji d] assms(2) by (auto split: if_splits)
next
  fix j assume "j < Suc k" "abortable (orig ! j)"
  then show "\<exists>d. (dupes(ident orig k \<mapsto> k)) (ident orig j) = Some d \<and> pj_StartTime (orig ! j) \<le> pj_StartTime (orig ! d)"
    using dupes_okD(2) [OF ok, of j] older by (fastforce simp: less_Suc_eq)
qed

lemma dupes_keep:
  assumes ok: "dupes_ok orig k dupes" and "dupes (ident orig k) = Some d"
    and "pj_StartTime (orig ! k) \<le> pj_StartTime (orig ! d)"
  shows "dupes_ok orig (Suc k) dupes"
  unfolding dupes_ok_def
proof (intro conjI allI impI)
  fix ji d' assume "dupes ji = Some d'"
  then show "d' < Suc k" "abortable (orig ! d')" "ident orig d' = ji"
    using dupes_okD(1) [OF ok] by (simp_all add: less_Suc_eq)
next
  fix j assume "j < Suc k" "abortable (orig ! j)"
  then show "\<exists>d. dupes (ident orig j) = Some d \<and> pj_StartTime (orig ! j) \<le> pj_StartTime (orig ! d)"
    using dupes_okD(2) [OF ok, of j] assms(2,3) by (auto simp: less_Suc_eq)
qed

lemma kept_add_new:
  assumes ok: "dupes_ok orig k dupes" and "dupes (ident orig k) = None" and "abortable (orig ! k)"
  shows "kept now orig (Suc k) (dupes(ident orig k \<mapsto> k)) = kept now orig k dupes"
proof
  fix j
  have "ident orig j \<noteq> ident orig k" if "j < k" "abortable (orig ! j)"
    using dupes_okD(2) [OF ok that] assms(2) by auto
  then show "kept now orig (Suc k) (dupes(ident orig k \<mapsto> k)) j = kept now orig k dupes j"
    by (auto simp: kept_def less_Suc_eq)
qed

lemma kept_add_newer:
  assumes ok: "dupes_ok orig k dupes" and d: "dupes (ident orig k) = Some d" and "abortable (orig ! k)"
  shows "kept now orig (Suc k) (dupes(ident orig k \<mapsto> k)) = (kept now orig k dupes)(d := abort_job now (orig ! d))"
    and "kept now orig k dupes d = orig ! d"
proof -
  have dk: "d < k" "abortable (orig ! d)" "ident orig d = ident orig k"
    using dupes_okD(1) [OF ok d] by auto
  show "kept now orig (Suc k) (dupes(ident orig k \<mapsto> k)) = (kept now orig k dupes)(d := abort_job now (orig ! d))"
  proof (rule ext)
    fix j
    show "kept now orig (Suc k) (dupes(ident orig k \<mapsto> k)) j =
      ((kept now orig k dupes)(d := abort_job now (orig ! d))) j"
    proof (cases "j = d")
      case True
      then show ?thesis using dk by (simp add: kept_def)
    next
      case False
      then show ?thesis
        using d by (cases "ident orig j = ident orig k"; cases "j = k") (simp_all add: kept_def less_Suc_eq)
    qed
  qed
  show "kept now orig k dupes d = orig ! d"
    using d dk(3) by (simp add: kept_def)
qed

lemma kept_keep:
  assumes ok: "dupes_ok orig k dupes" and d: "dupes (ident orig k) = Some d" and "abortable (orig ! k)"
  shows "kept now orig (Suc k) dupes = (kept now orig k dupes)(k := abort_job now (orig ! k))"
proof -
  have "d < k" using dupes_okD(1) [OF ok d] by auto
  then show ?thesis
    using d assms(3) by (intro ext, rename_tac j, case_tac "j = k") (auto simp: kept_def less_Suc_eq)
qed

lemma terminate_loop_kept:
  assumes patch: "\<And>pj. pj \<in> set orig \<Longrightarrow> PatchProwjob pjc pj (abort_job now pj) = Inr (abort_job now pj)"
    and ok: "dupes_ok orig k dupes" and "length pjs = length orig" and "k \<le> length orig"
    and pjs: "\<forall>j < length orig. pjs ! j = kept now orig k dupes j"
  shows "\<exists>dupes' pjs' cleaned'. terminate_loop pjc now [k..<length orig] dupes pjs cleaned =
      \<lparr>tm_err = None, tm_pjs = pjs', tm_cleaned = cleaned'\<rparr>
    \<and> dupes_ok orig (length orig) dupes' \<and> length pjs' = length orig
    \<and> (\<forall>j < length orig. pjs' ! j = kept now orig (length orig) dupes' j)"
  using assms(2-)
proof (induction "length orig - k" arbitrary: k dupes pjs cleaned)
  case 0
  then show ?case by auto
next
  case (Suc n)
  then have k: "k < length orig" and upt: "[k..<length orig] = k # [Suc k..<length orig]"
    by (simp_all add: upt_conv_Cons)
  have n: "n = length orig - Suc k" using Suc.hyps(2) by simp
  have pk: "pjs ! k = orig ! k" using Suc.prems(4) k by simp
  note step = Suc.hyps(1) [OF n]
  show ?case
  proof (cases "abortable (orig ! k)")
    case False
    then show ?thesis
      using step [of dupes pjs cleaned] dupes_skip kept_skip Suc.prems upt pk k by simp
  next
    case active: True
    show ?thesis
    proof (cases "dupes (ident orig k)")
      case None
      then show ?thesis
        using step [of "dupes(ident orig k \<mapsto> k)" pjs cleaned] dupes_add [OF Suc.prems(1) active]
          kept_add_new [OF Suc.prems(1) None active] Suc.prems upt pk k active by simp
    next
      case (Some d)
      have d: "d < length orig" "pjs ! d = orig ! d"
        using dupes_okD(1) [OF Suc.prems(1) Some] kept_add_newer(2) [OF Suc.prems(1) Some active]
          Suc.prems(4) k by auto
      have patches: "PatchProwjob pjc (orig ! j) (abort_job now (orig ! j)) = Inr (abort_job now (orig ! j))"
        if "j < length orig" for j
        using patch that by simp
      show ?thesis
      proof (cases "pj_StartTime (orig ! d) < pj_StartTime (orig ! k)")
        case True
        then show ?thesis
          using step [of "dupes(ident orig k \<mapsto> k)" "pjs[d := abort_job now (orig ! d)]" "cleaned @ [orig ! d]"]
            dupes_add [OF Suc.prems(1) active] Some kept_add_newer(1) [OF Suc.prems(1) Some active]
            Suc.prems upt pk d k active patches by (simp add: Let_def nth_list_update)
      next
        case False
        then show ?thesis
          using step [of dupes "pjs[k := abort_job now (orig ! k)]" "cleaned @ [orig ! k]"]
            dupes_keep [OF Suc.prems(1) Some] Some kept_keep [OF Suc.prems(1) Some active]
            Suc.prems upt pk d k active patches by (simp add: Let_def nth_list_update)
      qed
    qed
  qed
qed

subsection \<open>Properties\<close>

text \<open>
  C8: When patches are applied, \<open>TerminateOlderJobs\<close> succeeds and leaves, of all unfinished
  presubmit and batch jobs with the same identifier (type, name, and refs up to the order of
  pulls and whatever their commits), exactly one unfinished: one with the latest start time.  The
  others are aborted, and no other job is changed.
\<close>

theorem terminate_keeps_newest:
  assumes "\<forall>pj \<in> set pjs. PatchProwjob pjc pj (abort_job now pj) = Inr (abort_job now pj)"
  shows "let t = TerminateOlderJobs pjc now pjs; pjs' = tm_pjs t
    in tm_err t = None \<and> length pjs' = length pjs
     \<and> (\<forall>j < length pjs. pjs' ! j = pjs ! j
          \<or> abortable (pjs ! j) \<and> pjs' ! j = abort_job now (pjs ! j))
     \<and> (\<forall>j < length pjs. abortable (pjs ! j) \<longrightarrow>
          (\<exists>!d. d < length pjs \<and> abortable (pjs' ! d) \<and> job_identifier (pjs' ! d) = job_identifier (pjs ! j))
          \<and> (\<exists>d < length pjs. abortable (pjs' ! d) \<and> job_identifier (pjs' ! d) = job_identifier (pjs ! j)
               \<and> pj_StartTime (pjs ! j) \<le> pj_StartTime (pjs' ! d)))"
proof -
  have "dupes_ok pjs 0 Map.empty" "\<forall>j < length pjs. pjs ! j = kept now pjs 0 Map.empty j"
    by (simp_all add: dupes_ok_def kept_def)
  then obtain dupes pjs' cleaned where t: "TerminateOlderJobs pjc now pjs =
        \<lparr>tm_err = None, tm_pjs = pjs', tm_cleaned = cleaned\<rparr>"
      and ok: "dupes_ok pjs (length pjs) dupes" and len: "length pjs' = length pjs"
      and kept: "\<forall>j < length pjs. pjs' ! j = kept now pjs (length pjs) dupes j"
    using terminate_loop_kept [where pjc = pjc and now = now and orig = pjs and k = 0 and dupes = Map.empty
        and pjs = pjs and cleaned = "[]"] assms
    by (auto simp: TerminateOlderJobs_def)
  have survivor: "abortable (pjs' ! d) \<longleftrightarrow> abortable (pjs ! d) \<and> dupes (ident pjs d) = Some d"
    and same: "abortable (pjs' ! d) \<Longrightarrow> pjs' ! d = pjs ! d"
    if "d < length pjs" for d
    using kept that by (auto simp: kept_def)
  have one: "(\<exists>!d. d < length pjs \<and> abortable (pjs' ! d) \<and> job_identifier (pjs' ! d) = ident pjs j)
      \<and> (\<exists>d < length pjs. abortable (pjs' ! d) \<and> job_identifier (pjs' ! d) = ident pjs j
           \<and> pj_StartTime (pjs ! j) \<le> pj_StartTime (pjs' ! d))"
    if j: "j < length pjs" "abortable (pjs ! j)" for j
  proof -
    obtain d where d: "dupes (ident pjs j) = Some d" "pj_StartTime (pjs ! j) \<le> pj_StartTime (pjs ! d)"
      using dupes_okD(2) [OF ok j] by blast
    then have dl: "d < length pjs" "abortable (pjs ! d)" "ident pjs d = ident pjs j"
      using dupes_okD(1) [OF ok d(1)] by auto
    then have active: "abortable (pjs' ! d)"
      using survivor [of d] d(1) by auto
    have eq: "pjs' ! d = pjs ! d"
      using same [OF dl(1) active] .
    have uniq: "e = d"
      if e: "e < length pjs" "abortable (pjs' ! e)" "job_identifier (pjs' ! e) = ident pjs j" for e
    proof -
      have "ident pjs e = ident pjs j" using same [OF e(1,2)] e(3) by simp
      moreover have "dupes (ident pjs e) = Some e" using survivor [OF e(1)] e(2) by simp
      ultimately show ?thesis using d(1) by simp
    qed
    have "\<exists>!d. d < length pjs \<and> abortable (pjs' ! d) \<and> job_identifier (pjs' ! d) = ident pjs j"
    proof (rule ex1I [of _ d])
      show "d < length pjs \<and> abortable (pjs' ! d) \<and> job_identifier (pjs' ! d) = ident pjs j"
        unfolding eq using dl by (intro conjI)
      show "e = d" if "e < length pjs \<and> abortable (pjs' ! e) \<and> job_identifier (pjs' ! e) = ident pjs j" for e
        using uniq that by blast
    qed
    moreover have "\<exists>d < length pjs. abortable (pjs' ! d) \<and> job_identifier (pjs' ! d) = ident pjs j
        \<and> pj_StartTime (pjs ! j) \<le> pj_StartTime (pjs' ! d)"
      by (rule exI [of _ d], unfold eq, intro conjI dl d(2))
    ultimately show ?thesis by (rule conjI)
  qed
  have changed: "pjs' ! j = pjs ! j \<or> abortable (pjs ! j) \<and> pjs' ! j = abort_job now (pjs ! j)"
    if "j < length pjs" for j
    using kept that by (simp add: kept_def)
  show ?thesis
    unfolding Let_def t terminated.simps
    by (intro conjI allI impI refl len changed one [THEN conjunct1] one [THEN conjunct2])
qed

text \<open>A client whose server stores the job it is sent.\<close>

definition sample_presubmit_job :: "string \<Rightarrow> time \<Rightarrow> ProwJob" where
  "sample_presubmit_job name start =
     NewProwJob (\<lambda>_. True) name start (PresubmitSpec (sample_Presubmit ''unit'' True False []) zero_Refs)
       Map.empty Map.empty"

lemma sample_presubmit_job_simps:
  "abortable (sample_presubmit_job n t)" "pj_StartTime (sample_presubmit_job n t) = t"
  by (simp_all add: sample_presubmit_job_def abortable_def NewProwJob_def Complete_def PresubmitSpec_def
      specFromJobBase_def zero_ProwJobStatus_def split: prod.splits)

lemma sample_presubmit_job_ident: "job_identifier (sample_presubmit_job n t) = job_identifier (sample_presubmit_job n' t')"
  by (simp add: sample_presubmit_job_def job_identifier_def NewProwJob_def split: prod.splits)

definition sample_patch_client :: patch_client where
  "sample_patch_client =
     \<lparr>pc_marshal = (\<lambda>pj. Inr (pj_Name pj)), pc_CreateMergePatch = (\<lambda>_ d. Inr d),
      pc_Patch = (\<lambda>name _. Inr (abort_job 9 (sample_presubmit_job name (if name = ''a'' then 1 else 2))))\<rparr>"

lemma sample_patches:
  "\<forall>pj \<in> set [sample_presubmit_job ''a'' 1, sample_presubmit_job ''b'' 2].
     PatchProwjob sample_patch_client pj (abort_job 9 pj) = Inr (abort_job 9 pj)"
  by (simp add: PatchProwjob_def sample_patch_client_def)
     (simp add: sample_presubmit_job_def NewProwJob_def split: prod.splits)

theorem terminate_keeps_newest_witness:
  "let pjs = [sample_presubmit_job ''a'' 1, sample_presubmit_job ''b'' 2];
       t = TerminateOlderJobs sample_patch_client 9 pjs
   in tm_err t = None \<and> (\<exists>d < 2. abortable (tm_pjs t ! d) \<and> 2 \<le> pj_StartTime (tm_pjs t ! d))"
proof -
  let ?pjs = "[sample_presubmit_job ''a'' 1, sample_presubmit_job ''b'' 2]"
  have "tm_err (TerminateOlderJobs sample_patch_client 9 ?pjs) = None
      \<and> (\<forall>j < length ?pjs. abortable (?pjs ! j) \<longrightarrow>
           (\<exists>d < length ?pjs. abortable (tm_pjs (TerminateOlderJobs sample_patch_client 9 ?pjs) ! d)
              \<and> pj_StartTime (?pjs ! j) \<le> pj_StartTime (tm_pjs (TerminateOlderJobs sample_patch_client 9 ?pjs) ! d)))"
    using terminate_keeps_newest [OF sample_patches] unfolding Let_def by blast
  then show ?thesis
    unfolding Let_def using sample_presubmit_job_simps
    by (metis One_nat_def length_Cons less_one list.size(3) nth_Cons_0 nth_Cons_Suc numeral_2_eq_2 lessI)
qed

end
