(* ===== verification/Plank.thy ===== *)
theory Plank
  imports Abort_Jobs "HOL-Library.Sublist"
begin

text \<open>
  The controller that runs ProwJobs as pods, \<open>src/plank/controller.go\<close>: aborting superseded
  jobs, following the pods of pending jobs, starting triggered jobs within the concurrency
  limits, and one sync over all jobs.

  The services are the record \<open>plank_env\<close>: the API server of ProwJobs, a client per build
  cluster, the build ids of tot, the conversion of a job to a pod and its URL, the GitHub report
  and the clock.  The state is the record \<open>plank_state\<close>: the counters of pending jobs, the
  cached jobs, and what was done: pods asked for and deleted, jobs reported, patched and
  updated.  The workers of \<open>syncProwJobs\<close> share nothing but the counters, which they change
  under a lock, so they are run in the order in which they get it.  \<open>sort.Slice\<close> leaves the order
  of jobs created at the same time open; here it is the order in which they are listed, and no
  lemma depends on it.
\<close>

subsection \<open>Data\<close>

datatype PodPhase = PodPending | PodRunning | PodSucceeded | PodFailed | PodUnknown | PodPhaseOther string

record Pod =
  pod_Name :: string
  pod_Labels :: "string \<rightharpoonup> string"
  pod_Phase :: PodPhase
  pod_Reason :: string
  pod_StartTime :: time
  pod_Containers :: "(string \<times> string) list list"

definition Evicted :: string where "Evicted = ''Evicted''"

text \<open>An error of a Kubernetes client, which may say that the object is invalid.\<close>

datatype kube_error = Invalid error | OtherError error

primrec kube_error_text :: "kube_error \<Rightarrow> error" where
  "kube_error_text (Invalid e) = e"
| "kube_error_text (OtherError e) = e"

record PodInterface =
  pi_List :: "string \<Rightarrow> Pod list result"
  pi_Create :: "Pod \<Rightarrow> kube_error + string"
  pi_Delete :: "string \<Rightarrow> error option"

record PlankConfig =
  pk_MaxConcurrency :: int
  pk_MaxGoroutines :: int
  pk_AllowCancellations :: bool
  pk_PodPendingTimeout :: duration
  pk_PodRunningTimeout :: duration

record plank_env =
  pe_config :: PlankConfig
  pe_selector :: string
  pe_skipReport :: bool
  pe_List :: "string \<Rightarrow> ProwJob list result"
  pe_Get :: "string \<Rightarrow> ProwJob result"
  pe_Update :: "ProwJob \<Rightarrow> error option"
  pe_patch :: patch_client
  pe_buildClients :: "(string \<times> PodInterface) list"
  pe_GetBuildID :: "string \<Rightarrow> string result"
  pe_ProwJobToPod :: "ProwJob \<Rightarrow> string \<Rightarrow> Pod result"
  pe_JobURL :: "ProwJob \<Rightarrow> string"
  pe_Report :: "ProwJob \<Rightarrow> error option"
  pe_now :: time
  pe_iter_clients :: "(string \<times> PodInterface) list \<Rightarrow> (string \<times> PodInterface) list"
  pe_iter_jobs :: "ProwJob list \<Rightarrow> ProwJob list"

record plank_state =
  pl_pendingJobs :: "(string \<times> int) list"
  pl_pjs :: "ProwJob list"
  pl_created :: "(ProwJob \<times> Pod) list"
  pl_deleted :: "(string \<times> string) list"
  pl_reports :: "ProwJob list"
  pl_patched :: "(ProwJob \<times> ProwJob) list"
  pl_updated :: "ProwJob list"

abbreviation pj_Job :: "ProwJob \<Rightarrow> string" where "pj_Job pj \<equiv> spec_Job (pj_Spec pj)"

definition num_pending :: "(string \<times> int) list \<Rightarrow> string \<Rightarrow> int" where
  "num_pending pendingJobs job = map_get 0 (map_of pendingJobs) job"

definition client_of :: "plank_env \<Rightarrow> ProwJob \<Rightarrow> PodInterface option" where
  "client_of env pj = map_of (pe_buildClients env) (ClusterAlias pj)"

subsection \<open>Concurrency\<close>

definition incrementNumPendingJobs :: "string \<Rightarrow> plank_state \<Rightarrow> plank_state" where
  "incrementNumPendingJobs job st =
     st\<lparr>pl_pendingJobs := AList.update job (num_pending (pl_pendingJobs st) job + 1) (pl_pendingJobs st)\<rparr>"

definition running_jobs :: "(string \<times> int) list \<Rightarrow> int" where
  "running_jobs pendingJobs = sum_list (map snd pendingJobs)"

definition olderMatchingPJs :: "ProwJob list \<Rightarrow> ProwJob \<Rightarrow> int" where
  "olderMatchingPJs pjs pj =
     int (length (filter (\<lambda>found. pj_State found = TriggeredState \<and> pj_Job found = pj_Job pj
            \<and> pj_CreationTimestamp found < pj_CreationTimestamp pj) pjs))"

definition canExecuteConcurrently :: "plank_env \<Rightarrow> ProwJob \<Rightarrow> plank_state \<Rightarrow> bool \<times> plank_state" where
  "canExecuteConcurrently env pj st =
     (let maxAll = pk_MaxConcurrency (pe_config env);
          limit = spec_MaxConcurrency (pj_Spec pj);
          numPending = num_pending (pl_pendingJobs st) (pj_Job pj)
      in if maxAll > 0 \<and> running_jobs (pl_pendingJobs st) \<ge> maxAll then (False, st)
         else if limit = 0 then (True, incrementNumPendingJobs (pj_Job pj) st)
         else if numPending \<ge> limit then (False, st)
         else if numPending + olderMatchingPJs (pl_pjs st) pj \<ge> limit then (False, st)
         else (True, incrementNumPendingJobs (pj_Job pj) st))"

subsection \<open>Pods\<close>

definition startPod ::
    "plank_env \<Rightarrow> ProwJob \<Rightarrow> plank_state \<Rightarrow> (kube_error + string \<times> string) \<times> plank_state" where
  "startPod env pj st =
     (case pe_GetBuildID env (pj_Job pj) of
        Inl err \<Rightarrow> (Inl (OtherError (''error getting build ID: '' @ err)), st)
      | Inr buildID \<Rightarrow>
          (case pe_ProwJobToPod env pj buildID of
             Inl err \<Rightarrow> (Inl (OtherError err), st)
           | Inr pod \<Rightarrow>
               (case client_of env pj of
                  None \<Rightarrow> (Inl (OtherError (''unknown cluster alias '' @ quote (ClusterAlias pj))), st)
                | Some client \<Rightarrow>
                    (case pi_Create client pod of
                       Inl err \<Rightarrow> (Inl err, st\<lparr>pl_created := pl_created st @ [(pj, pod)]\<rparr>)
                     | Inr name \<Rightarrow> (Inr (buildID, name), st\<lparr>pl_created := pl_created st @ [(pj, pod)]\<rparr>)))))"

text \<open>\<open>None\<close> is a panic: a pod without containers.\<close>

definition getPodBuildID :: "Pod \<Rightarrow> string option" where
  "getPodBuildID pod =
     (case pod_Containers pod of
        [] \<Rightarrow> None
      | env # _ \<Rightarrow> Some (case find (\<lambda>(name, _). name = ''BUILD_ID'') env of None \<Rightarrow> [] | Some (_, v) \<Rightarrow> v))"

definition delete_pod :: "PodInterface \<Rightarrow> string \<Rightarrow> string \<Rightarrow> plank_state \<Rightarrow> error option \<times> plank_state" where
  "delete_pod client alias name st =
     (pi_Delete client name, st\<lparr>pl_deleted := pl_deleted st @ [(alias, name)]\<rparr>)"

subsection \<open>Following a job\<close>

definition set_Description :: "string \<Rightarrow> ProwJob \<Rightarrow> ProwJob" where
  "set_Description d pj = pj\<lparr>pj_Status := (pj_Status pj)\<lparr>st_Description := d\<rparr>\<rparr>"

definition finish_job :: "time \<Rightarrow> ProwJobState \<Rightarrow> string \<Rightarrow> ProwJob \<Rightarrow> ProwJob" where
  "finish_job now s d pj = set_Description d (set_State s (SetComplete now pj))"

definition set_URL :: "plank_env \<Rightarrow> ProwJob \<Rightarrow> ProwJob" where
  "set_URL env pj = pj\<lparr>pj_Status := (pj_Status pj)\<lparr>st_URL := pe_JobURL env pj\<rparr>\<rparr>"

definition report_and_patch :: "plank_env \<Rightarrow> ProwJob \<Rightarrow> ProwJob \<Rightarrow> plank_state \<Rightarrow> error option \<times> plank_state" where
  "report_and_patch env prevPJ pj st =
     ((case PatchProwjob (pe_patch env) prevPJ pj of Inl err \<Rightarrow> Some err | Inr _ \<Rightarrow> None),
      st\<lparr>pl_reports := pl_reports st @ [pj], pl_patched := pl_patched st @ [(prevPJ, pj)]\<rparr>)"

text \<open>Ending a job whose pod is stuck, which needs its pod to be deleted first.\<close>

definition stuck_pod ::
    "plank_env \<Rightarrow> string \<Rightarrow> ProwJobState \<Rightarrow> ProwJob \<Rightarrow> Pod \<Rightarrow> plank_state \<Rightarrow> error option \<times> plank_state" where
  "stuck_pod env phase s pj pod st =
     (case client_of env pj of
        None \<Rightarrow> (Some (phase @ '' pod '' @ pod_Name pod @ '': unknown cluster alias '' @ quote (ClusterAlias pj)), st)
      | Some client \<Rightarrow>
          (case delete_pod client (ClusterAlias pj) (pj_Name pj) st of
             (Some err, st') \<Rightarrow>
               (Some (''failed to delete pod '' @ pod_Name pod @ '' that was in '' @ phase @ '' timeout: '' @ err), st')
           | (None, st') \<Rightarrow>
               report_and_patch env pj
                 (set_URL env (finish_job (pe_now env) s (''Pod '' @ phase @ '' timeout.'') pj)) st'))"

text \<open>Deleting a pod to start it anew in the next sync.\<close>

definition restart_pod ::
    "plank_env \<Rightarrow> string \<Rightarrow> ProwJob \<Rightarrow> Pod \<Rightarrow> plank_state \<Rightarrow> error option \<times> plank_state" where
  "restart_pod env why pj pod st =
     (case client_of env pj of
        None \<Rightarrow> (Some (why @ '' pod '' @ pod_Name pod @ '': unknown cluster alias '' @ quote (ClusterAlias pj)), st)
      | Some client \<Rightarrow> delete_pod client (ClusterAlias pj) (pj_Name pj) st)"

definition within_time :: "plank_env \<Rightarrow> Pod \<Rightarrow> duration \<Rightarrow> bool" where
  "within_time env pod timeout \<longleftrightarrow> pod_StartTime pod = zero_time \<or> pe_now env - pod_StartTime pod < timeout"

definition syncPendingJob ::
    "plank_env \<Rightarrow> (string \<rightharpoonup> Pod) \<Rightarrow> ProwJob \<Rightarrow> plank_state \<Rightarrow> error option \<times> plank_state" where
  "syncPendingJob env pm pj st =
     (let now = pe_now env; counted = incrementNumPendingJobs (pj_Job pj) st;
          finish = (\<lambda>s d. report_and_patch env pj (set_URL env (finish_job now s d pj)) st)
      in case pm (pj_Name pj) of
           None \<Rightarrow>
             (case startPod env pj counted of
                (Inl (OtherError err), st') \<Rightarrow> (Some (''error starting pod : '' @ err), st')
              | (Inl (Invalid err), st') \<Rightarrow>
                  report_and_patch env pj
                    (set_URL env (finish_job now ErrorState ''Job cannot be processed.'' pj)) st'
              | (Inr (bid, pn), st') \<Rightarrow>
                  report_and_patch env pj
                    (set_URL env (pj\<lparr>pj_Status := (pj_Status pj)\<lparr>st_BuildID := bid, st_PodName := pn\<rparr>\<rparr>)) st')
         | Some pod \<Rightarrow>
             (case pod_Phase pod of
                PodUnknown \<Rightarrow> restart_pod env ''unknown'' pj pod counted
              | PodSucceeded \<Rightarrow> finish SuccessState ''Job succeeded.''
              | PodFailed \<Rightarrow>
                  if pod_Reason pod = Evicted then
                    (if spec_ErrorOnEviction (pj_Spec pj)
                     then finish ErrorState ''Job pod was evicted by the cluster.''
                     else restart_pod env ''evicted'' pj pod counted)
                  else finish FailureState ''Job failed.''
              | PodPending \<Rightarrow>
                  if within_time env pod (pk_PodPendingTimeout (pe_config env)) then (None, counted)
                  else stuck_pod env ''pending'' ErrorState pj pod st
              | PodRunning \<Rightarrow>
                  if within_time env pod (pk_PodRunningTimeout (pe_config env)) then (None, counted)
                  else stuck_pod env ''running'' AbortedState pj pod st
              | PodPhaseOther _ \<Rightarrow> (None, counted)))"

definition job_pending :: "plank_env \<Rightarrow> string \<Rightarrow> string \<Rightarrow> ProwJob \<Rightarrow> ProwJob" where
  "job_pending env bid pn pj =
     (if pj_State pj = TriggeredState then
        set_URL env (pj\<lparr>pj_Status := (pj_Status pj)\<lparr>st_BuildID := bid, st_PendingTime := Some (pe_now env),
           st_State := PendingState, st_PodName := pn, st_Description := ''Job triggered.''\<rparr>\<rparr>)
      else pj)"

text \<open>\<open>None\<close> is a panic of \<open>getPodBuildID\<close>.\<close>

definition syncTriggeredJob ::
    "plank_env \<Rightarrow> (string \<rightharpoonup> Pod) \<Rightarrow> ProwJob \<Rightarrow> plank_state \<Rightarrow> (error option \<times> plank_state) option" where
  "syncTriggeredJob env pm pj st =
     (case pm (pj_Name pj) of
        None \<Rightarrow>
          (case canExecuteConcurrently env pj st of
             (False, st1) \<Rightarrow> Some (None, st1)
           | (True, st1) \<Rightarrow>
               (case startPod env pj st1 of
                  (Inl (OtherError err), st2) \<Rightarrow> Some (Some (''error starting pod: '' @ err), st2)
                | (Inl (Invalid err), st2) \<Rightarrow>
                    Some (report_and_patch env pj
                      (job_pending env [] []
                        (finish_job (pe_now env) ErrorState ''Job cannot be processed.'' pj)) st2)
                | (Inr (bid, pn), st2) \<Rightarrow> Some (report_and_patch env pj (job_pending env bid pn pj) st2)))
      | Some pod \<Rightarrow>
          map_option (\<lambda>bid. report_and_patch env pj (job_pending env bid (pod_Name pod) pj) st)
            (getPodBuildID pod))"

subsection \<open>Sync\<close>

fun sync_each ::
    "(ProwJob \<Rightarrow> plank_state \<Rightarrow> (error option \<times> plank_state) option) \<Rightarrow> ProwJob list \<Rightarrow> plank_state
     \<Rightarrow> (error list \<times> plank_state) option" where
  "sync_each syncFn [] st = Some ([], st)"
| "sync_each syncFn (pj # pjs) st =
     (case syncFn pj st of
        None \<Rightarrow> None
      | Some (err, st') \<Rightarrow>
          map_option (\<lambda>(errs, st''). ((case err of None \<Rightarrow> [] | Some e \<Rightarrow> [e]) @ errs, st''))
            (sync_each syncFn pjs st'))"

text \<open>A negative number of goroutines panics; with none no job is synced.\<close>

definition syncProwJobs ::
    "plank_env \<Rightarrow> (ProwJob \<Rightarrow> plank_state \<Rightarrow> (error option \<times> plank_state) option) \<Rightarrow> ProwJob list \<Rightarrow> plank_state
     \<Rightarrow> (error list \<times> plank_state) option" where
  "syncProwJobs env syncFn jobs st =
     (let goroutines = min (pk_MaxGoroutines (pe_config env)) (int (length jobs))
      in if goroutines < 0 then None
         else if goroutines = 0 then Some ([], st)
         else sync_each syncFn (pe_iter_jobs env jobs) st)"

definition cleanup_job :: "plank_env \<Rightarrow> (string \<rightharpoonup> Pod) \<Rightarrow> ProwJob \<Rightarrow> plank_state \<Rightarrow> plank_state" where
  "cleanup_job env pm toCancel st =
     (if pk_AllowCancellations (pe_config env) then
        (case pm (pj_Name toCancel) of
           None \<Rightarrow> st
         | Some pod \<Rightarrow>
             (case client_of env toCancel of
                None \<Rightarrow> st
              | Some client \<Rightarrow> snd (delete_pod client (ClusterAlias toCancel) (pod_Name pod) st)))
      else st)"

text \<open>What is left of the jobs, and the error of the first patch that failed.\<close>

definition terminateDupes ::
    "plank_env \<Rightarrow> ProwJob list \<Rightarrow> (string \<rightharpoonup> Pod) \<Rightarrow> plank_state \<Rightarrow> (error option \<times> ProwJob list) \<times> plank_state" where
  "terminateDupes env pjs pm st =
     (let t = TerminateOlderJobs (pe_patch env) (pe_now env) pjs
      in ((tm_err t, tm_pjs t),
          (fold (cleanup_job env pm) (tm_cleaned t) st)\<lparr>pl_patched :=
             pl_patched st @ map (\<lambda>pj. (pj, abort_job (pe_now env) pj)) (tm_cleaned t)\<rparr>))"

fun list_pods ::
    "string \<Rightarrow> (string \<times> PodInterface) list \<Rightarrow> error list \<times> (string \<rightharpoonup> Pod) \<Rightarrow> error list \<times> (string \<rightharpoonup> Pod)" where
  "list_pods selector [] r = r"
| "list_pods selector ((alias, client) # clients) (errs, pm) =
     (case pi_List client selector of
        Inl err \<Rightarrow>
          list_pods selector clients (errs @ [''error listing pods in cluster '' @ quote alias @ '': '' @ err], pm)
      | Inr pods \<Rightarrow> list_pods selector clients (errs, fold (\<lambda>pod pm. pm(pod_Name pod \<mapsto> pod)) pods pm))"

definition setPreviousReportState :: "plank_env \<Rightarrow> ProwJob \<Rightarrow> plank_state \<Rightarrow> error option \<times> plank_state" where
  "setPreviousReportState env pj st =
     (case pe_Get env (pj_Name pj) of
        Inl err \<Rightarrow> (Some err, st)
      | Inr latest \<Rightarrow>
          (let latest' = latest\<lparr>pj_Status := (pj_Status latest)\<lparr>st_PrevReportStates :=
                 (st_PrevReportStates (pj_Status latest))(GitHubReporterName \<mapsto> pj_State latest)\<rparr>\<rparr>
           in (pe_Update env latest', st\<lparr>pl_updated := pl_updated st @ [latest']\<rparr>)))"

fun report_all :: "plank_env \<Rightarrow> ProwJob list \<Rightarrow> plank_state \<Rightarrow> error list \<times> plank_state" where
  "report_all env [] st = ([], st)"
| "report_all env (pj # pjs) st =
     (let st1 = snd (setPreviousReportState env pj st);
          (errs, st2) = report_all env pjs st1
      in ((case pe_Report env pj of None \<Rightarrow> [] | Some e \<Rightarrow> [e]) @ errs, st2))"

definition err_list_string :: "error list \<Rightarrow> string" where
  "err_list_string errs = ''['' @ join '' '' errs @ '']''"

definition plank_Sync :: "plank_env \<Rightarrow> plank_state \<Rightarrow> (error option \<times> plank_state) option" where
  "plank_Sync env st =
     (case pe_List env (pe_selector env) of
        Inl err \<Rightarrow> Some (Some (''error listing prow jobs: '' @ err), st)
      | Inr pjs \<Rightarrow>
          (let selector = (if pe_selector env \<noteq> [] then pe_selector env @ '','' else []) @ CreatedByProw @ ''=true'';
               (podErrs, pm) = list_pods selector (pe_iter_clients env (pe_buildClients env)) ([], Map.empty);
               k8sJobs = sort_key pj_CreationTimestamp (filter (\<lambda>pj. spec_Agent (pj_Spec pj) = KubernetesAgent) pjs);
               ((dupErr, k8sJobs'), st1) = terminateDupes env k8sJobs pm st;
               (pending, triggered) = PartitionActive k8sJobs';
               st2 = st1\<lparr>pl_pjs := k8sJobs', pl_pendingJobs := [], pl_reports := []\<rparr>
           in case syncProwJobs env (\<lambda>pj st. Some (syncPendingJob env pm pj st)) pending st2 of
                None \<Rightarrow> None
              | Some (errs1, st3) \<Rightarrow>
                  (case syncProwJobs env (syncTriggeredJob env pm) triggered st3 of
                     None \<Rightarrow> None
                   | Some (errs2, st4) \<Rightarrow>
                       (let syncErrs = podErrs @ (case dupErr of None \<Rightarrow> [] | Some e \<Rightarrow> [e]) @ errs1 @ errs2;
                            (reportErrs, st5) = (if pe_skipReport env then ([], st4)
                                                 else report_all env (pl_reports st4) st4)
                        in Some (if syncErrs = [] \<and> reportErrs = [] then None
                                 else Some (''errors syncing: '' @ err_list_string syncErrs
                                            @ '', errors reporting: '' @ err_list_string reportErrs), st5)))))"

subsection \<open>The life cycle of a job\<close>

text \<open>What a patch of plank may do to a job, at the time \<open>now\<close>.\<close>

inductive job_step :: "time \<Rightarrow> ProwJob \<Rightarrow> ProwJob \<Rightarrow> bool" for now where
  step_start:
    "pj_State pj = TriggeredState \<Longrightarrow>
     job_step now pj (pj\<lparr>pj_Status := (pj_Status pj)\<lparr>st_BuildID := bid, st_PendingTime := Some now,
        st_State := PendingState, st_PodName := pn, st_Description := d, st_URL := url\<rparr>\<rparr>)"
| step_restart:
    "pj_State pj = PendingState \<Longrightarrow>
     job_step now pj (pj\<lparr>pj_Status := (pj_Status pj)\<lparr>st_BuildID := bid, st_PodName := pn, st_URL := url\<rparr>\<rparr>)"
| step_finish:
    "pj_State pj \<in> {TriggeredState, PendingState} \<Longrightarrow> terminal s \<Longrightarrow>
     (pj_State pj = TriggeredState \<Longrightarrow> s = ErrorState) \<Longrightarrow>
     job_step now pj (pj\<lparr>pj_Status := (pj_Status pj)\<lparr>st_CompletionTime := Some now, st_State := s,
        st_Description := d, st_URL := url\<rparr>\<rparr>)"
| step_abort: "\<not> Complete pj \<Longrightarrow> job_step now pj (abort_job now pj)"

inductive_cases job_stepE: "job_step now pj pj'"

text \<open>A job is complete exactly in a terminal state.\<close>

definition job_ok :: "ProwJob \<Rightarrow> bool" where
  "job_ok pj \<longleftrightarrow> (Complete pj \<longleftrightarrow> terminal (pj_State pj))"

lemma job_step_identity: "job_step now pj pj' \<Longrightarrow> pj_Spec pj' = pj_Spec pj \<and> pj_Name pj' = pj_Name pj"
  by (erule job_stepE) (auto simp: abort_job_def Let_def SetComplete_def)

lemma job_step_ok:
  assumes "job_step now pj pj'" and "job_ok pj" shows "\<not> terminal (pj_State pj) \<and> job_ok pj'"
  using assms
  by (cases rule: job_step.cases) (auto simp: job_ok_def terminal_def Complete_def abort_job_def SetComplete_def Let_def)

lemma finish_step:
  assumes "pj_State pj = PendingState" and "terminal s"
  shows "job_step now pj (set_URL env (finish_job now s d pj))"
proof -
  have "set_URL env (finish_job now s d pj) = pj\<lparr>pj_Status := (pj_Status pj)\<lparr>st_CompletionTime := Some now,
      st_State := s, st_Description := d, st_URL := pe_JobURL env (finish_job now s d pj)\<rparr>\<rparr>"
    by (simp add: set_URL_def finish_job_def set_Description_def SetComplete_def)
  then show ?thesis using assms step_finish [of pj s] by auto
qed

text \<open>Every patch is a step.\<close>

definition patches_step :: "time \<Rightarrow> plank_state \<Rightarrow> plank_state \<Rightarrow> bool" where
  "patches_step now st st' \<longleftrightarrow>
     (\<exists>new. pl_patched st' = pl_patched st @ new \<and> (\<forall>(old, pj) \<in> set new. job_step now old pj))"

lemma patches_step_refl [simp]: "pl_patched st' = pl_patched st \<Longrightarrow> patches_step now st st'"
  by (simp add: patches_step_def)

lemma patches_step_trans: "patches_step now st st' \<Longrightarrow> patches_step now st' st'' \<Longrightarrow> patches_step now st st''"
  unfolding patches_step_def by (metis append.assoc set_append Un_iff)

lemma report_and_patch_step:
  assumes "job_step (pe_now env) pj pj'" and "pl_patched st1 = pl_patched st"
  shows "patches_step (pe_now env) st (snd (report_and_patch env pj pj' st1))"
  using assms by (simp add: patches_step_def report_and_patch_def)

lemma frames [simp]:
  "pl_patched (incrementNumPendingJobs job st) = pl_patched st"
  "pl_created (incrementNumPendingJobs job st) = pl_created st"
  "pl_pjs (incrementNumPendingJobs job st) = pl_pjs st"
  "pl_patched (snd (startPod env pj st)) = pl_patched st"
  "pl_pendingJobs (snd (startPod env pj st)) = pl_pendingJobs st"
  "pl_patched (snd (canExecuteConcurrently env pj st)) = pl_patched st"
  "pl_created (snd (canExecuteConcurrently env pj st)) = pl_created st"
  "pl_pendingJobs (snd (report_and_patch env pj pj' st)) = pl_pendingJobs st"
  "pl_created (snd (report_and_patch env pj pj' st)) = pl_created st"
  by (simp_all add: incrementNumPendingJobs_def canExecuteConcurrently_def report_and_patch_def Let_def
      startPod_def split: sum.splits option.splits)

lemma syncPendingJob_step:
  assumes "pj_State pj = PendingState"
  shows "patches_step (pe_now env) st (snd (syncPendingJob env pm pj st))"
proof -
  note fin = finish_step [OF assms, where now = "pe_now env" and env = env]
  have finish: "patches_step (pe_now env) st (snd (report_and_patch env pj
      (set_URL env (finish_job (pe_now env) s d pj)) st1))" if "terminal s" "pl_patched st1 = pl_patched st" for s d st1
    using that fin by (simp add: report_and_patch_step)
  have stuck: "patches_step (pe_now env) st (snd (stuck_pod env phase s pj pod st))" if "terminal s" for phase s pod
    using finish [OF that] by (auto simp: stuck_pod_def delete_pod_def split: option.splits)
  have restart: "patches_step (pe_now env) st (snd (restart_pod env why pj pod st1))"
    if "pl_patched st1 = pl_patched st" for why pod st1
    using that by (auto simp: restart_pod_def delete_pod_def split: option.splits)
  have missing: "patches_step (pe_now env) st (snd (case startPod env pj (incrementNumPendingJobs (pj_Job pj) st) of
                (Inl (OtherError err), st') \<Rightarrow> (Some (''error starting pod : '' @ err), st')
              | (Inl (Invalid err), st') \<Rightarrow>
                  report_and_patch env pj
                    (set_URL env (finish_job (pe_now env) ErrorState ''Job cannot be processed.'' pj)) st'
              | (Inr (bid, pn), st') \<Rightarrow>
                  report_and_patch env pj
                    (set_URL env (pj\<lparr>pj_Status := (pj_Status pj)\<lparr>st_BuildID := bid, st_PodName := pn\<rparr>\<rparr>)) st'))"
  proof -
    obtain r st1 where r: "startPod env pj (incrementNumPendingJobs (pj_Job pj) st) = (r, st1)" by fastforce
    then have st1: "pl_patched st1 = pl_patched st"
      using frames(4) [of env pj "incrementNumPendingJobs (pj_Job pj) st"] by simp
    have "job_step (pe_now env) pj (set_URL env (pj\<lparr>pj_Status := (pj_Status pj)\<lparr>st_BuildID := bid, st_PodName := pn\<rparr>\<rparr>))"
      for bid pn
      using assms unfolding set_URL_def by (auto intro: step_restart)
    then show ?thesis
      using r st1 finish [OF _ st1, of ErrorState] report_and_patch_step [OF _ st1]
      by (auto simp: terminal_def split: sum.splits kube_error.splits)
  qed
  show ?thesis
    using missing finish stuck restart
    by (auto simp: syncPendingJob_def Let_def terminal_def split: option.splits PodPhase.splits)
qed

lemma syncTriggeredJob_step:
  assumes "pj_State pj = TriggeredState" and "syncTriggeredJob env pm pj st = Some (err, st')"
  shows "patches_step (pe_now env) st st'"
proof -
  have start: "job_step (pe_now env) pj (job_pending env bid pn pj)" for bid pn
    using assms(1) unfolding job_pending_def set_URL_def by (auto intro: step_start)
  have fail: "job_step (pe_now env) pj (job_pending env bid pn (finish_job (pe_now env) ErrorState d pj))" for bid pn d
  proof -
    have "job_pending env bid pn (finish_job (pe_now env) ErrorState d pj) =
        pj\<lparr>pj_Status := (pj_Status pj)\<lparr>st_CompletionTime := Some (pe_now env), st_State := ErrorState,
          st_Description := d, st_URL := st_URL (pj_Status pj)\<rparr>\<rparr>"
      by (simp add: job_pending_def finish_job_def set_Description_def SetComplete_def)
    then show ?thesis using assms(1) by (simp only:) (rule step_finish, auto simp: terminal_def)
  qed
  show ?thesis
  proof (cases "pm (pj_Name pj)")
    case None
    obtain ok st1 where can: "canExecuteConcurrently env pj st = (ok, st1)" by fastforce
    obtain r st2 where pod: "startPod env pj st1 = (r, st2)" by fastforce
    have st1: "pl_patched st1 = pl_patched st"
      using can frames(6) [of env pj st] by simp
    then have st2: "pl_patched st2 = pl_patched st"
      using pod frames(4) [of env pj st1] by simp
    show ?thesis
      using assms(2) None can pod st1 report_and_patch_step [OF start st2] report_and_patch_step [OF fail st2] st2
      by (auto simp: syncTriggeredJob_def split: bool.splits sum.splits kube_error.splits)
         (metis snd_conv)+
  next
    case (Some pod)
    then show ?thesis
      using assms(2) report_and_patch_step [OF start refl] by (auto simp: syncTriggeredJob_def) (metis snd_conv)
  qed
qed

lemma sync_each_step:
  assumes "sync_each syncFn pjs st = Some (errs, st')"
    and "\<And>pj st err st'. pj \<in> set pjs \<Longrightarrow> syncFn pj st = Some (err, st') \<Longrightarrow> patches_step now st st'"
  shows "patches_step now st st'"
  using assms
proof (induction pjs arbitrary: st errs)
  case (Cons pj pjs)
  obtain err st1 errs1 where one: "syncFn pj st = Some (err, st1)" "sync_each syncFn pjs st1 = Some (errs1, st')"
    using Cons.prems(1) by (auto split: option.splits)
  have "patches_step now st1 st'"
    by (rule Cons.IH [OF one(2)]) (use Cons.prems(2) in auto)
  then show ?case
    using Cons.prems(2) [OF _ one(1)] patches_step_trans by auto
qed simp

lemma syncProwJobs_step:
  assumes "syncProwJobs env syncFn jobs st = Some (errs, st')" and "range_order (pe_iter_jobs env)"
    and "\<And>pj st err st'. pj \<in> set jobs \<Longrightarrow> syncFn pj st = Some (err, st') \<Longrightarrow> patches_step now st st'"
  shows "patches_step now st st'"
  using assms sync_each_step [of syncFn "pe_iter_jobs env jobs" st errs st' now]
  by (auto simp: syncProwJobs_def Let_def split: if_splits)

text \<open>
  Whatever the patches return, only jobs that are not complete are aborted: the jobs that
  \<open>dupes\<close> points to are still as they were listed.
\<close>

definition tracked :: "ProwJob list \<Rightarrow> nat list \<Rightarrow> (string \<rightharpoonup> nat) \<Rightarrow> bool" where
  "tracked pjs todo dupes \<longleftrightarrow> (\<forall>ji d. dupes ji = Some d \<longrightarrow>
     d < length pjs \<and> d \<notin> set todo \<and> abortable (pjs ! d) \<and> job_identifier (pjs ! d) = ji)"

lemma trackedD:
  assumes "tracked pjs todo dupes" and "dupes ji = Some d"
  shows "d < length pjs" "d \<notin> set todo" "abortable (pjs ! d)" "job_identifier (pjs ! d) = ji"
  using assms by (auto simp: tracked_def)

lemma tracked_add:
  assumes "tracked pjs (i # todo) dupes" and "i < length pjs" "i \<notin> set todo" "abortable (pjs ! i)"
  shows "tracked pjs todo (dupes(job_identifier (pjs ! i) \<mapsto> i))"
  unfolding tracked_def
proof (intro allI impI)
  fix ji d assume d: "(dupes(job_identifier (pjs ! i) \<mapsto> i)) ji = Some d"
  show "d < length pjs \<and> d \<notin> set todo \<and> abortable (pjs ! d) \<and> job_identifier (pjs ! d) = ji"
  proof (cases "ji = job_identifier (pjs ! i)")
    case True
    then have "d = i" using d by simp
    then show ?thesis using assms True by simp
  next
    case False
    then have "dupes ji = Some d" using d by simp
    then show ?thesis using trackedD [OF assms(1)] by simp
  qed
qed

lemma tracked_cancel:
  assumes "tracked pjs todo dupes" and "\<forall>ji. dupes ji \<noteq> Some cancel"
  shows "tracked (pjs[cancel := pj]) todo dupes"
  unfolding tracked_def
proof (intro allI impI)
  fix ji d assume d: "dupes ji = Some d"
  then have "d \<noteq> cancel" using assms(2) by blast
  then show "d < length (pjs[cancel := pj]) \<and> d \<notin> set todo \<and> abortable (pjs[cancel := pj] ! d)
      \<and> job_identifier (pjs[cancel := pj] ! d) = ji"
    using trackedD [OF assms(1) d] by simp
qed

lemma tracked_skip: "tracked pjs (i # todo) dupes \<Longrightarrow> tracked pjs todo dupes"
  by (simp add: tracked_def)

lemma tracked_replace:
  assumes "tracked pjs (i # todo) dupes" and "i < length pjs" "i \<notin> set todo" "abortable (pjs ! i)"
    and "dupes (job_identifier (pjs ! i)) = Some prev"
  shows "tracked (pjs[(if newer then prev else i) := pj]) todo
    (if newer then dupes(job_identifier (pjs ! i) \<mapsto> i) else dupes)"
proof (cases newer)
  case True
  have "\<forall>ji. (dupes(job_identifier (pjs ! i) \<mapsto> i)) ji \<noteq> Some prev"
    using trackedD [OF assms(1)] assms(5) by (metis fun_upd_apply list.set_intros(1) option.inject)
  then show ?thesis using True tracked_cancel [OF tracked_add [OF assms(1-4)]] by simp
next
  case False
  have "\<forall>ji. dupes ji \<noteq> Some i" using trackedD(2) [OF assms(1)] by auto
  then show ?thesis using False tracked_cancel [OF tracked_skip [OF assms(1)]] by simp
qed

lemma terminate_cleaned:
  assumes "\<forall>j \<in> set cleaned. \<not> Complete j" and "distinct todo" and "\<forall>i \<in> set todo. i < length pjs"
    and "tracked pjs todo dupes"
  shows "\<forall>j \<in> set (tm_cleaned (terminate_loop pjc now todo dupes pjs cleaned)). \<not> Complete j"
  using assms
proof (induction todo arbitrary: dupes pjs cleaned)
  case (Cons i todo)
  let ?ji = "job_identifier (pjs ! i)"
  have i: "i < length pjs" "i \<notin> set todo" "distinct todo" "\<forall>i \<in> set todo. i < length pjs"
    using Cons.prems(2,3) by auto
  show ?case
  proof (cases "abortable (pjs ! i)")
    case False
    then show ?thesis using Cons.IH [OF Cons.prems(1) i(3,4) tracked_skip [OF Cons.prems(4)]] by simp
  next
    case ab: True
    show ?thesis
    proof (cases "dupes ?ji")
      case None
      then have step: "terminate_loop pjc now (i # todo) dupes pjs cleaned =
          terminate_loop pjc now todo (dupes(?ji \<mapsto> i)) pjs cleaned"
        using ab by simp
      show ?thesis
        unfolding step by (rule Cons.IH [OF Cons.prems(1) i(3,4) tracked_add [OF Cons.prems(4) i(1,2) ab]])
    next
      case (Some prev)
      define newer where "newer = (pj_StartTime (pjs ! prev) < pj_StartTime (pjs ! i))"
      define cancel where "cancel = (if newer then prev else i)"
      have cleaned: "\<forall>j \<in> set (cleaned @ [pjs ! cancel]). \<not> Complete j"
        using Cons.prems(1) ab trackedD(3) [OF Cons.prems(4) Some] by (auto simp: cancel_def abortable_def)
      have step: "terminate_loop pjc now (i # todo) dupes pjs cleaned =
          (case PatchProwjob pjc (pjs ! cancel) (abort_job now (pjs ! cancel)) of
             Inl err \<Rightarrow> \<lparr>tm_err = Some err, tm_pjs = pjs, tm_cleaned = cleaned @ [pjs ! cancel]\<rparr>
           | Inr newPJ \<Rightarrow> terminate_loop pjc now todo (if newer then dupes(?ji \<mapsto> i) else dupes)
               (pjs[cancel := newPJ]) (cleaned @ [pjs ! cancel]))"
        using ab Some unfolding terminate_loop.simps(2) Let_def cancel_def newer_def
        by (simp only: if_True not_True_eq_False if_False option.case not_not)
      have "\<forall>j \<in> set (tm_cleaned (terminate_loop pjc now todo (if newer then dupes(?ji \<mapsto> i) else dupes)
          (pjs[cancel := newPJ]) (cleaned @ [pjs ! cancel]))). \<not> Complete j" for newPJ
        using tracked_replace [OF Cons.prems(4) i(1,2) ab Some] i(3,4)
        by (intro Cons.IH [OF cleaned]) (auto simp: cancel_def)
      then show ?thesis unfolding step using cleaned by (simp split: sum.splits)
    qed
  qed
qed simp

lemma terminateDupes_step: "patches_step (pe_now env) st (snd (terminateDupes env pjs pm st))"
proof -
  have "\<forall>j \<in> set (tm_cleaned (TerminateOlderJobs (pe_patch env) (pe_now env) pjs)). \<not> Complete j"
    unfolding TerminateOlderJobs_def by (rule terminate_cleaned) (auto simp: tracked_def)
  then show ?thesis
    by (auto simp: terminateDupes_def Let_def patches_step_def intro: step_abort)
qed

lemma report_all_patched: "pl_patched (snd (report_all env pjs st)) = pl_patched st"
proof (induction pjs arbitrary: st)
  case (Cons pj pjs)
  have "pl_patched (snd (setPreviousReportState env pj st)) = pl_patched st"
    by (simp add: setPreviousReportState_def Let_def split: sum.splits)
  then show ?case using Cons.IH [of "snd (setPreviousReportState env pj st)"]
    by (auto simp: Let_def split: prod.splits)
qed simp

lemma option_case_SomeE:
  assumes "(case x of None \<Rightarrow> None | Some y \<Rightarrow> f y) = Some z"
  obtains y where "x = Some y" "f y = Some z"
  using assms by (cases x) auto

lemma prod_case_SomeE:
  assumes "(case x of (a, b) \<Rightarrow> f a b) = Some z"
  obtains a b where "x = (a, b)" "f a b = Some z"
  using assms by (cases x) auto

lemma patches_step_new:
  assumes "patches_step now st st'"
  shows "\<exists>new. pl_patched st' = pl_patched st @ new \<and> (\<forall>(old, pj) \<in> set new.
      job_step now old pj \<and> pj_Spec pj = pj_Spec old \<and> pj_Name pj = pj_Name old
      \<and> (job_ok old \<longrightarrow> \<not> terminal (pj_State old) \<and> job_ok pj))"
proof -
  obtain new where new: "pl_patched st' = pl_patched st @ new" "\<And>old pj. (old, pj) \<in> set new \<Longrightarrow> job_step now old pj"
    using assms unfolding patches_step_def by blast
  have "case x of (old, pj) \<Rightarrow> job_step now old pj \<and> pj_Spec pj = pj_Spec old \<and> pj_Name pj = pj_Name old
      \<and> (job_ok old \<longrightarrow> \<not> terminal (pj_State old) \<and> job_ok pj)" if x: "x \<in> set new" for x
    using job_step_identity [OF new(2)] job_step_ok [OF new(2)] new(2) x by (cases x) simp
  then show ?thesis using new(1) by blast
qed

lemma pending_step:
  assumes "pj \<in> set (fst (PartitionActive jobs))" and "Some (syncPendingJob env pm pj st) = Some (err, st')"
  shows "patches_step (pe_now env) st st'"
proof -
  have "pj_State pj = PendingState" using assms(1) by (simp add: PartitionActive_def)
  from syncPendingJob_step [OF this, of env st pm] show ?thesis using assms(2) by simp
qed

lemma triggered_step:
  assumes "pj \<in> set (snd (PartitionActive jobs))" and "syncTriggeredJob env pm pj st = Some (err, st')"
  shows "patches_step (pe_now env) st st'"
proof -
  have "pj_State pj = TriggeredState" using assms(1) by (simp add: PartitionActive_def)
  from syncTriggeredJob_step [OF this assms(2)] show ?thesis .
qed

text \<open>The pods and the jobs that a sync works on.\<close>

definition plank_pods :: "plank_env \<Rightarrow> string \<rightharpoonup> Pod" where
  "plank_pods env =
     snd (list_pods ((if pe_selector env \<noteq> [] then pe_selector env @ '','' else []) @ CreatedByProw @ ''=true'')
       (pe_iter_clients env (pe_buildClients env)) ([], Map.empty))"

definition plank_jobs :: "plank_env \<Rightarrow> ProwJob list \<Rightarrow> ProwJob list" where
  "plank_jobs env pjs =
     tm_pjs (TerminateOlderJobs (pe_patch env) (pe_now env)
       (sort_key pj_CreationTimestamp (filter (\<lambda>pj. spec_Agent (pj_Spec pj) = KubernetesAgent) pjs)))"

lemma plank_SyncE:
  assumes "plank_Sync env st = Some (err, st')" and "pe_List env (pe_selector env) = Inr pjs"
  obtains jobs st1 st2 errs1 st3 errs2 st4 reportErrs where
    "snd (terminateDupes env jobs (plank_pods env) st) = st1"
    "st2 = st1\<lparr>pl_pjs := plank_jobs env pjs, pl_pendingJobs := [], pl_reports := []\<rparr>"
    "syncProwJobs env (\<lambda>pj st. Some (syncPendingJob env (plank_pods env) pj st))
       (fst (PartitionActive (plank_jobs env pjs))) st2 = Some (errs1, st3)"
    "syncProwJobs env (syncTriggeredJob env (plank_pods env)) (snd (PartitionActive (plank_jobs env pjs))) st3
       = Some (errs2, st4)"
    "(if pe_skipReport env then ([], st4) else report_all env (pl_reports st4) st4) = (reportErrs, st')"
proof -
  define selector where
    "selector = (if pe_selector env \<noteq> [] then pe_selector env @ '','' else []) @ CreatedByProw @ ''=true''"
  obtain podErrs pm where pods:
    "list_pods selector (pe_iter_clients env (pe_buildClients env)) ([], Map.empty) = (podErrs, pm)" by fastforce
  have pm: "plank_pods env = pm" using pods by (simp add: plank_pods_def selector_def)
  define jobs where
    "jobs = sort_key pj_CreationTimestamp (filter (\<lambda>pj. spec_Agent (pj_Spec pj) = KubernetesAgent) pjs)"
  obtain dupErr jobs' st1 where dupes: "terminateDupes env jobs pm st = ((dupErr, jobs'), st1)" by (metis surj_pair)
  then have jobs': "plank_jobs env pjs = jobs'" by (simp add: terminateDupes_def plank_jobs_def jobs_def Let_def)
  define st2 where "st2 = st1\<lparr>pl_pjs := jobs', pl_pendingJobs := [], pl_reports := []\<rparr>"
  obtain errs1 st3 errs2 st4 reportErrs where
    "syncProwJobs env (\<lambda>pj st. Some (syncPendingJob env pm pj st)) (fst (PartitionActive jobs')) st2 = Some (errs1, st3)"
    "syncProwJobs env (syncTriggeredJob env pm) (snd (PartitionActive jobs')) st3 = Some (errs2, st4)"
    "(if pe_skipReport env then ([], st4) else report_all env (pl_reports st4) st4) = (reportErrs, st')"
    using assms(1) unfolding plank_Sync_def assms(2) sum.case Let_def selector_def [symmetric] pods prod.case
      jobs_def [symmetric] dupes PartitionActive_def fst_conv snd_conv st2_def [symmetric]
    by (elim option_case_SomeE prod_case_SomeE) (hypsubst, simp only: option.inject prod.inject)
  then show ?thesis using that [of jobs st1 st2] dupes unfolding pm jobs' st2_def by simp
qed

lemma plank_Sync_step:
  assumes "plank_Sync env st = Some (err, st')" and "range_order (pe_iter_jobs env)"
  shows "patches_step (pe_now env) st st'"
proof (cases "pe_List env (pe_selector env)")
  case (Inl e)
  then show ?thesis using assms(1) by (simp add: plank_Sync_def)
next
  case (Inr pjs)
  from assms(1) Inr show ?thesis
  proof (rule plank_SyncE)
    fix jobs st1 st2 errs1 st3 errs2 st4 reportErrs
    assume dupes: "snd (terminateDupes env jobs (plank_pods env) st) = st1"
      and st2: "st2 = st1\<lparr>pl_pjs := plank_jobs env pjs, pl_pendingJobs := [], pl_reports := []\<rparr>"
      and pending: "syncProwJobs env (\<lambda>pj st. Some (syncPendingJob env (plank_pods env) pj st))
        (fst (PartitionActive (plank_jobs env pjs))) st2 = Some (errs1, st3)"
      and triggered: "syncProwJobs env (syncTriggeredJob env (plank_pods env))
        (snd (PartitionActive (plank_jobs env pjs))) st3 = Some (errs2, st4)"
      and reported: "(if pe_skipReport env then ([], st4) else report_all env (pl_reports st4) st4) = (reportErrs, st')"
    have "patches_step (pe_now env) st st1"
      using terminateDupes_step [of env st jobs "plank_pods env"] dupes by simp
    moreover have "patches_step (pe_now env) st1 st2" by (simp add: st2)
    moreover have "patches_step (pe_now env) st2 st3"
      by (rule syncProwJobs_step [OF pending assms(2) pending_step])
    moreover have "patches_step (pe_now env) st3 st4"
      by (rule syncProwJobs_step [OF triggered assms(2) triggered_step])
    moreover have "patches_step (pe_now env) st4 st'"
      using reported report_all_patched [of env "pl_reports st4" st4] by (simp split: if_splits)
    ultimately show "patches_step (pe_now env) st st'" by (meson patches_step_trans)
  qed
qed

text \<open>
  C14: A sync of plank only moves jobs forward.  Every patch it makes is a step of the life cycle
  \<open>job_step\<close>: it starts a triggered job, records a new pod of a pending one, ends a job or aborts
  one that is not complete; it never changes the spec or the name; and if the jobs it saw were
  complete exactly in the terminal states, then no job in a terminal state is patched and the
  patched jobs are again complete exactly in the terminal states.
\<close>
theorem plank_life_cycle:
  assumes "plank_Sync env st = Some (err, st')" and "range_order (pe_iter_jobs env)"
  shows "\<exists>new. pl_patched st' = pl_patched st @ new \<and> (\<forall>(old, pj) \<in> set new.
      job_step (pe_now env) old pj \<and> pj_Spec pj = pj_Spec old \<and> pj_Name pj = pj_Name old
      \<and> (job_ok old \<longrightarrow> \<not> terminal (pj_State old) \<and> job_ok pj))"
  by (rule patches_step_new [OF plank_Sync_step [OF assms]])

subsection \<open>The concurrency limits\<close>

text \<open>Whether a pending job still counts as pending once it is synced.\<close>

definition occupies :: "plank_env \<Rightarrow> (string \<rightharpoonup> Pod) \<Rightarrow> ProwJob \<Rightarrow> bool" where
  "occupies env pm pj =
     (case pm (pj_Name pj) of
        None \<Rightarrow> True
      | Some pod \<Rightarrow>
          (case pod_Phase pod of
             PodSucceeded \<Rightarrow> False
           | PodFailed \<Rightarrow> pod_Reason pod = Evicted \<and> \<not> spec_ErrorOnEviction (pj_Spec pj)
           | PodPending \<Rightarrow> within_time env pod (pk_PodPendingTimeout (pe_config env))
           | PodRunning \<Rightarrow> within_time env pod (pk_PodRunningTimeout (pe_config env))
           | _ \<Rightarrow> True))"

definition of_job :: "string \<Rightarrow> ProwJob list \<Rightarrow> int" where
  "of_job job pjs = int (length (filter (\<lambda>pj. pj_Job pj = job) pjs))"

lemma of_job_simps [simp]:
  "of_job job [] = 0"
  "of_job job (pj # pjs) = (if pj_Job pj = job then 1 else 0) + of_job job pjs"
  "of_job job (pjs @ pjs') = of_job job pjs + of_job job pjs'"
  by (simp_all add: of_job_def)

definition counters_ok :: "plank_state \<Rightarrow> bool" where
  "counters_ok st \<longleftrightarrow> distinct (map fst (pl_pendingJobs st))"

lemma num_pending_increment [simp]:
  "num_pending (pl_pendingJobs (incrementNumPendingJobs job st)) job' =
     num_pending (pl_pendingJobs st) job' + (if job' = job then 1 else 0)"
  by (simp add: num_pending_def incrementNumPendingJobs_def map_get_def update_conv')

lemma counters_ok_increment [simp]: "counters_ok st \<Longrightarrow> counters_ok (incrementNumPendingJobs job st)"
  by (simp add: counters_ok_def incrementNumPendingJobs_def distinct_update)

lemma running_jobs_update:
  "distinct (map fst al) \<Longrightarrow>
   running_jobs (AList.update job (num_pending al job + n) al) = running_jobs al + n"
  by (induction al) (auto simp: running_jobs_def num_pending_def map_get_def)

lemma running_jobs_increment [simp]:
  "counters_ok st \<Longrightarrow> running_jobs (pl_pendingJobs (incrementNumPendingJobs job st)) = running_jobs (pl_pendingJobs st) + 1"
  by (simp add: counters_ok_def incrementNumPendingJobs_def running_jobs_update)

text \<open>
  The pods asked for since a state, and the jobs counted since: a job for which a pod is asked
  is counted.
\<close>

definition counted_pods :: "ProwJob list \<Rightarrow> ProwJob list \<Rightarrow> plank_state \<Rightarrow> plank_state \<Rightarrow> bool" where
  "counted_pods counted asked st st' \<longleftrightarrow>
     (\<exists>new. pl_created st' = pl_created st @ new \<and> map fst new = asked) \<and> subseq asked counted
     \<and> (\<forall>job. num_pending (pl_pendingJobs st') job = num_pending (pl_pendingJobs st) job + of_job job counted)
     \<and> (counters_ok st \<longrightarrow> counters_ok st' \<and>
          running_jobs (pl_pendingJobs st') = running_jobs (pl_pendingJobs st) + int (length counted))"

lemma counted_pods_trans:
  "counted_pods c a st st' \<Longrightarrow> counted_pods c' a' st' st'' \<Longrightarrow> counted_pods (c @ c') (a @ a') st st''"
  unfolding counted_pods_def by (auto intro: list_emb_append_mono)

lemma counted_none: "pl_created st' = pl_created st \<Longrightarrow> pl_pendingJobs st' = pl_pendingJobs st \<Longrightarrow> counted_pods [] [] st st'"
  by (simp add: counted_pods_def counters_ok_def)

lemma startPod_created:
  "\<exists>new. pl_created (snd (startPod env pj st)) = pl_created st @ new \<and> map fst new \<in> {[], [pj]}"
  by (auto simp: startPod_def split: sum.splits option.splits)

lemma counted_one:
  assumes "pl_created st' = pl_created (snd (startPod env pj (incrementNumPendingJobs (pj_Job pj) st)))
      \<or> pl_created st' = pl_created st"
    and "pl_pendingJobs st' = pl_pendingJobs (incrementNumPendingJobs (pj_Job pj) st)"
  shows "\<exists>asked. counted_pods [pj] asked st st'"
proof -
  have cnt: "counters_ok st' \<longleftrightarrow> counters_ok (incrementNumPendingJobs (pj_Job pj) st)"
    using assms(2) by (simp add: counters_ok_def)
  obtain new where "pl_created st' = pl_created st @ new" "map fst new \<in> {[], [pj]}"
    using assms(1) startPod_created [of env pj "incrementNumPendingJobs (pj_Job pj) st"] by auto
  then have "counted_pods [pj] (map fst new) st st'"
    unfolding counted_pods_def using assms(2) cnt by auto
  then show ?thesis ..
qed

lemma stuck_pod_frames [simp]:
  "pl_created (snd (stuck_pod env phase s pj pod st)) = pl_created st"
  "pl_pendingJobs (snd (stuck_pod env phase s pj pod st)) = pl_pendingJobs st"
  "pl_created (snd (restart_pod env why pj pod st)) = pl_created st"
  "pl_pendingJobs (snd (restart_pod env why pj pod st)) = pl_pendingJobs st"
  by (simp_all add: stuck_pod_def restart_pod_def delete_pod_def split: option.splits)

lemma report_and_patch_frames:
  "report_and_patch env pj pj' st = (err, st') \<Longrightarrow> pl_created st' = pl_created st \<and> pl_pendingJobs st' = pl_pendingJobs st"
  by (auto simp: report_and_patch_def)

lemma startPod_frames: "startPod env pj st = (r, st') \<Longrightarrow> pl_pendingJobs st' = pl_pendingJobs st"
  using frames(5) [of env pj st] by simp

lemma pending_counted:
  "\<exists>asked. counted_pods (if occupies env pm pj then [pj] else []) asked st (snd (syncPendingJob env pm pj st))"
proof (cases "occupies env pm pj")
  case False
  then show ?thesis
    by (intro exI [of _ "[]"])
       (auto simp: occupies_def syncPendingJob_def Let_def intro!: counted_none
         split: option.splits PodPhase.splits if_splits)
next
  case True
  let ?st = "incrementNumPendingJobs (pj_Job pj) st"
  have "\<exists>asked. counted_pods [pj] asked st (snd (syncPendingJob env pm pj st))"
  proof (rule counted_one [of _ env])
    show "pl_created (snd (syncPendingJob env pm pj st)) = pl_created (snd (startPod env pj ?st))
        \<or> pl_created (snd (syncPendingJob env pm pj st)) = pl_created st"
      using True by (auto simp: occupies_def syncPendingJob_def Let_def split: option.splits PodPhase.splits
          if_splits prod.splits sum.splits kube_error.splits)
    show "pl_pendingJobs (snd (syncPendingJob env pm pj st)) = pl_pendingJobs ?st"
      using True by (auto simp: occupies_def syncPendingJob_def Let_def dest: startPod_frames split: option.splits PodPhase.splits
          if_splits prod.splits sum.splits kube_error.splits)
  qed
  then show ?thesis using True by simp
qed

lemma triggered_counted:
  assumes "syncTriggeredJob env pm pj st = Some (err, st')"
  shows "\<exists>counted asked. counted_pods counted asked st st' \<and>
    (counted = [] \<or> counted = [pj] \<and> pm (pj_Name pj) = None \<and> fst (canExecuteConcurrently env pj st))"
proof (cases "pm (pj_Name pj) = None \<and> fst (canExecuteConcurrently env pj st)")
  case True
  then have can: "canExecuteConcurrently env pj st = (True, incrementNumPendingJobs (pj_Job pj) st)"
    by (auto simp: canExecuteConcurrently_def Let_def split: if_splits)
  obtain r st2 where pod: "startPod env pj (incrementNumPendingJobs (pj_Job pj) st) = (r, st2)" by fastforce
  have "pl_created st' = pl_created st2 \<and> pl_pendingJobs st' = pl_pendingJobs st2"
    using assms True can pod
    by (auto simp: syncTriggeredJob_def dest: report_and_patch_frames split: sum.splits kube_error.splits)
  then have "\<exists>asked. counted_pods [pj] asked st st'"
    using pod startPod_frames [OF pod] by (intro counted_one [of _ env]) auto
  then show ?thesis using True by blast
next
  case False
  have "counted_pods [] [] st st'"
  proof (cases "pm (pj_Name pj)")
    case None
    then have "st' = snd (canExecuteConcurrently env pj st)" "fst (canExecuteConcurrently env pj st) = False"
      using assms False by (auto simp: syncTriggeredJob_def split: prod.splits bool.splits)
    then show ?thesis by (intro counted_none) (auto simp: canExecuteConcurrently_def Let_def split: if_splits)
  next
    case (Some pod)
    then show ?thesis
      using assms by (intro counted_none) (auto simp: syncTriggeredJob_def dest: report_and_patch_frames)
  qed
  then show ?thesis by blast
qed

lemma pending_loop_counted:
  "sync_each (\<lambda>pj st. Some (syncPendingJob env pm pj st)) pjs st = Some (errs, st') \<Longrightarrow>
   \<exists>asked. counted_pods (filter (occupies env pm) pjs) asked st st'"
proof (induction pjs arbitrary: st errs)
  case Nil
  then show ?case using counted_none [of st st] by auto
next
  case (Cons pj pjs)
  let ?st = "snd (syncPendingJob env pm pj st)"
  obtain errs1 where "sync_each (\<lambda>pj st. Some (syncPendingJob env pm pj st)) pjs ?st = Some (errs1, st')"
    using Cons.prems by (auto split: prod.splits)
  then obtain asked asked' where
    "counted_pods (if occupies env pm pj then [pj] else []) asked st ?st"
    "counted_pods (filter (occupies env pm) pjs) asked' ?st st'"
    using Cons.IH pending_counted by blast
  then show ?case using counted_pods_trans by fastforce
qed

text \<open>
  A triggered job that already has a pod, because an earlier patch failed, is moved to pending
  without being counted.
\<close>

lemma existing_pod_not_counted:
  "pm (pj_Name pj) = Some pod \<Longrightarrow> syncTriggeredJob env pm pj st = Some (err, st') \<Longrightarrow>
   pl_pendingJobs st' = pl_pendingJobs st"
  by (auto simp: syncTriggeredJob_def dest: report_and_patch_frames)

text \<open>What the limits leave for the jobs to be started.\<close>

definition within_limits :: "plank_env \<Rightarrow> ProwJob list \<Rightarrow> ProwJob list \<Rightarrow> plank_state \<Rightarrow> bool" where
  "within_limits env pjs counted st \<longleftrightarrow>
     (\<forall>job k. k \<noteq> 0 \<longrightarrow> (\<forall>pj \<in> set pjs. pj_Job pj = job \<longrightarrow> spec_MaxConcurrency (pj_Spec pj) = k) \<longrightarrow>
        of_job job counted \<le> max 0 (k - num_pending (pl_pendingJobs st) job))
     \<and> (0 < pk_MaxConcurrency (pe_config env) \<longrightarrow>
        int (length counted) \<le> max 0 (pk_MaxConcurrency (pe_config env) - running_jobs (pl_pendingJobs st)))"

lemma within_limits_cons:
  assumes "counted_pods c a st st1" and "counters_ok st" and "within_limits env pjs counted st1"
    and "c = [] \<or> c = [pj] \<and> fst (canExecuteConcurrently env pj st)"
  shows "within_limits env (pj # pjs) (c @ counted) st"
proof -
  have num: "num_pending (pl_pendingJobs st1) job = num_pending (pl_pendingJobs st) job + of_job job c" for job
    using assms(1) by (simp add: counted_pods_def)
  have run: "running_jobs (pl_pendingJobs st1) = running_jobs (pl_pendingJobs st) + int (length c)"
    using assms(1,2) by (simp add: counted_pods_def)
  show ?thesis
    unfolding within_limits_def
  proof (intro conjI allI impI)
    fix job k assume k: "k \<noteq> (0 :: int)"
      and all: "\<forall>pj \<in> set (pj # pjs). pj_Job pj = job \<longrightarrow> spec_MaxConcurrency (pj_Spec pj) = k"
    have "of_job job counted \<le> max 0 (k - num_pending (pl_pendingJobs st1) job)"
      using assms(3) k all unfolding within_limits_def by simp
    moreover have "of_job job c = 0 \<or> of_job job c = 1 \<and> num_pending (pl_pendingJobs st) job < k"
      using assms(4) k all by (auto simp: canExecuteConcurrently_def Let_def split: if_splits)
    ultimately show "of_job job (c @ counted) \<le> max 0 (k - num_pending (pl_pendingJobs st) job)"
      using num [of job] by auto
  next
    assume max: "0 < pk_MaxConcurrency (pe_config env)"
    then have "int (length counted) \<le> max 0 (pk_MaxConcurrency (pe_config env) - running_jobs (pl_pendingJobs st1))"
      using assms(3) unfolding within_limits_def by simp
    moreover have "c = [] \<or> length c = 1 \<and> running_jobs (pl_pendingJobs st) < pk_MaxConcurrency (pe_config env)"
      using assms(4) max by (auto simp: canExecuteConcurrently_def Let_def split: if_splits)
    ultimately show "int (length (c @ counted)) \<le> max 0 (pk_MaxConcurrency (pe_config env) - running_jobs (pl_pendingJobs st))"
      using run by auto
  qed
qed

lemma triggered_loop_counted:
  assumes "sync_each (syncTriggeredJob env pm) pjs st = Some (errs, st')" and "counters_ok st"
  shows "\<exists>counted asked. counted_pods counted asked st st' \<and> within_limits env pjs counted st"
  using assms
proof (induction pjs arbitrary: st errs)
  case Nil
  then show ?case using counted_none [of st st] by (auto simp: within_limits_def)
next
  case (Cons pj pjs)
  obtain err st1 errs1 where one: "syncTriggeredJob env pm pj st = Some (err, st1)"
      "sync_each (syncTriggeredJob env pm) pjs st1 = Some (errs1, st')"
    using Cons.prems(1) by (auto split: option.splits)
  obtain c a where c: "counted_pods c a st st1" "c = [] \<or> c = [pj] \<and> fst (canExecuteConcurrently env pj st)"
    using triggered_counted [OF one(1)] by blast
  have "counters_ok st1" using c(1) Cons.prems(2) by (simp add: counted_pods_def)
  then obtain counted asked where rest: "counted_pods counted asked st1 st'" "within_limits env pjs counted st1"
    using Cons.IH [OF one(2)] by blast
  show ?case
    using counted_pods_trans [OF c(1) rest(1)] within_limits_cons [OF c(1) Cons.prems(2) rest(2) c(2)] by blast
qed

lemma of_job_subseq: "subseq xs ys \<Longrightarrow> of_job job xs \<le> of_job job ys"
  unfolding of_job_def using list_emb_length [OF subseq_filter] by fastforce

lemma range_order_filter:
  assumes "range_order f"
  shows "of_job job (filter P (f xs)) = of_job job (filter P xs)" "length (filter P (f xs)) = length (filter P xs)"
proof -
  have len: "length (filter Q (filter P (f xs))) = length (filter Q (filter P xs))" for Q
  proof -
    have "mset (filter Q (filter P (f xs))) = mset (filter Q (filter P xs))"
      using assms by (simp add: range_order_def)
    then show ?thesis by (rule mset_eq_length)
  qed
  show "of_job job (filter P (f xs)) = of_job job (filter P xs)" unfolding of_job_def by (simp only: len)
  show "length (filter P (f xs)) = length (filter P xs)" using len [of "\<lambda>_. True"] by simp
qed

lemma pending_phase_counted:
  assumes "syncProwJobs env (\<lambda>pj st. Some (syncPendingJob env pm pj st)) jobs st = Some (errs, st')"
    and "0 < pk_MaxGoroutines (pe_config env)" and "range_order (pe_iter_jobs env)"
  shows "\<exists>asked. counted_pods (filter (occupies env pm) (pe_iter_jobs env jobs)) asked st st'"
proof (cases "jobs = []")
  case True
  then show ?thesis
    using assms counted_none [of st st] by (intro exI [of _ "[]"]) (simp add: syncProwJobs_def)
next
  case False
  define g where "g = min (pk_MaxGoroutines (pe_config env)) (int (length jobs))"
  have "0 < g" using False assms(2) by (simp add: g_def)
  then have "sync_each (\<lambda>pj st. Some (syncPendingJob env pm pj st)) (pe_iter_jobs env jobs) st = Some (errs, st')"
    using assms(1) by (simp add: syncProwJobs_def flip: g_def)
  then show ?thesis by (rule pending_loop_counted)
qed

lemma triggered_phase_counted:
  assumes "syncProwJobs env (syncTriggeredJob env pm) jobs st = Some (errs, st')"
    and "counters_ok st" and "range_order (pe_iter_jobs env)"
  shows "\<exists>counted asked. counted_pods counted asked st st' \<and> within_limits env jobs counted st"
proof (cases "sync_each (syncTriggeredJob env pm) (pe_iter_jobs env jobs) st = Some (errs, st')")
  case True
  then show ?thesis
    using triggered_loop_counted [OF True assms(2)] assms(3) by (simp add: within_limits_def)
next
  case False
  then have "st' = st" using assms(1) by (auto simp: syncProwJobs_def Let_def split: if_splits)
  then show ?thesis using counted_none [of st st] by (intro exI [of _ "[]"]) (auto simp: within_limits_def)
qed

lemma cleanup_created: "pl_created (fold (cleanup_job env pm) js st) = pl_created st"
proof (induction js arbitrary: st)
  case (Cons j js)
  then show ?case by (auto simp: cleanup_job_def delete_pod_def split: option.splits)
qed simp

lemma terminateDupes_created: "pl_created (snd (terminateDupes env pjs pm st)) = pl_created st"
  by (simp add: terminateDupes_def Let_def cleanup_created)

lemma report_all_created: "pl_created (snd (report_all env pjs st)) = pl_created st"
proof (induction pjs arbitrary: st)
  case (Cons pj pjs)
  have "pl_created (snd (setPreviousReportState env pj st)) = pl_created st"
    by (simp add: setPreviousReportState_def Let_def split: sum.splits)
  then show ?case using Cons.IH [of "snd (setPreviousReportState env pj st)"]
    by (auto simp: Let_def split: prod.splits)
qed simp


lemma sync_each_total:
  "(\<And>pj st. syncFn pj st \<noteq> None) \<Longrightarrow> sync_each syncFn pjs st \<noteq> None"
  by (induction pjs arbitrary: st) (auto split: option.splits, (metis option.distinct(1))+)

lemma syncProwJobs_total:
  "0 \<le> pk_MaxGoroutines (pe_config env) \<Longrightarrow> (\<And>pj st. syncFn pj st \<noteq> None) \<Longrightarrow>
   \<exists>errs st'. syncProwJobs env syncFn jobs st = Some (errs, st')"
  using sync_each_total [of syncFn "pe_iter_jobs env jobs" st] by (auto simp: syncProwJobs_def Let_def)

lemma syncTriggeredJob_total:
  assumes "\<forall>pod \<in> ran pm. pod_Containers pod \<noteq> []"
  shows "syncTriggeredJob env pm pj st \<noteq> None"
proof (cases "pm (pj_Name pj)")
  case None
  then show ?thesis by (auto simp: syncTriggeredJob_def split: prod.splits bool.splits sum.splits kube_error.splits)
next
  case (Some pod)
  then have "pod_Containers pod \<noteq> []" using assms ranI by fast
  then show ?thesis using Some by (auto simp: syncTriggeredJob_def getPodBuildID_def split: list.splits)
qed

text \<open>A sync does not panic when every listed pod has a container.\<close>

lemma plank_Sync_total:
  assumes "0 \<le> pk_MaxGoroutines (pe_config env)" and "\<forall>pod \<in> ran (plank_pods env). pod_Containers pod \<noteq> []"
  shows "\<exists>err st'. plank_Sync env st = Some (err, st')"
proof (cases "pe_List env (pe_selector env)")
  case (Inr pjs)
  define selector where
    "selector = (if pe_selector env \<noteq> [] then pe_selector env @ '','' else []) @ CreatedByProw @ ''=true''"
  obtain podErrs pm where pods:
    "list_pods selector (pe_iter_clients env (pe_buildClients env)) ([], Map.empty) = (podErrs, pm)" by fastforce
  have pm: "plank_pods env = pm" using pods by (simp add: plank_pods_def selector_def)
  obtain dupErr jobs st1 where dupes: "terminateDupes env (sort_key pj_CreationTimestamp
      (filter (\<lambda>pj. spec_Agent (pj_Spec pj) = KubernetesAgent) pjs)) pm st = ((dupErr, jobs), st1)" by (metis surj_pair)
  define st2 where "st2 = st1\<lparr>pl_pjs := jobs, pl_pendingJobs := [], pl_reports := []\<rparr>"
  obtain errs1 st3 where p: "syncProwJobs env (\<lambda>pj st. Some (syncPendingJob env pm pj st))
      (fst (PartitionActive jobs)) st2 = Some (errs1, st3)"
    using syncProwJobs_total [OF assms(1), of "\<lambda>pj st. Some (syncPendingJob env pm pj st)"] by blast
  obtain errs2 st4 where t: "syncProwJobs env (syncTriggeredJob env pm) (snd (PartitionActive jobs)) st3 = Some (errs2, st4)"
    using syncProwJobs_total [OF assms(1), of "syncTriggeredJob env pm"] syncTriggeredJob_total assms(2) pm by blast
  show ?thesis
    unfolding plank_Sync_def Inr sum.case Let_def selector_def [symmetric] pods prod.case dupes
      st2_def [symmetric] prod.case_eq_if p t option.case fst_conv snd_conv by blast
qed (simp add: plank_Sync_def)

subsection \<open>A sample\<close>

definition sample_plank_job :: "string \<Rightarrow> ProwJobState \<Rightarrow> ProwJob" where
  "sample_plank_job name s =
     \<lparr>pj_APIVersion = [], pj_Kind = [], pj_Name = name, pj_Namespace = [], pj_Labels = Map.empty,
      pj_Annotations = Map.empty, pj_CreationTimestamp = 1,
      pj_Spec = \<lparr>spec_Type = PeriodicJob, spec_Agent = KubernetesAgent, spec_Cluster = [], spec_Namespace = [],
        spec_Job = ''unit'', spec_Refs = None, spec_ExtraRefs = [], spec_Report = True, spec_Context = [],
        spec_RerunCommand = [], spec_MaxConcurrency = 2, spec_ErrorOnEviction = False, spec_PodSpec = None,
        spec_JenkinsSpec = None, spec_PipelineRunSpec = None, spec_DecorationConfig = None,
        spec_ReporterConfig = None, spec_RerunAuthConfig = None, spec_Hidden = False\<rparr>,
      pj_Status = zero_ProwJobStatus\<lparr>st_State := s\<rparr>\<rparr>"

definition sample_pod :: "string \<Rightarrow> Pod" where
  "sample_pod name = \<lparr>pod_Name = name, pod_Labels = Map.empty, pod_Phase = PodRunning, pod_Reason = [], pod_StartTime = zero_time,
     pod_Containers = [[]]\<rparr>"

definition sample_plank_jobs :: "ProwJob list" where
  "sample_plank_jobs = [sample_plank_job ''a'' PendingState, sample_plank_job ''b'' TriggeredState,
     sample_plank_job ''c'' TriggeredState]"

definition sample_plank_env :: plank_env where
  "sample_plank_env =
     \<lparr>pe_config = \<lparr>pk_MaxConcurrency = 0, pk_MaxGoroutines = 20, pk_AllowCancellations = False,
        pk_PodPendingTimeout = 10, pk_PodRunningTimeout = 10\<rparr>,
      pe_selector = [], pe_skipReport = True, pe_List = (\<lambda>_. Inr sample_plank_jobs), pe_Get = (\<lambda>_. Inl ''down''),
      pe_Update = (\<lambda>_. None), pe_patch = sample_patch_client,
      pe_buildClients = [(DefaultClusterAlias, \<lparr>pi_List = (\<lambda>_. Inr [sample_pod ''a'']),
         pi_Create = (\<lambda>pod. Inr (pod_Name pod)), pi_Delete = (\<lambda>_. None)\<rparr>)],
      pe_GetBuildID = (\<lambda>_. Inr ''1''), pe_ProwJobToPod = (\<lambda>pj _. Inr (sample_pod (pj_Name pj))),
      pe_JobURL = pj_Name, pe_Report = (\<lambda>_. None), pe_now = 9, pe_iter_clients = rev, pe_iter_jobs = rev\<rparr>"

definition empty_plank_state :: plank_state where
  "empty_plank_state = \<lparr>pl_pendingJobs = [], pl_pjs = [], pl_created = [], pl_deleted = [], pl_reports = [],
     pl_patched = [], pl_updated = []\<rparr>"

lemmas sample_plank_defs = sample_plank_env_def sample_plank_jobs_def sample_plank_job_def empty_plank_state_def
  sample_pod_def zero_ProwJobStatus_def

lemma sample_jobs:
  "plank_jobs sample_plank_env sample_plank_jobs = sample_plank_jobs"
  by (simp add: plank_jobs_def TerminateOlderJobs_def sample_plank_defs abortable_def upt_rec numeral_3_eq_3)

lemma sample_pods: "plank_pods sample_plank_env = [''a'' \<mapsto> sample_pod ''a'']"
  by (simp add: plank_pods_def sample_plank_defs)

lemma sample_sync: "\<exists>err st'. plank_Sync sample_plank_env empty_plank_state = Some (err, st')"
  by (rule plank_Sync_total) (simp_all add: sample_pods, simp_all add: sample_plank_env_def sample_pod_def)

theorem plank_life_cycle_witness:
  "\<exists>err st'. plank_Sync sample_plank_env empty_plank_state = Some (err, st')
     \<and> (\<forall>(old, pj) \<in> set (pl_patched st'). job_step 9 old pj)"
proof -
  obtain err st' where run: "plank_Sync sample_plank_env empty_plank_state = Some (err, st')"
    using sample_sync by blast
  have "range_order (pe_iter_jobs sample_plank_env)" by (simp add: sample_plank_env_def)
  from plank_life_cycle [OF run this] have "\<forall>(old, pj) \<in> set (pl_patched st'). job_step 9 old pj"
    by (auto simp: empty_plank_state_def) (auto simp: sample_plank_env_def)
  then show ?thesis using run by blast
qed

lemma sample_busy:
  "filter (occupies sample_plank_env [''a'' \<mapsto> sample_pod ''a'']) [sample_plank_job ''a'' PendingState]
     = [sample_plank_job ''a'' PendingState]"
  by (simp add: occupies_def sample_plank_job_def sample_pod_def within_time_def)


end
