(* ===== verification/Sinker.thy ===== *)
theory Sinker
  imports Plank
begin

text \<open>
  The garbage collector, \<open>src/cmd/sinker/main.go\<close>: one \<open>clean\<close> of old ProwJobs and pods.  The services and
  the configuration are the record \<open>sinker_env\<close>; the outcome is the list of jobs and the list
  of pods whose deletion was asked for.  The clock is read once; metrics and logging are left out.
\<close>

subsection \<open>Data\<close>

definition ProwJobIDLabel :: string where "ProwJobIDLabel = ''prow.k8s.io/id''"

record sinker_env =
  sk_ListJobs :: "ProwJob list result"
  sk_podClients :: "PodInterface list"
  sk_MaxProwJobAge :: duration
  sk_MaxPodAge :: duration
  sk_Periodics :: "Periodic list"
  sk_now :: time

text \<open>\<open>isExist\<close>, \<open>isFinished\<close>, the jobs to be deleted, and the pods with their client.\<close>

record sinker_state =
  sk_isExist :: "string list"
  sk_isFinished :: "string list"
  sk_jobs :: "ProwJob list"
  sk_pods :: "(nat \<times> Pod) list"

abbreviation per_Name :: "Periodic \<Rightarrow> string" where "per_Name p \<equiv> jb_Name (per_JobBase p)"

subsection \<open>Old ProwJobs\<close>

definition job_aged :: "sinker_env \<Rightarrow> ProwJob \<Rightarrow> bool" where
  "job_aged env pj \<longleftrightarrow> \<not> sk_now env - pj_StartTime pj \<le> sk_MaxProwJobAge env"

definition finish_or_delete :: "sinker_env \<Rightarrow> ProwJob \<Rightarrow> sinker_state \<Rightarrow> sinker_state" where
  "finish_or_delete env pj st =
     (if \<not> Complete pj then st
      else
        (let st1 = st\<lparr>sk_isFinished := sk_isFinished st @ [pj_Name pj]\<rparr>
         in if job_aged env pj then st1\<lparr>sk_jobs := sk_jobs st @ [pj]\<rparr> else st1))"

fun clean_jobs :: "sinker_env \<Rightarrow> ProwJob list \<Rightarrow> sinker_state \<Rightarrow> sinker_state" where
  "clean_jobs env [] st = st"
| "clean_jobs env (pj # pjs) st =
     (let st1 = st\<lparr>sk_isExist := sk_isExist st @ [pj_Name pj]\<rparr>
      in clean_jobs env pjs (if pj_Type pj = PeriodicJob then st1 else finish_or_delete env pj st1))"

text \<open>The latest run of a configured periodic is kept.\<close>

definition kept_periodic :: "sinker_env \<Rightarrow> (string \<rightharpoonup> ProwJob) \<Rightarrow> ProwJob \<Rightarrow> bool" where
  "kept_periodic env latestPeriodics pj \<longleftrightarrow>
     pj_Job pj \<in> per_Name ` set (sk_Periodics env)
     \<and> pj_Name pj = (case latestPeriodics (pj_Job pj) of None \<Rightarrow> [] | Some l \<Rightarrow> pj_Name l)"

fun clean_periodics :: "sinker_env \<Rightarrow> (string \<rightharpoonup> ProwJob) \<Rightarrow> ProwJob list \<Rightarrow> sinker_state \<Rightarrow> sinker_state" where
  "clean_periodics env latestPeriodics [] st = st"
| "clean_periodics env latestPeriodics (pj # pjs) st =
     clean_periodics env latestPeriodics pjs
       (if pj_Type pj \<noteq> PeriodicJob then st
        else if kept_periodic env latestPeriodics pj then st
        else finish_or_delete env pj st)"

subsection \<open>Old pods\<close>

definition pod_job_name :: "Pod \<Rightarrow> string" where
  "pod_job_name pod = (case pod_Labels pod ProwJobIDLabel of None \<Rightarrow> pod_Name pod | Some value \<Rightarrow> value)"

definition clean_pod :: "sinker_env \<Rightarrow> sinker_state \<Rightarrow> Pod \<Rightarrow> bool" where
  "clean_pod env st pod =
     (if pod_job_name pod \<notin> set (sk_isExist st) then True
      else if pod_job_name pod \<notin> set (sk_isFinished st) then False
      else pod_StartTime pod \<noteq> zero_time \<and> sk_now env - pod_StartTime pod > sk_MaxPodAge env)"

definition sinker_selector :: string where "sinker_selector = CreatedByProw @ '' = true''"

text \<open>An error of a list ends the clean.\<close>

fun clean_pods :: "sinker_env \<Rightarrow> nat \<Rightarrow> PodInterface list \<Rightarrow> sinker_state \<Rightarrow> sinker_state" where
  "clean_pods env i [] st = st"
| "clean_pods env i (client # clients) st =
     (case pi_List client sinker_selector of
        Inl err \<Rightarrow> st
      | Inr pods \<Rightarrow>
          clean_pods env (i + 1) clients
            (st\<lparr>sk_pods := sk_pods st @ map (Pair i) (filter (clean_pod env st) pods)\<rparr>))"

definition empty_sinker :: sinker_state where
  "empty_sinker = \<lparr>sk_isExist = [], sk_isFinished = [], sk_jobs = [], sk_pods = []\<rparr>"

definition clean :: "sinker_env \<Rightarrow> sinker_state" where
  "clean env =
     (case sk_ListJobs env of
        Inl err \<Rightarrow> empty_sinker
      | Inr pjs \<Rightarrow>
          (let st1 = clean_jobs env pjs empty_sinker;
               st2 = clean_periodics env (GetLatestProwJobs pjs PeriodicJob) pjs st1
           in clean_pods env 0 (sk_podClients env) st2))"

subsection \<open>What is deleted\<close>

definition finished :: "sinker_env \<Rightarrow> (string \<rightharpoonup> ProwJob) \<Rightarrow> ProwJob \<Rightarrow> bool" where
  "finished env latest pj \<longleftrightarrow> Complete pj \<and> \<not> (pj_Type pj = PeriodicJob \<and> kept_periodic env latest pj)"

lemma clean_jobs_state:
  "clean_jobs env pjs st =
     st\<lparr>sk_isExist := sk_isExist st @ map pj_Name pjs,
        sk_isFinished := sk_isFinished st @ map pj_Name (filter (\<lambda>pj. pj_Type pj \<noteq> PeriodicJob \<and> Complete pj) pjs),
        sk_jobs := sk_jobs st @ filter (\<lambda>pj. pj_Type pj \<noteq> PeriodicJob \<and> Complete pj \<and> job_aged env pj) pjs\<rparr>"
  by (induction pjs arbitrary: st) (auto simp: finish_or_delete_def Let_def)

lemma clean_periodics_state:
  "clean_periodics env latest pjs st =
     st\<lparr>sk_isFinished := sk_isFinished st
          @ map pj_Name (filter (\<lambda>pj. pj_Type pj = PeriodicJob \<and> \<not> kept_periodic env latest pj \<and> Complete pj) pjs),
        sk_jobs := sk_jobs st
          @ filter (\<lambda>pj. pj_Type pj = PeriodicJob \<and> \<not> kept_periodic env latest pj \<and> Complete pj \<and> job_aged env pj) pjs\<rparr>"
  by (induction pjs arbitrary: st) (auto simp: finish_or_delete_def Let_def)

lemma clean_pods_frame:
  "sk_isExist (clean_pods env i clients st) = sk_isExist st"
  "sk_isFinished (clean_pods env i clients st) = sk_isFinished st"
  "sk_jobs (clean_pods env i clients st) = sk_jobs st"
  by (induction env i clients st rule: clean_pods.induct) (auto split: sum.splits)

lemma clean_pod_frame: "clean_pod env (st\<lparr>sk_pods := x\<rparr>) pod = clean_pod env st pod"
  by (simp add: clean_pod_def)

lemma clean_pods_old:
  "(j, pod) \<in> set (sk_pods (clean_pods env i clients st)) \<Longrightarrow> (j, pod) \<in> set (sk_pods st) \<or> clean_pod env st pod"
proof (induction env i clients st rule: clean_pods.induct)
  case (2 env i client clients st)
  then show ?case by (cases "pi_List client sinker_selector") (auto simp: clean_pod_frame)
qed simp

lemma clean_state:
  assumes "sk_ListJobs env = Inr pjs" and "latest = GetLatestProwJobs pjs PeriodicJob"
  shows "set (sk_isExist (clean env)) = pj_Name ` set pjs"
    and "set (sk_isFinished (clean env)) = pj_Name ` {pj \<in> set pjs. finished env latest pj}"
    and "set (sk_jobs (clean env)) = {pj \<in> set pjs. finished env latest pj \<and> job_aged env pj}"
  using assms
  by (auto simp: clean_def Let_def clean_pods_frame clean_jobs_state clean_periodics_state empty_sinker_def finished_def)


definition sample_old_job :: ProwJob where "sample_old_job = abort_job 9 (sample_started ''a'' 2)"

lemma sample_old_job_simps:
  "Complete sample_old_job" "pj_StartTime sample_old_job = 2" "pj_Name sample_old_job = ''a''"
  by (simp_all add: sample_old_job_def abort_job_def Let_def SetComplete_def Complete_def sample_started_def NewProwJob_def
      split: prod.splits)

definition sample_clean :: sinker_env where
  "sample_clean = \<lparr>sk_ListJobs = Inr [sample_old_job],
     sk_podClients = [\<lparr>pi_List = (\<lambda>_. Inr [(sample_pod ''a'')\<lparr>pod_StartTime := 3\<rparr>]), pi_Create = (\<lambda>_. Inr []), pi_Delete = (\<lambda>_. None)\<rparr>],
     sk_MaxProwJobAge = 10, sk_MaxPodAge = 5, sk_Periodics = [], sk_now = 20\<rparr>"


end
