(* ===== verification/Horologium.thy ===== *)
theory Horologium
  imports Sinker Tide_Merge
begin

text \<open>
  Periodic jobs: the wrapper of the cron library, \<open>src/cron/cron.go\<close>, and one sync of
  \<open>src/cmd/horologium/main.go\<close>.

  The library \<open>robfig/cron\<close> is the record \<open>cron_agent\<close> with its documented behaviour as \<open>cron_agent_ok\<close>:
  \<open>AddFunc\<close> adds an entry with a fresh id or fails, \<open>Remove\<close> removes one, and \<open>Entries\<close> lists them.
  The function of an entry is determined by the name of the job it marks.  The library runs it in a
  goroutine of its own, so it may run at any time after it was started, \<open>cron_fire\<close>.
\<close>

subsection \<open>Cron\<close>

record 'a cron_agent =
  ca_AddFunc :: "'a \<Rightarrow> string \<Rightarrow> string \<Rightarrow> int result \<times> 'a"
  ca_Remove :: "'a \<Rightarrow> int \<Rightarrow> 'a"
  ca_Entries :: "'a \<Rightarrow> (int \<rightharpoonup> string \<times> string)"

record jobStatus =
  js_entryID :: int
  js_triggered :: bool
  js_cronStr :: string

record 'a Cron =
  cr_cronAgent :: 'a
  cr_jobs :: "(string \<times> jobStatus) list"

definition New_Cron :: "'a \<Rightarrow> 'a Cron" where
  "New_Cron agent = \<lparr>cr_cronAgent = agent, cr_jobs = []\<rparr>"

text \<open>The jobs come in the order of a range over a map, \<open>iter\<close>.\<close>

definition QueuedJobs ::
    "((string \<times> jobStatus) list \<Rightarrow> (string \<times> jobStatus) list) \<Rightarrow> 'a Cron \<Rightarrow> string list \<times> 'a Cron" where
  "QueuedJobs iter c =
     (map fst (filter (js_triggered \<circ> snd) (iter (cr_jobs c))),
      c\<lparr>cr_jobs := map (\<lambda>(k, v). (k, v\<lparr>js_triggered := False\<rparr>)) (cr_jobs c)\<rparr>)"

definition HasJob :: "'a Cron \<Rightarrow> string \<Rightarrow> bool" where
  "HasJob c name \<longleftrightarrow> map_of (cr_jobs c) name \<noteq> None"

definition removeJob :: "'a cron_agent \<Rightarrow> string \<Rightarrow> 'a Cron \<Rightarrow> error option \<times> 'a Cron" where
  "removeJob ca name c =
     (case map_of (cr_jobs c) name of
        None \<Rightarrow> (Some (''job '' @ name @ '' has not been added to cronAgent yet''), c)
      | Some job \<Rightarrow>
          (None, \<lparr>cr_cronAgent = ca_Remove ca (cr_cronAgent c) (js_entryID job),
                  cr_jobs = AList.delete name (cr_jobs c)\<rparr>))"

definition cron_spec :: "string \<Rightarrow> string" where "cron_spec cron = ''TZ=UTC '' @ cron"

definition addJob :: "'a cron_agent \<Rightarrow> string \<Rightarrow> string \<Rightarrow> 'a Cron \<Rightarrow> error option \<times> 'a Cron" where
  "addJob ca name cron c =
     (case ca_AddFunc ca (cr_cronAgent c) (cron_spec cron) name of
        (Inl err, agent) \<Rightarrow>
          (Some (''cronAgent fails to add job '' @ name @ '' with cron '' @ cron @ '': '' @ err), c\<lparr>cr_cronAgent := agent\<rparr>)
      | (Inr id', agent) \<Rightarrow>
          (None, \<lparr>cr_cronAgent = agent,
                  cr_jobs = AList.update name \<lparr>js_entryID = id', js_triggered = has_prefix cron ''@every'',
                              js_cronStr = cron\<rparr> (cr_jobs c)\<rparr>))"

definition addPeriodic :: "'a cron_agent \<Rightarrow> Periodic \<Rightarrow> 'a Cron \<Rightarrow> error option \<times> 'a Cron" where
  "addPeriodic ca p c =
     (if per_Cron p = [] then (None, c)
      else
        (case map_of (cr_jobs c) (per_Name p) of
           None \<Rightarrow> addJob ca (per_Name p) (per_Cron p) c
         | Some job \<Rightarrow>
             if js_cronStr job = per_Cron p then (None, c)
             else
               (case removeJob ca (per_Name p) c of
                  (Some err, c') \<Rightarrow> (Some err, c')
                | (None, c') \<Rightarrow> addJob ca (per_Name p) (per_Cron p) c')))"

fun add_all_periodics :: "'a cron_agent \<Rightarrow> Periodic list \<Rightarrow> 'a Cron \<Rightarrow> error option \<times> 'a Cron" where
  "add_all_periodics ca [] c = (None, c)"
| "add_all_periodics ca (p # ps) c =
     (case addPeriodic ca p c of
        (Some err, c') \<Rightarrow> (Some err, c')
      | (None, c') \<Rightarrow> add_all_periodics ca ps c')"

fun remove_all :: "'a cron_agent \<Rightarrow> string list \<Rightarrow> error list \<Rightarrow> 'a Cron \<Rightarrow> error list \<times> 'a Cron" where
  "remove_all ca [] errs c = (errs, c)"
| "remove_all ca (name # names) errs c =
     (case removeJob ca name c of
        (err, c') \<Rightarrow> remove_all ca names (errs @ (case err of None \<Rightarrow> [] | Some e \<Rightarrow> [e])) c')"

definition SyncConfig :: "'a cron_agent \<Rightarrow> Periodic list \<Rightarrow> 'a Cron \<Rightarrow> error option \<times> 'a Cron" where
  "SyncConfig ca periodics c =
     (case add_all_periodics ca periodics c of
        (Some err, c1) \<Rightarrow> (Some err, c1)
      | (None, c1) \<Rightarrow>
          (case remove_all ca (set_list (filter (\<lambda>k. k \<notin> per_Name ` set periodics) (map fst (cr_jobs c1)))) [] c1 of
             (errs, c2) \<Rightarrow> (if errs = [] then None else Some (aggregate_error errs), c2)))"

text \<open>The function of an entry; \<open>None\<close> is a panic, a job that is not in the map any more.\<close>

definition cron_fire :: "string \<Rightarrow> 'a Cron \<Rightarrow> 'a Cron option" where
  "cron_fire name c =
     (case map_of (cr_jobs c) name of
        None \<Rightarrow> None
      | Some job \<Rightarrow> Some (c\<lparr>cr_jobs := AList.update name (job\<lparr>js_triggered := True\<rparr>) (cr_jobs c)\<rparr>))"

subsection \<open>Horologium\<close>

record 'a horologium_env =
  ho_List :: "ProwJob list result"
  ho_Create :: "ProwJob \<Rightarrow> error option"
  ho_Periodics :: "Periodic list"
  ho_agent :: "'a cron_agent"
  ho_iter :: "(string \<times> jobStatus) list \<Rightarrow> (string \<times> jobStatus) list"
  ho_valid_label :: "string \<Rightarrow> bool"
  ho_uuid :: "nat \<Rightarrow> string"
  ho_now :: time

definition should_trigger :: "'a horologium_env \<Rightarrow> (string \<rightharpoonup> ProwJob) \<Rightarrow> string list \<Rightarrow> Periodic \<Rightarrow> bool" where
  "should_trigger env latestJobs cronTriggers p =
     (if per_Cron p = [] then
        (case latestJobs (per_Name p) of
           None \<Rightarrow> True
         | Some j \<Rightarrow> Complete j \<and> ho_now env - pj_StartTime j > per_interval p)
      else if per_Name p \<in> set cronTriggers then
        (case latestJobs (per_Name p) of None \<Rightarrow> True | Some j \<Rightarrow> Complete j)
      else False)"

fun trigger_periodics ::
    "'a horologium_env \<Rightarrow> (string \<rightharpoonup> ProwJob) \<Rightarrow> string list \<Rightarrow> Periodic list \<Rightarrow> error list \<Rightarrow> ProwJob list
     \<Rightarrow> error list \<times> ProwJob list" where
  "trigger_periodics env latestJobs cronTriggers [] errs created = (errs, created)"
| "trigger_periodics env latestJobs cronTriggers (p # ps) errs created =
     (if should_trigger env latestJobs cronTriggers p then
        (let prowJob = NewProwJob (ho_valid_label env) (ho_uuid env (length created)) (ho_now env) (PeriodicSpec p)
               (jb_Labels (per_JobBase p)) (jb_Annotations (per_JobBase p))
         in trigger_periodics env latestJobs cronTriggers ps
              (errs @ (case ho_Create env prowJob of None \<Rightarrow> [] | Some err \<Rightarrow> [err])) (created @ [prowJob]))
      else trigger_periodics env latestJobs cronTriggers ps errs created)"

text \<open>The error, the jobs whose creation was asked for, and the cron.\<close>

definition horologium_sync ::
    "'a horologium_env \<Rightarrow> 'a Cron \<Rightarrow> error option \<times> ProwJob list \<times> 'a Cron" where
  "horologium_sync env cr =
     (case ho_List env of
        Inl err \<Rightarrow> (Some (''error listing prow jobs: '' @ err), [], cr)
      | Inr jobs \<Rightarrow>
          (let cr1 = snd (SyncConfig (ho_agent env) (ho_Periodics env) cr);
               (queued, cr2) = QueuedJobs (ho_iter env) cr1;
               (errs, created) = trigger_periodics env (GetLatestProwJobs jobs PeriodicJob) queued (ho_Periodics env) [] []
           in (if errs \<noteq> [] then Some (''failed to create '' @ itoa (int (length errs)) @ '' prowjobs: '' @ err_list_string errs)
               else None, created, cr2)))"

subsection \<open>The entries of the cron library\<close>

text \<open>What is relied on of the library.\<close>

definition cron_agent_ok :: "'a cron_agent \<Rightarrow> bool" where
  "cron_agent_ok ca \<longleftrightarrow>
     (\<forall>a spec f. case ca_AddFunc ca a spec f of
        (Inl _, a') \<Rightarrow> ca_Entries ca a' = ca_Entries ca a
      | (Inr i, a') \<Rightarrow> ca_Entries ca a i = None \<and> ca_Entries ca a' = (ca_Entries ca a)(i \<mapsto> (spec, f)))
     \<and> (\<forall>a i. ca_Entries ca (ca_Remove ca a i) = (ca_Entries ca a)(i := None))"

text \<open>The entries are those of the jobs, one for each.\<close>

definition cron_inv :: "'a cron_agent \<Rightarrow> 'a Cron \<Rightarrow> bool" where
  "cron_inv ca c \<longleftrightarrow> distinct (map fst (cr_jobs c))
     \<and> (\<forall>f st. map_of (cr_jobs c) f = Some st \<longrightarrow>
          ca_Entries ca (cr_cronAgent c) (js_entryID st) = Some (cron_spec (js_cronStr st), f))
     \<and> (\<forall>i spec f. ca_Entries ca (cr_cronAgent c) i = Some (spec, f) \<longrightarrow>
          (\<exists>st. map_of (cr_jobs c) f = Some st \<and> js_entryID st = i))"

lemma cron_invD:
  assumes "cron_inv ca c"
  shows "distinct (map fst (cr_jobs c))"
    and "map_of (cr_jobs c) f = Some st \<Longrightarrow>
      ca_Entries ca (cr_cronAgent c) (js_entryID st) = Some (cron_spec (js_cronStr st), f)"
    and "ca_Entries ca (cr_cronAgent c) i = Some (spec, f) \<Longrightarrow> \<exists>st. map_of (cr_jobs c) f = Some st \<and> js_entryID st = i"
  using assms unfolding cron_inv_def by blast+

lemma removeJob_inv:
  assumes "cron_agent_ok ca" and "cron_inv ca c"
  shows "cron_inv ca (snd (removeJob ca name c))"
proof (cases "map_of (cr_jobs c) name")
  case None
  then show ?thesis using assms(2) by (simp add: removeJob_def)
next
  case (Some job)
  let ?J = "map_of (cr_jobs c)" and ?E = "ca_Entries ca (cr_cronAgent c)"
  have J: "map_of (AList.delete name (cr_jobs c)) = ?J(name := None)" by (simp add: delete_conv')
  have E: "ca_Entries ca (ca_Remove ca (cr_cronAgent c) (js_entryID job)) = ?E(js_entryID job := None)"
    using assms(1) by (simp add: cron_agent_ok_def)
  have name: "?E (js_entryID job) = Some (cron_spec (js_cronStr job), name)" by (rule cron_invD(2) [OF assms(2) Some])
  have "(?E(js_entryID job := None)) (js_entryID st) = Some (cron_spec (js_cronStr st), f)"
    if "(?J(name := None)) f = Some st" for f st
    using that name cron_invD(2) [OF assms(2), of f st] by (auto split: if_splits)
  moreover have "\<exists>st. (?J(name := None)) f = Some st \<and> js_entryID st = i"
    if e: "(?E(js_entryID job := None)) i = Some (spec, f)" for i spec f
  proof -
    obtain st where st: "?J f = Some st" "js_entryID st = i" "i \<noteq> js_entryID job"
      using cron_invD(3) [OF assms(2), of i spec f] e by (auto split: if_splits)
    then have "f \<noteq> name" using Some by auto
    then show ?thesis using st by auto
  qed
  moreover have "distinct (map fst (AList.delete name (cr_jobs c)))"
    using cron_invD(1) [OF assms(2)] by (rule distinct_delete)
  ultimately show ?thesis unfolding cron_inv_def removeJob_def by (simp add: Some J E del: fun_upd_apply)
qed

lemma addJob_inv:
  assumes "cron_agent_ok ca" and "cron_inv ca c" and "map_of (cr_jobs c) name = None"
  shows "cron_inv ca (snd (addJob ca name cron c))"
proof -
  obtain r agent where add: "ca_AddFunc ca (cr_cronAgent c) (cron_spec cron) name = (r, agent)" by fastforce
  have law: "case (r, agent) of
        (Inl _, a') \<Rightarrow> ca_Entries ca a' = ca_Entries ca (cr_cronAgent c)
      | (Inr i, a') \<Rightarrow> ca_Entries ca (cr_cronAgent c) i = None
          \<and> ca_Entries ca a' = (ca_Entries ca (cr_cronAgent c))(i \<mapsto> (cron_spec cron, name))"
    unfolding add [symmetric]
    using assms(1) [unfolded cron_agent_ok_def, THEN conjunct1, rule_format, of "cr_cronAgent c" "cron_spec cron" name] .
  show ?thesis
  proof (cases r)
    case (Inl err)
    then show ?thesis using assms(2) add law by (simp add: addJob_def cron_inv_def del: map_of_eq_Some_iff)
  next
    case (Inr i)
    let ?J = "map_of (cr_jobs c)" and ?E = "ca_Entries ca (cr_cronAgent c)"
    let ?st = "\<lparr>js_entryID = i, js_triggered = has_prefix cron ''@every'', js_cronStr = cron\<rparr>"
    have E: "?E i = None" "ca_Entries ca agent = ?E(i \<mapsto> (cron_spec cron, name))" using law Inr by simp_all
    have J: "map_of (AList.update name ?st (cr_jobs c)) = ?J(name \<mapsto> ?st)" by (simp add: update_conv')
    have "(?E(i \<mapsto> (cron_spec cron, name))) (js_entryID st) = Some (cron_spec (js_cronStr st), f)"
      if "(?J(name \<mapsto> ?st)) f = Some st" for f st
      using that E(1) cron_invD(2) [OF assms(2), of f st] by (auto split: if_splits)
    moreover have "\<exists>st. (?J(name \<mapsto> ?st)) f = Some st \<and> js_entryID st = k"
      if "(?E(i \<mapsto> (cron_spec cron, name))) k = Some (spec, f)" for k spec f
      using that assms(3) cron_invD(3) [OF assms(2), of k spec f] by (auto split: if_splits)
    moreover have "distinct (map fst (AList.update name ?st (cr_jobs c)))"
      using cron_invD(1) [OF assms(2)] by (rule distinct_update)
    ultimately show ?thesis unfolding cron_inv_def addJob_def by (simp add: add Inr E(2) J del: fun_upd_apply)
  qed
qed

lemma removeJob_jobs:
  "map_of (cr_jobs (snd (removeJob ca name c))) = (map_of (cr_jobs c))(name := None)"
  by (auto simp: removeJob_def delete_conv' split: option.splits)

lemma removeJob_ok: "fst (removeJob ca name c) = None \<longleftrightarrow> map_of (cr_jobs c) name \<noteq> None"
  by (auto simp: removeJob_def split: option.splits)

lemma addJob_jobs:
  "fst (addJob ca name cron c) = None \<Longrightarrow>
   \<exists>st. map_of (cr_jobs (snd (addJob ca name cron c))) = (map_of (cr_jobs c))(name \<mapsto> st) \<and> js_cronStr st = cron"
  by (auto simp: addJob_def update_conv' split: prod.splits sum.splits)

lemma addPeriodic_inv:
  assumes "cron_agent_ok ca" and "cron_inv ca c"
  shows "cron_inv ca (snd (addPeriodic ca p c))"
proof -
  have "cron_inv ca (snd (addJob ca (per_Name p) (per_Cron p) c'))" if "snd (removeJob ca (per_Name p) c) = c'" for c'
    using addJob_inv [OF assms(1) removeJob_inv [OF assms]] removeJob_jobs [of ca "per_Name p" c] that by fastforce
  then show ?thesis
    using assms addJob_inv [OF assms] removeJob_inv [OF assms, of "per_Name p"]
    by (auto simp: addPeriodic_def split: option.splits prod.splits)
qed

lemma addPeriodic_jobs:
  assumes "fst (addPeriodic ca p c) = None"
  shows "(per_Cron p = [] \<longrightarrow> cr_jobs (snd (addPeriodic ca p c)) = cr_jobs c)
    \<and> (per_Cron p \<noteq> [] \<longrightarrow> (\<exists>st. map_of (cr_jobs (snd (addPeriodic ca p c))) = (map_of (cr_jobs c))(per_Name p \<mapsto> st)
         \<and> js_cronStr st = per_Cron p))"
proof (cases "map_of (cr_jobs c) (per_Name p)")
  case None
  then show ?thesis using assms addJob_jobs [of ca "per_Name p" "per_Cron p" c] by (auto simp: addPeriodic_def)
next
  case (Some job)
  obtain e c' where rm: "removeJob ca (per_Name p) c = (e, c')" by fastforce
  then have "e = None" "map_of (cr_jobs c') = (map_of (cr_jobs c))(per_Name p := None)"
    using Some removeJob_ok [of ca "per_Name p" c] removeJob_jobs [of ca "per_Name p" c] by simp_all
  then have "\<exists>st. map_of (cr_jobs (snd (addJob ca (per_Name p) (per_Cron p) c'))) = (map_of (cr_jobs c))(per_Name p \<mapsto> st)
      \<and> js_cronStr st = per_Cron p" if "js_cronStr job \<noteq> per_Cron p" "per_Cron p \<noteq> []"
    using assms Some rm addJob_jobs [of ca "per_Name p" "per_Cron p" c'] that by (simp add: addPeriodic_def)
  moreover have "map_of (cr_jobs c) = (map_of (cr_jobs c))(per_Name p \<mapsto> job)" using Some by (simp add: map_upd_triv)
  ultimately show ?thesis
    using Some rm \<open>e = None\<close> by (cases "js_cronStr job = per_Cron p") (auto simp: addPeriodic_def)
qed

lemma add_all_inv: "cron_agent_ok ca \<Longrightarrow> cron_inv ca c \<Longrightarrow> cron_inv ca (snd (add_all_periodics ca ps c))"
proof (induction ps arbitrary: c)
  case (Cons p ps)
  then show ?case using addPeriodic_inv [OF Cons.prems, of p] by (auto split: prod.splits option.splits)
qed simp

lemma remove_all_inv: "cron_agent_ok ca \<Longrightarrow> cron_inv ca c \<Longrightarrow> cron_inv ca (snd (remove_all ca names errs c))"
proof (induction names arbitrary: errs c)
  case (Cons name names)
  then show ?case using removeJob_inv [OF Cons.prems, of name] by (auto split: prod.splits)
qed simp

lemma SyncConfig_inv: "cron_agent_ok ca \<Longrightarrow> cron_inv ca c \<Longrightarrow> cron_inv ca (snd (SyncConfig ca ps c))"
proof -
  assume ok: "cron_agent_ok ca" and inv: "cron_inv ca c"
  obtain e c1 where add: "add_all_periodics ca ps c = (e, c1)" by fastforce
  have "cron_inv ca c1" using add_all_inv [OF ok inv, of ps] add by simp
  then show ?thesis
    using add remove_all_inv [OF ok, of c1] by (simp add: SyncConfig_def case_prod_unfold split: option.splits)
qed

lemma QueuedJobs_inv: "cron_inv ca c \<Longrightarrow> cron_inv ca (snd (QueuedJobs iter c))"
proof -
  assume inv: "cron_inv ca c"
  have jobs: "map_of (map (\<lambda>(k, v). (k, v\<lparr>js_triggered := False\<rparr>)) xs) k =
      map_option (\<lambda>v. v\<lparr>js_triggered := False\<rparr>) (map_of xs k)" for xs :: "(string \<times> jobStatus) list" and k
    by (induction xs) auto
  have "map fst (map (\<lambda>(k, v). (k, v\<lparr>js_triggered := False\<rparr>)) (cr_jobs c)) = map fst (cr_jobs c)"
    by (simp add: comp_def case_prod_unfold)
  then show ?thesis
    using cron_invD [OF inv] unfolding cron_inv_def QueuedJobs_def snd_conv
    by (simp add: jobs del: map_map) fastforce
qed

lemma cron_fire_inv: "cron_inv ca c \<Longrightarrow> cron_fire name c = Some c' \<Longrightarrow> cron_inv ca c'"
proof -
  assume inv: "cron_inv ca c" and fire: "cron_fire name c = Some c'"
  obtain job where job: "map_of (cr_jobs c) name = Some job"
    and c': "c' = c\<lparr>cr_jobs := AList.update name (job\<lparr>js_triggered := True\<rparr>) (cr_jobs c)\<rparr>"
    using fire by (auto simp: cron_fire_def split: option.splits)
  have "distinct (map fst (cr_jobs c'))" using cron_invD(1) [OF inv] by (simp add: c' distinct_update)
  moreover have "ca_Entries ca (cr_cronAgent c') (js_entryID st) = Some (cron_spec (js_cronStr st), f)"
    if "map_of (cr_jobs c') f = Some st" for f st
    using that job cron_invD(2) [OF inv, of f] by (auto simp: c' update_conv' split: if_splits)
  moreover have "\<exists>st. map_of (cr_jobs c') f = Some st \<and> js_entryID st = i"
    if "ca_Entries ca (cr_cronAgent c') i = Some (spec, f)" for i spec f
    using that job cron_invD(3) [OF inv, of i spec f] by (auto simp: c' update_conv')
  ultimately show ?thesis unfolding cron_inv_def by blast
qed

text \<open>The states a cron can be in.\<close>

inductive cron_reach :: "'a cron_agent \<Rightarrow> 'a \<Rightarrow> 'a Cron \<Rightarrow> bool" for ca agent where
  reach_new: "cron_reach ca agent (New_Cron agent)"
| reach_sync: "cron_reach ca agent c \<Longrightarrow> cron_reach ca agent (snd (SyncConfig ca ps c))"
| reach_queued: "cron_reach ca agent c \<Longrightarrow> cron_reach ca agent (snd (QueuedJobs iter c))"
| reach_fire: "cron_reach ca agent c \<Longrightarrow> cron_fire name c = Some c' \<Longrightarrow> cron_reach ca agent c'"

lemma cron_reach_inv:
  assumes "cron_reach ca agent c" and "cron_agent_ok ca" and "ca_Entries ca agent = Map.empty"
  shows "cron_inv ca c"
  using assms(1)
proof induction
  case reach_new
  show ?case using assms(3) by (simp add: New_Cron_def cron_inv_def)
qed (use assms(2) SyncConfig_inv QueuedJobs_inv cron_fire_inv in blast)+

lemma add_all_jobs:
  assumes "fst (add_all_periodics ca ps c) = None" and "distinct (map per_Name ps)"
  shows "map_of (cr_jobs (snd (add_all_periodics ca ps c))) k = map_of (cr_jobs c) k
      \<and> (\<forall>p \<in> set ps. per_Name p = k \<longrightarrow> per_Cron p = [])
    \<or> (\<exists>p \<in> set ps. per_Name p = k \<and> per_Cron p \<noteq> [] \<and>
         (\<exists>st. map_of (cr_jobs (snd (add_all_periodics ca ps c))) k = Some st \<and> js_cronStr st = per_Cron p))"
  using assms
proof (induction ps arbitrary: c)
  case (Cons p ps)
  obtain c1 where add: "addPeriodic ca p c = (None, c1)" "fst (add_all_periodics ca ps c1) = None"
    using Cons.prems(1) by (auto split: prod.splits option.splits)
  note IH = Cons.IH [OF add(2)]
  have jobs: "per_Cron p = [] \<longrightarrow> cr_jobs c1 = cr_jobs c"
    "per_Cron p \<noteq> [] \<longrightarrow> (\<exists>st. map_of (cr_jobs c1) = (map_of (cr_jobs c))(per_Name p \<mapsto> st) \<and> js_cronStr st = per_Cron p)"
    using addPeriodic_jobs [of ca p c] add(1) by simp_all
  have step: "snd (add_all_periodics ca (p # ps) c) = snd (add_all_periodics ca ps c1)" using add(1) by simp
  have d: "distinct (map per_Name ps)" "\<forall>q \<in> set ps. per_Name q \<noteq> per_Name p" using Cons.prems(2) by (auto simp: image_iff)
  show ?case
    unfolding step using IH [OF d(1)] jobs d(2) by (cases "per_Name p = k"; cases "per_Cron p = []") auto
qed simp

lemma remove_all_jobs:
  assumes "distinct names" and "\<forall>n \<in> set names. map_of (cr_jobs c) n \<noteq> None"
  shows "fst (remove_all ca names errs c) = errs \<and>
    map_of (cr_jobs (snd (remove_all ca names errs c))) = (\<lambda>k. if k \<in> set names then None else map_of (cr_jobs c) k)"
  using assms
proof (induction names arbitrary: errs c)
  case (Cons n names)
  obtain e c1 where rm: "removeJob ca n c = (e, c1)" by fastforce
  have c1: "e = None" "map_of (cr_jobs c1) = (map_of (cr_jobs c))(n := None)"
    using removeJob_ok [of ca n c] removeJob_jobs [of ca n c] rm Cons.prems(2) by simp_all
  have "\<forall>m \<in> set names. map_of (cr_jobs c1) m \<noteq> None" using Cons.prems c1(2) by auto
  from Cons.IH [OF _ this, of errs] Cons.prems(1) show ?case using rm c1 by (auto simp: fun_eq_iff)
qed simp

lemma SyncConfig_jobs:
  assumes "fst (SyncConfig ca ps c) = None" and "distinct (map per_Name ps)"
  shows "(\<forall>p \<in> set ps. per_Cron p \<noteq> [] \<longrightarrow>
       (\<exists>st. map_of (cr_jobs (snd (SyncConfig ca ps c))) (per_Name p) = Some st \<and> js_cronStr st = per_Cron p))
    \<and> dom (map_of (cr_jobs (snd (SyncConfig ca ps c)))) \<subseteq> per_Name ` set ps"
proof -
  obtain c1 where add: "add_all_periodics ca ps c = (None, c1)"
    using assms(1) by (auto simp: SyncConfig_def split: prod.splits option.splits)
  let ?gone = "set_list (filter (\<lambda>k. k \<notin> per_Name ` set ps) (map fst (cr_jobs c1)))"
  have gone: "\<forall>n \<in> set ?gone. map_of (cr_jobs c1) n \<noteq> None"
    by (auto simp: map_of_eq_None_iff)
  note rm = remove_all_jobs [of ?gone c1 ca "[]", OF distinct_set_list gone]
  have jobs: "map_of (cr_jobs (snd (SyncConfig ca ps c))) = (\<lambda>k. if k \<in> set ?gone then None else map_of (cr_jobs c1) k)"
    using rm by (simp add: SyncConfig_def add case_prod_unfold)
  have "dom (map_of (cr_jobs (snd (SyncConfig ca ps c)))) \<subseteq> per_Name ` set ps"
    unfolding jobs by (auto split: if_splits) (metis map_of_eq_None_iff option.distinct(1))
  moreover have "\<exists>st. map_of (cr_jobs c1) (per_Name p) = Some st \<and> js_cronStr st = per_Cron p"
    if "p \<in> set ps" "per_Cron p \<noteq> []" for p
  proof -
    have "q = p" if "q \<in> set ps" "per_Name q = per_Name p" for q
      using assms(2) that \<open>p \<in> set ps\<close> by (auto simp: distinct_map dest: inj_onD)
    then show ?thesis using add_all_jobs [of ca ps c "per_Name p"] add assms(2) that by fastforce
  qed
  ultimately show ?thesis unfolding jobs by auto
qed

text \<open>
  C21: A job that fires after it was removed.  The function of an entry looks its job up without a check.  When it
  starts before and runs after a change of the configuration that removes the job, it panics.
\<close>
theorem cron_removed_panics:
  assumes "SyncConfig ca ps c = (None, c')" and "distinct (map per_Name ps)" and "name \<notin> per_Name ` set ps"
  shows "cron_fire name c' = None"
proof -
  have "name \<notin> dom (map_of (cr_jobs c'))" using SyncConfig_jobs [of ca ps c] assms by auto
  then show ?thesis by (simp add: cron_fire_def domIff)
qed

text \<open>A job that fired is queued once.\<close>

lemma queued_once:
  assumes "cron_fire name c = Some c'" and "range_order iter"
  shows "name \<in> set (fst (QueuedJobs iter c')) \<and> fst (QueuedJobs iter (snd (QueuedJobs iter c'))) = []"
proof -
  obtain job where c': "cr_jobs c' = AList.update name (job\<lparr>js_triggered := True\<rparr>) (cr_jobs c)"
    using assms(1) by (auto simp: cron_fire_def split: option.splits)
  have "map_of (cr_jobs c') name = Some (job\<lparr>js_triggered := True\<rparr>)" by (simp add: c' update_conv')
  then have "(name, job\<lparr>js_triggered := True\<rparr>) \<in> set (cr_jobs c')" by (rule map_of_SomeD)
  then have "name \<in> set (fst (QueuedJobs iter c'))"
    using assms(2) by (force simp: QueuedJobs_def)
  moreover have "fst (QueuedJobs iter (snd (QueuedJobs iter c'))) = []"
    using assms(2) by (auto simp: QueuedJobs_def filter_empty_conv)
  ultimately show ?thesis ..
qed

subsection \<open>The latest jobs\<close>

abbreviation run_of :: "string \<Rightarrow> ProwJob \<Rightarrow> bool" where
  "run_of name pj \<equiv> pj_Type pj = PeriodicJob \<and> pj_Job pj = name"

text \<open>The latest job is the first of those with the latest start.\<close>

definition first_latest :: "string \<Rightarrow> ProwJob list \<Rightarrow> ProwJob option \<Rightarrow> bool" where
  "first_latest name pjs r \<longleftrightarrow>
     (case r of
        None \<Rightarrow> \<forall>j \<in> set pjs. run_of name j \<longrightarrow> pj_StartTime j \<le> 0
      | Some l \<Rightarrow> 0 < pj_StartTime l \<and> run_of name l \<and> (\<exists>us vs. pjs = us @ l # vs
          \<and> (\<forall>j \<in> set us. run_of name j \<longrightarrow> pj_StartTime j < pj_StartTime l)
          \<and> (\<forall>j \<in> set vs. run_of name j \<longrightarrow> pj_StartTime j \<le> pj_StartTime l)))"

lemma first_latestI:
  assumes "pjs = us @ l # vs" and "0 < pj_StartTime l" and "run_of name l"
    and "\<forall>j \<in> set us. run_of name j \<longrightarrow> pj_StartTime j < pj_StartTime l"
    and "\<forall>j \<in> set vs. run_of name j \<longrightarrow> pj_StartTime j \<le> pj_StartTime l"
  shows "first_latest name pjs (Some l)"
  unfolding first_latest_def option.case using assms by blast

lemma latest_loop_append: "latest_loop t (xs @ ys) m = latest_loop t ys (latest_loop t xs m)"
  by (induction xs arbitrary: m) (auto simp: Let_def)

lemma latest_is_first: "first_latest name pjs (GetLatestProwJobs pjs PeriodicJob name)"
proof (induction pjs rule: rev_induct)
  case Nil
  show ?case by (simp add: GetLatestProwJobs_def first_latest_def)
next
  case (snoc j pjs)
  let ?m = "GetLatestProwJobs pjs PeriodicJob"
  have step: "GetLatestProwJobs (pjs @ [j]) PeriodicJob name =
      (if run_of name j \<and> (case ?m name of None \<Rightarrow> 0 | Some l \<Rightarrow> pj_StartTime l) < pj_StartTime j then Some j else ?m name)"
    by (auto simp: GetLatestProwJobs_def latest_loop_append Let_def)
  show ?case
  proof (cases "?m name")
    case None
    show ?thesis
    proof (cases "run_of name j \<and> 0 < pj_StartTime j")
      case True
      then have "\<forall>k \<in> set pjs. run_of name k \<longrightarrow> pj_StartTime k < pj_StartTime j"
        using snoc None by (auto simp: first_latest_def)
      then show ?thesis using True None unfolding step by (auto intro: first_latestI [of _ pjs _ "[]"])
    next
      case False
      then show ?thesis using snoc None unfolding step by (auto simp: first_latest_def)
    qed
  next
    case (Some l)
    then obtain us vs where l: "0 < pj_StartTime l" "run_of name l" "pjs = us @ l # vs"
        "\<forall>j \<in> set us. run_of name j \<longrightarrow> pj_StartTime j < pj_StartTime l"
        "\<forall>j \<in> set vs. run_of name j \<longrightarrow> pj_StartTime j \<le> pj_StartTime l"
      using snoc by (auto simp: first_latest_def)
    show ?thesis
    proof (cases "run_of name j \<and> pj_StartTime l < pj_StartTime j")
      case True
      then have "\<forall>k \<in> set pjs. run_of name k \<longrightarrow> pj_StartTime k < pj_StartTime j" using l by fastforce
      then show ?thesis
        using True l(1) Some unfolding step by (auto intro: first_latestI [of _ pjs _ "[]"])
    next
      case False
      then have "pjs @ [j] = us @ l # (vs @ [j])" "\<forall>k \<in> set (vs @ [j]). run_of name k \<longrightarrow> pj_StartTime k \<le> pj_StartTime l"
        using l by auto
      then have "first_latest name (pjs @ [j]) (Some l)" using l(1,2,4) by (intro first_latestI)
      then show ?thesis using False Some unfolding step by auto
    qed
  qed
qed

lemma first_latest_unique:
  assumes "first_latest name pjs r" and "first_latest name pjs r'" shows "r = r'"
proof (cases r)
  case None
  then show ?thesis using assms by (cases r') (auto simp: first_latest_def)
next
  case (Some l)
  then obtain us vs where l: "0 < pj_StartTime l" "run_of name l" "pjs = us @ l # vs"
      "\<forall>j \<in> set us. run_of name j \<longrightarrow> pj_StartTime j < pj_StartTime l"
      "\<forall>j \<in> set vs. run_of name j \<longrightarrow> pj_StartTime j \<le> pj_StartTime l"
    using assms(1) by (auto simp: first_latest_def)
  have "r' \<noteq> None"
  proof
    assume "r' = None"
    then have "\<forall>j \<in> set pjs. run_of name j \<longrightarrow> pj_StartTime j \<le> 0" using assms(2) by (simp add: first_latest_def)
    then show False using l(1-3) by auto
  qed
  then obtain l' us' vs' where l': "r' = Some l'" "run_of name l'" "pjs = us' @ l' # vs'"
      "\<forall>j \<in> set us'. run_of name j \<longrightarrow> pj_StartTime j < pj_StartTime l'"
      "\<forall>j \<in> set vs'. run_of name j \<longrightarrow> pj_StartTime j \<le> pj_StartTime l'"
    using assms(2) by (auto simp: first_latest_def)
  have "l \<notin> set us'" "l' \<notin> set us"
  proof -
    have all: "pj_StartTime j \<le> pj_StartTime l \<and> pj_StartTime j \<le> pj_StartTime l'" if "j \<in> set pjs" "run_of name j" for j
      using that l l' by (metis Un_iff order.strict_implies_order order_refl set_append set_ConsD)
    have "l \<in> set pjs" "l' \<in> set pjs" unfolding in_set_conv_decomp using l(3) l'(3) by blast+
    then have "pj_StartTime l = pj_StartTime l'"
      using all [of l] all [of l'] l(2) l'(2) by (simp add: order_antisym)
    then show "l \<notin> set us'" "l' \<notin> set us" using l(2,4) l'(2,4) by auto
  qed
  then have "l = l'"
    using l(3) l'(3) by (auto simp: append_eq_append_conv2 append_eq_Cons_conv Cons_eq_append_conv)
  then show ?thesis using Some l'(1) by simp
qed

lemma first_latest_filter:
  assumes "first_latest name pjs r" and "\<And>l. r = Some l \<Longrightarrow> P l"
  shows "first_latest name (filter P pjs) r"
proof (cases r)
  case None
  then show ?thesis using assms(1) by (auto simp: first_latest_def)
next
  case (Some l)
  then obtain us vs where l: "0 < pj_StartTime l" "run_of name l" "pjs = us @ l # vs"
      "\<forall>j \<in> set us. run_of name j \<longrightarrow> pj_StartTime j < pj_StartTime l"
      "\<forall>j \<in> set vs. run_of name j \<longrightarrow> pj_StartTime j \<le> pj_StartTime l"
    using assms(1) by (auto simp: first_latest_def)
  have "filter P pjs = filter P us @ l # filter P vs" using l(3) assms(2) Some by simp
  moreover have "\<forall>j \<in> set (filter P us). run_of name j \<longrightarrow> pj_StartTime j < pj_StartTime l"
      "\<forall>j \<in> set (filter P vs). run_of name j \<longrightarrow> pj_StartTime j \<le> pj_StartTime l"
    using l(4,5) by auto
  ultimately show ?thesis unfolding Some by (rule first_latestI [OF _ l(1,2)])
qed

subsection \<open>Sinker and horologium\<close>

lemma trigger_periodics_cong:
  assumes "\<forall>p \<in> set ps. latest (per_Name p) = latest' (per_Name p)"
    and "\<forall>p. should_trigger env latest queued p = should_trigger env' latest queued p"
    and "ho_valid_label env = ho_valid_label env'" "ho_uuid env = ho_uuid env'" "ho_now env = ho_now env'" "ho_Create env = ho_Create env'"
  shows "trigger_periodics env latest queued ps errs created = trigger_periodics env' latest' queued ps errs created"
  using assms
proof (induction ps arbitrary: errs created)
  case (Cons p ps)
  have "should_trigger env' latest queued p = should_trigger env' latest' queued p"
    using Cons.prems(1) by (simp add: should_trigger_def)
  then show ?case using Cons by (simp add: Let_def)
qed simp

text \<open>
  C19: Sinker does not disturb horologium.  After a clean with the same periodics, the latest run of every configured
  periodic is still there and is still the latest, so that the next sync of horologium
  creates the same jobs as without the clean.
\<close>
theorem sinker_keeps_schedule:
  assumes "sk_ListJobs senv = Inr pjs" and "sk_Periodics senv = ho_Periodics env"
    and "left = filter (\<lambda>pj. pj \<notin> set (sk_jobs (clean senv))) pjs"
  shows "(\<forall>p \<in> set (ho_Periodics env). GetLatestProwJobs left PeriodicJob (per_Name p) = GetLatestProwJobs pjs PeriodicJob (per_Name p))
    \<and> horologium_sync (env\<lparr>ho_List := Inr left\<rparr>) cr = horologium_sync (env\<lparr>ho_List := Inr pjs\<rparr>) cr"
proof -
  let ?latest = "GetLatestProwJobs pjs PeriodicJob"
  have same: "GetLatestProwJobs left PeriodicJob (per_Name p) = ?latest (per_Name p)" if p: "p \<in> set (ho_Periodics env)" for p
  proof -
    have "l \<notin> set (sk_jobs (clean senv))" if l: "?latest (per_Name p) = Some l" for l
    proof -
      have "run_of (per_Name p) l" using latest_is_first [of "per_Name p" pjs] l by (simp add: first_latest_def)
      then have "kept_periodic senv ?latest l" using l p assms(2) by (simp add: kept_periodic_def)
      then show ?thesis using clean_state(3) [OF assms(1) refl] \<open>run_of (per_Name p) l\<close> by (simp add: finished_def)
    qed
    then have "first_latest (per_Name p) left (?latest (per_Name p))"
      unfolding assms(3) by (intro first_latest_filter [OF latest_is_first])
    then show ?thesis using first_latest_unique [OF latest_is_first] by blast
  qed
  then have "trigger_periodics (env\<lparr>ho_List := Inr left\<rparr>) (GetLatestProwJobs left PeriodicJob) queued (ho_Periodics env) [] []
      = trigger_periodics (env\<lparr>ho_List := Inr pjs\<rparr>) ?latest queued (ho_Periodics env) [] []" for queued
    by (intro trigger_periodics_cong) (simp_all add: should_trigger_def split: option.splits)
  then show ?thesis using same by (simp add: horologium_sync_def case_prod_unfold Let_def)
qed

subsection \<open>Samples\<close>

text \<open>A library that numbers its entries.\<close>

definition sample_agent :: "(nat \<times> (int \<rightharpoonup> string \<times> string)) cron_agent" where
  "sample_agent =
     \<lparr>ca_AddFunc = (\<lambda>(n, e) spec f. if e (int n) = None then (Inr (int n), (n + 1, e(int n \<mapsto> (spec, f)))) else (Inl ''full'', (n, e))),
      ca_Remove = (\<lambda>(n, e) i. (n, e(i := None))), ca_Entries = snd\<rparr>"

lemma sample_agent_ok: "cron_agent_ok sample_agent"
  by (auto simp: cron_agent_ok_def sample_agent_def split: prod.splits)

definition sample_periodic :: "string \<Rightarrow> Periodic" where
  "sample_periodic cron = \<lparr>per_JobBase = sample_JobBase ''nightly'', per_Interval = [], per_Cron = cron, per_Tags = [], per_interval = 5\<rparr>"

lemma sample_periodic_name [simp]: "per_Name (sample_periodic cron) = ''nightly''" "per_Cron (sample_periodic cron) = cron"
  by (simp_all add: sample_periodic_def sample_JobBase_def)

lemma sample_sync_config:
  "fst (SyncConfig sample_agent [sample_periodic ''@daily''] (New_Cron (0, Map.empty))) = None"
  by (simp add: SyncConfig_def addPeriodic_def addJob_def New_Cron_def sample_agent_def)


theorem cron_removed_panics_witness:
  "\<exists>c'. SyncConfig sample_agent [] (snd (SyncConfig sample_agent [sample_periodic ''@daily''] (New_Cron (0, Map.empty)))) = (None, c')
     \<and> cron_fire ''nightly'' c' = None"
proof -
  let ?c = "snd (SyncConfig sample_agent [sample_periodic ''@daily''] (New_Cron (0, Map.empty)))"
  have "fst (SyncConfig sample_agent [] ?c) = None"
    using remove_all_jobs [of "set_list (map fst (cr_jobs ?c))" ?c sample_agent "[]"]
    by (simp add: SyncConfig_def [of sample_agent "[]"] case_prod_unfold map_of_eq_None_iff)
  then obtain c' where run: "SyncConfig sample_agent [] ?c = (None, c')" by (metis prod.collapse)
  have "cron_fire ''nightly'' c' = None" by (rule cron_removed_panics [OF run]) simp_all
  then show ?thesis using run by blast
qed

definition sample_sinker :: sinker_env where
  "sample_sinker = \<lparr>sk_ListJobs = Inr [abort_job 9 (sample_started ''a'' 2), abort_job 9 (sample_started ''b'' 5)],
     sk_podClients = [], sk_MaxProwJobAge = 1, sk_MaxPodAge = 1, sk_Periodics = [sample_periodic []], sk_now = 20\<rparr>"

definition sample_horologium :: "(nat \<times> (int \<rightharpoonup> string \<times> string)) horologium_env" where
  "sample_horologium = \<lparr>ho_List = Inl ''down'', ho_Create = (\<lambda>_. None), ho_Periodics = [sample_periodic []],
     ho_agent = sample_agent, ho_iter = rev, ho_valid_label = (\<lambda>_. True), ho_uuid = (\<lambda>_. ''id''), ho_now = 20\<rparr>"

theorem sinker_keeps_schedule_witness:
  "GetLatestProwJobs (filter (\<lambda>pj. pj \<notin> set (sk_jobs (clean sample_sinker)))
       [abort_job 9 (sample_started ''a'' 2), abort_job 9 (sample_started ''b'' 5)]) PeriodicJob ''nightly''
     = GetLatestProwJobs [abort_job 9 (sample_started ''a'' 2), abort_job 9 (sample_started ''b'' 5)] PeriodicJob ''nightly''"
proof -
  have "sk_ListJobs sample_sinker = Inr [abort_job 9 (sample_started ''a'' 2), abort_job 9 (sample_started ''b'' 5)]"
    "sk_Periodics sample_sinker = ho_Periodics sample_horologium"
    by (simp_all add: sample_sinker_def sample_horologium_def)
  from sinker_keeps_schedule [OF this refl] have
    "\<forall>p \<in> set (ho_Periodics sample_horologium). GetLatestProwJobs (filter (\<lambda>pj. pj \<notin> set (sk_jobs (clean sample_sinker)))
       [abort_job 9 (sample_started ''a'' 2), abort_job 9 (sample_started ''b'' 5)]) PeriodicJob (per_Name p)
     = GetLatestProwJobs [abort_job 9 (sample_started ''a'' 2), abort_job 9 (sample_started ''b'' 5)] PeriodicJob (per_Name p)"
    by blast
  moreover have "sample_periodic [] \<in> set (ho_Periodics sample_horologium)" by (simp add: sample_horologium_def)
  ultimately show ?thesis using sample_periodic_name(1) by metis
qed

end
