(* ===== verification/Go_Paths.thy ===== *)
theory Go_Paths
  imports Prelude
begin

text \<open>
  The functions of \<open>path\<close> and \<open>path/filepath\<close> of Go's standard library (on Unix) that the
  program uses: \<open>Clean\<close>, \<open>Join\<close>, \<open>Dir\<close> and \<open>Rel\<close>, and that going up a
  directory makes a path shorter, so that loops over the parents of a path end.
\<close>

fun clean_elements :: "bool \<Rightarrow> string list \<Rightarrow> string list \<Rightarrow> string list" where
  "clean_elements rooted [] stack = rev stack"
| "clean_elements rooted (e # es) stack =
     (if e = [] \<or> e = ''.'' then clean_elements rooted es stack
      else if e = ''..'' then
        (case stack of
           [] \<Rightarrow> clean_elements rooted es (if rooted then [] else [e])
         | prev # rest \<Rightarrow> clean_elements rooted es (if prev = ''..'' then e # stack else rest))
      else clean_elements rooted es (e # stack))"

definition path_Clean :: "string \<Rightarrow> string" where
  "path_Clean p =
     (if p = [] then ''.''
      else
        (let rooted = (hd p = CHR ''/''); s = join ''/'' (clean_elements rooted (split_on (CHR ''/'') p) [])
         in if rooted then ''/'' @ s else if s = [] then ''.'' else s))"

definition path_Join :: "string list \<Rightarrow> string" where
  "path_Join elem =
     (let es = filter (\<lambda>e. e \<noteq> []) elem in if es = [] then [] else path_Clean (join ''/'' es))"

text \<open>\<open>Dir\<close> cleans what precedes the last slash, the slash included.\<close>

definition upto_slash :: "string \<Rightarrow> string" where
  "upto_slash p = rev (dropWhile (\<lambda>c. c \<noteq> CHR ''/'') (rev p))"

definition path_Dir :: "string \<Rightarrow> string" where
  "path_Dir p = path_Clean (upto_slash p)"

text \<open>
  \<open>Rel\<close> compares the elements of the clean paths; a base that goes further up than the target
  cannot be left without knowing the current directory.
\<close>

definition rel_parts :: "string \<Rightarrow> string list" where
  "rel_parts p = (if p = [] then [] else if p = ''/'' then [[]] else split_on (CHR ''/'') p)"

fun rel_elements :: "string list \<Rightarrow> string list \<Rightarrow> string list option" where
  "rel_elements [] ts = Some ts"
| "rel_elements (b # bs) [] = (if b = ''..'' then None else Some (map (\<lambda>_. ''..'') (b # bs)))"
| "rel_elements (b # bs) (t # ts) =
     (if b = t then rel_elements bs ts
      else if b = ''..'' then None else Some (map (\<lambda>_. ''..'') (b # bs) @ t # ts))"

definition path_Rel :: "string \<Rightarrow> string \<Rightarrow> string result" where
  "path_Rel basepath targpath =
     (let base = path_Clean basepath; targ = path_Clean targpath;
          base' = (if base = ''.'' then [] else base);
          fail = Inl (''Rel: can'' @ [CHR 0x27] @ ''t make '' @ targpath @ '' relative to '' @ basepath)
      in if targ = base then Inr ''.''
         else if has_prefix base' ''/'' \<noteq> has_prefix targ ''/'' then fail
         else case rel_elements (rel_parts base') (rel_parts targ) of
           None \<Rightarrow> fail
         | Some es \<Rightarrow> Inr (join ''/'' es))"

subsection \<open>Parents are shorter\<close>

abbreviation weight :: "string list \<Rightarrow> nat" where
  "weight es \<equiv> (\<Sum>e \<leftarrow> es. Suc (length e))"

lemma join_weight: "es \<noteq> [] \<Longrightarrow> Suc (length (join [c] es)) = weight es"
  by (induction "[c]" es rule: join.induct) auto

lemma split_weight: "weight (split_on c s) = Suc (length s)"
  using join_weight [OF split_on_ne, of c c s] by (simp add: join_split_on)

lemma clean_weight: "weight (clean_elements rooted es stack) \<le> weight es + weight stack"
proof (induction rooted es stack rule: clean_elements.induct)
  case (2 rooted e es stack)
  then show ?case by (cases stack) (auto split: if_splits)
qed (simp flip: rev_map)

lemma clean_weight_slash:
  assumes "s \<noteq> []" "hd s = CHR ''/''"
  shows "weight (clean_elements True (split_on (CHR ''/'') s) []) \<le> length s"
proof -
  obtain t where s: "s = CHR ''/'' # t" using assms by (cases s) auto
  then show ?thesis
    using clean_weight [of True "split_on (CHR ''/'') t" "[]"] split_weight [of "CHR ''/''" t] by simp
qed

lemma split_on_snoc: "split_on c (q @ [c]) = split_on c q @ [[]]"
  by (induction q) (auto split: list.splits)

lemma clean_elements_snoc: "clean_elements rooted (es @ [[]]) stack = clean_elements rooted es stack"
  by (induction rooted es stack rule: clean_elements.induct) (auto split: list.splits)

text \<open>A directory without its trailing slash; the root is empty.\<close>

definition trim_suffix :: "string \<Rightarrow> string \<Rightarrow> string" where
  "trim_suffix s p = (if has_prefix (rev s) (rev p) then take (length s - length p) s else s)"

lemma trim_suffix_length: "length (trim_suffix s p) \<le> length s"
  by (simp add: trim_suffix_def)

definition canonicalize :: "string \<Rightarrow> string" where
  "canonicalize path = (if path = ''.'' then [] else trim_suffix path ''/'')"

lemma canonicalize_length: "length (canonicalize p) \<le> length p"
  by (simp add: canonicalize_def trim_suffix_length)

lemma upto_slash_cases:
  obtains "upto_slash d = []" | q t where "d = q @ CHR ''/'' # t" "upto_slash d = q @ ''/''"
proof (cases "upto_slash d = []")
  case False
  define r where "r = dropWhile (\<lambda>c. c \<noteq> CHR ''/'') (rev d)"
  have "r \<noteq> []" using False by (simp add: upto_slash_def r_def)
  then obtain r' where r: "r = CHR ''/'' # r'"
    unfolding r_def using hd_dropWhile [of "\<lambda>c. c \<noteq> CHR ''/''" "rev d"] by (cases "dropWhile (\<lambda>c. c \<noteq> CHR ''/'') (rev d)") auto
  have "rev d = takeWhile (\<lambda>c. c \<noteq> CHR ''/'') (rev d) @ CHR ''/'' # r'"
    using takeWhile_dropWhile_id [of "\<lambda>c. c \<noteq> CHR ''/''" "rev d"] r unfolding r_def by metis
  then have "d = rev r' @ CHR ''/'' # rev (takeWhile (\<lambda>c. c \<noteq> CHR ''/'') (rev d))"
    by (metis append.assoc append_Cons append_Nil rev.simps(2) rev_append rev_rev_ident)
  moreover have "upto_slash d = rev r' @ ''/''" using r by (simp add: upto_slash_def r_def)
  ultimately show ?thesis using that(2) by blast
qed (use that in blast)

lemma clean_dir_length: "length (canonicalize (path_Clean (q @ ''/''))) \<le> length q"
proof -
  let ?rooted = "hd (q @ ''/'') = CHR ''/''"
  define es where "es = clean_elements ?rooted (split_on (CHR ''/'') q) []"
  have clean: "path_Clean (q @ ''/'') =
      (if ?rooted then ''/'' @ join ''/'' es else if join ''/'' es = [] then ''.'' else join ''/'' es)"
    by (simp add: path_Clean_def Let_def es_def split_on_snoc clean_elements_snoc)
  show ?thesis
  proof (cases "es = []")
    case True
    then show ?thesis by (simp add: clean canonicalize_def trim_suffix_def)
  next
    case False
    have w: "Suc (length (join ''/'' es)) = weight es" by (rule join_weight [OF False])
    show ?thesis
    proof (cases "?rooted \<and> q \<noteq> []")
      case True
      then have "q \<noteq> []" "hd q = CHR ''/''" by (auto simp: hd_append split: if_splits)
      then have "weight es \<le> length q" using clean_weight_slash [of q] by (simp add: es_def)
      then show ?thesis using w True canonicalize_length [of "''/'' @ join ''/'' es"] by (simp add: clean)
    next
      case outer: False
      have "q = [] \<Longrightarrow> es = []" by (simp add: es_def)
      then have "\<not> ?rooted" using False outer by auto
      moreover have "length (join ''/'' es) \<le> length q"
        using w clean_weight [of ?rooted "split_on (CHR ''/'') q" "[]"] split_weight [of "CHR ''/''" q]
        by (simp add: es_def)
      ultimately show ?thesis
        using trim_suffix_length [of "join ''/'' es" "''/''"] by (auto simp: clean canonicalize_def)
    qed
  qed
qed

theorem parent_shorter:
  assumes "d \<noteq> []" shows "length (canonicalize (path_Dir d)) < length d"
proof (cases d rule: upto_slash_cases)
  case 1
  then show ?thesis using assms by (simp add: path_Dir_def path_Clean_def canonicalize_def)
next
  case (2 q t)
  then show ?thesis using clean_dir_length [of q] by (simp add: path_Dir_def)
qed

subsection \<open>Plain paths\<close>

text \<open>The paths that git lists: no empty elements and no dots.\<close>

definition plain_element :: "string \<Rightarrow> bool" where
  "plain_element e \<longleftrightarrow> e \<noteq> [] \<and> e \<noteq> ''.'' \<and> e \<noteq> ''..'' \<and> CHR ''/'' \<notin> set e"

definition plain_path :: "string list \<Rightarrow> bool" where
  "plain_path es \<longleftrightarrow> (\<forall>e \<in> set es. plain_element e)"

abbreviation path_of :: "string list \<Rightarrow> string" where
  "path_of es \<equiv> join ''/'' es"

lemma plain_path_simps [simp]:
  "plain_path []" "plain_path (e # es) \<longleftrightarrow> plain_element e \<and> plain_path es" "plain_path (es @ fs) \<longleftrightarrow> plain_path es \<and> plain_path fs"
  by (auto simp: plain_path_def)

lemma plain_element_ends:
  "plain_element e \<Longrightarrow> e \<noteq> [] \<and> hd e \<noteq> CHR ''/'' \<and> last e \<noteq> CHR ''/'' \<and> CHR ''/'' \<notin> set e"
  by (auto simp: plain_element_def dest: hd_in_set last_in_set)

lemma clean_plain_path: "plain_path es \<Longrightarrow> clean_elements rooted es stack = rev stack @ es"
  by (induction es arbitrary: stack) (auto simp: plain_element_def)

lemma split_path: "es \<noteq> [] \<Longrightarrow> plain_path es \<Longrightarrow> split_on (CHR ''/'') (path_of es) = es"
proof (induction "''/''" es rule: join.induct)
  case (2 x)
  then show ?case by (simp add: split_on_fresh plain_element_def)
next
  case (3 x y ys)
  then show ?case by (simp add: split_on_append plain_element_def)
qed simp

lemma path_first: "es \<noteq> [] \<Longrightarrow> plain_path es \<Longrightarrow> path_of es \<noteq> [] \<and> hd (path_of es) \<noteq> CHR ''/''"
  by (induction "''/''" es rule: join.induct) (auto simp: hd_append dest: plain_element_ends)

lemma path_empty [simp]: "plain_path es \<Longrightarrow> path_of es = [] \<longleftrightarrow> es = []"
  using path_first [of es] by auto

lemma path_no_dot: "plain_path es \<Longrightarrow> path_of es \<noteq> ''.'' \<and> path_of es \<noteq> ''..'' \<and> path_of es \<noteq> ''/''"
proof (cases "es = []")
  case False
  assume "plain_path es"
  with False have "split_on (CHR ''/'') (path_of es) = es" by (rule split_path)
  then show ?thesis using \<open>plain_path es\<close> False by (auto simp: plain_element_def)
qed simp

lemma Clean_path: "plain_path es \<Longrightarrow> path_Clean (path_of es) = (if es = [] then ''.'' else path_of es)"
  using path_first [of es] by (auto simp: path_Clean_def Let_def split_path clean_plain_path)

lemma Clean_path_slash:
  assumes "plain_path es" "es \<noteq> []" shows "path_Clean (path_of es @ ''/'') = path_of es"
  using path_first [OF assms(2,1)] assms
  by (simp add: path_Clean_def Let_def split_on_snoc clean_elements_snoc split_path clean_plain_path hd_append)

lemma path_snoc: "path_of (es @ [e]) = (if es = [] then e else path_of es @ ''/'' @ e)"
  by (induction "''/''" es rule: join.induct) auto

lemma path_append: "as \<noteq> [] \<Longrightarrow> bs \<noteq> [] \<Longrightarrow> path_of (as @ bs) = path_of as @ ''/'' @ path_of bs"
  by (induction "''/''" as rule: join.induct) (cases bs; auto)+

lemma upto_slash_snoc:
  assumes "CHR ''/'' \<notin> set e" shows "upto_slash (p @ ''/'' @ e) = p @ ''/''"
proof -
  have "dropWhile (\<lambda>c. c \<noteq> CHR ''/'') (rev e @ CHR ''/'' # rev p) = CHR ''/'' # rev p"
    using assms by (subst dropWhile_append2) auto
  then show ?thesis by (simp add: upto_slash_def)
qed

lemma upto_slash_none: "CHR ''/'' \<notin> set e \<Longrightarrow> upto_slash e = []"
  by (auto simp: upto_slash_def)

lemma path_last: "es \<noteq> [] \<Longrightarrow> plain_path es \<Longrightarrow> last (path_of es) \<noteq> CHR ''/''"
  by (induction "''/''" es rule: join.induct) (auto simp: last_append dest: plain_element_ends)

lemma canonicalize_path: "plain_path es \<Longrightarrow> canonicalize (path_of es) = path_of es"
proof (cases "es = []")
  case True
  then show ?thesis by (simp add: canonicalize_def trim_suffix_def)
next
  case False
  assume "plain_path es"
  then have "rev (path_of es) = last (path_of es) # rev (butlast (path_of es))"
    using path_first [OF False] by (metis append_butlast_last_id rev_eq_Cons_iff rev_rev_ident)
  then have "\<not> has_prefix (rev (path_of es)) (rev ''/'')"
    using path_last [OF False \<open>plain_path es\<close>] by (simp only: rev.simps append_Nil has_prefix.simps) simp
  then show ?thesis using path_no_dot [OF \<open>plain_path es\<close>] by (simp add: canonicalize_def trim_suffix_def)
qed

lemma parent_path: "plain_path (es @ [e]) \<Longrightarrow> canonicalize (path_Dir (path_of (es @ [e]))) = path_of es"
proof (cases "es = []")
  case True
  assume "plain_path (es @ [e])"
  then show ?thesis
    using True by (simp add: path_Dir_def upto_slash_none plain_element_def path_Clean_def canonicalize_def)
next
  case False
  assume "plain_path (es @ [e])"
  then show ?thesis
    using False upto_slash_snoc [of e "path_of es"] plain_element_ends [of e]
    by (simp add: path_snoc path_Dir_def Clean_path_slash canonicalize_path)
qed

lemma rel_elements_append: "rel_elements as (as @ bs) = Some bs"
  by (induction as) auto

lemma elements_path: "plain_path es \<Longrightarrow> rel_parts (path_of es) = es"
  using path_no_dot [of es] by (auto simp: rel_parts_def split_path)

lemma no_root: "plain_path es \<Longrightarrow> \<not> has_prefix (path_of es) ''/''"
  using path_first [of es] by (cases "es = []"; cases "path_of es") auto

lemma Rel_path:
  assumes "plain_path (as @ bs)"
  shows "path_Rel (path_of as) (path_of (as @ bs)) = Inr (if bs = [] then ''.'' else path_of bs)"
proof (cases "bs = []")
  case True
  then show ?thesis by (simp add: path_Rel_def Let_def)
next
  case False
  have ne: "as @ bs \<noteq> []" using False by simp
  have t: "path_Clean (path_of (as @ bs)) = path_of (as @ bs)" using assms ne by (simp only: Clean_path if_False)
  have b: "(if path_Clean (path_of as) = ''.'' then [] else path_Clean (path_of as)) = path_of as"
    using assms path_no_dot [of as] by (auto simp: Clean_path)
  have "path_of (as @ bs) \<noteq> path_Clean (path_of as)"
  proof (cases "as = []")
    case True
    then show ?thesis using path_no_dot [OF assms] by (simp add: path_Clean_def)
  next
    case nonempty: False
    then have "path_Clean (path_of as) = path_of as" using assms by (simp add: Clean_path)
    then show ?thesis using path_append [OF nonempty False] by simp
  qed
  then show ?thesis
    using False assms no_root [of as] no_root [OF assms] elements_path [of as] elements_path [OF assms]
    unfolding path_Rel_def Let_def t b by (simp add: rel_elements_append)
qed

end
