(* ===== verification/Gcs_Paths.thy ===== *)
theory Gcs_Paths
  imports Pjutil Go_Paths
begin

text \<open>
  What a job is told and where its results go: the specification and the environment variables of a job,
  \<open>src/pod-utils/downwardapi/jobspec.go\<close>, and the paths in the bucket, \<open>src/pod-utils/gcs/target.go\<close>, with
  \<open>path.Join\<close> of the standard library.  \<open>None\<close> is a panic (no refs, no pulls) or a fatal exit.
\<close>

subsection \<open>The specification of a job\<close>

record JobSpec =
  jsp_Type :: ProwJobType
  jsp_Job :: string
  jsp_BuildID :: string
  jsp_ProwJobID :: string
  jsp_Refs :: "Refs option"
  jsp_ExtraRefs :: "Refs list"
  jsp_agent :: ProwJobAgent

definition NewJobSpec :: "ProwJobSpec \<Rightarrow> string \<Rightarrow> string \<Rightarrow> JobSpec" where
  "NewJobSpec spec buildID prowJobID =
     \<lparr>jsp_Type = spec_Type spec, jsp_Job = spec_Job spec, jsp_BuildID = buildID, jsp_ProwJobID = prowJobID,
      jsp_Refs = spec_Refs spec, jsp_ExtraRefs = spec_ExtraRefs spec, jsp_agent = spec_Agent spec\<rparr>"

definition ResolveSpecFromEnv :: "(string \<Rightarrow> JobSpec result) \<Rightarrow> (string \<rightharpoonup> string) \<Rightarrow> JobSpec result" where
  "ResolveSpecFromEnv unmarshal env =
     (case env ''JOB_SPEC'' of
        None \<Rightarrow> Inl ''$JOB_SPEC unset''
      | Some specEnv \<Rightarrow>
          (case unmarshal specEnv of Inl err \<Rightarrow> Inl (''malformed $JOB_SPEC: '' @ err) | Inr spec \<Rightarrow> Inr spec))"

definition EnvForSpec ::
    "(JobSpec \<Rightarrow> string result) \<Rightarrow> JobSpec \<Rightarrow> ((string \<rightharpoonup> string) \<times> error option) option" where
  "EnvForSpec marshal spec =
     (let env0 = [''JOB_NAME'' \<mapsto> jsp_Job spec, ''BUILD_ID'' \<mapsto> jsp_BuildID spec, ''PROW_JOB_ID'' \<mapsto> jsp_ProwJobID spec,
            ''JOB_TYPE'' \<mapsto> job_type_string (jsp_Type spec)];
          env1 = (if jsp_agent spec = KubernetesAgent then env0(''BUILD_NUMBER'' \<mapsto> jsp_BuildID spec) else env0)
      in case marshal spec of
           Inl err \<Rightarrow> Some (env1, Some (''failed to marshal job spec: '' @ err))
         | Inr raw \<Rightarrow>
             (let env2 = env1(''JOB_SPEC'' \<mapsto> raw)
              in if jsp_Type spec = PeriodicJob then Some (env2, None)
                 else
                   (case jsp_Refs spec of
                      None \<Rightarrow> None
                    | Some refs \<Rightarrow>
                        (let env3 = env2(''REPO_OWNER'' \<mapsto> refs_Org refs, ''REPO_NAME'' \<mapsto> refs_Repo refs,
                               ''PULL_BASE_REF'' \<mapsto> refs_BaseRef refs, ''PULL_BASE_SHA'' \<mapsto> refs_BaseSHA refs,
                               ''PULL_REFS'' \<mapsto> Refs_String refs)
                         in if jsp_Type spec = PostsubmitJob \<or> jsp_Type spec = BatchJob then Some (env3, None)
                            else
                              (case refs_Pulls refs of
                                 [] \<Rightarrow> None
                               | pull # _ \<Rightarrow>
                                   Some (env3(''PULL_NUMBER'' \<mapsto> itoa (pull_Number pull),
                                              ''PULL_PULL_SHA'' \<mapsto> pull_SHA pull), None))))))"

definition EnvForType :: "ProwJobType \<Rightarrow> string list" where
  "EnvForType jobType =
     (let baseEnv = [''JOB_NAME'', ''JOB_SPEC'', ''JOB_TYPE'', ''PROW_JOB_ID'', ''BUILD_ID'', ''BUILD_NUMBER''];
          refsEnv = [''REPO_OWNER'', ''REPO_NAME'', ''PULL_BASE_REF'', ''PULL_BASE_SHA'', ''PULL_REFS''];
          pullEnv = [''PULL_NUMBER'', ''PULL_PULL_SHA'']
      in case jobType of
           PeriodicJob \<Rightarrow> baseEnv
         | PostsubmitJob \<Rightarrow> baseEnv @ refsEnv
         | BatchJob \<Rightarrow> baseEnv @ refsEnv
         | PresubmitJob \<Rightarrow> baseEnv @ refsEnv @ pullEnv)"

definition getRevisionFromRef :: "Refs \<Rightarrow> string" where
  "getRevisionFromRef refs =
     (case refs_Pulls refs of
        pull # _ \<Rightarrow> pull_SHA pull
      | [] \<Rightarrow> if refs_BaseSHA refs \<noteq> [] then refs_BaseSHA refs else refs_BaseRef refs)"

definition MainRefs :: "JobSpec \<Rightarrow> Refs option" where
  "MainRefs s =
     (case jsp_Refs s of
        Some refs \<Rightarrow> Some refs
      | None \<Rightarrow> (case jsp_ExtraRefs s of [] \<Rightarrow> None | refs # _ \<Rightarrow> Some refs))"

definition GetRevisionFromSpec :: "JobSpec \<Rightarrow> string" where
  "GetRevisionFromSpec spec =
     (case jsp_Refs spec of
        Some refs \<Rightarrow> getRevisionFromRef refs
      | None \<Rightarrow> (case jsp_ExtraRefs spec of refs # _ \<Rightarrow> getRevisionFromRef refs | [] \<Rightarrow> []))"

subsection \<open>Paths of results\<close>

definition PRLogs :: string where "PRLogs = ''pr-logs''"
definition NonPRLogs :: string where "NonPRLogs = ''logs''"

type_synonym RepoPathBuilder = "string \<Rightarrow> string \<Rightarrow> string"

text \<open>The segment of the repo and the number of the first pull request.\<close>

definition pull_segments :: "JobSpec \<Rightarrow> RepoPathBuilder \<Rightarrow> (string \<times> string) option" where
  "pull_segments spec pathSegment =
     (case jsp_Refs spec of
        None \<Rightarrow> None
      | Some refs \<Rightarrow>
          (case refs_Pulls refs of
             [] \<Rightarrow> None
           | pull # _ \<Rightarrow> Some (pathSegment (refs_Org refs) (refs_Repo refs), itoa (pull_Number pull))))"

definition PathForSpec :: "JobSpec \<Rightarrow> RepoPathBuilder \<Rightarrow> string option" where
  "PathForSpec spec pathSegment =
     (case jsp_Type spec of
        PeriodicJob \<Rightarrow> Some (path_Join [NonPRLogs, jsp_Job spec, jsp_BuildID spec])
      | PostsubmitJob \<Rightarrow> Some (path_Join [NonPRLogs, jsp_Job spec, jsp_BuildID spec])
      | PresubmitJob \<Rightarrow>
          map_option (\<lambda>(segment, number). path_Join [PRLogs, ''pull'', segment, number, jsp_Job spec, jsp_BuildID spec])
            (pull_segments spec pathSegment)
      | BatchJob \<Rightarrow> Some (path_Join [PRLogs, ''pull'', ''batch'', jsp_Job spec, jsp_BuildID spec]))"

definition AliasForSpec :: "JobSpec \<Rightarrow> string" where
  "AliasForSpec spec =
     (case jsp_Type spec of
        PresubmitJob \<Rightarrow> path_Join [PRLogs, ''directory'', jsp_Job spec, jsp_BuildID spec @ ''.txt'']
      | _ \<Rightarrow> [])"

definition LatestBuildForSpec :: "JobSpec \<Rightarrow> RepoPathBuilder option \<Rightarrow> string list option" where
  "LatestBuildForSpec spec pathSegment =
     (case jsp_Type spec of
        PeriodicJob \<Rightarrow> Some [path_Join [NonPRLogs, jsp_Job spec, ''latest-build.txt'']]
      | PostsubmitJob \<Rightarrow> Some [path_Join [NonPRLogs, jsp_Job spec, ''latest-build.txt'']]
      | PresubmitJob \<Rightarrow>
          (let dir = path_Join [PRLogs, ''directory'', jsp_Job spec, ''latest-build.txt'']
           in case pathSegment of
                None \<Rightarrow> Some [dir]
              | Some b \<Rightarrow>
                  map_option (\<lambda>(segment, number).
                      [dir, path_Join [PRLogs, ''pull'', segment, number, jsp_Job spec, ''latest-build.txt'']])
                    (pull_segments spec b))
      | BatchJob \<Rightarrow> Some [path_Join [PRLogs, ''directory'', jsp_Job spec, ''latest-build.txt'']])"

definition RootForSpec :: "JobSpec \<Rightarrow> string" where
  "RootForSpec spec =
     (case jsp_Type spec of
        PeriodicJob \<Rightarrow> path_Join [NonPRLogs, jsp_Job spec]
      | PostsubmitJob \<Rightarrow> path_Join [NonPRLogs, jsp_Job spec]
      | PresubmitJob \<Rightarrow> path_Join [PRLogs, ''directory'', jsp_Job spec]
      | BatchJob \<Rightarrow> path_Join [PRLogs, ''directory'', jsp_Job spec])"

definition org_underscore_repo :: RepoPathBuilder where
  "org_underscore_repo org repo = org @ ''_'' @ map (\<lambda>c. if c = CHR ''/'' then CHR ''_'' else c) repo"

definition NewLegacyRepoPathBuilder :: "string \<Rightarrow> string \<Rightarrow> RepoPathBuilder" where
  "NewLegacyRepoPathBuilder defaultOrg defaultRepo org repo =
     (if org = defaultOrg then if repo = defaultRepo then [] else repo else org_underscore_repo org repo)"

definition NewSingleDefaultRepoPathBuilder :: "string \<Rightarrow> string \<Rightarrow> RepoPathBuilder" where
  "NewSingleDefaultRepoPathBuilder defaultOrg defaultRepo org repo =
     (if org = defaultOrg \<and> repo = defaultRepo then [] else org_underscore_repo org repo)"

definition NewExplicitRepoPathBuilder :: RepoPathBuilder where
  "NewExplicitRepoPathBuilder org repo = org_underscore_repo org repo"

subsection \<open>Jobs of the configuration\<close>

definition config_JobSpec :: "ProwJobType \<Rightarrow> string \<Rightarrow> JobSpec" where
  "config_JobSpec t name =
     \<lparr>jsp_Type = t, jsp_Job = name, jsp_BuildID = [], jsp_ProwJobID = [], jsp_Refs = None, jsp_ExtraRefs = [],
      jsp_agent = []\<rparr>"

subsection \<open>Lemmas\<close>

text \<open>An element that \<open>Clean\<close> leaves alone.\<close>

definition plain :: "string \<Rightarrow> bool" where
  "plain e \<longleftrightarrow> e \<noteq> [] \<and> CHR ''/'' \<notin> set e \<and> e \<noteq> ''.'' \<and> e \<noteq> ''..''"

lemma clean_plain: "\<forall>e \<in> set es. plain e \<Longrightarrow> clean_elements rooted es stack = rev stack @ es"
  by (induction es arbitrary: stack) (auto simp: plain_def)

lemma split_join: "es \<noteq> [] \<Longrightarrow> \<forall>e \<in> set es. sep \<notin> set e \<Longrightarrow> split_on sep (join [sep] es) = es"
  by (induction "[sep]" es rule: join.induct) (auto simp: split_on_fresh split_on_append)

lemma join_ne: "es \<noteq> [] \<Longrightarrow> \<forall>e \<in> set es. e \<noteq> [] \<Longrightarrow> join sep es \<noteq> [] \<and> hd (join sep es) = hd (hd es)"
  by (cases "(sep, es)" rule: join.cases) auto

lemma path_Join_plain:
  assumes "es \<noteq> []" and "\<forall>e \<in> set es. plain e"
  shows "path_Join es = join ''/'' es"
proof -
  have ne: "\<forall>e \<in> set es. e \<noteq> []" and sep: "\<forall>e \<in> set es. CHR ''/'' \<notin> set e" using assms(2) by (auto simp: plain_def)
  have "hd (hd es) \<noteq> CHR ''/''" using assms(1) ne sep by (metis hd_in_set)
  then show ?thesis
    using assms join_ne [OF assms(1) ne, of "''/''"] split_join [OF assms(1) sep] clean_plain [OF assms(2), of _ "[]"]
    by (simp add: path_Join_def path_Clean_def Let_def ne)
qed

lemma path_Join_inj:
  assumes "path_Join es = path_Join es'" and "es \<noteq> []" "es' \<noteq> []"
    and "\<forall>e \<in> set es. plain e" "\<forall>e \<in> set es'. plain e"
  shows "es = es'"
proof -
  have "split_on (CHR ''/'') (join ''/'' es) = es" "split_on (CHR ''/'') (join ''/'' es') = es'"
    using assms split_join by (auto simp: plain_def)
  then show ?thesis using assms path_Join_plain by metis
qed

lemma plain_itoa: "plain (itoa n)"
proof -
  have "CHR ''/'' \<notin> set (itoa n)" "CHR ''.'' \<notin> set (itoa n)" by (auto dest!: itoa_chars simp: digit_neq)
  moreover have "itoa n \<noteq> []" by (simp add: itoa_def)
  ultimately show ?thesis by (auto simp: plain_def)
qed

lemma itoa_not_batch: "itoa n \<noteq> ''batch''"
proof
  assume "itoa n = ''batch''"
  then have "CHR ''b'' \<in> set (itoa n)" by simp
  then show False by (auto dest!: itoa_chars simp: digit_neq)
qed

text \<open>The elements of the path of a job.\<close>

definition path_elements :: "JobSpec \<Rightarrow> RepoPathBuilder \<Rightarrow> string list option" where
  "path_elements spec seg =
     (case jsp_Type spec of
        PresubmitJob \<Rightarrow> map_option (\<lambda>(segment, number).
            [PRLogs, ''pull''] @ (if segment = [] then [] else [segment]) @ [number, jsp_Job spec, jsp_BuildID spec])
          (pull_segments spec seg)
      | BatchJob \<Rightarrow> Some [PRLogs, ''pull'', ''batch'', jsp_Job spec, jsp_BuildID spec]
      | _ \<Rightarrow> Some [NonPRLogs, jsp_Job spec, jsp_BuildID spec])"

definition plain_spec :: "JobSpec \<Rightarrow> RepoPathBuilder \<Rightarrow> bool" where
  "plain_spec spec seg \<longleftrightarrow> plain (jsp_Job spec) \<and> plain (jsp_BuildID spec)
     \<and> (\<forall>segment number. pull_segments spec seg = Some (segment, number) \<longrightarrow> segment = [] \<or> plain segment)"

lemma pull_segments_number: "pull_segments spec seg = Some (segment, number) \<Longrightarrow> \<exists>n. number = itoa n"
  by (auto simp: pull_segments_def split: option.splits list.splits)

lemma path_elements_plain:
  assumes "plain_spec spec seg" and "path_elements spec seg = Some es"
  shows "es \<noteq> [] \<and> (\<forall>e \<in> set es. plain e) \<and> PathForSpec spec seg = Some (path_Join es)"
proof -
  have logs: "plain PRLogs" "plain NonPRLogs" "plain ''pull''" "plain ''batch''"
    by (simp_all add: plain_def PRLogs_def NonPRLogs_def)
  have skip: "path_Join (xs @ [] # ys) = path_Join (xs @ ys)" for xs ys by (simp add: path_Join_def)
  show ?thesis
  proof (cases "jsp_Type spec = PresubmitJob")
    case True
    obtain segment number where seg: "pull_segments spec seg = Some (segment, number)"
      and es: "es = [PRLogs, ''pull''] @ (if segment = [] then [] else [segment]) @ [number, jsp_Job spec, jsp_BuildID spec]"
      using assms(2) True by (auto simp: path_elements_def)
    have "plain number" using pull_segments_number [OF seg] plain_itoa by auto
    then show ?thesis
      using assms(1) True seg es logs skip [of "[PRLogs, ''pull'']"]
      by (auto simp: plain_spec_def PathForSpec_def)
  next
    case False
    then show ?thesis
      using assms logs
      by (cases "jsp_Type spec") (auto simp: path_elements_def plain_spec_def PathForSpec_def)
  qed
qed


text \<open>
  The variables of a job.  \<open>EnvForType\<close> lists exactly the variables that \<open>EnvForSpec\<close> sets for a job that runs
  as a pod, and the specification is read back from them.
\<close>
theorem job_environment:
  assumes "EnvForSpec marshal spec = Some (env, None)" and "jsp_agent spec = KubernetesAgent"
    and "\<forall>s raw. marshal s = Inr raw \<longrightarrow> unmarshal raw = Inr s"
  shows "dom env = set (EnvForType (jsp_Type spec)) \<and> ResolveSpecFromEnv unmarshal env = Inr spec"
proof -
  obtain raw where raw: "marshal spec = Inr raw"
    using assms(1) by (auto simp: EnvForSpec_def Let_def split: sum.splits)
  have "env ''JOB_SPEC'' = Some raw"
    using assms(1) raw by (auto simp: EnvForSpec_def Let_def split: option.splits list.splits if_splits)
  moreover have "dom env = set (EnvForType (jsp_Type spec))"
    using assms(1,2) raw
    by (cases "jsp_Type spec") (auto simp: EnvForSpec_def EnvForType_def Let_def split: option.splits list.splits if_splits)
  ultimately show ?thesis using assms(3) raw by (simp add: ResolveSpecFromEnv_def)
qed

definition sample_JobSpec :: JobSpec where
  "sample_JobSpec = (config_JobSpec PeriodicJob ''nightly'')\<lparr>jsp_BuildID := ''7'', jsp_agent := KubernetesAgent\<rparr>"


theorem job_environment_witness:
  "\<exists>env. EnvForSpec (\<lambda>s. Inr (jsp_Job s)) sample_JobSpec = Some (env, None)
     \<and> dom env = set (EnvForType PeriodicJob)"
proof -
  let ?marshal = "\<lambda>s. if s = sample_JobSpec then Inr (jsp_Job s) else Inl ''other''"
  have "\<exists>env. EnvForSpec ?marshal sample_JobSpec = Some (env, None)"
    by (simp add: EnvForSpec_def sample_JobSpec_def config_JobSpec_def Let_def)
  then obtain env where env: "EnvForSpec ?marshal sample_JobSpec = Some (env, None)" by blast
  have agent: "jsp_agent sample_JobSpec = KubernetesAgent" "jsp_Type sample_JobSpec = PeriodicJob"
    by (simp_all add: sample_JobSpec_def config_JobSpec_def)
  have "\<forall>s raw. ?marshal s = Inr raw \<longrightarrow> (\<lambda>_. Inr sample_JobSpec) raw = Inr s" by simp
  from job_environment [OF env agent(1) this] have "dom env = set (EnvForType PeriodicJob)" using agent(2) by simp
  moreover have "EnvForSpec (\<lambda>s. Inr (jsp_Job s)) sample_JobSpec = Some (env, None)"
    using env by (simp add: EnvForSpec_def)
  ultimately show ?thesis by blast
qed

end
