(* ===== verification/Trigger_Filters.thy ===== *)
theory Trigger_Filters
  imports Pjutil
begin

text \<open>
  Which presubmits a comment triggers, \<open>src/pjutil/filter.go\<close>.  A filter says of a presubmit
  whether it matches, whether it is forced to run, and what to do by default.

  The three expressions match a line of the comment: \<open>(?m)\<close> anchors at line ends, and the
  white space an expression may take beyond a line end is not needed for a match.
\<close>

type_synonym Filter = "Presubmit \<Rightarrow> bool \<times> bool \<times> bool"

text \<open>\<open>(?m)^cmd\s*$\<close>\<close>

definition command_line :: "string \<Rightarrow> string \<Rightarrow> bool" where
  "command_line cmd line \<longleftrightarrow> has_prefix line cmd \<and> list_all space_char (drop (length cmd) line)"

definition RetestRe :: "string \<Rightarrow> bool" where
  "RetestRe body \<longleftrightarrow> list_ex (command_line ''/retest'') (split_on newline body)"

definition OkToTestRe :: "string \<Rightarrow> bool" where
  "OkToTestRe body \<longleftrightarrow> list_ex (command_line ''/ok-to-test'') (split_on newline body)"

text \<open>\<open>(?m)^/test all,?($|\s.*)\<close>\<close>

definition test_all_line :: "string \<Rightarrow> bool" where
  "test_all_line line \<longleftrightarrow>
     has_prefix line ''/test all''
     \<and> (let rest = trim_prefix (drop 9 line) '','' in rest = [] \<or> space_char (hd rest))"

definition TestAllRe :: "string \<Rightarrow> bool" where
  "TestAllRe body \<longleftrightarrow> list_ex test_all_line (split_on newline body)"

subsection \<open>Filters\<close>

definition CommandFilter :: "string \<Rightarrow> Filter" where
  "CommandFilter body p = (TriggerMatches p body, TriggerMatches p body, True)"

definition TestAllFilter :: Filter where
  "TestAllFilter p = (\<not> NeedsExplicitTrigger p, False, False)"

fun AggregateFilter :: "Filter list \<Rightarrow> Filter" where
  "AggregateFilter [] presubmit = (False, False, False)"
| "AggregateFilter (flt # filters) presubmit =
     (case flt presubmit of
        (shouldRun, forced, defaults) \<Rightarrow>
          if shouldRun then (shouldRun, forced, defaults) else AggregateFilter filters presubmit)"

definition RetestFilter :: "string set \<Rightarrow> string set \<Rightarrow> Filter" where
  "RetestFilter failedContexts allContexts p =
     (ps_Context p \<in> failedContexts \<or> (\<not> NeedsExplicitTrigger p \<and> ps_Context p \<notin> allContexts), False, True)"

text \<open>The context getter is given by what it returns; it is called for \<open>/retest\<close> only.\<close>

definition PresubmitFilter ::
    "bool \<Rightarrow> (string set \<times> string set) result \<Rightarrow> string \<Rightarrow> Filter result" where
  "PresubmitFilter honorOkToTest contextGetter body =
     (let testAll = (if (honorOkToTest \<and> OkToTestRe body) \<or> TestAllRe body then [TestAllFilter] else [])
      in if RetestRe body then
           (case contextGetter of
              Inl err \<Rightarrow> Inl err
            | Inr (failedContexts, allContexts) \<Rightarrow>
                Inr (AggregateFilter
                       (CommandFilter body # RetestFilter failedContexts allContexts # testAll)))
         else Inr (AggregateFilter (CommandFilter body # testAll)))"

definition determineSkippedPresubmits :: "Presubmit list \<Rightarrow> Presubmit list \<Rightarrow> Presubmit list" where
  "determineSkippedPresubmits toTrigger toSkipSuperset =
     filter (\<lambda>presubmit. ps_Context presubmit \<notin> ps_Context ` set toTrigger) toSkipSuperset"

fun filter_loop ::
    "Filter \<Rightarrow> 's ChangedFilesProvider \<Rightarrow> string \<Rightarrow> Presubmit list \<Rightarrow> Presubmit list \<Rightarrow> Presubmit list
     \<Rightarrow> 's \<Rightarrow> (Presubmit list \<times> Presubmit list) result \<times> 's" where
  "filter_loop flt changes branch [] toTrigger toSkipSuperset s = (Inr (toTrigger, toSkipSuperset), s)"
| "filter_loop flt changes branch (presubmit # presubmits) toTrigger toSkipSuperset s =
     (case flt presubmit of
        (matches, forced, defaults) \<Rightarrow>
          if \<not> matches then filter_loop flt changes branch presubmits toTrigger toSkipSuperset s
          else
            (case ShouldRun presubmit branch changes forced defaults s of
               (Inl err, s') \<Rightarrow> (Inl err, s')
             | (Inr shouldRun, s') \<Rightarrow>
                 if shouldRun
                 then filter_loop flt changes branch presubmits (toTrigger @ [presubmit]) toSkipSuperset s'
                 else filter_loop flt changes branch presubmits toTrigger (toSkipSuperset @ [presubmit]) s'))"

definition FilterPresubmits ::
    "Filter \<Rightarrow> 's ChangedFilesProvider \<Rightarrow> string \<Rightarrow> Presubmit list \<Rightarrow> 's
     \<Rightarrow> (Presubmit list \<times> Presubmit list) result \<times> 's" where
  "FilterPresubmits flt changes branch presubmits s =
     (case filter_loop flt changes branch presubmits [] [] s of
        (Inl err, s') \<Rightarrow> (Inl err, s')
      | (Inr (toTrigger, toSkipSuperset), s') \<Rightarrow>
          (Inr (toTrigger, determineSkippedPresubmits toTrigger toSkipSuperset), s'))"

subsection \<open>What is triggered and what is skipped\<close>

text \<open>The answer for one presubmit of known changed files.\<close>

definition runs :: "Filter \<Rightarrow> string \<Rightarrow> string list \<Rightarrow> Presubmit \<Rightarrow> bool" where
  "runs flt branch files ps =
     (case flt ps of
        (matches, forced, defaults) \<Rightarrow> matches \<and> CouldRun ps branch
          \<and> (ps_AlwaysRun ps \<or> forced
             \<or> (if cm_RunIfChanged (ps_RegexpChangeMatcher ps) = [] then defaults
                else \<exists>f \<in> set files. cm_reChanges (ps_RegexpChangeMatcher ps) f)))"

context changed_files
begin

lemma filter_loop_value:
  assumes "truth = Inr files"
  shows "inv s \<Longrightarrow> \<exists>s'. filter_loop flt changes branch pss toTrigger toSkip s =
    (Inr (toTrigger @ filter (runs flt branch files) pss,
          toSkip @ filter (\<lambda>p. fst (flt p) \<and> \<not> runs flt branch files p) pss), s') \<and> inv s'"
proof (induction pss arbitrary: toTrigger toSkip s)
  case (Cons ps pss)
  obtain matches forced defaults where f: "flt ps = (matches, forced, defaults)"
    by (metis prod_cases3)
  show ?case
  proof (cases matches)
    case False
    then show ?thesis using Cons f by (auto simp: runs_def)
  next
    case True
    obtain r s' where run: "ShouldRun ps branch changes forced defaults s = (r, s')" by fastforce
    then have "inv s'"
      using should_run_state [OF Cons.prems] by (metis snd_conv)
    moreover have "r = Inr (runs flt branch files ps)"
      using should_run_value [OF Cons.prems, of ps branch forced defaults] run f True
      by (auto simp: decides_files [OF assms] runs_def)
    ultimately show ?thesis
      using Cons.IH [where s = s' and toTrigger = "toTrigger @ [ps]" and toSkip = toSkip]
        Cons.IH [where s = s' and toTrigger = toTrigger and toSkip = "toSkip @ [ps]"] f True run
      by (cases "runs flt branch files ps") auto
  qed
qed simp

end

subsection \<open>Properties\<close>

text \<open>
  Filtering presubmits with the lazy GitHub provider: when GitHub answers, the triggered jobs
  are those that match the filter and run, in configuration order; every other matching job
  is skipped unless a triggered job reports its context, so no skipped status overwrites a
  triggered one.
\<close>

theorem filter_presubmits:
  assumes "deferred_inv client org repo num st" and "client org repo num = Inr files"
  shows "\<exists>st'. FilterPresubmits flt (NewGitHubDeferredChangedFilesProvider client org repo num) branch pss st =
      (let run = (\<lambda>ps. case flt ps of (matches, forced, defaults) \<Rightarrow> matches \<and> CouldRun ps branch
                   \<and> (ps_AlwaysRun ps \<or> forced
                      \<or> (if cm_RunIfChanged (ps_RegexpChangeMatcher ps) = [] then defaults
                         else \<exists>f \<in> set files. cm_reChanges (ps_RegexpChangeMatcher ps) f)));
           trigger = filter run pss
       in (Inr (trigger, filter (\<lambda>ps. fst (flt ps) \<and> \<not> run ps
              \<and> ps_Context ps \<notin> ps_Context ` set trigger) pss), st'))
    \<and> deferred_inv client org repo num st'"
proof -
  have truth: "deferred_truth client org repo num = Inr files"
    using assms(2) by (simp add: deferred_truth_def)
  obtain st' where st': "filter_loop flt (NewGitHubDeferredChangedFilesProvider client org repo num) branch pss [] [] st =
      (Inr (filter (runs flt branch files) pss,
            filter (\<lambda>p. fst (flt p) \<and> \<not> runs flt branch files p) pss), st')"
    "deferred_inv client org repo num st'"
    using deferred.filter_loop_value [OF truth assms(1), of flt branch pss "[]" "[]"] by auto
  show ?thesis
    using st' by (auto simp: FilterPresubmits_def determineSkippedPresubmits_def Let_def runs_def
        conj_assoc fun_eq_iff intro!: filter_cong)
qed

theorem filter_presubmits_witness:
  "\<exists>st'. FilterPresubmits TestAllFilter
      (NewGitHubDeferredChangedFilesProvider (\<lambda>_ _ _. Inr [''main.go'']) ''org'' ''repo'' 1) ''master''
      [sample_Presubmit ''unit'' True False [], sample_Presubmit ''docs'' False False ''README'']
      \<lparr>dcf_changedFiles = [], dcf_fetches = 0\<rparr> =
    (Inr ([sample_Presubmit ''unit'' True False []], [sample_Presubmit ''docs'' False False ''README'']), st')"
  using filter_presubmits [of "\<lambda>_ _ _. Inr [''main.go'']" "''org''" "''repo''" 1
      "\<lparr>dcf_changedFiles = [], dcf_fetches = 0\<rparr>" "[''main.go'']" TestAllFilter "''master''"
      "[sample_Presubmit ''unit'' True False [], sample_Presubmit ''docs'' False False ''README'']"]
  by (simp add: deferred_inv_def TestAllFilter_def presubmit_defs sample_job_defs Let_def) blast

text \<open>
  What a \<open>/retest\<close> comment without other commands asks for: a presubmit matches exactly when
  its context failed, or when it runs without an explicit command and has not reported at all;
  it is not forced, and runs by default.
\<close>

theorem retest_filter:
  assumes "RetestRe body" and "\<not> TestAllRe body" and "\<not> OkToTestRe body"
    and "\<not> TriggerMatches p body" and "PresubmitFilter honor (Inr (failed, all)) body = Inr flt"
  shows "flt p =
    (if ps_Context p \<in> failed \<or> \<not> NeedsExplicitTrigger p \<and> ps_Context p \<notin> all
     then (True, False, True) else (False, False, False))"
  using assms by (auto simp: PresubmitFilter_def CommandFilter_def RetestFilter_def)

theorem retest_filter_witness:
  "\<exists>flt. PresubmitFilter True (Inr ({''unit''}, {''unit'', ''lint''})) ''/retest'' = Inr flt
     \<and> flt (sample_Presubmit ''unit'' True False []) = (True, False, True)
     \<and> flt (sample_Presubmit ''lint'' True False []) = (False, False, False)"
proof -
  have re: "RetestRe ''/retest''" "\<not> TestAllRe ''/retest''" "\<not> OkToTestRe ''/retest''"
    by (simp_all add: RetestRe_def TestAllRe_def OkToTestRe_def newline_def command_line_def test_all_line_def)
  then obtain flt where flt: "PresubmitFilter True (Inr ({''unit''}, {''unit'', ''lint''})) ''/retest'' = Inr flt"
    by (simp add: PresubmitFilter_def)
  have "\<not> TriggerMatches (sample_Presubmit n True False []) ''/retest''" for n
    by (simp add: TriggerMatches_def sample_job_defs)
  then show ?thesis
    using flt retest_filter [OF re _ flt] by (auto simp: presubmit_defs sample_job_defs)
qed

end
