(* ===== verification/Tot.thy ===== *)
theory Tot
  imports Gcs_Paths Trigger_Filters "HOL-Library.Word" "HOL-Library.Countable"
begin

text \<open>
  Build numbers: the store of \<open>src/cmd/tot/main.go\<close> with its file, its HTTP handler and the fallback to the
  bucket, and the client \<open>GetBuildID\<close> of \<open>src/pjutil/tot.go\<close>.

  Numbers are Go's \<open>int\<close> of 64 bits, a word.  The file system is a map from paths to contents; how a
  write or a rename ends is the argument \<open>file_outcome\<close>.  JSON is the pair \<open>marshal\<close>, \<open>unmarshal\<close>.
\<close>

type_synonym go_int = "64 word"
type_synonym numbers = "(string \<times> go_int) list"
type_synonym file_system = "string \<rightharpoonup> string"

subsection \<open>Numbers as text\<close>

definition digit_value :: "char \<Rightarrow> int option" where
  "digit_value c = (let n = of_char c :: int in if 48 \<le> n \<and> n \<le> 57 then Some (n - 48) else None)"

fun digits_value :: "int \<Rightarrow> string \<Rightarrow> int option" where
  "digits_value acc [] = Some acc"
| "digits_value acc (c # cs) =
     (case digit_value c of None \<Rightarrow> None | Some d \<Rightarrow> digits_value (acc * 10 + d) cs)"

text \<open>\<open>strconv.Atoi\<close>.\<close>

definition atoi :: "string \<Rightarrow> go_int result" where
  "atoi s =
     (let (neg, ds) = (case s of
            [] \<Rightarrow> (False, [])
          | c # cs \<Rightarrow> if c = CHR ''-'' then (True, cs) else if c = CHR ''+'' then (False, cs) else (False, s))
      in if ds = [] then Inl ''invalid syntax''
         else case digits_value 0 ds of
                None \<Rightarrow> Inl ''invalid syntax''
              | Some n \<Rightarrow>
                  (let v = (if neg then - n else n)
                   in if v < - (2 ^ 63) \<or> v \<ge> 2 ^ 63 then Inl ''value out of range'' else Inr (word_of_int v)))"

definition print_int :: "go_int \<Rightarrow> string" where "print_int n = itoa (sint n)"

subsection \<open>The store\<close>

record store =
  st_Number :: numbers
  st_storagePath :: string

datatype file_outcome = File_ok | Write_fails string error | Rename_fails error

definition newStore ::
    "(string \<Rightarrow> numbers result) \<Rightarrow> file_system \<Rightarrow> string \<Rightarrow> store result" where
  "newStore unmarshal fs storagePath =
     (case fs storagePath of
        None \<Rightarrow> Inr \<lparr>st_Number = [], st_storagePath = storagePath\<rparr>
      | Some buf \<Rightarrow> map_sum id (\<lambda>m. \<lparr>st_Number = m, st_storagePath = storagePath\<rparr>) (unmarshal buf))"

definition store_save ::
    "(numbers \<Rightarrow> string result) \<Rightarrow> file_outcome \<Rightarrow> store \<Rightarrow> file_system \<Rightarrow> error option \<times> file_system" where
  "store_save marshal out s fs =
     (let path = st_storagePath s; tmp = path @ ''.tmp''
      in case marshal (st_Number s) of
           Inl err \<Rightarrow> (Some err, fs)
         | Inr buf \<Rightarrow>
             (case out of
                Write_fails part err \<Rightarrow> (Some err, fs(tmp \<mapsto> part))
              | Rename_fails err \<Rightarrow> (Some err, fs(tmp \<mapsto> buf))
              | File_ok \<Rightarrow> (None, fs(tmp := None, path \<mapsto> buf))))"

text \<open>An error of \<open>save\<close> is logged only.\<close>

definition vend ::
    "(numbers \<Rightarrow> string result) \<Rightarrow> (string \<Rightarrow> go_int) option \<Rightarrow> file_outcome \<Rightarrow> string \<Rightarrow> store \<Rightarrow> file_system
     \<Rightarrow> go_int \<times> store \<times> file_system" where
  "vend marshal fallbackFunc out jobName s fs =
     (let n0 = (case map_of (st_Number s) jobName of
                  Some n \<Rightarrow> n
                | None \<Rightarrow> (case fallbackFunc of None \<Rightarrow> 0 | Some f \<Rightarrow> f jobName));
          n = n0 + 1;
          s' = s\<lparr>st_Number := AList.update jobName n (st_Number s)\<rparr>
      in (n, s', snd (store_save marshal out s' fs)))"

definition peek :: "string \<Rightarrow> store \<Rightarrow> go_int" where
  "peek jobName s = map_get 0 (map_of (st_Number s)) jobName"

definition store_set ::
    "(numbers \<Rightarrow> string result) \<Rightarrow> file_outcome \<Rightarrow> string \<Rightarrow> go_int \<Rightarrow> store \<Rightarrow> file_system \<Rightarrow> store \<times> file_system" where
  "store_set marshal out jobName n s fs =
     (let s' = s\<lparr>st_Number := AList.update jobName n (st_Number s)\<rparr> in (s', snd (store_save marshal out s' fs)))"

record tot_request =
  rq_Method :: string
  rq_Path :: string
  rq_Body :: "string result"

text \<open>The text that is answered, the store and the files.\<close>

definition handle ::
    "(numbers \<Rightarrow> string result) \<Rightarrow> (string \<Rightarrow> go_int) option \<Rightarrow> file_outcome \<Rightarrow> tot_request \<Rightarrow> store \<Rightarrow> file_system
     \<Rightarrow> string \<times> store \<times> file_system" where
  "handle marshal fallbackFunc out r s fs =
     (let jobName = drop (length ''/vend/'') (rq_Path r)
      in if rq_Method r = ''GET'' then
           (case vend marshal fallbackFunc out jobName s fs of (n, s', fs') \<Rightarrow> (print_int n, s', fs'))
         else if rq_Method r = ''HEAD'' then (print_int (peek jobName s), s, fs)
         else if rq_Method r = ''POST'' then
           (case rq_Body r of
              Inl err \<Rightarrow> ([], s, fs)
            | Inr body \<Rightarrow>
                (case atoi body of
                   Inl err \<Rightarrow> ([], s, fs)
                 | Inr n \<Rightarrow> (case store_set marshal out jobName n s fs of (s', fs') \<Rightarrow> ([], s', fs'))))
         else ([], s, fs))"

subsection \<open>The fallback\<close>

text \<open>
  An answer to a request: an error, or a status code with its text, what was read of the body and the error of reading.
\<close>

datatype http_answer = No_answer error | Answer int string string "error option"

text \<open>The answers are numbered by the attempt.  \<open>body\<close> keeps what the last read got, also one that failed.\<close>

fun fallback_loop :: "(nat \<Rightarrow> http_answer) \<Rightarrow> nat \<Rightarrow> nat \<Rightarrow> string \<Rightarrow> string" where
  "fallback_loop answers 0 i body = body"
| "fallback_loop answers (Suc n) i body =
     (case answers i of
        No_answer err \<Rightarrow> fallback_loop answers n (i + 1) body
      | Answer code status buf err \<Rightarrow>
          if code = 200 then (if err = None then buf else fallback_loop answers n (i + 1) buf)
          else if code = 404 then body
          else fallback_loop answers n (i + 1) body)"

definition fallback_get :: "(string \<Rightarrow> nat \<Rightarrow> http_answer) \<Rightarrow> (string \<Rightarrow> string) \<Rightarrow> string \<Rightarrow> go_int" where
  "fallback_get http getURL jobName =
     (case atoi (trim_space (fallback_loop (http (getURL jobName)) 10 0 [])) of Inl err \<Rightarrow> 0 | Inr n \<Rightarrow> n)"

definition PresubmitToJobSpec :: "Presubmit \<Rightarrow> JobSpec" where
  "PresubmitToJobSpec pre = config_JobSpec PresubmitJob (ps_Name pre)"

definition PostsubmitToJobSpec :: "Postsubmit \<Rightarrow> JobSpec" where
  "PostsubmitToJobSpec post = config_JobSpec PostsubmitJob (jb_Name (post_JobBase post))"

definition PeriodicToJobSpec :: "Periodic \<Rightarrow> JobSpec" where
  "PeriodicToJobSpec periodic = config_JobSpec PeriodicJob (jb_Name (per_JobBase periodic))"

text \<open>Without a configuration the URL is the template with the job name.\<close>

definition getURL ::
    "(string \<Rightarrow> string) \<Rightarrow> (Presubmit list \<times> Postsubmit list \<times> Periodic list) option \<Rightarrow> string \<Rightarrow> string \<Rightarrow> string" where
  "getURL template config bucket jobName =
     (case config of
        None \<Rightarrow> template jobName
      | Some (pres, posts, pers) \<Rightarrow>
          (let spec = (case find (\<lambda>pre. jobName = ps_Name pre) pres of
                 Some pre \<Rightarrow> Some (PresubmitToJobSpec pre)
               | None \<Rightarrow>
                   (case find (\<lambda>post. jobName = jb_Name (post_JobBase post)) posts of
                      Some post \<Rightarrow> Some (PostsubmitToJobSpec post)
                    | None \<Rightarrow> map_option PeriodicToJobSpec (find (\<lambda>per. jobName = jb_Name (per_JobBase per)) pers)))
           in case spec of
                None \<Rightarrow> []
              | Some spec \<Rightarrow>
                  (case LatestBuildForSpec spec None of
                     Some [path] \<Rightarrow> (if bucket \<noteq> [] \<and> last bucket = CHR ''/'' then butlast bucket else bucket) @ ''/'' @ path
                   | _ \<Rightarrow> [])))"

subsection \<open>The client\<close>

text \<open>The loop carries the last error, \<open>None\<close> at first.\<close>

fun build_id_loop :: "(nat \<Rightarrow> http_answer) \<Rightarrow> nat \<Rightarrow> nat \<Rightarrow> error option \<Rightarrow> error option + string" where
  "build_id_loop answers 0 i err = Inl err"
| "build_id_loop answers (Suc n) i err =
     (case answers i of
        No_answer e \<Rightarrow> build_id_loop answers n (i + 1) (Some e)
      | Answer code status buf e \<Rightarrow>
          if code \<noteq> 200 then
            build_id_loop answers n (i + 1) (Some (''got unexpected response from tot: '' @ status))
          else (case e of None \<Rightarrow> Inr buf | Some e \<Rightarrow> Inl (Some e)))"

definition GetBuildID ::
    "string \<Rightarrow> (string \<Rightarrow> (string \<Rightarrow> string) result) \<Rightarrow> (string \<Rightarrow> nat \<Rightarrow> http_answer) \<Rightarrow> string \<Rightarrow> string
     \<Rightarrow> error option + string" where
  "GetBuildID snowflake parse_url http name totURL =
     (if totURL = [] then Inr snowflake
      else case parse_url totURL of
             Inl err \<Rightarrow> Inl (Some (''invalid tot url: '' @ err))
           | Inr with_name \<Rightarrow> build_id_loop (http (with_name name)) 10 0 None)"

subsection \<open>Numbers as text\<close>

lemma digit_value_digit: "d < 10 \<Longrightarrow> digit_value (digit d) = Some (int d)"
proof -
  assume d: "d < 10"
  have "(of_char (digit d) :: int) = int (of_char (digit d) :: nat)" by (simp add: of_nat_of_char)
  then show ?thesis using of_char_digit [OF d] d by (simp add: digit_value_def)
qed

lemma digits_value_append:
  "digits_value acc (xs @ ys) = (case digits_value acc xs of None \<Rightarrow> None | Some a \<Rightarrow> digits_value a ys)"
  by (induction acc xs rule: digits_value.induct) (auto split: option.splits)

lemma digits_value_nat: "digits_value 0 (nat_digits n) = Some (int n)"
proof (induction n rule: nat_digits.induct)
  case (1 n)
  show ?case
  proof (cases "n < 10")
    case False
    have "digits_value 0 (nat_digits (n div 10) @ [digit (n mod 10)]) = Some (int (n div 10) * 10 + int (n mod 10))"
      using "1.IH" [OF False] by (simp add: digits_value_append digit_value_digit)
    moreover have "int (n div 10) * 10 + int (n mod 10) = int n" by presburger
    ultimately show ?thesis using False by (subst nat_digits.simps) simp
  qed (simp add: nat_digits.simps [of n] digit_value_digit)
qed

lemma nat_digits_no_sign: "hd (nat_digits n) \<noteq> CHR ''-''" "hd (nat_digits n) \<noteq> CHR ''+''"
  using nat_digits_chars [of "hd (nat_digits n)" n] by (auto simp: digit_neq)

lemma sint_bounds: "- (2 ^ 63) \<le> sint (n :: go_int)" "sint (n :: go_int) < 2 ^ 63"
  using sint_ge [of n] sint_lt [of n] by simp_all

lemma atoi_digits:
  "int k < 2 ^ 63 \<Longrightarrow> atoi (nat_digits k) = Inr (word_of_int (int k))"
  "int k \<le> 2 ^ 63 \<Longrightarrow> atoi (CHR ''-'' # nat_digits k) = Inr (word_of_int (- int k))"
proof -
  obtain c cs where ds: "nat_digits k = c # cs" "c \<noteq> CHR ''-''" "c \<noteq> CHR ''+''"
    using nat_digits_no_sign [of k] nat_digits_ne [of k] by (cases "nat_digits k") auto
  have val: "digits_value 0 (c # cs) = Some (int k)" using digits_value_nat [of k] ds(1) by simp
  show "int k < 2 ^ 63 \<Longrightarrow> atoi (nat_digits k) = Inr (word_of_int (int k))"
    unfolding atoi_def ds(1) list.case Let_def using ds(2,3) val by (simp del: digits_value.simps)
  show "int k \<le> 2 ^ 63 \<Longrightarrow> atoi (CHR ''-'' # nat_digits k) = Inr (word_of_int (- int k))"
    unfolding atoi_def ds(1) list.case Let_def using val by (simp del: digits_value.simps)
qed

text \<open>
  A build number that is printed is read back as it is, over the whole range of the integers.
\<close>
theorem build_number_round_trip: "atoi (print_int n) = Inr n"
proof (cases "sint n < 0")
  case True
  then have "atoi (print_int n) = Inr (word_of_int (- int (nat (- sint n))))"
    using sint_bounds(1) [of n] by (simp add: print_int_def itoa_def atoi_digits)
  then show ?thesis using True by simp
next
  case False
  then have "atoi (print_int n) = Inr (word_of_int (int (nat (sint n))))"
    using sint_bounds(2) [of n] by (simp add: print_int_def itoa_def atoi_digits)
  then show ?thesis using False by simp
qed

subsection \<open>Vending\<close>

lemma sint_increment: "sint (n :: go_int) < 2 ^ 63 - 1 \<Longrightarrow> sint (n + 1) = sint n + 1"
proof -
  assume n: "sint n < 2 ^ 63 - 1"
  have "sint (n + 1) = signed_take_bit 63 (sint n + 1)" by (simp add: sint_word_ariths)
  also have "\<dots> = sint n + 1" using n sint_bounds(1) [of n] by (intro signed_take_bit_int_eq_self) auto
  finally show ?thesis .
qed

text \<open>The largest number is followed by the smallest.\<close>

lemma vend_wraps:
  assumes "map_of (st_Number s) job = Some n" and "sint n = 2 ^ 63 - 1"
  shows "sint (fst (vend marshal fb out job s fs)) = - (2 ^ 63)"
proof -
  have "n = word_of_int (sint n)" by simp
  then have "n = word_of_int (2 ^ 63 - 1)" unfolding assms(2) .
  then have "sint (n + 1) = - (2 ^ 63)" by (simp only:) code_simp
  then show ?thesis using assms(1) by (simp add: vend_def Let_def)
qed

text \<open>
  The server with its crashes.  A request may be served, with a file that could be written, or be cut off
  at any point of the write; a restart reads the file.  No counter is at the largest number.
\<close>

record tot_system =
  sys_store :: "store option"
  sys_files :: file_system
  sys_returned :: "(string \<times> go_int) list"

definition counter :: "(string \<Rightarrow> go_int) option \<Rightarrow> string \<Rightarrow> store \<Rightarrow> go_int" where
  "counter fb job s = (case map_of (st_Number s) job of Some n \<Rightarrow> n | None \<Rightarrow> (case fb of None \<Rightarrow> 0 | Some f \<Rightarrow> f job))"

inductive tot_step ::
    "(numbers \<Rightarrow> string result) \<Rightarrow> (string \<Rightarrow> numbers result) \<Rightarrow> string \<Rightarrow> tot_system \<Rightarrow> tot_system \<Rightarrow> bool"
  for marshal unmarshal path where
  tot_serve: "sys_store sys = Some s \<Longrightarrow> sint (counter fb job s) < 2 ^ 63 - 1 \<Longrightarrow>
    vend marshal fb File_ok job s (sys_files sys) = (n, s', fs') \<Longrightarrow>
    tot_step marshal unmarshal path sys
      \<lparr>sys_store = Some s', sys_files = fs', sys_returned = sys_returned sys @ [(job, n)]\<rparr>"
| tot_cut_off: "sys_store sys = Some s \<Longrightarrow> sint (counter fb job s) < 2 ^ 63 - 1 \<Longrightarrow>
    vend marshal fb out job s (sys_files sys) = (n, s', fs') \<Longrightarrow>
    tot_step marshal unmarshal path sys (sys\<lparr>sys_store := None, sys_files := fs'\<rparr>)"
| tot_crash: "tot_step marshal unmarshal path sys (sys\<lparr>sys_store := None\<rparr>)"
| tot_restart: "sys_store sys = None \<Longrightarrow> newStore unmarshal (sys_files sys) path = Inr s \<Longrightarrow>
    tot_step marshal unmarshal path sys (sys\<lparr>sys_store := Some s\<rparr>)"

inductive_cases tot_stepE: "tot_step marshal unmarshal path sys sys'"

definition json_ok ::
    "(numbers \<Rightarrow> string result) \<Rightarrow> (string \<Rightarrow> numbers result) \<Rightarrow> bool" where
  "json_ok marshal unmarshal \<longleftrightarrow> (\<forall>m. \<exists>buf m'. marshal m = Inr buf \<and> unmarshal buf = Inr m' \<and> map_of m' = map_of m)"

text \<open>What a restart would find.\<close>

definition on_disk :: "(string \<Rightarrow> numbers result) \<Rightarrow> string \<Rightarrow> file_system \<Rightarrow> (string \<rightharpoonup> go_int) result" where
  "on_disk unmarshal path fs = map_sum id (map_of \<circ> st_Number) (newStore unmarshal fs path)"

definition tot_inv :: "(string \<Rightarrow> numbers result) \<Rightarrow> string \<Rightarrow> tot_system \<Rightarrow> bool" where
  "tot_inv unmarshal path sys \<longleftrightarrow>
     (\<forall>s. sys_store sys = Some s \<longrightarrow> st_storagePath s = path \<and> on_disk unmarshal path (sys_files sys) = Inr (map_of (st_Number s)))
     \<and> (\<forall>(job, n) \<in> set (sys_returned sys). \<exists>D m. on_disk unmarshal path (sys_files sys) = Inr D
          \<and> D job = Some m \<and> sint n \<le> sint m)
     \<and> sorted_wrt (\<lambda>(j, a) (k, b). j = k \<longrightarrow> sint a < sint b) (sys_returned sys)"

lemma vend_result:
  assumes "vend marshal fb out job s fs = (n, s', fs')"
  shows "n = counter fb job s + 1" and "s' = s\<lparr>st_Number := AList.update job n (st_Number s)\<rparr>"
    and "fs' = snd (store_save marshal out s' fs)"
  using assms by (auto simp: vend_def counter_def Let_def)

lemma newStore_disk: "newStore unmarshal fs path = Inr s \<Longrightarrow> st_storagePath s = path \<and> on_disk unmarshal path fs = Inr (map_of (st_Number s))"
  by (auto simp: newStore_def on_disk_def split: option.splits sum.splits) (metis Inr_Inl_False map_sum.simps sum.exhaust_sel sum.inject(2) store.select_convs(2))

lemma save_disk:
  assumes "json_ok marshal unmarshal" and "st_storagePath s = path"
  shows "out = File_ok \<Longrightarrow> on_disk unmarshal path (snd (store_save marshal out s fs)) = Inr (map_of (st_Number s))"
    and "out \<noteq> File_ok \<Longrightarrow> on_disk unmarshal path (snd (store_save marshal out s fs)) = on_disk unmarshal path fs"
proof -
  obtain buf m' where buf: "marshal (st_Number s) = Inr buf" "unmarshal buf = Inr m'" "map_of m' = map_of (st_Number s)"
    using assms(1) unfolding json_ok_def by blast
  show "out = File_ok \<Longrightarrow> on_disk unmarshal path (snd (store_save marshal out s fs)) = Inr (map_of (st_Number s))"
    using buf assms(2) by (simp add: store_save_def on_disk_def newStore_def Let_def)
  show "out \<noteq> File_ok \<Longrightarrow> on_disk unmarshal path (snd (store_save marshal out s fs)) = on_disk unmarshal path fs"
    using buf assms(2) by (cases out) (simp_all add: store_save_def on_disk_def newStore_def Let_def)
qed

lemma vend_inv:
  assumes "tot_inv unmarshal path sys" and "sys_store sys = Some s" and "sint (counter fb job s) < 2 ^ 63 - 1"
    and "vend marshal fb out job s (sys_files sys) = (n, s', fs')" and "json_ok marshal unmarshal"
  shows "st_storagePath s' = path" and "out = File_ok \<Longrightarrow> on_disk unmarshal path fs' = Inr (map_of (st_Number s'))"
    and "\<forall>m. (job, m) \<in> set (sys_returned sys) \<longrightarrow> sint m < sint n"
    and "\<forall>(k, m) \<in> set (sys_returned sys). \<exists>D d. on_disk unmarshal path fs' = Inr D \<and> D k = Some d \<and> sint m \<le> sint d"
proof -
  note v = vend_result [OF assms(4)]
  have s: "st_storagePath s = path" "on_disk unmarshal path (sys_files sys) = Inr (map_of (st_Number s))"
    using assms(1,2) by (auto simp: tot_inv_def)
  have known: "\<exists>d. map_of (st_Number s) k = Some d \<and> sint m \<le> sint d" if "(k, m) \<in> set (sys_returned sys)" for k m
    using assms(1) s(2) that by (auto simp: tot_inv_def)
  have n: "sint n = sint (counter fb job s) + 1" using v(1) sint_increment [OF assms(3)] by simp
  show path: "st_storagePath s' = path" using s(1) v(2) by simp
  show "out = File_ok \<Longrightarrow> on_disk unmarshal path fs' = Inr (map_of (st_Number s'))"
    using save_disk(1) [OF assms(5) path] v(3) by simp
  show older: "\<forall>m. (job, m) \<in> set (sys_returned sys) \<longrightarrow> sint m < sint n"
    using known n by (fastforce simp: counter_def)
  have "on_disk unmarshal path fs' = Inr (map_of (st_Number s')) \<or> on_disk unmarshal path fs' = Inr (map_of (st_Number s))"
    using save_disk [OF assms(5) path, of out] v(3) s(2) by (cases "out = File_ok") auto
  moreover have "\<exists>d. map_of (st_Number s') k = Some d \<and> sint m \<le> sint d" if "(k, m) \<in> set (sys_returned sys)" for k m
    using known [OF that] older that v(2) by (cases "k = job") (auto simp: update_conv')
  ultimately show "\<forall>(k, m) \<in> set (sys_returned sys). \<exists>D d. on_disk unmarshal path fs' = Inr D \<and> D k = Some d \<and> sint m \<le> sint d"
    using known by fastforce
qed

lemma tot_step_inv:
  assumes "tot_step marshal unmarshal path sys sys'" and "tot_inv unmarshal path sys" and "json_ok marshal unmarshal"
  shows "tot_inv unmarshal path sys'"
  using assms(1)
proof (cases rule: tot_step.cases)
  case (tot_serve s fb job n s' fs')
  note v = vend_inv [OF assms(2) tot_serve(2,3,4) assms(3)]
  have "map_of (st_Number s') job = Some n" using vend_result(2) [OF tot_serve(4)] by (simp add: update_conv')
  moreover have "sorted_wrt (\<lambda>(j, a) (k, b). j = k \<longrightarrow> sint a < sint b) (sys_returned sys)"
    using assms(2) by (simp add: tot_inv_def)
  ultimately show ?thesis
    using v unfolding tot_inv_def tot_serve(1) by (auto simp: sorted_wrt_append)
next
  case (tot_cut_off s fb job out n s' fs')
  then show ?thesis
    using vend_inv(4) [OF assms(2) tot_cut_off(2,3,4) assms(3)] assms(2) by (simp add: tot_inv_def)
next
  case tot_crash
  then show ?thesis using assms(2) by (simp add: tot_inv_def)
next
  case (tot_restart s)
  then show ?thesis using assms(2) newStore_disk [OF tot_restart(3)] by (simp add: tot_inv_def)
qed


text \<open>A JSON that numbers the contents of the store.\<close>

definition sample_marshal :: "numbers \<Rightarrow> string result" where
  "sample_marshal m = Inr (replicate (to_nat m) (CHR ''x''))"

definition sample_unmarshal :: "string \<Rightarrow> numbers result" where
  "sample_unmarshal buf = Inr (from_nat (length buf))"

lemma sample_json: "json_ok sample_marshal sample_unmarshal"
  by (simp add: json_ok_def sample_marshal_def sample_unmarshal_def)


subsection \<open>Retries\<close>

lemma ex_Suc_less: "(\<exists>k < Suc n. P k) \<longleftrightarrow> P 0 \<or> (\<exists>k < n. P (Suc k))"
  by (auto simp: less_Suc_eq_0_disj)

lemma all_Suc_less: "(\<forall>k < Suc n. P k) \<longleftrightarrow> P 0 \<and> (\<forall>k < n. P (Suc k))"
  by (auto simp: less_Suc_eq_0_disj)

text \<open>The client returns the body of the first usable answer among ten.\<close>

definition unusable :: "http_answer \<Rightarrow> bool" where
  "unusable a = (case a of No_answer _ \<Rightarrow> True | Answer code _ _ _ \<Rightarrow> code \<noteq> 200)"

lemma build_id_loop_ok:
  "build_id_loop answers n i err = Inr buf \<longleftrightarrow>
     (\<exists>k < n. (\<forall>j < k. unusable (answers (i + j))) \<and> (\<exists>status. answers (i + k) = Answer 200 status buf None))"
proof (induction answers n i err rule: build_id_loop.induct)
  case (2 answers n i err)
  have shift: "(\<exists>k < Suc n. (\<forall>j < k. unusable (answers (i + j))) \<and> (\<exists>status. answers (i + k) = Answer 200 status buf None))
      \<longleftrightarrow> (\<exists>status. answers i = Answer 200 status buf None)
        \<or> unusable (answers i) \<and> (\<exists>k < n. (\<forall>j < k. unusable (answers (i + 1 + j)))
            \<and> (\<exists>status. answers (i + 1 + k) = Answer 200 status buf None))"
    by (simp add: ex_Suc_less all_Suc_less) blast
  show ?case
    unfolding shift using 2 by (auto simp: unusable_def split: http_answer.splits option.splits)
qed simp

text \<open>A body that could not be read to its end is taken for the number when no later attempt gets an answer.\<close>

lemma fallback_takes_partial_body:
  assumes "answers 0 = Answer 200 ''200 OK'' ''12'' (Some err)" and "\<forall>i > 0. \<exists>e. answers i = No_answer e"
  shows "fallback_get (\<lambda>_. answers) url job = 12"
proof -
  have "fallback_loop answers n (Suc i) body = body" for n i body
  proof (induction n arbitrary: i)
    case (Suc n)
    obtain e where "answers (Suc i) = No_answer e" using assms(2) by blast
    then show ?case using Suc [of "Suc i"] by simp
  qed simp
  moreover have "fallback_loop answers 10 0 [] = fallback_loop answers 9 (Suc 0) ''12''"
    using assms(1) by (simp add: eval_nat_numeral)
  ultimately have "fallback_loop answers 10 0 [] = ''12''" by simp
  then show ?thesis
    by (simp add: fallback_get_def trim_space_def go_space_def space_char_def newline_def atoi_def digit_value_def Let_def)
qed

end
