(* ===== verification/Branch_Protector.thy ===== *)
theory Branch_Protector
  imports Branch_Protection
begin

text \<open>
  The branch protector, \<open>src/cmd/branchprotector/protect.go\<close> and \<open>request.go\<close>: every branch of
  the configured repos is compared with its policy, and the ones that differ are updated.

  The GitHub client is the record \<open>client\<close> of its reading calls.  The two goroutines share the
  channel of updates and the list of errors: \<open>protect\<close> returns what it sends, in order,
  and \<open>configureBranches\<close> works on that list; each returns the errors it adds.  The
  orders of the four ranges over maps are the record \<open>range_orders\<close>.
\<close>

subsection \<open>Data\<close>

record GitHubUser =
  gu_Login :: string
  gu_Push :: bool
  gu_Admin :: bool

record GitHubTeam =
  gt_Slug :: string
  gt_Permission :: string

record GitHubBranch =
  gb_Name :: string
  gb_Protected :: bool

record GitHubRepo =
  gr_Name :: string
  gr_Archived :: bool
  gr_Private :: bool

record RequiredStatusChecks =
  rsc_Strict :: bool
  rsc_Contexts :: "string list"

record GitHubRestrictions =
  ghr_Users :: "GitHubUser list"
  ghr_Teams :: "GitHubTeam list"

record RequiredPullRequestReviews =
  prr_DismissalRestrictions :: "GitHubRestrictions option"
  prr_DismissStaleReviews :: bool
  prr_RequireCodeOwnerReviews :: bool
  prr_RequiredApprovingReviewCount :: int

text \<open>\<open>github.BranchProtection\<close>, the present state of a branch.\<close>

record GitHubProtection =
  gp_RequiredStatusChecks :: "RequiredStatusChecks option"
  gp_EnforceAdmins :: bool
  gp_RequiredPullRequestReviews :: "RequiredPullRequestReviews option"
  gp_Restrictions :: "GitHubRestrictions option"

record RestrictionsRequest =
  rr_Users :: "string list option"
  rr_Teams :: "string list option"

record RequiredPullRequestReviewsRequest =
  prq_DismissalRestrictions :: RestrictionsRequest
  prq_DismissStaleReviews :: bool
  prq_RequireCodeOwnerReviews :: bool
  prq_RequiredApprovingReviewCount :: int

record BranchProtectionRequest =
  bpr_RequiredStatusChecks :: "RequiredStatusChecks option"
  bpr_EnforceAdmins :: "bool option"
  bpr_RequiredPullRequestReviews :: "RequiredPullRequestReviewsRequest option"
  bpr_Restrictions :: "RestrictionsRequest option"

record requirements =
  rq_Org :: string
  rq_Repo :: string
  rq_Branch :: string
  rq_Request :: "BranchProtectionRequest option"

text \<open>What \<open>configureBranches\<close> reports carries the request it prints.\<close>

datatype protector_error =
    RemoveFailed string string string error
  | UpdateFailed string string string BranchProtectionRequest error

record client =
  cl_GetBranchProtection :: "string \<Rightarrow> string \<Rightarrow> string \<Rightarrow> GitHubProtection option result"
  cl_GetBranches :: "string \<Rightarrow> string \<Rightarrow> bool \<Rightarrow> GitHubBranch list result"
  cl_GetRepo :: "string \<Rightarrow> string \<Rightarrow> GitHubRepo result"
  cl_GetRepos :: "string \<Rightarrow> GitHubRepo list result"
  cl_ListCollaborators :: "string \<Rightarrow> string \<Rightarrow> GitHubUser list result"
  cl_ListRepoTeams :: "string \<Rightarrow> string \<Rightarrow> GitHubTeam list result"

text \<open>The configuration the protector reads, with its flag \<open>--verify-restrictions\<close>.\<close>

record protector_config =
  pc_BranchProtection :: BranchProtection
  pc_PresubmitsStatic :: "(string \<times> Presubmit list) list"
  pc_verifyRestrictions :: bool

record range_orders =
  ro_orgs :: "(string \<times> Org) list \<Rightarrow> (string \<times> Org) list"
  ro_repos :: "(string \<times> Repo) list \<Rightarrow> (string \<times> Repo) list"
  ro_presubmits :: "(string \<times> Presubmit list) list \<Rightarrow> (string \<times> Presubmit list) list"
  ro_branches :: "(string \<times> GitHubBranch) list \<Rightarrow> (string \<times> GitHubBranch) list"

record protector =
  pr_updates :: "requirements list"
  pr_errors :: "error list"
  pr_completedRepos :: "string list"

subsection \<open>Rendering a policy\<close>

fun makeAdmins :: "bool option \<Rightarrow> bool option" where
  "makeAdmins (Some v) = Some v"
| "makeAdmins None = Some False"

definition makeBool :: "bool option \<Rightarrow> bool" where
  "makeBool val \<longleftrightarrow> val = Some True"

text \<open>The elements of a slice that may be nil.\<close>

definition elems :: "string list option \<Rightarrow> string list" where
  "elems ss = (case ss of None \<Rightarrow> [] | Some xs \<Rightarrow> xs)"

fun makeChecks :: "ContextPolicy option \<Rightarrow> RequiredStatusChecks option" where
  "makeChecks None = None"
| "makeChecks (Some cp) =
     Some \<lparr>rsc_Strict = makeBool (cp_Strict cp), rsc_Contexts = set_list (elems (cp_Contexts cp))\<rparr>"

fun makeRestrictions :: "Restrictions option \<Rightarrow> RestrictionsRequest option" where
  "makeRestrictions None = None"
| "makeRestrictions (Some rp) =
     Some \<lparr>rr_Users = Some (set_list (elems (rs_Users rp))),
           rr_Teams = Some (set_list (elems (rs_Teams rp)))\<rparr>"

definition zero_RestrictionsRequest :: RestrictionsRequest where
  "zero_RestrictionsRequest = \<lparr>rr_Users = None, rr_Teams = None\<rparr>"

definition makeReviews :: "ReviewPolicy option \<Rightarrow> RequiredPullRequestReviewsRequest option" where
  "makeReviews rp =
     (case rp of
        None \<Rightarrow> None
      | Some rp \<Rightarrow>
          (case rp_Approvals rp of
             None \<Rightarrow> None
           | Some approvals \<Rightarrow>
               if approvals = 0 then None
               else Some
                 \<lparr>prq_DismissalRestrictions =
                    (case makeRestrictions (rp_DismissalRestrictions rp) of
                       None \<Rightarrow> zero_RestrictionsRequest | Some r \<Rightarrow> r),
                  prq_DismissStaleReviews = makeBool (rp_DismissStale rp),
                  prq_RequireCodeOwnerReviews = makeBool (rp_RequireOwners rp),
                  prq_RequiredApprovingReviewCount = approvals\<rparr>))"

definition makeRequest :: "Policy \<Rightarrow> BranchProtectionRequest" where
  "makeRequest policy =
     \<lparr>bpr_RequiredStatusChecks = makeChecks (pol_RequiredStatusChecks policy),
      bpr_EnforceAdmins = makeAdmins (pol_Admins policy),
      bpr_RequiredPullRequestReviews = makeReviews (pol_RequiredPullRequestReviews policy),
      bpr_Restrictions = makeRestrictions (pol_Restrictions policy)\<rparr>"

subsection \<open>Comparing a request with the present state\<close>

text \<open>
  The slices are compared through pointers: two nil pointers are equal, two others if the
  sorted slices agree.  The sort works in place, on slices that are not used afterwards or, for
  the request, sorted already.
\<close>

fun equalStringSlices :: "string list option \<Rightarrow> string list option \<Rightarrow> bool" where
  "equalStringSlices None None = True"
| "equalStringSlices (Some s1) (Some s2) =
     (if length s1 \<noteq> length s2 then False else sort s1 = sort s2)"
| "equalStringSlices _ _ = False"

fun equalRequiredStatusChecks ::
    "RequiredStatusChecks option \<Rightarrow> RequiredStatusChecks option \<Rightarrow> bool" where
  "equalRequiredStatusChecks None None = True"
| "equalRequiredStatusChecks (Some state) (Some request) =
     (rsc_Strict state = rsc_Strict request
      \<and> equalStringSlices (Some (rsc_Contexts state)) (Some (rsc_Contexts request)))"
| "equalRequiredStatusChecks _ _ = False"

fun equalAdminEnforcement :: "bool \<Rightarrow> bool option \<Rightarrow> bool" where
  "equalAdminEnforcement enabled None = (enabled = False)"
| "equalAdminEnforcement enabled (Some request) = (enabled = request)"

fun equalRestrictions :: "GitHubRestrictions option \<Rightarrow> RestrictionsRequest option \<Rightarrow> bool" where
  "equalRestrictions None None = True"
| "equalRestrictions None (Some request) = (rr_Users request = None \<and> rr_Teams request = None)"
| "equalRestrictions (Some state) (Some request) =
     (let users = map (\<lambda>u. NormLogin (gu_Login u)) (ghr_Users state);
          teams = map gt_Slug (ghr_Teams state);
          requestUsers = map NormLogin (elems (rr_Users request))
      in equalStringSlices (Some teams) (rr_Teams request)
         \<and> equalStringSlices (Some users) (Some requestUsers))"
| "equalRestrictions (Some state) None = False"

fun equalRequiredPullRequestReviews ::
    "RequiredPullRequestReviews option \<Rightarrow> RequiredPullRequestReviewsRequest option \<Rightarrow> bool" where
  "equalRequiredPullRequestReviews None None = True"
| "equalRequiredPullRequestReviews (Some state) (Some request) =
     (prr_DismissStaleReviews state = prq_DismissStaleReviews request
      \<and> prr_RequireCodeOwnerReviews state = prq_RequireCodeOwnerReviews request
      \<and> prr_RequiredApprovingReviewCount state = prq_RequiredApprovingReviewCount request
      \<and> equalRestrictions (prr_DismissalRestrictions state) (Some (prq_DismissalRestrictions request)))"
| "equalRequiredPullRequestReviews _ _ = False"

fun equalBranchProtections ::
    "GitHubProtection option \<Rightarrow> BranchProtectionRequest option \<Rightarrow> bool" where
  "equalBranchProtections None None = True"
| "equalBranchProtections (Some state) (Some request) =
     (equalRequiredStatusChecks (gp_RequiredStatusChecks state) (bpr_RequiredStatusChecks request)
      \<and> equalAdminEnforcement (gp_EnforceAdmins state) (bpr_EnforceAdmins request)
      \<and> equalRequiredPullRequestReviews (gp_RequiredPullRequestReviews state)
          (bpr_RequiredPullRequestReviews request)
      \<and> equalRestrictions (gp_Restrictions state) (bpr_Restrictions request))"
| "equalBranchProtections _ _ = False"

subsection \<open>Branches\<close>

text \<open>\<open>RepoPush\<close> and \<open>RepoAdmin\<close> of \<open>github/types.go\<close>.\<close>

definition RepoPush :: string where "RepoPush = ''push''"
definition RepoAdmin :: string where "RepoAdmin = ''admin''"

definition authorizedCollaborators :: "client \<Rightarrow> string \<Rightarrow> string \<Rightarrow> string list result" where
  "authorizedCollaborators cl org repo =
     (case cl_ListCollaborators cl org repo of
        Inl err \<Rightarrow> Inl err
      | Inr collaborators \<Rightarrow>
          Inr (map (\<lambda>c. NormLogin (gu_Login c))
                 (filter (\<lambda>c. gu_Admin c \<or> gu_Push c) collaborators)))"

definition authorizedTeams :: "client \<Rightarrow> string \<Rightarrow> string \<Rightarrow> string list result" where
  "authorizedTeams cl org repo =
     (case cl_ListRepoTeams cl org repo of
        Inl err \<Rightarrow> Inl err
      | Inr teams \<Rightarrow>
          Inr (map gt_Slug
                 (filter (\<lambda>t. gt_Permission t = RepoPush \<or> gt_Permission t = RepoAdmin) teams)))"

definition unauthorized :: "string list option \<Rightarrow> string list \<Rightarrow> string list" where
  "unauthorized requested authorized =
     set_list (filter (\<lambda>x. x \<notin> set authorized) (elems requested))"

definition unauthorized_errors ::
    "string \<Rightarrow> string \<Rightarrow> string \<Rightarrow> string list option \<Rightarrow> string list \<Rightarrow> error list" where
  "unauthorized_errors kind org repo requested authorized =
     (if unauthorized requested authorized = [] then []
      else [''the following '' @ kind @ '' are not authorized for '' @ org @ ''/'' @ repo @ '': [''
            @ join '' '' (unauthorized requested authorized) @ '']''])"

fun validateRestrictions ::
    "string \<Rightarrow> string \<Rightarrow> BranchProtectionRequest option \<Rightarrow> string list \<Rightarrow> string list \<Rightarrow> error list" where
  "validateRestrictions org repo None collaborators teams = []"
| "validateRestrictions org repo (Some bp) collaborators teams =
     (case bpr_Restrictions bp of
        None \<Rightarrow> []
      | Some r \<Rightarrow>
          unauthorized_errors ''collaborators'' org repo (rr_Users r) collaborators
          @ unauthorized_errors ''teams'' org repo (rr_Teams r) teams)"

text \<open>\<open>UpdateBranch\<close>: an error, or the update that is sent, if any.\<close>

definition UpdateBranch ::
    "protector_config \<Rightarrow> client \<Rightarrow> string \<Rightarrow> string \<Rightarrow> string \<Rightarrow> Branch \<Rightarrow> bool \<Rightarrow>
     string list \<Rightarrow> string list \<Rightarrow> requirements option result" where
  "UpdateBranch cfg cl orgName repo branchName branch protected collaborators teams =
     (case GetPolicy (pc_BranchProtection cfg) orgName repo branchName branch
             (map_get [] (map_of (pc_PresubmitsStatic cfg)) (orgName @ ''/'' @ repo)) of
        Inl err \<Rightarrow> Inl (''get policy: '' @ err)
      | Inr None \<Rightarrow> Inr None
      | Inr (Some bp) \<Rightarrow>
          (case pol_Protect bp of
             None \<Rightarrow> Inr None
           | Some prot \<Rightarrow>
               if \<not> protected \<and> \<not> prot then Inr None
               else
                 let req = if prot then Some (makeRequest bp) else None;
                     validationErrors = validateRestrictions orgName repo req collaborators teams
                 in if pc_verifyRestrictions cfg \<and> validationErrors \<noteq> [] then
                      Inl (''invalid branch protection request: '' @ orgName @ ''/'' @ repo @ ''=''
                           @ branchName @ '': '' @ join ''\<newline>'' validationErrors)
                    else
                      (case cl_GetBranchProtection cl orgName repo branchName of
                         Inl err \<Rightarrow> Inl (''get current branch protection: '' @ err)
                       | Inr currentBP \<Rightarrow>
                           if equalBranchProtections currentBP req then Inr None
                           else Inr (Some \<lparr>rq_Org = orgName, rq_Repo = repo,
                                           rq_Branch = branchName, rq_Request = req\<rparr>))))"

subsection \<open>Repos and orgs\<close>

definition word_char :: "char \<Rightarrow> bool" where
  "word_char ch \<longleftrightarrow> (let n = of_char ch :: nat in
     48 \<le> n \<and> n \<le> 57 \<or> 65 \<le> n \<and> n \<le> 90 \<or> 97 \<le> n \<and> n \<le> 122 \<or> ch = CHR ''_'' \<or> ch = CHR ''-'')"

text \<open>\<open>SecurityForkNameRE\<close>: word characters and dashes around \<open>-ghsa-\<close>.\<close>

definition SecurityForkNameRE :: regexp where
  "SecurityForkNameRE name \<longleftrightarrow> list_all word_char name
     \<and> (\<exists>i<length name. 0 < i \<and> has_prefix (drop i name) ''-ghsa-'' \<and> 6 < length (drop i name))"

definition skipped_repo :: "GitHubRepo \<Rightarrow> bool" where
  "skipped_repo r \<longleftrightarrow> gr_Archived r \<or> gr_Private r \<and> SecurityForkNameRE (gr_Name r)"

definition bool_string :: "bool \<Rightarrow> string" where
  "bool_string b = (if b then ''true'' else ''false'')"

definition branch_exclusions :: "compiler \<Rightarrow> Repo \<Rightarrow> regexp result" where
  "branch_exclusions compile repo =
     (let exclude = elems (pol_Exclude (repo_Policy repo))
      in if exclude = [] then Inr (\<lambda>_. False) else compile (join ''|'' exclude))"

text \<open>One listing of branches enters the map; the second overwrites the first.\<close>

definition add_branches ::
    "Repo \<Rightarrow> regexp \<Rightarrow> GitHubBranch list \<Rightarrow> (string \<times> GitHubBranch) list \<Rightarrow> (string \<times> GitHubBranch) list" where
  "add_branches repo excluded bs branches =
     fold (\<lambda>b m. if map_of (repo_Branches repo) (gb_Name b) = None \<and> excluded (gb_Name b) then m
                 else AList.update (gb_Name b) b m) bs branches"

definition list_branches ::
    "client \<Rightarrow> string \<Rightarrow> string \<Rightarrow> Repo \<Rightarrow> regexp \<Rightarrow> (string \<times> GitHubBranch) list result" where
  "list_branches cl orgName repoName repo excluded =
     (case cl_GetBranches cl orgName repoName False of
        Inl err \<Rightarrow> Inl (''list branches: '' @ err)
      | Inr bs \<Rightarrow>
          (case cl_GetBranches cl orgName repoName True of
             Inl err \<Rightarrow> Inl (''list branches: '' @ err)
           | Inr bs' \<Rightarrow>
               Inr (add_branches repo excluded bs' (add_branches repo excluded bs []))))"

definition authorized ::
    "protector_config \<Rightarrow> client \<Rightarrow> string \<Rightarrow> string \<Rightarrow> (string list \<times> string list) result" where
  "authorized cfg cl orgName repoName =
     (if \<not> pc_verifyRestrictions cfg then Inr ([], [])
      else case authorizedCollaborators cl orgName repoName of
        Inl err \<Rightarrow> Inl err
      | Inr collaborators \<Rightarrow>
          (case authorizedTeams cl orgName repoName of
             Inl err \<Rightarrow> Inl err
           | Inr teams \<Rightarrow> Inr (collaborators, teams)))"

definition update_branch_of ::
    "protector_config \<Rightarrow> client \<Rightarrow> string \<Rightarrow> string \<Rightarrow> Repo \<Rightarrow> string list \<Rightarrow> string list \<Rightarrow>
     string \<times> GitHubBranch \<Rightarrow> requirements option result" where
  "update_branch_of cfg cl orgName repoName repo collaborators teams = (\<lambda>(bn, githubBranch).
     case GetBranch repo bn of
       Inl err \<Rightarrow> Inl (''get '' @ bn @ '': '' @ err)
     | Inr branch \<Rightarrow>
         (case UpdateBranch cfg cl orgName repoName bn branch (gb_Protected githubBranch)
                 collaborators teams of
            Inl err \<Rightarrow> Inl (''update '' @ bn @ '' from protected=''
                            @ bool_string (gb_Protected githubBranch) @ '': '' @ err)
          | Inr u \<Rightarrow> Inr u))"

fun update_branches ::
    "(string \<times> GitHubBranch \<Rightarrow> requirements option result) \<Rightarrow> (string \<times> GitHubBranch) list \<Rightarrow>
     requirements list \<times> error list" where
  "update_branches f [] = ([], [])"
| "update_branches f (b # bs) =
     (let (us, errs) = update_branches f bs
      in case f b of
           Inl err \<Rightarrow> (us, err # errs)
         | Inr None \<Rightarrow> (us, errs)
         | Inr (Some u) \<Rightarrow> (u # us, errs))"

text \<open>The body of \<open>UpdateRepo\<close> after the repo is marked: what is sent, and the error.\<close>

definition repo_updates ::
    "compiler \<Rightarrow> range_orders \<Rightarrow> protector_config \<Rightarrow> client \<Rightarrow> string \<Rightarrow> string \<Rightarrow> Repo \<Rightarrow>
     requirements list \<times> error option" where
  "repo_updates compile ro cfg cl orgName repoName repo =
     (case cl_GetRepo cl orgName repoName of
        Inl err \<Rightarrow> ([], Some (''could not get repo to check for archival: '' @ err))
      | Inr githubRepo \<Rightarrow>
          if skipped_repo githubRepo then ([], None)
          else case branch_exclusions compile repo of
            Inl err \<Rightarrow> ([], Some err)
          | Inr excluded \<Rightarrow>
              (case list_branches cl orgName repoName repo excluded of
                 Inl err \<Rightarrow> ([], Some err)
               | Inr branches \<Rightarrow>
                   (case authorized cfg cl orgName repoName of
                      Inl err \<Rightarrow> ([], Some err)
                    | Inr (collaborators, teams) \<Rightarrow>
                        let (us, errs) = update_branches
                              (update_branch_of cfg cl orgName repoName repo collaborators teams)
                              (ro_branches ro branches)
                        in (us, NewAggregate errs))))"

definition UpdateRepo ::
    "compiler \<Rightarrow> range_orders \<Rightarrow> protector_config \<Rightarrow> client \<Rightarrow> string \<Rightarrow> string \<Rightarrow> Repo \<Rightarrow>
     protector \<Rightarrow> error option \<times> protector" where
  "UpdateRepo compile ro cfg cl orgName repoName repo p =
     (let (us, err) = repo_updates compile ro cfg cl orgName repoName repo
      in (err, p\<lparr>pr_completedRepos := (orgName @ ''/'' @ repoName) # pr_completedRepos p,
                 pr_updates := pr_updates p @ us\<rparr>))"

fun update_repos ::
    "compiler \<Rightarrow> range_orders \<Rightarrow> protector_config \<Rightarrow> client \<Rightarrow> string \<Rightarrow> Org \<Rightarrow> string list \<Rightarrow>
     protector \<Rightarrow> error list \<times> protector" where
  "update_repos compile ro cfg cl orgName org [] p = ([], p)"
| "update_repos compile ro cfg cl orgName org (r # rs) p =
     (let (err, p1) = UpdateRepo compile ro cfg cl orgName r (GetRepo org r) p;
          (errs, p2) = update_repos compile ro cfg cl orgName org rs p1
      in (case err of None \<Rightarrow> errs | Some e \<Rightarrow> (''update '' @ r @ '': '' @ e) # errs, p2))"

definition org_repos :: "range_orders \<Rightarrow> client \<Rightarrow> string \<Rightarrow> Org \<Rightarrow> string list result" where
  "org_repos ro cl orgName org =
     (if pol_Protect (org_Policy org) \<noteq> None then
        (case cl_GetRepos cl orgName of
           Inl err \<Rightarrow> Inl (''list repos: '' @ err)
         | Inr rs \<Rightarrow> Inr (map gr_Name (filter (\<lambda>r. \<not> skipped_repo r) rs)))
      else Inr (map fst (ro_repos ro (org_Repos org))))"

definition UpdateOrg ::
    "compiler \<Rightarrow> range_orders \<Rightarrow> protector_config \<Rightarrow> client \<Rightarrow> string \<Rightarrow> Org \<Rightarrow>
     protector \<Rightarrow> error option \<times> protector" where
  "UpdateOrg compile ro cfg cl orgName org p =
     (case org_repos ro cl orgName org of
        Inl err \<Rightarrow> (Some err, p)
      | Inr repos \<Rightarrow>
          (let (errs, p') = update_repos compile ro cfg cl orgName org repos p
           in (NewAggregate errs, p')))"

subsection \<open>The two goroutines\<close>

definition add_error :: "string \<Rightarrow> error option \<times> protector \<Rightarrow> protector" where
  "add_error what = (\<lambda>(err, p). case err of
     None \<Rightarrow> p
   | Some e \<Rightarrow> p\<lparr>pr_errors := pr_errors p @ [''update '' @ what @ '': '' @ e]\<rparr>)"

definition protect_tested ::
    "compiler \<Rightarrow> range_orders \<Rightarrow> protector_config \<Rightarrow> client \<Rightarrow> string \<Rightarrow> protector \<Rightarrow> protector" where
  "protect_tested compile ro cfg cl repo p =
     (if repo \<in> set (pr_completedRepos p) then p
      else case split_on CHR ''/'' repo of
        [orgName, repoName] \<Rightarrow>
          add_error (orgName @ ''/'' @ repoName)
            (UpdateRepo compile ro cfg cl orgName repoName
               (GetRepo (GetOrg (pc_BranchProtection cfg) orgName) repoName) p)
      | _ \<Rightarrow> p\<lparr>pr_errors := pr_errors p @ [''bad presubmit repo: '' @ repo]\<rparr>)"

definition protect_orgs ::
    "compiler \<Rightarrow> range_orders \<Rightarrow> protector_config \<Rightarrow> client \<Rightarrow> string list \<Rightarrow> protector \<Rightarrow> protector" where
  "protect_orgs compile ro cfg cl =
     fold (\<lambda>orgName p. add_error orgName
       (UpdateOrg compile ro cfg cl orgName (GetOrg (pc_BranchProtection cfg) orgName) p))"

definition protect ::
    "compiler \<Rightarrow> range_orders \<Rightarrow> protector_config \<Rightarrow> client \<Rightarrow> protector \<Rightarrow> protector" where
  "protect compile ro cfg cl p =
     (let bp = pc_BranchProtection cfg;
          p1 = protect_orgs compile ro cfg cl (map fst (ro_orgs ro (bp_Orgs bp))) p
      in if \<not> bp_ProtectTested bp then p1
         else fold (protect_tested compile ro cfg cl)
                (map fst (ro_presubmits ro (pc_PresubmitsStatic cfg))) p1)"

definition new_protector :: protector where
  "new_protector = \<lparr>pr_updates = [], pr_errors = [], pr_completedRepos = []\<rparr>"

text \<open>The calls that change GitHub: removal and update of one branch, each with its outcome.\<close>

fun configureBranches ::
    "(string \<Rightarrow> string \<Rightarrow> string \<Rightarrow> 'g \<Rightarrow> error option \<times> 'g) \<Rightarrow>
     (string \<Rightarrow> string \<Rightarrow> string \<Rightarrow> BranchProtectionRequest \<Rightarrow> 'g \<Rightarrow> error option \<times> 'g) \<Rightarrow>
     requirements list \<Rightarrow> 'g \<Rightarrow> protector_error list \<times> 'g" where
  "configureBranches remove update [] g = ([], g)"
| "configureBranches remove update (u # us) g =
     (let (errs1, g1) =
        (case rq_Request u of
           None \<Rightarrow>
             (case remove (rq_Org u) (rq_Repo u) (rq_Branch u) g of
                (None, g1) \<Rightarrow> ([], g1)
              | (Some err, g1) \<Rightarrow> ([RemoveFailed (rq_Org u) (rq_Repo u) (rq_Branch u) err], g1))
         | Some request \<Rightarrow>
             (case update (rq_Org u) (rq_Repo u) (rq_Branch u) request g of
                (None, g1) \<Rightarrow> ([], g1)
              | (Some err, g1) \<Rightarrow>
                  ([UpdateFailed (rq_Org u) (rq_Repo u) (rq_Branch u) request err], g1)));
          (errs2, g2) = configureBranches remove update us g1
      in (errs1 @ errs2, g2))"

subsection \<open>What a run sends\<close>

text \<open>The request the configuration asks for: none, a removal or an update.\<close>

definition wanted ::
    "protector_config \<Rightarrow> string \<Rightarrow> string \<Rightarrow> string \<Rightarrow> BranchProtectionRequest option option" where
  "wanted cfg org repo branch =
     (case GetBranch (GetRepo (GetOrg (pc_BranchProtection cfg) org) repo) branch of
        Inl _ \<Rightarrow> None
      | Inr b \<Rightarrow>
          (case GetPolicy (pc_BranchProtection cfg) org repo branch b
                  (map_get [] (map_of (pc_PresubmitsStatic cfg)) (org @ ''/'' @ repo)) of
             Inr (Some p) \<Rightarrow>
               map_option (\<lambda>prot. if prot then Some (makeRequest p) else None) (pol_Protect p)
           | _ \<Rightarrow> None))"

definition config_repo :: "protector_config \<Rightarrow> string \<Rightarrow> string \<Rightarrow> Repo" where
  "config_repo cfg org repo = GetRepo (GetOrg (pc_BranchProtection cfg) org) repo"

lemma update_branches_set:
  "u \<in> set (fst (update_branches f bs)) \<longleftrightarrow> (\<exists>b \<in> set bs. f b = Inr (Some u))"
  by (induction bs) (auto simp: Let_def split: prod.splits sum.splits option.splits)

lemma update_branches_errors:
  "snd (update_branches f bs) = [] \<longleftrightarrow> (\<forall>b \<in> set bs. \<exists>u. f b = Inr u)"
  by (induction bs) (auto simp: Let_def split: prod.splits sum.splits option.splits)

lemma update_branch_of_sends:
  "update_branch_of cfg cl org repo (config_repo cfg org repo) cs ts (n, gb) = Inr (Some u) \<longleftrightarrow>
     (\<exists>req cur. u = \<lparr>rq_Org = org, rq_Repo = repo, rq_Branch = n, rq_Request = req\<rparr>
        \<and> wanted cfg org repo n = Some req
        \<and> (gb_Protected gb \<or> req \<noteq> None)
        \<and> (pc_verifyRestrictions cfg \<longrightarrow> validateRestrictions org repo req cs ts = [])
        \<and> cl_GetBranchProtection cl org repo n = Inr cur
        \<and> \<not> equalBranchProtections cur req)"
  by (auto simp: update_branch_of_def UpdateBranch_def wanted_def config_repo_def Let_def
      split: sum.splits option.splits if_splits)

text \<open>The names that are excluded, and the branches a repo is updated for.\<close>

definition kept_branch :: "Repo \<Rightarrow> regexp \<Rightarrow> string \<Rightarrow> bool" where
  "kept_branch repo excluded n \<longleftrightarrow> map_of (repo_Branches repo) n \<noteq> None \<or> \<not> excluded n"

lemma add_branches_map_of:
  "map_of (add_branches repo excluded bs m) n =
     (case find (\<lambda>b. gb_Name b = n \<and> kept_branch repo excluded n) (rev bs) of
        None \<Rightarrow> map_of m n | Some b \<Rightarrow> Some b)"
proof (induction bs arbitrary: m)
  case (Cons b bs)
  have "find P (xs @ [y]) = (case find P xs of None \<Rightarrow> if P y then Some y else None | Some z \<Rightarrow> Some z)"
    for P and xs :: "GitHubBranch list" and y by (induction xs) simp_all
  then show ?case using Cons
    by (auto simp: add_branches_def kept_branch_def update_conv' split: option.splits)
qed (simp add: add_branches_def)

lemma add_branches_distinct:
  "distinct (map fst m) \<Longrightarrow> distinct (map fst (add_branches repo excluded bs m))"
  by (induction bs arbitrary: m) (simp_all add: add_branches_def distinct_update)

lemma list_branches_distinct:
  "list_branches cl org repo r excluded = Inr m \<Longrightarrow> distinct (map fst m)"
  by (auto simp: list_branches_def add_branches_distinct split: sum.splits)

definition listed ::
    "client \<Rightarrow> string \<Rightarrow> string \<Rightarrow> Repo \<Rightarrow> regexp \<Rightarrow> string \<Rightarrow> GitHubBranch \<Rightarrow> bool" where
  "listed cl org repo r excluded n b \<longleftrightarrow>
     (\<exists>m. list_branches cl org repo r excluded = Inr m \<and> map_of m n = Some b)"

lemma listed_set:
  "listed cl org repo r excluded n b \<longleftrightarrow>
     (\<exists>m. list_branches cl org repo r excluded = Inr m \<and> (n, b) \<in> set m)"
  unfolding listed_def using list_branches_distinct by (metis map_of_eq_Some_iff)

lemma add_branches_member:
  "map_of (add_branches repo excluded bs m) n = Some b \<Longrightarrow>
     b \<in> set bs \<and> gb_Name b = n \<and> kept_branch repo excluded n \<or> map_of m n = Some b"
  by (auto simp: add_branches_map_of find_Some_iff split: option.splits)
     (metis length_rev nth_mem set_rev)

lemma listed_names:
  assumes "listed cl org repo r excluded n b"
  shows "gb_Name b = n \<and> kept_branch r excluded n
    \<and> (\<exists>only bs. cl_GetBranches cl org repo only = Inr bs \<and> b \<in> set bs)"
  using assms unfolding listed_def list_branches_def
  by (auto split: sum.splits dest!: add_branches_member)

text \<open>An update one repo sends, whatever the order of its branches.\<close>

definition repo_sends ::
    "compiler \<Rightarrow> protector_config \<Rightarrow> client \<Rightarrow> string \<Rightarrow> string \<Rightarrow> requirements \<Rightarrow> bool" where
  "repo_sends compile cfg cl org repo u \<longleftrightarrow>
     (\<exists>g excluded gb cs ts cur.
        rq_Org u = org \<and> rq_Repo u = repo
        \<and> cl_GetRepo cl org repo = Inr g \<and> \<not> skipped_repo g
        \<and> branch_exclusions compile (config_repo cfg org repo) = Inr excluded
        \<and> listed cl org repo (config_repo cfg org repo) excluded (rq_Branch u) gb
        \<and> authorized cfg cl org repo = Inr (cs, ts)
        \<and> wanted cfg org repo (rq_Branch u) = Some (rq_Request u)
        \<and> (gb_Protected gb \<or> rq_Request u \<noteq> None)
        \<and> (pc_verifyRestrictions cfg \<longrightarrow> validateRestrictions org repo (rq_Request u) cs ts = [])
        \<and> cl_GetBranchProtection cl org repo (rq_Branch u) = Inr cur
        \<and> \<not> equalBranchProtections cur (rq_Request u))"

lemma update_branches_sends:
  "u \<in> set (fst (update_branches (update_branch_of cfg cl org repo (config_repo cfg org repo) cs ts) bs))
   \<longleftrightarrow> (\<exists>gb cur. (rq_Branch u, gb) \<in> set bs \<and> rq_Org u = org \<and> rq_Repo u = repo
        \<and> wanted cfg org repo (rq_Branch u) = Some (rq_Request u)
        \<and> (gb_Protected gb \<or> rq_Request u \<noteq> None)
        \<and> (pc_verifyRestrictions cfg \<longrightarrow> validateRestrictions org repo (rq_Request u) cs ts = [])
        \<and> cl_GetBranchProtection cl org repo (rq_Branch u) = Inr cur
        \<and> \<not> equalBranchProtections cur (rq_Request u))"
  unfolding update_branches_set
proof
  assume "\<exists>b \<in> set bs. update_branch_of cfg cl org repo (config_repo cfg org repo) cs ts b = Inr (Some u)"
  then obtain n gb where "(n, gb) \<in> set bs"
    "update_branch_of cfg cl org repo (config_repo cfg org repo) cs ts (n, gb) = Inr (Some u)" by auto
  then show "\<exists>gb cur. (rq_Branch u, gb) \<in> set bs \<and> rq_Org u = org \<and> rq_Repo u = repo
        \<and> wanted cfg org repo (rq_Branch u) = Some (rq_Request u)
        \<and> (gb_Protected gb \<or> rq_Request u \<noteq> None)
        \<and> (pc_verifyRestrictions cfg \<longrightarrow> validateRestrictions org repo (rq_Request u) cs ts = [])
        \<and> cl_GetBranchProtection cl org repo (rq_Branch u) = Inr cur
        \<and> \<not> equalBranchProtections cur (rq_Request u)"
    unfolding update_branch_of_sends by (elim exE conjE) (intro exI [of _ gb] exI conjI; simp)
next
  assume "\<exists>gb cur. (rq_Branch u, gb) \<in> set bs \<and> rq_Org u = org \<and> rq_Repo u = repo
        \<and> wanted cfg org repo (rq_Branch u) = Some (rq_Request u)
        \<and> (gb_Protected gb \<or> rq_Request u \<noteq> None)
        \<and> (pc_verifyRestrictions cfg \<longrightarrow> validateRestrictions org repo (rq_Request u) cs ts = [])
        \<and> cl_GetBranchProtection cl org repo (rq_Branch u) = Inr cur
        \<and> \<not> equalBranchProtections cur (rq_Request u)"
  then obtain gb cur where b: "(rq_Branch u, gb) \<in> set bs" and r: "rq_Org u = org \<and> rq_Repo u = repo
        \<and> wanted cfg org repo (rq_Branch u) = Some (rq_Request u)
        \<and> (gb_Protected gb \<or> rq_Request u \<noteq> None)
        \<and> (pc_verifyRestrictions cfg \<longrightarrow> validateRestrictions org repo (rq_Request u) cs ts = [])
        \<and> cl_GetBranchProtection cl org repo (rq_Branch u) = Inr cur
        \<and> \<not> equalBranchProtections cur (rq_Request u)" by blast
  have "update_branch_of cfg cl org repo (config_repo cfg org repo) cs ts (rq_Branch u, gb) = Inr (Some u)"
    unfolding update_branch_of_sends
    by (rule exI [of _ "rq_Request u"], rule exI [of _ cur]) (use r in simp)
  with b show "\<exists>b \<in> set bs. update_branch_of cfg cl org repo (config_repo cfg org repo) cs ts b = Inr (Some u)"
    by (rule bexI [rotated])
qed

lemma repo_updates_set:
  assumes "range_order (ro_branches ro)"
  shows "u \<in> set (fst (repo_updates compile ro cfg cl org repo (config_repo cfg org repo))) \<longleftrightarrow>
     repo_sends compile cfg cl org repo u"
  unfolding repo_updates_def repo_sends_def listed_set
  by (auto simp: Let_def update_branches_sends assms case_prod_unfold split: sum.splits)

definition orders_ok :: "range_orders \<Rightarrow> bool" where
  "orders_ok ro \<longleftrightarrow> range_order (ro_orgs ro) \<and> range_order (ro_repos ro)
     \<and> range_order (ro_presubmits ro) \<and> range_order (ro_branches ro)"

definition repo_key :: "string \<Rightarrow> string \<Rightarrow> string" where
  "repo_key org repo = org @ ''/'' @ repo"

text \<open>The repos \<open>UpdateOrg\<close> visits, and those of the whole run.\<close>

definition scanned :: "protector_config \<Rightarrow> client \<Rightarrow> string \<Rightarrow> string \<Rightarrow> bool" where
  "scanned cfg cl org repo \<longleftrightarrow>
     (let o' = GetOrg (pc_BranchProtection cfg) org in
      org \<in> fst ` set (bp_Orgs (pc_BranchProtection cfg))
      \<and> (if pol_Protect (org_Policy o') \<noteq> None then
           \<exists>rs. cl_GetRepos cl org = Inr rs \<and> (\<exists>g \<in> set rs. gr_Name g = repo \<and> \<not> skipped_repo g)
         else repo \<in> fst ` set (org_Repos o')))"

definition visited :: "protector_config \<Rightarrow> client \<Rightarrow> string \<Rightarrow> string \<Rightarrow> bool" where
  "visited cfg cl org repo \<longleftrightarrow> scanned cfg cl org repo
     \<or> bp_ProtectTested (pc_BranchProtection cfg)
       \<and> (\<exists>key \<in> fst ` set (pc_PresubmitsStatic cfg). split_on CHR ''/'' key = [org, repo]
            \<and> (\<forall>o' r'. scanned cfg cl o' r' \<longrightarrow> repo_key o' r' \<noteq> key))"

lemma split_key: "split_on CHR ''/'' key = [org, repo] \<Longrightarrow> key = repo_key org repo"
  using join_split_on [of "CHR ''/''" key] by (simp add: repo_key_def)

lemma add_error_simps [simp]:
  "pr_updates (add_error what (err, p)) = pr_updates p"
  "pr_completedRepos (add_error what (err, p)) = pr_completedRepos p"
  by (simp_all add: add_error_def split: option.splits)

lemma UpdateRepo_state:
  assumes "orders_ok ro"
    "UpdateRepo compile ro cfg cl org repo (config_repo cfg org repo) p = (err, p')"
  shows "set (pr_updates p') = set (pr_updates p) \<union> Collect (repo_sends compile cfg cl org repo)"
    and "pr_completedRepos p' = repo_key org repo # pr_completedRepos p"
    and "pr_errors p' = pr_errors p"
proof -
  have "set (fst (repo_updates compile ro cfg cl org repo (config_repo cfg org repo))) =
      Collect (repo_sends compile cfg cl org repo)"
    using assms(1) by (auto simp: repo_updates_set orders_ok_def)
  then show "set (pr_updates p') = set (pr_updates p) \<union> Collect (repo_sends compile cfg cl org repo)"
    "pr_completedRepos p' = repo_key org repo # pr_completedRepos p" "pr_errors p' = pr_errors p"
    using assms(2) by (auto simp: UpdateRepo_def repo_key_def Let_def case_prod_unfold)
qed

lemma update_repos_state:
  assumes "orders_ok ro"
    "update_repos compile ro cfg cl org (GetOrg (pc_BranchProtection cfg) org) rs p = (errs, p')"
  shows "set (pr_updates p') = set (pr_updates p) \<union> {u. \<exists>r \<in> set rs. repo_sends compile cfg cl org r u}
    \<and> set (pr_completedRepos p') = set (pr_completedRepos p) \<union> repo_key org ` set rs
    \<and> pr_errors p' = pr_errors p"
  using assms(2)
proof (induction rs arbitrary: p errs)
  case (Cons r rs)
  obtain err p1 where u: "UpdateRepo compile ro cfg cl org r (config_repo cfg org r) p = (err, p1)"
    by fastforce
  obtain errs2 p2 where
    r: "update_repos compile ro cfg cl org (GetOrg (pc_BranchProtection cfg) org) rs p1 = (errs2, p2)"
    by fastforce
  have "p2 = p'" using Cons.prems u r by (simp add: config_repo_def)
  then show ?case
    using Cons.IH [of p1 errs2] r UpdateRepo_state [OF assms(1) u] by auto
qed simp

lemma org_repos_set:
  assumes "orders_ok ro" "org \<in> fst ` set (bp_Orgs (pc_BranchProtection cfg))"
  shows "case org_repos ro cl org (GetOrg (pc_BranchProtection cfg) org) of
      Inl _ \<Rightarrow> \<forall>r. \<not> scanned cfg cl org r | Inr rs \<Rightarrow> \<forall>r. r \<in> set rs \<longleftrightarrow> scanned cfg cl org r"
  using assms by (auto simp: org_repos_def scanned_def orders_ok_def Let_def split: sum.splits)

lemma UpdateOrg_state:
  assumes "orders_ok ro" "org \<in> fst ` set (bp_Orgs (pc_BranchProtection cfg))"
    "UpdateOrg compile ro cfg cl org (GetOrg (pc_BranchProtection cfg) org) p = (err, p')"
  shows "set (pr_updates p') =
      set (pr_updates p) \<union> {u. \<exists>r. scanned cfg cl org r \<and> repo_sends compile cfg cl org r u}
    \<and> set (pr_completedRepos p') = set (pr_completedRepos p) \<union> {repo_key org r |r. scanned cfg cl org r}
    \<and> pr_errors p' = pr_errors p"
  using assms(3) org_repos_set [OF assms(1,2), of cl] update_repos_state [OF assms(1)]
  unfolding UpdateOrg_def
  by (auto split: sum.splits prod.splits)

lemma protect_orgs_state:
  assumes "orders_ok ro" "set orgs \<subseteq> fst ` set (bp_Orgs (pc_BranchProtection cfg))"
  shows "set (pr_updates (protect_orgs compile ro cfg cl orgs p)) = set (pr_updates p)
      \<union> {u. \<exists>org \<in> set orgs. \<exists>r. scanned cfg cl org r \<and> repo_sends compile cfg cl org r u}
    \<and> set (pr_completedRepos (protect_orgs compile ro cfg cl orgs p)) = set (pr_completedRepos p)
      \<union> {repo_key org r |org r. org \<in> set orgs \<and> scanned cfg cl org r}"
  using assms(2)
proof (induction orgs arbitrary: p)
  case (Cons org orgs)
  obtain err p1 where
    u: "UpdateOrg compile ro cfg cl org (GetOrg (pc_BranchProtection cfg) org) p = (err, p1)" by fastforce
  have "protect_orgs compile ro cfg cl (org # orgs) p = protect_orgs compile ro cfg cl orgs (add_error org (err, p1))"
    using u by (simp add: protect_orgs_def)
  moreover have "org \<in> fst ` set (bp_Orgs (pc_BranchProtection cfg))" using Cons.prems by simp
  ultimately show ?case
    using Cons.IH [of "add_error org (err, p1)"] Cons.prems UpdateOrg_state [OF assms(1) _ u] by auto
qed (simp add: protect_orgs_def)

lemma protect_tested_cases:
  obtains (completed) "key \<in> set (pr_completedRepos p)" "protect_tested compile ro cfg cl key p = p"
  | (repo) org repo err p' where "key \<notin> set (pr_completedRepos p)"
      "split_on CHR ''/'' key = [org, repo]"
      "UpdateRepo compile ro cfg cl org repo (config_repo cfg org repo) p = (err, p')"
      "protect_tested compile ro cfg cl key p = add_error (org @ ''/'' @ repo) (err, p')"
  | (bad) "key \<notin> set (pr_completedRepos p)" "\<forall>org repo. split_on CHR ''/'' key \<noteq> [org, repo]"
      "protect_tested compile ro cfg cl key p =
         p\<lparr>pr_errors := pr_errors p @ [''bad presubmit repo: '' @ key]\<rparr>"
proof (cases "key \<in> set (pr_completedRepos p)")
  case True
  then show ?thesis using completed by (simp add: protect_tested_def)
next
  case False
  show ?thesis
  proof (cases "\<exists>org repo. split_on CHR ''/'' key = [org, repo]")
    case True
    then obtain org r where s: "split_on CHR ''/'' key = [org, r]" by blast
    obtain err p' where "UpdateRepo compile ro cfg cl org r (config_repo cfg org r) p = (err, p')"
      by fastforce
    then show ?thesis using repo [of org r err p'] False s by (simp add: protect_tested_def config_repo_def)
  next
    case notwo: False
    then have "protect_tested compile ro cfg cl key p =
        p\<lparr>pr_errors := pr_errors p @ [''bad presubmit repo: '' @ key]\<rparr>"
      using False by (simp add: protect_tested_def split: list.split)
    then show ?thesis using bad False notwo by blast
  qed
qed

definition tested_sends :: "compiler \<Rightarrow> protector_config \<Rightarrow> client \<Rightarrow> string \<Rightarrow> requirements set" where
  "tested_sends compile cfg cl key =
     {u. split_on CHR ''/'' key = [rq_Org u, rq_Repo u]
         \<and> repo_sends compile cfg cl (rq_Org u) (rq_Repo u) u}"

lemma repo_sends_names: "repo_sends compile cfg cl org repo u \<Longrightarrow> org = rq_Org u \<and> repo = rq_Repo u"
  by (auto simp: repo_sends_def)

lemma protect_tested_state:
  assumes "orders_ok ro"
  shows "set (pr_updates (protect_tested compile ro cfg cl key p)) = set (pr_updates p)
      \<union> (if key \<in> set (pr_completedRepos p) then {} else tested_sends compile cfg cl key)"
    and "set (pr_completedRepos p) \<subseteq> set (pr_completedRepos (protect_tested compile ro cfg cl key p))
    \<and> set (pr_completedRepos (protect_tested compile ro cfg cl key p)) \<subseteq> insert key (set (pr_completedRepos p))"
proof -
  show "set (pr_updates (protect_tested compile ro cfg cl key p)) = set (pr_updates p)
      \<union> (if key \<in> set (pr_completedRepos p) then {} else tested_sends compile cfg cl key)"
  proof (cases rule: protect_tested_cases [of key p compile ro cfg cl])
    case (repo org r err p')
    then have "tested_sends compile cfg cl key = Collect (repo_sends compile cfg cl org r)"
      by (auto simp: tested_sends_def dest: repo_sends_names)
    with repo show ?thesis using UpdateRepo_state(1) [OF assms repo(3)] by simp
  qed (auto simp: tested_sends_def)
  show "set (pr_completedRepos p) \<subseteq> set (pr_completedRepos (protect_tested compile ro cfg cl key p))
    \<and> set (pr_completedRepos (protect_tested compile ro cfg cl key p)) \<subseteq> insert key (set (pr_completedRepos p))"
  proof (cases rule: protect_tested_cases [of key p compile ro cfg cl])
    case (repo org r err p')
    then show ?thesis using UpdateRepo_state(2) [OF assms repo(3)] split_key [OF repo(2)] by auto
  qed auto
qed

lemma protect_tested_all:
  assumes "orders_ok ro"
  shows "set (pr_updates (fold (protect_tested compile ro cfg cl) keys p)) = set (pr_updates p)
      \<union> \<Union> (tested_sends compile cfg cl ` (set keys - set (pr_completedRepos p)))"
proof (induction keys arbitrary: p)
  case (Cons key keys)
  let ?S = "tested_sends compile cfg cl" and ?p1 = "protect_tested compile ro cfg cl key p"
  have "set (pr_completedRepos p) \<subseteq> set (pr_completedRepos ?p1)"
    "set (pr_completedRepos ?p1) \<subseteq> insert key (set (pr_completedRepos p))"
    using protect_tested_state(2) [OF assms, of p compile cfg cl key] by blast+
  then have "(if key \<in> set (pr_completedRepos p) then {} else ?S key)
        \<union> \<Union> (?S ` (set keys - set (pr_completedRepos ?p1)))
      = \<Union> (?S ` (set (key # keys) - set (pr_completedRepos p)))"
    by (cases "key \<in> set (pr_completedRepos p)") (simp, blast, simp, blast)
  then show ?case
    using Cons.IH [of ?p1] protect_tested_state(1) [OF assms, of compile cfg cl key p] by (simp add: Un_assoc)
qed simp

lemma protect_orgs_all:
  fixes compile cfg cl
  assumes "orders_ok ro"
  defines "p1 \<equiv> protect_orgs compile ro cfg cl (map fst (ro_orgs ro (bp_Orgs (pc_BranchProtection cfg)))) new_protector"
  shows "set (pr_updates p1) = {u. scanned cfg cl (rq_Org u) (rq_Repo u)
             \<and> repo_sends compile cfg cl (rq_Org u) (rq_Repo u) u}"
    and "set (pr_completedRepos p1) = {repo_key org r |org r. scanned cfg cl org r}"
proof -
  let ?orgs = "map fst (ro_orgs ro (bp_Orgs (pc_BranchProtection cfg)))"
  have orgs: "set ?orgs = fst ` set (bp_Orgs (pc_BranchProtection cfg))"
    using assms(1) by (simp add: orders_ok_def)
  have sc: "scanned cfg cl org r \<Longrightarrow> org \<in> set ?orgs" for org r
    unfolding orgs by (simp add: scanned_def Let_def)
  have st: "set (pr_updates p1) = {u. \<exists>org \<in> set ?orgs. \<exists>r. scanned cfg cl org r \<and> repo_sends compile cfg cl org r u}"
    "set (pr_completedRepos p1) = {repo_key org r |org r. org \<in> set ?orgs \<and> scanned cfg cl org r}"
    using protect_orgs_state [OF assms(1) eq_refl [OF orgs], of compile cl new_protector, folded p1_def]
    by (simp_all only: new_protector_def protector.simps list.set Un_empty_left)
  show "set (pr_updates p1) = {u. scanned cfg cl (rq_Org u) (rq_Repo u)
             \<and> repo_sends compile cfg cl (rq_Org u) (rq_Repo u) u}"
    unfolding st(1) using sc repo_sends_names by blast
  show "set (pr_completedRepos p1) = {repo_key org r |org r. scanned cfg cl org r}"
    unfolding st(2) using sc by blast
qed

lemma protect_updates:
  assumes ok: "orders_ok ro"
  shows "u \<in> set (pr_updates (protect compile ro cfg cl new_protector)) \<longleftrightarrow>
     visited cfg cl (rq_Org u) (rq_Repo u) \<and> repo_sends compile cfg cl (rq_Org u) (rq_Repo u) u"
proof -
  have keys: "set (map fst (ro_presubmits ro (pc_PresubmitsStatic cfg))) = fst ` set (pc_PresubmitsStatic cfg)"
    using ok by (simp add: orders_ok_def)
  show ?thesis
    unfolding protect_def visited_def Let_def
    by (cases "bp_ProtectTested (pc_BranchProtection cfg)";
        simp only: protect_tested_all [OF ok] protect_orgs_all [OF ok] keys if_False if_True not_True_eq_False
          not_False_eq_True)
       (auto simp: tested_sends_def, force)
qed

subsection \<open>What the requests contain\<close>

definition request_contexts :: "BranchProtectionRequest \<Rightarrow> string set" where
  "request_contexts r =
     (case bpr_RequiredStatusChecks r of None \<Rightarrow> {} | Some c \<Rightarrow> set (rsc_Contexts c))"

lemma request_contexts_makeRequest: "request_contexts (makeRequest p) = required_contexts p"
  by (cases "pol_RequiredStatusChecks p")
     (auto simp: request_contexts_def makeRequest_def required_contexts_def elems_def
      split: option.splits)

definition repo_presubmits :: "protector_config \<Rightarrow> string \<Rightarrow> string \<Rightarrow> Presubmit list" where
  "repo_presubmits cfg org repo = map_get [] (map_of (pc_PresubmitsStatic cfg)) (org @ ''/'' @ repo)"

text \<open>The policy of the levels of a branch, and the contexts of the presubmits that always run on it.\<close>

definition branch_policy :: "protector_config \<Rightarrow> string \<Rightarrow> string \<Rightarrow> string \<Rightarrow> Policy" where
  "branch_policy cfg org repo branch =
     foldr Apply (levels (pc_BranchProtection cfg) org repo branch) zero_Policy"

definition tested_contexts :: "protector_config \<Rightarrow> string \<Rightarrow> string \<Rightarrow> string \<Rightarrow> string set" where
  "tested_contexts cfg org repo branch =
     set (fst (BranchRequirements branch (repo_presubmits cfg org repo)))"

lemma GetPolicy_contexts:
  assumes "GetPolicy bp org repo branch b presubmits = Inr (Some p)"
  shows "required_contexts p = required_contexts b \<union> set (fst (BranchRequirements branch presubmits))"
    and "pol_Protect p = (if bp_ProtectTested bp \<and> fst (BranchRequirements branch presubmits) \<noteq> []
           then Some True else pol_Protect b)"
    and "fst (BranchRequirements branch presubmits) \<noteq> [] \<Longrightarrow> pol_Protect b \<noteq> Some False"
  using assms unfolding GetPolicy_def
  by (auto simp: disable_check_Some required_contexts_Apply Apply_def selectBool_def zero_Policy_def Let_def
      required_contexts_def [of "_\<lparr>pol_Protect := _\<rparr>"] required_contexts_def
      split: prod.splits if_splits option.splits)

lemma wanted_Some:
  assumes "wanted cfg org repo branch = Some req"
  obtains p prot where
    "GetPolicy (pc_BranchProtection cfg) org repo branch (branch_policy cfg org repo branch)
       (repo_presubmits cfg org repo) = Inr (Some p)"
    "pol_Protect p = Some prot" "req = (if prot then Some (makeRequest p) else None)"
  using assms
  by (auto simp: wanted_def GetBranch_levels branch_policy_def repo_presubmits_def Let_def
      split: sum.splits option.splits if_splits)

lemma wanted_update:
  assumes "wanted cfg org repo branch = Some (Some r)"
  shows "request_contexts r =
           (\<Union>l \<in> set (levels (pc_BranchProtection cfg) org repo branch). required_contexts l)
           \<union> tested_contexts cfg org repo branch
         \<and> (pol_Protect (branch_policy cfg org repo branch) = Some True
            \<or> bp_ProtectTested (pc_BranchProtection cfg) \<and> tested_contexts cfg org repo branch \<noteq> {})"
proof (rule wanted_Some [OF assms])
  fix p prot
  assume p: "GetPolicy (pc_BranchProtection cfg) org repo branch (branch_policy cfg org repo branch)
       (repo_presubmits cfg org repo) = Inr (Some p)"
    "pol_Protect p = Some prot" "Some r = (if prot then Some (makeRequest p) else None)"
  then have "r = makeRequest p" "pol_Protect p = Some True" by (auto split: if_splits)
  then show ?thesis
    using GetPolicy_contexts(1,2) [OF p(1)]
    by (auto simp: request_contexts_makeRequest tested_contexts_def branch_policy_def
        required_contexts_foldr split: if_splits)
qed

lemma wanted_removal:
  assumes "wanted cfg org repo branch = Some None"
  shows "pol_Protect (branch_policy cfg org repo branch) = Some False
    \<and> tested_contexts cfg org repo branch = {}"
proof (rule wanted_Some [OF assms])
  fix p prot
  assume p: "GetPolicy (pc_BranchProtection cfg) org repo branch (branch_policy cfg org repo branch)
       (repo_presubmits cfg org repo) = Inr (Some p)"
    "pol_Protect p = Some prot" "None = (if prot then Some (makeRequest p) else None)"
  then have "pol_Protect p = Some False" by (auto split: if_splits)
  then show ?thesis
    using GetPolicy_contexts(2,3) [OF p(1)] by (auto simp: tested_contexts_def split: if_splits)
qed

text \<open>
  C25: Whatever the branch protector sends concerns a branch GitHub lists, of a repo that is neither
  archived nor a private security fork, and differs from the present protection.  An update
  requires exactly the contexts some level of the configuration requires and those of the
  presubmits that always run on the branch, and is sent only where protection is configured
  or tested branches are protected; a protection is removed only where the configuration says
  so and no presubmit always runs.
\<close>

theorem protector_safety:
  assumes "orders_ok ro" "u \<in> set (pr_updates (protect compile ro cfg cl new_protector))"
  defines "org \<equiv> rq_Org u" and "repo \<equiv> rq_Repo u" and "branch \<equiv> rq_Branch u"
  shows "(\<exists>g. cl_GetRepo cl org repo = Inr g \<and> \<not> gr_Archived g
            \<and> \<not> (gr_Private g \<and> SecurityForkNameRE (gr_Name g)))
    \<and> (\<exists>only bs. cl_GetBranches cl org repo only = Inr bs \<and> branch \<in> gb_Name ` set bs)
    \<and> (\<exists>cur. cl_GetBranchProtection cl org repo branch = Inr cur
            \<and> \<not> equalBranchProtections cur (rq_Request u))
    \<and> (case rq_Request u of
         Some r \<Rightarrow> request_contexts r =
             (\<Union>l \<in> set (levels (pc_BranchProtection cfg) org repo branch). required_contexts l)
             \<union> tested_contexts cfg org repo branch
           \<and> (pol_Protect (branch_policy cfg org repo branch) = Some True
              \<or> bp_ProtectTested (pc_BranchProtection cfg) \<and> tested_contexts cfg org repo branch \<noteq> {})
       | None \<Rightarrow> pol_Protect (branch_policy cfg org repo branch) = Some False
           \<and> tested_contexts cfg org repo branch = {})"
proof -
  have s: "repo_sends compile cfg cl org repo u"
    using protect_updates [OF assms(1)] assms(2) by (simp add: org_def repo_def)
  then obtain excluded gb where l: "listed cl org repo (config_repo cfg org repo) excluded branch gb"
    and w: "wanted cfg org repo branch = Some (rq_Request u)"
    and g: "\<exists>g. cl_GetRepo cl org repo = Inr g \<and> \<not> skipped_repo g"
    and c: "\<exists>cur. cl_GetBranchProtection cl org repo branch = Inr cur
              \<and> \<not> equalBranchProtections cur (rq_Request u)"
    unfolding repo_sends_def branch_def by blast
  have names: "\<exists>only bs. cl_GetBranches cl org repo only = Inr bs \<and> branch \<in> gb_Name ` set bs"
    using listed_names [OF l] by blast
  show ?thesis
    using g c names wanted_update wanted_removal w
    by (auto simp: skipped_repo_def split: option.splits)
qed

subsection \<open>Runs without errors\<close>

text \<open>No error for one repo: every listed branch was handled.\<close>

definition repo_clean ::
    "compiler \<Rightarrow> range_orders \<Rightarrow> protector_config \<Rightarrow> client \<Rightarrow> string \<Rightarrow> string \<Rightarrow> bool" where
  "repo_clean compile ro cfg cl org repo \<longleftrightarrow>
     snd (repo_updates compile ro cfg cl org repo (config_repo cfg org repo)) = None"

lemma UpdateRepo_clean:
  "fst (UpdateRepo compile ro cfg cl org repo (config_repo cfg org repo) p) = None \<longleftrightarrow>
     repo_clean compile ro cfg cl org repo"
  by (simp add: UpdateRepo_def repo_clean_def Let_def case_prod_unfold)

lemma update_repos_clean:
  "fst (update_repos compile ro cfg cl org (GetOrg (pc_BranchProtection cfg) org) rs p) = [] \<Longrightarrow>
     r \<in> set rs \<Longrightarrow> repo_clean compile ro cfg cl org r"
  using UpdateRepo_clean
  by (induction rs arbitrary: p)
     (fastforce simp: Let_def case_prod_unfold simp flip: config_repo_def split: option.splits)+

lemma scanned_org: "scanned cfg cl org r \<Longrightarrow> org \<in> fst ` set (bp_Orgs (pc_BranchProtection cfg))"
  by (simp add: scanned_def Let_def)

lemma UpdateOrg_clean:
  assumes "orders_ok ro" "scanned cfg cl org r"
    "fst (UpdateOrg compile ro cfg cl org (GetOrg (pc_BranchProtection cfg) org) p) = None"
  shows "repo_clean compile ro cfg cl org r"
proof -
  from org_repos_set [OF assms(1) scanned_org [OF assms(2)], of cl] assms(2,3) obtain rs where
    rs: "org_repos ro cl org (GetOrg (pc_BranchProtection cfg) org) = Inr rs" "r \<in> set rs"
    by (cases "org_repos ro cl org (GetOrg (pc_BranchProtection cfg) org)") auto
  then show ?thesis
    using assms(3) update_repos_clean [OF _ rs(2)] by (simp add: UpdateOrg_def Let_def case_prod_unfold)
qed

lemma add_error_Nil:
  "pr_errors (add_error what (err, p)) = [] \<longleftrightarrow> err = None \<and> pr_errors p = []"
  by (simp add: add_error_def split: option.splits)

lemma protect_orgs_clean:
  assumes "orders_ok ro" "set orgs \<subseteq> fst ` set (bp_Orgs (pc_BranchProtection cfg))"
    "pr_errors (protect_orgs compile ro cfg cl orgs p) = []"
  shows "pr_errors p = [] \<and>
    (\<forall>org \<in> set orgs. \<forall>r. scanned cfg cl org r \<longrightarrow> repo_clean compile ro cfg cl org r)"
  using assms(2,3)
proof (induction orgs arbitrary: p)
  case (Cons org orgs)
  obtain err p1 where
    u: "UpdateOrg compile ro cfg cl org (GetOrg (pc_BranchProtection cfg) org) p = (err, p1)" by fastforce
  have "pr_errors (add_error org (err, p1)) = []"
    and rest: "\<forall>org \<in> set orgs. \<forall>r. scanned cfg cl org r \<longrightarrow> repo_clean compile ro cfg cl org r"
    using Cons.IH [of "add_error org (err, p1)"] Cons.prems u by (simp_all add: protect_orgs_def)
  then have "err = None" "pr_errors p1 = []" by (simp_all add: add_error_Nil)
  moreover have "pr_errors p1 = pr_errors p"
    using UpdateOrg_state [OF assms(1) _ u] Cons.prems(1) by simp
  moreover have "scanned cfg cl org r \<Longrightarrow> repo_clean compile ro cfg cl org r" for r
    by (rule UpdateOrg_clean [OF assms(1), where p = p]) (use u \<open>err = None\<close> in simp_all)
  ultimately show ?case using rest by simp
qed (simp add: protect_orgs_def)

lemma protect_tested_clean:
  assumes "orders_ok ro" "pr_errors (protect_tested compile ro cfg cl key p) = []"
  shows "pr_errors p = [] \<and> (key \<notin> set (pr_completedRepos p) \<longrightarrow>
    (\<forall>org repo. split_on CHR ''/'' key = [org, repo] \<longrightarrow> repo_clean compile ro cfg cl org repo))"
proof (cases rule: protect_tested_cases [of key p compile ro cfg cl])
  case (repo org r err p')
  then have "err = None" "pr_errors p' = []" using assms(2) by (simp_all add: add_error_Nil)
  then show ?thesis
    using UpdateRepo_state(3) [OF assms(1) repo(3)] UpdateRepo_clean [of compile ro cfg cl org r p] repo
    by simp
qed (use assms in auto)

lemma protect_tested_all_clean:
  assumes "orders_ok ro" "pr_errors (fold (protect_tested compile ro cfg cl) keys p) = []"
  shows "pr_errors p = [] \<and> (\<forall>key \<in> set keys - set (pr_completedRepos p).
    \<forall>org repo. split_on CHR ''/'' key = [org, repo] \<longrightarrow> repo_clean compile ro cfg cl org repo)"
  using assms(2)
proof (induction keys arbitrary: p)
  case (Cons key keys)
  let ?p1 = "protect_tested compile ro cfg cl key p"
  have "pr_errors ?p1 = []"
    and rest: "\<forall>key \<in> set keys - set (pr_completedRepos ?p1).
      \<forall>org repo. split_on CHR ''/'' key = [org, repo] \<longrightarrow> repo_clean compile ro cfg cl org repo"
    using Cons.IH [of ?p1] Cons.prems by simp_all
  moreover have "set (pr_completedRepos ?p1) \<subseteq> insert key (set (pr_completedRepos p))"
    using protect_tested_state(2) [OF assms(1)] by blast
  ultimately show ?case using protect_tested_clean [OF assms(1), of compile cfg cl key p] by auto
qed simp

lemma protect_clean:
  assumes ok: "orders_ok ro" and e: "pr_errors (protect compile ro cfg cl new_protector) = []"
    and v: "visited cfg cl org repo"
  shows "repo_clean compile ro cfg cl org repo"
proof -
  let ?orgs = "map fst (ro_orgs ro (bp_Orgs (pc_BranchProtection cfg)))"
  let ?keys = "map fst (ro_presubmits ro (pc_PresubmitsStatic cfg))"
  let ?p1 = "protect_orgs compile ro cfg cl ?orgs new_protector"
  have keys: "set ?keys = fst ` set (pc_PresubmitsStatic cfg)"
    and orgs: "set ?orgs = fst ` set (bp_Orgs (pc_BranchProtection cfg))"
    using ok by (simp_all add: orders_ok_def)
  have tested: "bp_ProtectTested (pc_BranchProtection cfg) \<Longrightarrow>
      pr_errors (fold (protect_tested compile ro cfg cl) ?keys ?p1) = []"
    and "\<not> bp_ProtectTested (pc_BranchProtection cfg) \<Longrightarrow> pr_errors ?p1 = []"
    using e by (simp_all add: protect_def Let_def)
  then have "pr_errors ?p1 = []" using protect_tested_all_clean [OF ok] by blast
  then have scan: "\<forall>org r. scanned cfg cl org r \<longrightarrow> repo_clean compile ro cfg cl org r"
    using protect_orgs_clean [OF ok eq_refl [OF orgs]] scanned_org unfolding orgs by blast
  have compl: "set (pr_completedRepos ?p1) = {repo_key org r |org r. scanned cfg cl org r}"
    by (rule protect_orgs_all(2) [OF ok])
  show ?thesis
  proof (cases "scanned cfg cl org repo")
    case False
    with v obtain key where t: "bp_ProtectTested (pc_BranchProtection cfg)"
      and k: "key \<in> fst ` set (pc_PresubmitsStatic cfg)" "split_on CHR ''/'' key = [org, repo]"
        "\<forall>o' r'. scanned cfg cl o' r' \<longrightarrow> repo_key o' r' \<noteq> key"
      unfolding visited_def by blast
    have "key \<in> set ?keys - set (pr_completedRepos ?p1)" unfolding keys compl using k(1,3) by blast
    then show ?thesis using protect_tested_all_clean [OF ok tested [OF t]] k(2) by blast
  qed (use scan in blast)
qed

subsection \<open>Agreement with GitHub\<close>

text \<open>
  What GitHub documents of the calls: a protection that was put is read back, lists as sets and
  logins up to their case; a restriction of nobody is left out; the listings of branches are
  those of the repo, the second only with the protected ones; nothing else changes.
\<close>

definition stores_restrictions :: "GitHubRestrictions option \<Rightarrow> RestrictionsRequest \<Rightarrow> bool" where
  "stores_restrictions state request \<longleftrightarrow>
     (if rr_Users request = None \<and> rr_Teams request = None then state = None
      else \<exists>s. state = Some s
        \<and> distinct (map gt_Slug (ghr_Teams s))
        \<and> gt_Slug ` set (ghr_Teams s) = set (elems (rr_Teams request))
        \<and> distinct (map (\<lambda>u. NormLogin (gu_Login u)) (ghr_Users s))
        \<and> (\<lambda>u. NormLogin (gu_Login u)) ` set (ghr_Users s) = NormLogin ` set (elems (rr_Users request)))"

definition stores :: "GitHubProtection option \<Rightarrow> BranchProtectionRequest option \<Rightarrow> bool" where
  "stores state request \<longleftrightarrow>
     rel_option (\<lambda>s r.
       rel_option (\<lambda>s r. rsc_Strict s = rsc_Strict r \<and> distinct (rsc_Contexts s)
           \<and> set (rsc_Contexts s) = set (rsc_Contexts r))
         (gp_RequiredStatusChecks s) (bpr_RequiredStatusChecks r)
       \<and> gp_EnforceAdmins s = (bpr_EnforceAdmins r = Some True)
       \<and> rel_option (\<lambda>s r. prr_DismissStaleReviews s = prq_DismissStaleReviews r
           \<and> prr_RequireCodeOwnerReviews s = prq_RequireCodeOwnerReviews r
           \<and> prr_RequiredApprovingReviewCount s = prq_RequiredApprovingReviewCount r
           \<and> stores_restrictions (prr_DismissalRestrictions s) (prq_DismissalRestrictions r))
         (gp_RequiredPullRequestReviews s) (bpr_RequiredPullRequestReviews r)
       \<and> (case bpr_Restrictions r of None \<Rightarrow> gp_Restrictions s = None
          | Some q \<Rightarrow> stores_restrictions (gp_Restrictions s) q)) state request"

text \<open>No two logins of a restriction name the same user.\<close>

definition plain_restrictions :: "RestrictionsRequest \<Rightarrow> bool" where
  "plain_restrictions q \<longleftrightarrow> distinct (map NormLogin (elems (rr_Users q)))"

definition plain_logins :: "BranchProtectionRequest \<Rightarrow> bool" where
  "plain_logins r \<longleftrightarrow> pred_option plain_restrictions (bpr_Restrictions r)
     \<and> pred_option (\<lambda>q. plain_restrictions (prq_DismissalRestrictions q)) (bpr_RequiredPullRequestReviews r)"

lemma equalStringSlices_distinct:
  assumes "distinct s1" "distinct s2" "set s1 = set s2"
  shows "equalStringSlices (Some s1) (Some s2)"
proof -
  have "length s1 = length s2" using assms by (metis distinct_card)
  moreover have "sort s1 = sort s2" by (rule sorted_distinct_set_unique) (use assms in simp_all)
  ultimately show ?thesis by simp
qed

lemma equalRestrictions_stores:
  assumes "stores_restrictions state q" "plain_restrictions q"
    "q = zero_RestrictionsRequest \<or> (\<exists>r. makeRestrictions (Some r) = Some q)"
  shows "equalRestrictions state (Some q)"
proof (cases "q = zero_RestrictionsRequest")
  case True
  then show ?thesis using assms(1) by (simp add: stores_restrictions_def zero_RestrictionsRequest_def)
next
  case False
  then obtain r where "makeRestrictions (Some r) = Some q" using assms(3) by blast
  then have q: "rr_Users q = Some (set_list (elems (rs_Users r)))"
    "rr_Teams q = Some (set_list (elems (rs_Teams r)))" by auto
  then obtain s where s: "state = Some s" "distinct (map gt_Slug (ghr_Teams s))"
    "gt_Slug ` set (ghr_Teams s) = set (elems (rr_Teams q))"
    "distinct (map (\<lambda>u. NormLogin (gu_Login u)) (ghr_Users s))"
    "(\<lambda>u. NormLogin (gu_Login u)) ` set (ghr_Users s) = NormLogin ` set (elems (rr_Users q))"
    using assms(1) by (auto simp: stores_restrictions_def)
  have "equalStringSlices (Some (map gt_Slug (ghr_Teams s))) (rr_Teams q)"
    unfolding q(2) by (rule equalStringSlices_distinct) (use s q in \<open>simp_all add: elems_def\<close>)
  moreover have "equalStringSlices (Some (map (\<lambda>u. NormLogin (gu_Login u)) (ghr_Users s)))
      (Some (map NormLogin (elems (rr_Users q))))"
    by (rule equalStringSlices_distinct) (use s assms(2) in \<open>simp_all add: plain_restrictions_def\<close>)
  ultimately show ?thesis by (simp only: s(1) equalRestrictions.simps Let_def)
qed

lemma makeReviews_dismissal:
  assumes "makeReviews rp = Some q"
  shows "prq_DismissalRestrictions q = zero_RestrictionsRequest
    \<or> (\<exists>r. makeRestrictions (Some r) = Some (prq_DismissalRestrictions q))"
proof -
  have "prq_DismissalRestrictions q =
      (case makeRestrictions (rp_DismissalRestrictions (the rp)) of None \<Rightarrow> zero_RestrictionsRequest | Some r \<Rightarrow> r)"
    using assms unfolding makeReviews_def
    by (cases rp; cases "rp_Approvals (the rp)"; cases "the (rp_Approvals (the rp)) = 0") auto
  then show ?thesis by (cases "rp_DismissalRestrictions (the rp)") auto
qed

lemma equalBranchProtections_stores:
  assumes "stores state (Some (makeRequest p))" "plain_logins (makeRequest p)"
  shows "equalBranchProtections state (Some (makeRequest p))"
proof -
  obtain s where s: "state = Some s" using assms(1) by (auto simp: stores_def option_rel_Some2)
  have checks: "equalRequiredStatusChecks (gp_RequiredStatusChecks s) (makeChecks (pol_RequiredStatusChecks p))"
  proof (cases "makeChecks (pol_RequiredStatusChecks p)")
    case None
    then show ?thesis using assms(1) unfolding s stores_def makeRequest_def by simp
  next
    case (Some c)
    then have "distinct (rsc_Contexts c)" by (cases "pol_RequiredStatusChecks p") auto
    moreover obtain r where "gp_RequiredStatusChecks s = Some r" "rsc_Strict r = rsc_Strict c"
      "distinct (rsc_Contexts r)" "set (rsc_Contexts r) = set (rsc_Contexts c)"
      using assms(1) Some unfolding s stores_def makeRequest_def by (auto simp: option_rel_Some2)
    ultimately show ?thesis
      using equalStringSlices_distinct unfolding Some by (simp del: equalStringSlices.simps)
  qed
  have admins: "equalAdminEnforcement (gp_EnforceAdmins s) (makeAdmins (pol_Admins p))"
    using assms(1) unfolding s stores_def makeRequest_def by (cases "pol_Admins p") auto
  have restrictions: "equalRestrictions (gp_Restrictions s) (makeRestrictions (pol_Restrictions p))"
  proof (cases "makeRestrictions (pol_Restrictions p)")
    case None
    then show ?thesis using assms(1) unfolding s stores_def makeRequest_def by simp
  next
    case (Some q)
    have "\<exists>r. makeRestrictions (Some r) = Some q" using Some by (cases "pol_Restrictions p") auto
    moreover have "stores_restrictions (gp_Restrictions s) q" "plain_restrictions q"
      using assms Some unfolding s stores_def makeRequest_def plain_logins_def by simp_all
    ultimately show ?thesis unfolding Some by (intro equalRestrictions_stores disjI2)
  qed
  have reviews: "equalRequiredPullRequestReviews (gp_RequiredPullRequestReviews s)
      (makeReviews (pol_RequiredPullRequestReviews p))"
  proof (cases "makeReviews (pol_RequiredPullRequestReviews p)")
    case None
    then show ?thesis using assms(1) unfolding s stores_def makeRequest_def by simp
  next
    case (Some q)
    then have "prq_DismissalRestrictions q = zero_RestrictionsRequest
        \<or> (\<exists>r. makeRestrictions (Some r) = Some (prq_DismissalRestrictions q))"
      by (rule makeReviews_dismissal)
    moreover obtain r where r: "gp_RequiredPullRequestReviews s = Some r"
      "prr_DismissStaleReviews r = prq_DismissStaleReviews q"
      "prr_RequireCodeOwnerReviews r = prq_RequireCodeOwnerReviews q"
      "prr_RequiredApprovingReviewCount r = prq_RequiredApprovingReviewCount q"
      "stores_restrictions (prr_DismissalRestrictions r) (prq_DismissalRestrictions q)"
      using assms(1) Some unfolding s stores_def makeRequest_def by (auto simp: option_rel_Some2)
    moreover have "plain_restrictions (prq_DismissalRestrictions q)"
      using assms(2) Some unfolding makeRequest_def plain_logins_def by simp
    ultimately have "equalRestrictions (prr_DismissalRestrictions r) (Some (prq_DismissalRestrictions q))"
      by (intro equalRestrictions_stores)
    then show ?thesis by (simp only: Some r equalRequiredPullRequestReviews.simps simp_thms)
  qed
  show ?thesis using checks admins restrictions reviews by (simp add: s makeRequest_def)
qed

definition github_law ::
    "('g \<Rightarrow> client) \<Rightarrow> (string \<Rightarrow> string \<Rightarrow> string \<Rightarrow> 'g \<Rightarrow> error option \<times> 'g) \<Rightarrow>
     (string \<Rightarrow> string \<Rightarrow> string \<Rightarrow> BranchProtectionRequest \<Rightarrow> 'g \<Rightarrow> error option \<times> 'g) \<Rightarrow>
     ('g \<Rightarrow> string \<times> string \<times> string \<Rightarrow> GitHubProtection option) \<Rightarrow>
     (string \<Rightarrow> string \<Rightarrow> string list result) \<Rightarrow> bool" where
  "github_law cl remove update prot names \<longleftrightarrow>
     (\<forall>g g'. cl_GetRepo (cl g) = cl_GetRepo (cl g') \<and> cl_GetRepos (cl g) = cl_GetRepos (cl g')
        \<and> cl_ListCollaborators (cl g) = cl_ListCollaborators (cl g')
        \<and> cl_ListRepoTeams (cl g) = cl_ListRepoTeams (cl g'))
     \<and> (\<forall>g org repo only. cl_GetBranches (cl g) org repo only =
          (case names org repo of Inl err \<Rightarrow> Inl err
           | Inr ns \<Rightarrow> Inr (map (\<lambda>n. \<lparr>gb_Name = n, gb_Protected = only\<rparr>)
               (filter (\<lambda>n. only \<longrightarrow> prot g (org, repo, n) \<noteq> None) ns))))
     \<and> (\<forall>g org repo n cur. cl_GetBranchProtection (cl g) org repo n = Inr cur \<longrightarrow>
          cur = prot g (org, repo, n))
     \<and> (\<forall>g g' org repo n. remove org repo n g = (None, g') \<longrightarrow>
          prot g' = (prot g)((org, repo, n) := None))
     \<and> (\<forall>g g' org repo n q. update org repo n q g = (None, g') \<longrightarrow>
          (\<exists>s. stores s (Some q) \<and> prot g' = (prot g)((org, repo, n) := s)))
     \<and> (\<forall>g g' org repo n e. remove org repo n g = (Some e, g') \<longrightarrow> prot g' = prot g)
     \<and> (\<forall>g g' org repo n q e. update org repo n q g = (Some e, g') \<longrightarrow> prot g' = prot g)"

lemmas law_reads = github_law_def [THEN iffD1, THEN conjunct1, rule_format]
lemmas law_rest = github_law_def [THEN iffD1, THEN conjunct2]
lemmas law_lists = law_rest [THEN conjunct1, rule_format]
lemmas law_current = law_rest [THEN conjunct2, THEN conjunct1, rule_format]
lemmas law_calls = law_rest [THEN conjunct2, THEN conjunct2]
lemmas law_removed = law_calls [THEN conjunct1, rule_format]
lemmas law_updated = law_calls [THEN conjunct2, THEN conjunct1, rule_format]
lemmas law_failed =
  law_calls [THEN conjunct2, THEN conjunct2, THEN conjunct1, rule_format]
  law_calls [THEN conjunct2, THEN conjunct2, THEN conjunct2, rule_format]

definition branch_failed :: "protector_error list \<Rightarrow> string \<times> string \<times> string \<Rightarrow> bool" where
  "branch_failed errs = (\<lambda>(org, repo, n).
     \<exists>e \<in> set errs. case e of RemoveFailed o' r' n' _ \<Rightarrow> (o', r', n') = (org, repo, n)
       | UpdateFailed o' r' n' _ _ \<Rightarrow> (o', r', n') = (org, repo, n))"

definition rq_key :: "requirements \<Rightarrow> string \<times> string \<times> string" where
  "rq_key u = (rq_Org u, rq_Repo u, rq_Branch u)"

text \<open>One update, and the whole list.\<close>

lemma configure_one:
  assumes law: "github_law cl remove update prot names"
    and c: "configureBranches remove update [u] g = (errs, g')"
  shows "(\<forall>k. k \<noteq> rq_key u \<longrightarrow> prot g' k = prot g k)
    \<and> (branch_failed errs (rq_key u) \<or> stores (prot g' (rq_key u)) (rq_Request u))"
proof (cases "rq_Request u")
  case None
  obtain e g1 where r: "remove (rq_Org u) (rq_Repo u) (rq_Branch u) g = (e, g1)" by fastforce
  show ?thesis
  proof (cases e)
    case None
    then have "g' = g1" using c r \<open>rq_Request u = None\<close> by simp
    moreover have "prot g1 = (prot g)(rq_key u := None)"
      using law_removed [OF law] r None by (simp add: rq_key_def)
    ultimately show ?thesis using \<open>rq_Request u = None\<close> by (simp add: stores_def)
  next
    case (Some err)
    then have "g' = g1" "branch_failed errs (rq_key u)"
      using c r \<open>rq_Request u = None\<close> by (auto simp: branch_failed_def rq_key_def)
    moreover have "prot g1 = prot g" using law_failed(1) [OF law] r Some by simp
    ultimately show ?thesis by simp
  qed
next
  case (Some q)
  obtain e g1 where r: "update (rq_Org u) (rq_Repo u) (rq_Branch u) q g = (e, g1)" by fastforce
  show ?thesis
  proof (cases e)
    case None
    then have "g' = g1" using c r Some by simp
    moreover obtain s where "stores s (Some q)" "prot g1 = (prot g)(rq_key u := s)"
      using law_updated [OF law] r None unfolding rq_key_def by blast
    ultimately show ?thesis using Some by simp
  next
    case (Some err)
    then have "g' = g1" "branch_failed errs (rq_key u)"
      using c r \<open>rq_Request u = Some q\<close> by (auto simp: branch_failed_def rq_key_def)
    moreover have "prot g1 = prot g" using law_failed(2) [OF law] r Some by simp
    ultimately show ?thesis by simp
  qed
qed

lemma configure_Cons:
  "configureBranches remove update (u # us) g =
     (let (errs1, g1) = configureBranches remove update [u] g;
          (errs2, g2) = configureBranches remove update us g1 in (errs1 @ errs2, g2))"
  by (simp add: Let_def case_prod_unfold split: option.splits)

lemma branch_failed_append [simp]:
  "branch_failed (errs1 @ errs2) k \<longleftrightarrow> branch_failed errs1 k \<or> branch_failed errs2 k"
  by (cases k) (simp add: branch_failed_def bex_Un)

lemma configureBranches_stores:
  assumes law: "github_law cl remove update prot names"
    and "configureBranches remove update us g = (errs, g')"
    and "\<forall>u \<in> set us. rq_key u = k \<longrightarrow> rq_Request u = req"
  shows "if k \<in> rq_key ` set us then branch_failed errs k \<or> stores (prot g' k) req
         else prot g' k = prot g k"
  using assms(2,3)
proof (induction us arbitrary: g errs)
  case (Cons u us)
  obtain errs1 g1 where s1: "configureBranches remove update [u] g = (errs1, g1)"
    by (rule prod.exhaust)
  obtain errs2 g2 where s2: "configureBranches remove update us g1 = (errs2, g2)"
    by (rule prod.exhaust)
  have "(errs1 @ errs2, g2) = (errs, g')"
    using Cons.prems(1) unfolding configure_Cons [of remove update u us] s1 Let_def prod.case s2 .
  then have s: "configureBranches remove update us g1 = (errs2, g')" "errs = errs1 @ errs2"
    using s2 by simp_all
  have ih: "if k \<in> rq_key ` set us then branch_failed errs2 k \<or> stores (prot g' k) req
      else prot g' k = prot g1 k" using Cons.IH [OF s(1)] Cons.prems(2) by simp
  have one: "k \<noteq> rq_key u \<Longrightarrow> prot g1 k = prot g k"
    "k = rq_key u \<Longrightarrow> branch_failed errs1 k \<or> stores (prot g1 k) req"
    using configure_one [OF law s1] Cons.prems(2) by (cases k; auto)+
  show ?case
    using ih one by (cases "k = rq_key u"; cases "k \<in> rq_key ` set us") (simp_all add: s(2), blast+)
qed simp

lemma find_names:
  "find (\<lambda>b. gb_Name b = n \<and> P) (rev (map (\<lambda>n. \<lparr>gb_Name = n, gb_Protected = only\<rparr>) ns)) =
     (if n \<in> set ns \<and> P then Some \<lparr>gb_Name = n, gb_Protected = only\<rparr> else None)"
proof -
  have "find (\<lambda>b. gb_Name b = n \<and> P) (map (\<lambda>n. \<lparr>gb_Name = n, gb_Protected = only\<rparr>) xs) =
     (if n \<in> set xs \<and> P then Some \<lparr>gb_Name = n, gb_Protected = only\<rparr> else None)" for xs
    by (induction xs) auto
  then show ?thesis by (simp add: rev_map)
qed

lemma listed_law:
  assumes "github_law cl remove update prot names"
  shows "listed (cl g) org repo r excluded n gb \<longleftrightarrow>
    (\<exists>ns. names org repo = Inr ns \<and> n \<in> set ns) \<and> kept_branch r excluded n
    \<and> gb = \<lparr>gb_Name = n, gb_Protected = (prot g (org, repo, n) \<noteq> None)\<rparr>"
proof -
  show ?thesis
    unfolding listed_def list_branches_def law_lists [OF assms]
    by (cases "names org repo"; auto simp: add_branches_map_of find_names simp del: map_of_eq_Some_iff)
qed

lemma update_branch_of_ok:
  assumes "update_branch_of cfg cl org repo (config_repo cfg org repo) cs ts (n, gb) = Inr u"
    "wanted cfg org repo n = Some req"
  shows "\<not> gb_Protected gb \<and> req = None
    \<or> (\<exists>cur. cl_GetBranchProtection cl org repo n = Inr cur \<and> equalBranchProtections cur req)
    \<or> u = Some \<lparr>rq_Org = org, rq_Repo = repo, rq_Branch = n, rq_Request = req\<rparr>"
  using assms
  by (auto simp: update_branch_of_def UpdateBranch_def wanted_def config_repo_def Let_def
      split: sum.splits option.splits if_splits)

lemma repo_clean_branch:
  assumes ok: "orders_ok ro" and clean: "repo_clean compile ro cfg cl org repo"
    and g: "cl_GetRepo cl org repo = Inr gr" "\<not> skipped_repo gr"
    and ex: "branch_exclusions compile (config_repo cfg org repo) = Inr excluded"
    and l: "listed cl org repo (config_repo cfg org repo) excluded n gb"
    and w: "wanted cfg org repo n = Some req"
  shows "\<not> gb_Protected gb \<and> req = None
    \<or> (\<exists>cur. cl_GetBranchProtection cl org repo n = Inr cur \<and> equalBranchProtections cur req)
    \<or> repo_sends compile cfg cl org repo \<lparr>rq_Org = org, rq_Repo = repo, rq_Branch = n, rq_Request = req\<rparr>"
proof -
  obtain m where m: "list_branches cl org repo (config_repo cfg org repo) excluded = Inr m"
    "(n, gb) \<in> set m" using l unfolding listed_set by blast
  obtain cs ts where a: "authorized cfg cl org repo = Inr (cs, ts)"
    using clean g ex m by (cases "authorized cfg cl org repo") (auto simp: repo_clean_def repo_updates_def)
  let ?f = "update_branch_of cfg cl org repo (config_repo cfg org repo) cs ts"
  have upd: "repo_updates compile ro cfg cl org repo (config_repo cfg org repo) =
      (let (us, errs) = update_branches ?f (ro_branches ro m) in (us, NewAggregate errs))"
    using g ex m a by (simp add: repo_updates_def)
  have mem: "(n, gb) \<in> set (ro_branches ro m)" using ok m(2) by (simp add: orders_ok_def)
  have "snd (update_branches ?f (ro_branches ro m)) = []"
    using clean unfolding repo_clean_def upd by (simp add: Let_def case_prod_unfold)
  then obtain u where u: "?f (n, gb) = Inr u" using mem unfolding update_branches_errors by blast
  have "repo_sends compile cfg cl org repo v" if "u = Some v" for v
  proof -
    have "v \<in> set (fst (update_branches ?f (ro_branches ro m)))"
      using mem u that unfolding update_branches_set by blast
    then have "v \<in> set (fst (repo_updates compile ro cfg cl org repo (config_repo cfg org repo)))"
      unfolding upd by (simp add: Let_def case_prod_unfold)
    then show ?thesis using ok by (simp add: repo_updates_set orders_ok_def)
  qed
  then show ?thesis using update_branch_of_ok [OF u w] by blast
qed

text \<open>A branch the protector is responsible for, with the request the configuration asks for.\<close>

definition managed ::
    "compiler \<Rightarrow> protector_config \<Rightarrow> client \<Rightarrow> (string \<Rightarrow> string \<Rightarrow> string list result) \<Rightarrow>
     string \<Rightarrow> string \<Rightarrow> string \<Rightarrow> BranchProtectionRequest option \<Rightarrow> bool" where
  "managed compile cfg cl names org repo n req \<longleftrightarrow>
     visited cfg cl org repo
     \<and> (\<exists>gr. cl_GetRepo cl org repo = Inr gr \<and> \<not> skipped_repo gr)
     \<and> (\<exists>excluded. branch_exclusions compile (config_repo cfg org repo) = Inr excluded
          \<and> kept_branch (config_repo cfg org repo) excluded n)
     \<and> (\<exists>ns. names org repo = Inr ns \<and> n \<in> set ns)
     \<and> wanted cfg org repo n = Some req"

lemma managed_reads:
  assumes "github_law cl remove update prot names"
  shows "managed compile cfg (cl g) names org repo n req \<longleftrightarrow> managed compile cfg (cl g') names org repo n req"
  using law_reads [OF assms, of g g'] by (simp add: managed_def visited_def scanned_def)

lemma sent_managed:
  assumes law: "github_law cl remove update prot names" and ok: "orders_ok ro"
    and u: "u \<in> set (pr_updates (protect compile ro cfg (cl g) new_protector))"
  shows "managed compile cfg (cl g) names (rq_Org u) (rq_Repo u) (rq_Branch u) (rq_Request u)
    \<and> \<not> equalBranchProtections (prot g (rq_key u)) (rq_Request u)"
  using u law_current [OF law, of g "rq_Org u" "rq_Repo u" "rq_Branch u"]
  unfolding protect_updates [OF ok] repo_sends_def managed_def rq_key_def listed_law [OF law]
  by (elim conjE exE) (intro conjI exI; blast | simp)

lemma enforced:
  assumes law: "github_law cl remove update prot names" and ok: "orders_ok ro"
    and noerr: "pr_errors (protect compile ro cfg (cl g) new_protector) = []"
    and conf: "configureBranches remove update
      (pr_updates (protect compile ro cfg (cl g) new_protector)) g = (errs, g')"
    and plain: "\<forall>u \<in> set (pr_updates (protect compile ro cfg (cl g) new_protector)).
      pred_option plain_logins (rq_Request u)"
    and m: "managed compile cfg (cl g) names org repo n req"
  shows "branch_failed errs (org, repo, n) \<or> equalBranchProtections (prot g' (org, repo, n)) req"
proof -
  let ?us = "pr_updates (protect compile ro cfg (cl g) new_protector)" and ?k = "(org, repo, n)"
  have w: "wanted cfg org repo n = Some req" and v: "visited cfg (cl g) org repo"
    using m by (simp_all add: managed_def)
  have same: "\<forall>u \<in> set ?us. rq_key u = ?k \<longrightarrow> rq_Request u = req"
    using sent_managed [OF law ok] w by (fastforce simp: managed_def rq_key_def)
  note after = configureBranches_stores [OF law conf same]
  show ?thesis
  proof (cases "?k \<in> rq_key ` set ?us")
    case True
    then obtain u where u: "u \<in> set ?us" "rq_key u = ?k" by auto
    have "equalBranchProtections (prot g' ?k) req" if st: "stores (prot g' ?k) req"
    proof (cases req)
      case None
      then show ?thesis using st by (simp add: stores_def)
    next
      case (Some q)
      then obtain p where "q = makeRequest p" using wanted_Some [OF w] by (metis option.inject option.distinct(1))
      moreover have "plain_logins q" using plain u same Some by fastforce
      ultimately show ?thesis using st Some equalBranchProtections_stores by simp
    qed
    then show ?thesis using after True by auto
  next
    case False
    then have prot: "prot g' ?k = prot g ?k" using after by simp
    obtain gr excluded where r: "cl_GetRepo (cl g) org repo = Inr gr" "\<not> skipped_repo gr"
      "branch_exclusions compile (config_repo cfg org repo) = Inr excluded"
      "listed (cl g) org repo (config_repo cfg org repo) excluded n
         \<lparr>gb_Name = n, gb_Protected = (prot g ?k \<noteq> None)\<rparr>"
      using m unfolding managed_def listed_law [OF law] by blast
    from repo_clean_branch [OF ok protect_clean [OF ok noerr v] r w]
    have "prot g ?k = None \<and> req = None \<or> equalBranchProtections (prot g ?k) req
        \<or> \<lparr>rq_Org = org, rq_Repo = repo, rq_Branch = n, rq_Request = req\<rparr> \<in> set ?us"
      unfolding protect_updates [OF ok] using v law_current [OF law] by auto
    moreover have "\<lparr>rq_Org = org, rq_Repo = repo, rq_Branch = n, rq_Request = req\<rparr> \<notin> set ?us"
      using False by (force simp: rq_key_def)
    ultimately show ?thesis using prot by auto
  qed
qed


subsection \<open>A sample run\<close>

text \<open>
  GitHub with one repo that has the branch \<open>master\<close>, which stores every request: the world is the
  map of protections.
\<close>

fun sample_users :: "string list \<Rightarrow> GitHubUser list" where
  "sample_users [] = []"
| "sample_users (l # ls) =
     (if NormLogin l \<in> set (map NormLogin ls) then sample_users ls
      else \<lparr>gu_Login = l, gu_Push = True, gu_Admin = False\<rparr> # sample_users ls)"

lemma sample_users: "map (\<lambda>u. NormLogin (gu_Login u)) (sample_users ls) = remdups (map NormLogin ls)"
  by (induction ls) simp_all

definition sample_restrictions :: "RestrictionsRequest \<Rightarrow> GitHubRestrictions option" where
  "sample_restrictions q =
     (if rr_Users q = None \<and> rr_Teams q = None then None
      else Some \<lparr>ghr_Users = sample_users (elems (rr_Users q)),
                 ghr_Teams = map (\<lambda>s. \<lparr>gt_Slug = s, gt_Permission = RepoPush\<rparr>)
                   (remdups (elems (rr_Teams q)))\<rparr>)"

definition sample_stored :: "BranchProtectionRequest \<Rightarrow> GitHubProtection" where
  "sample_stored q =
     \<lparr>gp_RequiredStatusChecks =
        map_option (\<lambda>c. c\<lparr>rsc_Contexts := remdups (rsc_Contexts c)\<rparr>) (bpr_RequiredStatusChecks q),
      gp_EnforceAdmins = (bpr_EnforceAdmins q = Some True),
      gp_RequiredPullRequestReviews = map_option (\<lambda>r.
        \<lparr>prr_DismissalRestrictions = sample_restrictions (prq_DismissalRestrictions r),
         prr_DismissStaleReviews = prq_DismissStaleReviews r,
         prr_RequireCodeOwnerReviews = prq_RequireCodeOwnerReviews r,
         prr_RequiredApprovingReviewCount = prq_RequiredApprovingReviewCount r\<rparr>)
        (bpr_RequiredPullRequestReviews q),
      gp_Restrictions = (case bpr_Restrictions q of None \<Rightarrow> None | Some r \<Rightarrow> sample_restrictions r)\<rparr>"

type_synonym sample_world = "string \<times> string \<times> string \<Rightarrow> GitHubProtection option"

definition sample_client :: "sample_world \<Rightarrow> client" where
  "sample_client g =
     \<lparr>cl_GetBranchProtection = (\<lambda>org repo n. Inr (g (org, repo, n))),
      cl_GetBranches = (\<lambda>org repo only. Inr (map (\<lambda>n. \<lparr>gb_Name = n, gb_Protected = only\<rparr>)
        (filter (\<lambda>n. only \<longrightarrow> g (org, repo, n) \<noteq> None) [''master'']))),
      cl_GetRepo = (\<lambda>_ _. Inr \<lparr>gr_Name = ''repo'', gr_Archived = False, gr_Private = False\<rparr>),
      cl_GetRepos = (\<lambda>_. Inr []), cl_ListCollaborators = (\<lambda>_ _. Inr []),
      cl_ListRepoTeams = (\<lambda>_ _. Inr [])\<rparr>"

definition sample_remove :: "string \<Rightarrow> string \<Rightarrow> string \<Rightarrow> sample_world \<Rightarrow> error option \<times> sample_world" where
  "sample_remove org repo n g = (None, g((org, repo, n) := None))"

definition sample_update ::
    "string \<Rightarrow> string \<Rightarrow> string \<Rightarrow> BranchProtectionRequest \<Rightarrow> sample_world \<Rightarrow> error option \<times> sample_world" where
  "sample_update org repo n q g = (None, g((org, repo, n) := Some (sample_stored q)))"

definition sample_orders :: range_orders where
  "sample_orders = \<lparr>ro_orgs = (\<lambda>xs. xs), ro_repos = (\<lambda>xs. xs), ro_presubmits = (\<lambda>xs. xs),
     ro_branches = (\<lambda>xs. xs)\<rparr>"

definition sample_protector_config :: protector_config where
  "sample_protector_config = \<lparr>pc_BranchProtection = sample_BranchProtection,
     pc_PresubmitsStatic = [(''org/repo'', [sample_Presubmit ''unit'' True False []])],
     pc_verifyRestrictions = False\<rparr>"

definition sample_request :: BranchProtectionRequest where
  "sample_request = \<lparr>bpr_RequiredStatusChecks = Some \<lparr>rsc_Strict = False, rsc_Contexts = [''cla'', ''unit'']\<rparr>,
     bpr_EnforceAdmins = Some False, bpr_RequiredPullRequestReviews = None, bpr_Restrictions = None\<rparr>"

abbreviation sample_run :: "sample_world \<Rightarrow> protector" where
  "sample_run g \<equiv> protect (\<lambda>_. Inl []) sample_orders sample_protector_config (sample_client g) new_protector"

lemma sample_restrictions_stores: "stores_restrictions (sample_restrictions q) q"
proof -
  have "distinct (map (\<lambda>u. NormLogin (gu_Login u)) (sample_users ls))"
    "(\<lambda>u. NormLogin (gu_Login u)) ` set (sample_users ls) = NormLogin ` set ls" for ls
    using sample_users [of ls] by (metis distinct_remdups, metis set_remdups set_map)
  then show ?thesis by (simp add: stores_restrictions_def sample_restrictions_def comp_def image_image)
qed

lemma sample_stores: "stores (Some (sample_stored q)) (Some q)"
  using sample_restrictions_stores
  by (auto simp: stores_def sample_stored_def option.rel_map intro!: option.rel_refl split: option.splits)

lemma sample_law:
  "github_law sample_client sample_remove sample_update (\<lambda>g. g) (\<lambda>_ _. Inr [''master''])"
  using sample_stores
  by (auto simp: github_law_def sample_client_def sample_remove_def sample_update_def)

lemma sample_config_protection: "pc_BranchProtection sample_protector_config = sample_BranchProtection"
  by (simp add: sample_protector_config_def)

lemma sample_orders_ok: "orders_ok sample_orders"
  by (simp add: orders_ok_def sample_orders_def)

lemma sample_updates:
  "sample_run Map.empty = \<lparr>pr_updates = [\<lparr>rq_Org = ''org'', rq_Repo = ''repo'', rq_Branch = ''master'',
     rq_Request = Some sample_request\<rparr>], pr_errors = [], pr_completedRepos = [''org/repo'']\<rparr>"
  by (simp add: protect_def protect_orgs_def protect_tested_def UpdateOrg_def org_repos_def
      add_error_def new_protector_def UpdateRepo_def repo_updates_def branch_exclusions_def
      list_branches_def add_branches_def authorized_def update_branch_of_def UpdateBranch_def
      NewAggregate_def skipped_repo_def elems_def makeRequest_def makeReviews_def makeBool_def
      sample_orders_def sample_protector_config_def sample_client_def sample_request_def
      sample_BranchProtection_def GetBranch_def GetRepo_def
      GetOrg_def GetPolicy_def disable_check_def Policy_defined_def Apply_def zero_Policy_def
      presubmit_defs sample_job_defs selectBool_def set_list_def Let_def ex_bool_eq)

theorem protector_safety_witness:
  "request_contexts sample_request =
     (\<Union>l \<in> set (levels sample_BranchProtection ''org'' ''repo'' ''master''). required_contexts l)
     \<union> tested_contexts sample_protector_config ''org'' ''repo'' ''master''"
  using protector_safety [OF sample_orders_ok, of
    "\<lparr>rq_Org = ''org'', rq_Repo = ''repo'', rq_Branch = ''master'', rq_Request = Some sample_request\<rparr>"
    "\<lambda>_. Inl []" sample_protector_config "sample_client Map.empty"]
  by (simp add: sample_updates sample_config_protection)


end
