(* ===== verification/GitHub_Report.thy ===== *)
theory GitHub_Report
  imports ProwJobs
begin

text \<open>
  The reports of jobs on GitHub, \<open>src/github/report/report.go\<close>, and the reporter crier uses for them,
  \<open>src/github/reporter/reporter.go\<close>.  A job sets the status of its commit; a failed one also enters the
  table of failed tests that the bot keeps in one comment of the pull request.

  The calls that change GitHub are returned as a list; whether a call fails is the argument
  \<open>outcome\<close>.  The template of a report is the argument \<open>reportTemplate\<close>, the text it gives for a job.
  A panic is \<open>None\<close>.
\<close>

subsection \<open>Data\<close>

record GitHubStatus =
  ghs_State :: string
  ghs_Description :: string
  ghs_Context :: string
  ghs_TargetURL :: string

record IssueComment =
  ic_ID :: int
  ic_Login :: string
  ic_Body :: string

datatype github_call =
    CreateStatus string string string GitHubStatus
  | CreateComment string string int string
  | DeleteComment string string int
  | EditComment string string int string

record GitHubClient =
  gc_outcome :: "github_call \<Rightarrow> error option"
  gc_ListIssueComments :: "string \<Rightarrow> string \<Rightarrow> int \<Rightarrow> IssueComment list result"
  gc_BotName :: "string result"

definition commentTag :: string where "commentTag = ''<!-- test report -->''"

definition maxLen :: nat where "maxLen = 140"
definition elide :: string where "elide = '' ... ''"

text \<open>\<open>plugins.AboutThisBot\<close>, from \<open>plugins/respond.go\<close>.\<close>

definition AboutThisBotWithoutCommands :: string where
  "AboutThisBotWithoutCommands = ''Instructions for interacting with me using PR comments are available [here](https://git.k8s.io/community/contributors/guide/pull-requests.md).  If you have questions or suggestions related to my behavior, please file an issue against the [kubernetes/test-infra](https://github.com/kubernetes/test-infra/issues/new?title=Prow%20issue:) repository.''"

definition AboutThisBotCommands :: string where
  "AboutThisBotCommands = ''I understand the commands that are listed [here](https://go.k8s.io/bot-commands).''"

definition AboutThisBot :: string where
  "AboutThisBot = AboutThisBotWithoutCommands @ '' '' @ AboutThisBotCommands"

subsection \<open>The status of a commit\<close>

primrec prowjobStateToGitHubStatus :: "ProwJobState \<Rightarrow> string" where
  "prowjobStateToGitHubStatus TriggeredState = StatusPending"
| "prowjobStateToGitHubStatus PendingState = StatusPending"
| "prowjobStateToGitHubStatus SuccessState = StatusSuccess"
| "prowjobStateToGitHubStatus ErrorState = StatusError"
| "prowjobStateToGitHubStatus FailureState = StatusFailure"
| "prowjobStateToGitHubStatus AbortedState = StatusFailure"

definition truncate :: "string \<Rightarrow> string" where
  "truncate s =
     (let half = (maxLen - length elide) div 2
      in if length s \<le> maxLen then s else take half s @ elide @ drop (length s - half) s)"

definition status_of :: "ProwJob \<Rightarrow> Refs \<Rightarrow> github_call" where
  "status_of pj refs =
     CreateStatus (refs_Org refs) (refs_Repo refs)
       (case refs_Pulls refs of [] \<Rightarrow> refs_BaseSHA refs | p # _ \<Rightarrow> pull_SHA p)
       \<lparr>ghs_State = prowjobStateToGitHubStatus (pj_State pj),
        ghs_Description = truncate (st_Description (pj_Status pj)),
        ghs_Context = spec_Context (pj_Spec pj),
        ghs_TargetURL = st_URL (pj_Status pj)\<rparr>"

text \<open>The calls made, up to the first that fails, and its error.\<close>

fun perform :: "(github_call \<Rightarrow> error option) \<Rightarrow> github_call list \<Rightarrow> github_call list \<times> error option" where
  "perform outcome [] = ([], None)"
| "perform outcome (c # cs) =
     (case outcome c of
        Some err \<Rightarrow> ([c], Some err)
      | None \<Rightarrow> (let (done', err) = perform outcome cs in (c # done', err)))"

definition reportStatus :: "GitHubClient \<Rightarrow> ProwJob \<Rightarrow> (github_call list \<times> error option) option" where
  "reportStatus ghc pj =
     (if spec_Report (pj_Spec pj) then
        (case spec_Refs (pj_Spec pj) of
           None \<Rightarrow> None
         | Some refs \<Rightarrow> Some (perform (gc_outcome ghc) [status_of pj refs]))
      else Some ([], None))"

subsection \<open>The comment with the failed tests\<close>

text \<open>The lines after a line of dashes, up to an empty one.\<close>

fun track :: "bool \<Rightarrow> string list \<Rightarrow> string list" where
  "track tracking [] = []"
| "track tracking (l # ls) =
     (let line = trim_space l in
      if has_prefix line ''---'' then track True ls
      else if line = [] then track False ls
      else if tracking then line # track tracking ls
      else track tracking ls)"

definition comment_entries :: "string \<Rightarrow> string list" where
  "comment_entries body = track False (split_on newline body)"

text \<open>First pass: comments to delete, earlier reports, the latest report (0 is none), entries.\<close>

fun collect_comments ::
    "string \<Rightarrow> string \<Rightarrow> IssueComment list \<Rightarrow> int list \<times> int list \<times> int \<times> string list \<Rightarrow>
     int list \<times> int list \<times> int \<times> string list" where
  "collect_comments ctx botName [] acc = acc"
| "collect_comments ctx botName (ic # ics) (del, previousComments, latestComment, entries) =
     (if ic_Login ic \<noteq> botName then
        collect_comments ctx botName ics (del, previousComments, latestComment, entries)
      else
        let del = (if has_prefix (ic_Body ic) ctx then del @ [ic_ID ic] else del)
        in if \<not> contains_sub (ic_Body ic) commentTag then
             collect_comments ctx botName ics (del, previousComments, latestComment, entries)
           else collect_comments ctx botName ics
             (del,
              (if latestComment \<noteq> 0 then previousComments @ [latestComment] else previousComments),
              ic_ID ic,
              entries @ comment_entries (ic_Body ic)))"

definition entry_context :: "string \<Rightarrow> string" where
  "entry_context e = split_first '' | '' e"

text \<open>Second pass: a later entry of the same context replaces an earlier one.\<close>

fun keep_entries :: "string \<Rightarrow> string list \<Rightarrow> string list" where
  "keep_entries ctx [] = []"
| "keep_entries ctx (e # es) =
     (if (\<exists>e' \<in> set es. entry_context e' = entry_context e) \<or> ctx = entry_context e
      then keep_entries ctx es else e # keep_entries ctx es)"

definition createEntry :: "ProwJob \<Rightarrow> string \<Rightarrow> string" where
  "createEntry pj sha =
     join '' | '' [spec_Context (pj_Spec pj), sha, ''[link]('' @ st_URL (pj_Status pj) @ '')'',
       ''`'' @ spec_RerunCommand (pj_Spec pj) @ ''`'']"

definition parseIssueComments ::
    "ProwJob \<Rightarrow> string \<Rightarrow> string \<Rightarrow> IssueComment list \<Rightarrow> int list \<times> string list \<times> int" where
  "parseIssueComments pj sha botName ics =
     (let (del, previousComments, latestComment, entries) =
            collect_comments (spec_Context (pj_Spec pj)) botName ics ([], [], 0, []);
          createNewComment = (job_state_string (pj_State pj) = StatusFailure);
          newEntries = keep_entries (spec_Context (pj_Spec pj)) entries
            @ (if createNewComment then [createEntry pj sha] else []);
          del = del @ previousComments
      in if (createNewComment \<or> newEntries = []) \<and> latestComment \<noteq> 0
         then (del @ [latestComment], newEntries, 0)
         else (del, newEntries, latestComment))"

definition comment_head :: "string \<Rightarrow> nat \<Rightarrow> string list" where
  "comment_head author n =
     [''@'' @ author @ '': The following test'' @ (if n > 1 then ''s'' else [])
        @ '' **failed**, say `/retest` to rerun them all:'',
      [], ''Test name | Commit | Details | Rerun command'', ''--- | --- | --- | ---'']"

definition comment_foot :: "string list" where
  "comment_foot = [[], ''<details>'', [], AboutThisBot, ''</details>'', commentTag]"

definition createComment ::
    "(ProwJob \<Rightarrow> string result) option \<Rightarrow> ProwJob \<Rightarrow> string \<Rightarrow> string list \<Rightarrow> string result" where
  "createComment reportTemplate pj author entries =
     (let comment = (\<lambda>extra. join [newline]
            (comment_head author (length entries) @ entries @ extra @ comment_foot))
      in case reportTemplate of
           None \<Rightarrow> Inr (comment [])
         | Some t \<Rightarrow> (case t pj of Inl err \<Rightarrow> Inl err | Inr b \<Rightarrow> Inr (comment [[], b])))"

definition ShouldReport :: "ProwJob \<Rightarrow> ProwJobType list \<Rightarrow> bool" where
  "ShouldReport pj validTypes \<longleftrightarrow> pj_Type pj \<in> set validTypes \<and> spec_Report (pj_Spec pj)"

text \<open>The comment of a finished job of the pull request \<open>pull\<close>.\<close>

definition report_comment ::
    "GitHubClient \<Rightarrow> (ProwJob \<Rightarrow> string result) option \<Rightarrow> ProwJob \<Rightarrow> Refs \<Rightarrow> Pull \<Rightarrow>
     github_call list \<times> error option" where
  "report_comment ghc reportTemplate pj refs pull =
     (case gc_ListIssueComments ghc (refs_Org refs) (refs_Repo refs) (pull_Number pull) of
        Inl err \<Rightarrow> ([], Some (''error listing comments: '' @ err))
      | Inr ics \<Rightarrow>
          (case gc_BotName ghc of
             Inl err \<Rightarrow> ([], Some (''error getting bot name: '' @ err))
           | Inr botName \<Rightarrow>
               (let (deletes, entries, updateID) = parseIssueComments pj (pull_SHA pull) botName ics;
                    (calls, err) = perform (gc_outcome ghc)
                      (map (DeleteComment (refs_Org refs) (refs_Repo refs)) deletes)
                in case err of
                     Some e \<Rightarrow> (calls, Some (''error deleting comment: '' @ e))
                   | None \<Rightarrow>
                       if entries = [] then (calls, None)
                       else case createComment reportTemplate pj (pull_Author pull) entries of
                         Inl e \<Rightarrow> (calls, Some (''generating comment: '' @ e))
                       | Inr comment \<Rightarrow>
                           if updateID = 0 then
                             (let c = CreateComment (refs_Org refs) (refs_Repo refs) (pull_Number pull) comment
                              in (calls @ [c], map_option ((@) ''error creating comment: '') (gc_outcome ghc c)))
                           else
                             (let c = EditComment (refs_Org refs) (refs_Repo refs) updateID comment
                              in (calls @ [c], map_option ((@) ''error updating comment: '') (gc_outcome ghc c))))))"

text \<open>A missing client is \<open>None\<close>.\<close>

definition Report ::
    "GitHubClient option \<Rightarrow> (ProwJob \<Rightarrow> string result) option \<Rightarrow> ProwJob \<Rightarrow> ProwJobType list \<Rightarrow>
     (github_call list \<times> error option) option" where
  "Report ghc reportTemplate pj validTypes =
     (case ghc of
        None \<Rightarrow> Some ([], Some (''trying to report pj '' @ pj_Name pj @ '', but found empty github client''))
      | Some ghc \<Rightarrow>
          if \<not> ShouldReport pj validTypes then Some ([], None)
          else case spec_Refs (pj_Spec pj) of
            None \<Rightarrow> None
          | Some refs \<Rightarrow>
              if length (refs_Pulls refs) > 1 then Some ([], None)
              else case reportStatus ghc pj of
                None \<Rightarrow> None
              | Some (calls, Some err) \<Rightarrow> Some (calls, Some (''error setting status: '' @ err))
              | Some (calls, None) \<Rightarrow>
                  if \<not> Complete pj then Some (calls, None)
                  else case refs_Pulls refs of
                    [] \<Rightarrow> Some (calls, None)
                  | pull # _ \<Rightarrow>
                      (let (calls', err) = report_comment ghc reportTemplate pj refs pull
                       in Some (calls @ calls', err)))"

subsection \<open>The reporter\<close>

definition GerritReportLabel :: string where "GerritReportLabel = ''prow.k8s.io/gerrit-report-label''"

definition github_ShouldReport :: "ProwJobAgent \<Rightarrow> ProwJob \<Rightarrow> bool" where
  "github_ShouldReport reportAgent pj \<longleftrightarrow>
     \<not> (map_get [] (pj_Labels pj) GerritReportLabel \<noteq> []
        \<or> \<not> spec_Report (pj_Spec pj)
        \<or> pj_Type pj \<noteq> PresubmitJob \<and> pj_Type pj \<noteq> PostsubmitJob
        \<or> reportAgent \<noteq> [] \<and> spec_Agent (pj_Spec pj) \<noteq> reportAgent)"

subsection \<open>Comments read back\<close>

text \<open>A line the parser keeps as it is.\<close>

definition clean_line :: "string \<Rightarrow> bool" where
  "clean_line l \<longleftrightarrow> l \<noteq> [] \<and> trim_space l = l \<and> \<not> has_prefix l ''---'' \<and> newline \<notin> set l"

text \<open>A text that cannot start a table.\<close>

definition quiet :: "string \<Rightarrow> bool" where
  "quiet s \<longleftrightarrow> (\<forall>l \<in> set (split_on newline s). \<not> has_prefix (trim_space l) ''---'')"

lemma split_on_join:
  "ls \<noteq> [] \<Longrightarrow> split_on sep (join [sep] ls) = concat (map (split_on sep) ls)"
proof (induction "[sep]" ls rule: join.induct)
  case (3 x y ys)
  have "split_on sep (s @ sep # t) = split_on sep s @ split_on sep t" for s t
    by (induction s) (auto split: list.splits)
  then show ?case using 3 by simp
qed simp_all

lemma track_clean: "list_all clean_line es \<Longrightarrow> track True (es @ ls) = es @ track True ls"
  by (induction es) (simp_all add: clean_line_def)

lemma track_quiet: "list_all (\<lambda>l. \<not> has_prefix (trim_space l) ''---'') ls \<Longrightarrow> track False ls = []"
  by (induction ls) (simp_all add: Let_def)

lemma track_append_quiet:
  "list_all (\<lambda>l. \<not> has_prefix (trim_space l) ''---'') ls \<Longrightarrow> track False (ls @ ls') = track False ls'"
  by (induction ls) (simp_all add: Let_def)

lemma trim_space_prefix: "\<exists>t. dropWhile go_space s = trim_space s @ t"
  unfolding trim_space_def by (metis rev_append rev_rev_ident takeWhile_dropWhile_id)

lemma trim_space_hd: "trim_space s \<noteq> [] \<Longrightarrow> \<not> go_space (hd (trim_space s))"
  using trim_space_prefix [of s] hd_dropWhile [of go_space s]
  by (metis append_is_Nil_conv hd_append2)

lemma trim_space_idem [simp]: "trim_space (trim_space s) = trim_space s"
proof -
  let ?z = "trim_space s"
  have "dropWhile go_space ?z = ?z" using trim_space_hd [of s] by (cases ?z) auto
  then have "trim_space ?z = rev (dropWhile go_space (rev ?z))" by (simp only: trim_space_def [of ?z])
  also have "rev ?z = dropWhile go_space (rev (dropWhile go_space s))" by (simp add: trim_space_def)
  finally show ?thesis by (simp add: trim_space_def)
qed

lemma trim_space_set: "set (trim_space s) \<subseteq> set s"
proof
  fix x assume "x \<in> set (trim_space s)"
  then have "x \<in> set (dropWhile go_space s)" unfolding trim_space_def by (metis set_dropWhileD set_rev)
  then show "x \<in> set s" by (rule set_dropWhileD)
qed

lemma trim_space_no_dash:
  assumes "\<not> go_space c" "c \<noteq> CHR ''-''"
  shows "\<not> has_prefix (trim_space (c # s)) ''---''"
proof -
  obtain t where "c # s = trim_space (c # s) @ t" using trim_space_prefix [of "c # s"] assms(1) by auto
  then show ?thesis using assms(2) by (cases "trim_space (c # s)") auto
qed

lemma track_entries_clean:
  assumes "\<forall>l \<in> set ls. newline \<notin> set l"
  shows "list_all clean_line (track b ls)"
  using assms
proof (induction ls arbitrary: b)
  case (Cons l ls)
  have "newline \<notin> set (trim_space l)" using trim_space_set Cons.prems by fastforce
  then show ?case using Cons by (simp add: Let_def clean_line_def)
qed simp

lemma comment_entries_clean: "list_all clean_line (comment_entries body)"
  unfolding comment_entries_def by (rule track_entries_clean) (auto dest: split_on_parts)

lemma contains_sub_end: "contains_sub (s @ p) p"
proof (induction s)
  case Nil
  have "has_prefix p p" by (simp add: has_prefix_iff)
  then show ?case by (cases p) simp_all
qed simp

lemma join_snoc: "xs \<noteq> [] \<Longrightarrow> join sep (xs @ [x]) = join sep xs @ sep @ x"
  by (induction sep xs rule: join.induct) simp_all

lemma createComment_lines:
  assumes "createComment t pj author entries = Inr comment"
  obtains extra where "comment = join [newline]
      (comment_head author (length entries) @ entries @ extra @ comment_foot)"
    "extra = [] \<or> (\<exists>f b. t = Some f \<and> f pj = Inr b \<and> extra = [[], b])"
proof (cases t)
  case None
  show ?thesis by (rule that [of "[]"]) (use assms None in \<open>simp_all add: createComment_def\<close>)
next
  case (Some f)
  then obtain b where b: "f pj = Inr b" using assms by (cases "f pj") (simp_all add: createComment_def)
  show ?thesis by (rule that [of "[[], b]"]) (use assms Some b in \<open>simp_all add: createComment_def\<close>)
qed

lemma comment_tag:
  assumes "createComment t pj author entries = Inr comment"
  shows "contains_sub comment commentTag"
proof -
  obtain ls where c: "comment = join [newline] (ls @ comment_foot)"
    by (rule createComment_lines [OF assms]) (metis append_assoc)
  have "comment = (join [newline] (ls @ butlast comment_foot) @ [newline]) @ commentTag"
    unfolding c using join_snoc [of "ls @ butlast comment_foot" "[newline]" commentTag]
    by (simp add: comment_foot_def)
  then show ?thesis using contains_sub_end by metis
qed

lemma split_lines: "\<forall>l \<in> set ls. newline \<notin> set l \<Longrightarrow> concat (map (split_on newline) ls) = ls"
  by (induction ls) (simp_all add: split_on_fresh)

lemma comment_foot_lines:
  "l \<in> set comment_foot \<Longrightarrow> newline \<notin> set l \<and> \<not> has_prefix (trim_space l) ''---''"
proof -
  assume "l \<in> set comment_foot"
  then consider "l = []" | r where "l = CHR ''<'' # r" "newline \<notin> set l"
    | r where "l = CHR ''I'' # r" "newline \<notin> set l"
    by (fastforce simp: comment_foot_def commentTag_def newline_def AboutThisBot_def
        AboutThisBotWithoutCommands_def AboutThisBotCommands_def)
  then show ?thesis
    using trim_space_no_dash by cases (simp_all add: go_space_def space_char_def newline_def trim_space_def)
qed

lemma comment_head_lines:
  assumes "newline \<notin> set author"
  shows "concat (map (split_on newline) (comment_head author n)) = comment_head author n"
    and "track False (comment_head author n @ ls) = track True ls"
proof -
  show "concat (map (split_on newline) (comment_head author n)) = comment_head author n"
    by (rule split_lines) (use assms in \<open>auto simp: comment_head_def newline_def\<close>)
  have "\<not> has_prefix (trim_space (CHR ''@'' # s)) ''---''" for s
    by (rule trim_space_no_dash) (simp_all add: go_space_def space_char_def newline_def)
  moreover have "trim_space [] = []" "trim_space ''Test name | Commit | Details | Rerun command'' = ''Test name | Commit | Details | Rerun command''"
    "trim_space ''--- | --- | --- | ---'' = ''--- | --- | --- | ---''"
    by (simp_all add: trim_space_def go_space_def space_char_def newline_def)
  ultimately show "track False (comment_head author n @ ls) = track True ls"
    by (simp add: comment_head_def Let_def)
qed

text \<open>The table written into a comment is read back from it.\<close>

lemma comment_round_trip:
  assumes c: "createComment t pj author entries = Inr comment"
    and e: "list_all clean_line entries" and a: "newline \<notin> set author"
    and q: "\<forall>f b. t = Some f \<and> f pj = Inr b \<longrightarrow> quiet b"
  shows "comment_entries comment = entries"
proof -
  let ?foot = "concat (map (split_on newline) comment_foot)"
  obtain extra where comment: "comment = join [newline]
      (comment_head author (length entries) @ entries @ extra @ comment_foot)"
    and x: "extra = [] \<or> (\<exists>b. extra = [[], b] \<and> quiet b)"
    by (rule createComment_lines [OF c]) (use q in blast)
  have es: "concat (map (split_on newline) entries) = entries"
    using e by (intro split_lines) (auto simp: list_all_iff clean_line_def)
  have foot: "?foot = comment_foot" using comment_foot_lines by (intro split_lines) blast
  have "comment_entries comment =
      track False (comment_head author (length entries) @ entries @ concat (map (split_on newline) extra) @ comment_foot)"
    unfolding comment_entries_def comment
    by (subst split_on_join) (simp_all add: comment_head_lines(1) [OF a] es foot, simp add: comment_head_def)
  also have "\<dots> = entries @ track True (concat (map (split_on newline) extra) @ comment_foot)"
    by (simp add: comment_head_lines(2) [OF a] track_clean [OF e])
  also have "track True (concat (map (split_on newline) extra) @ comment_foot) = []"
  proof -
    have f: "list_all (\<lambda>l. \<not> has_prefix (trim_space l) ''---'') comment_foot"
      using comment_foot_lines by (simp add: list_all_iff)
    have nil: "track True ([] # ls) = track False ls" for ls by (simp add: trim_space_def)
    have "track True comment_foot = track False (tl comment_foot)"
      unfolding comment_foot_def using nil by simp
    moreover have "track False (tl comment_foot) = []"
      by (rule track_quiet) (use f in \<open>simp add: comment_foot_def\<close>)
    ultimately have "track True comment_foot = []" by simp
    moreover have "track True ([] # split_on newline b @ comment_foot) = []" if "quiet b" for b
      unfolding nil using that track_quiet [OF f]
      by (subst track_append_quiet) (simp_all add: quiet_def list_all_iff)
    ultimately show ?thesis using x by auto
  qed
  finally show ?thesis by simp
qed

subsection \<open>The table of failed tests\<close>

text \<open>The abstract state: for every context the latest entry.\<close>

definition table :: "string list \<Rightarrow> string \<rightharpoonup> string" where
  "table es ctx = find (\<lambda>e. entry_context e = ctx) (rev es)"

lemma table_simps [simp]:
  "table [] = Map.empty"
  "table (es @ [e]) = (table es)(entry_context e \<mapsto> e)"
  by (auto simp: table_def fun_eq_iff)

lemma find_append: "find P (xs @ ys) = (case find P xs of None \<Rightarrow> find P ys | Some x \<Rightarrow> Some x)"
  by (induction xs) simp_all

lemma table_Cons:
  "table (e # es) c = (case table es c of None \<Rightarrow> if entry_context e = c then Some e else None | Some x \<Rightarrow> Some x)"
  by (simp add: table_def find_append split: option.split)

lemma table_None_iff: "table es c = None \<longleftrightarrow> (\<forall>e \<in> set es. entry_context e \<noteq> c)"
  by (auto simp: table_def find_None_iff)

lemma keep_entries_contexts:
  "e \<in> set (keep_entries ctx es) \<Longrightarrow> e \<in> set es \<and> entry_context e \<noteq> ctx"
  by (induction es) (auto split: if_splits)

lemma keep_entries_distinct: "distinct (map entry_context (keep_entries ctx es))"
  by (induction es) (auto dest: keep_entries_contexts)

lemma keep_entries_table: "table (keep_entries ctx es) = (table es)(ctx := None)"
proof (induction es)
  case (Cons e es)
  show ?case
  proof (cases "(\<exists>e' \<in> set es. entry_context e' = entry_context e) \<or> ctx = entry_context e")
    case True
    moreover have "table es (entry_context e) \<noteq> None \<or> ctx = entry_context e"
      using True by (auto simp: table_None_iff)
    ultimately show ?thesis using Cons by (auto simp: fun_eq_iff table_Cons split: option.splits)
  next
    case False
    then have "table es (entry_context e) = None" by (auto simp: table_None_iff)
    with False show ?thesis using Cons by (auto simp: fun_eq_iff table_Cons split: option.splits)
  qed
qed (simp add: fun_eq_iff)

subsection \<open>What a report does to the comments\<close>

definition is_report :: "string \<Rightarrow> IssueComment \<Rightarrow> bool" where
  "is_report login ic \<longleftrightarrow> ic_Login ic = login \<and> contains_sub (ic_Body ic) commentTag"

definition reports :: "string \<Rightarrow> IssueComment list \<Rightarrow> IssueComment list" where
  "reports login ics = filter (is_report login) ics"

definition report_entries :: "string \<Rightarrow> IssueComment list \<Rightarrow> string list" where
  "report_entries login ics = concat (map (\<lambda>ic. comment_entries (ic_Body ic)) (reports login ics))"

text \<open>The comments of the pull request after a call; a new comment gets the id \<open>fresh\<close>.\<close>

fun after_call :: "string \<Rightarrow> int \<Rightarrow> github_call \<Rightarrow> IssueComment list \<Rightarrow> IssueComment list" where
  "after_call login fresh (CreateStatus _ _ _ _) ics = ics"
| "after_call login fresh (CreateComment _ _ _ body) ics =
     ics @ [\<lparr>ic_ID = fresh, ic_Login = login, ic_Body = body\<rparr>]"
| "after_call login fresh (DeleteComment _ _ i) ics = filter (\<lambda>ic. ic_ID ic \<noteq> i) ics"
| "after_call login fresh (EditComment _ _ i body) ics =
     map (\<lambda>ic. if ic_ID ic = i then ic\<lparr>ic_Body := body\<rparr> else ic) ics"

definition after_calls :: "string \<Rightarrow> int \<Rightarrow> github_call list \<Rightarrow> IssueComment list \<Rightarrow> IssueComment list" where
  "after_calls login fresh = fold (after_call login fresh)"

lemma collect_comments_eq:
  assumes "\<forall>ic \<in> set ics. ic_ID ic \<noteq> 0"
  shows "collect_comments ctx login ics (del, previous, latest, es) =
    (let R = map ic_ID (reports login ics) in
     (del @ map ic_ID (filter (\<lambda>ic. ic_Login ic = login \<and> has_prefix (ic_Body ic) ctx) ics),
      (if R = [] then previous else previous @ (if latest = 0 then [] else [latest]) @ butlast R),
      (if R = [] then latest else last R),
      es @ report_entries login ics))"
  using assms
  by (induction ics arbitrary: del previous latest es)
     (auto simp: reports_def report_entries_def is_report_def Let_def)

lemma after_deletes:
  "after_calls login fresh (map (DeleteComment org repo) ds) ics = filter (\<lambda>ic. ic_ID ic \<notin> set ds) ics"
  by (induction ds arbitrary: ics) (auto simp: after_calls_def intro!: filter_cong)

lemma perform_ok: "\<forall>c \<in> set cs. outcome c = None \<Longrightarrow> perform outcome cs = (cs, None)"
  by (induction cs) simp_all

definition failed_state :: "ProwJob \<Rightarrow> bool" where
  "failed_state pj \<longleftrightarrow> pj_State pj = FailureState"

lemma job_failed: "job_state_string (pj_State pj) = StatusFailure \<longleftrightarrow> failed_state pj"
  by (cases "pj_State pj") (simp_all add: failed_state_def StatusFailure_def)

definition new_entries :: "ProwJob \<Rightarrow> string \<Rightarrow> string list \<Rightarrow> string list" where
  "new_entries pj sha es = keep_entries (spec_Context (pj_Spec pj)) es
     @ (if failed_state pj then [createEntry pj sha] else [])"

text \<open>The comments that start with the context, which the code takes for reports of an old kind.\<close>

definition old_style :: "string \<Rightarrow> ProwJob \<Rightarrow> IssueComment list \<Rightarrow> int list" where
  "old_style login pj ics =
     map ic_ID (filter (\<lambda>ic. ic_Login ic = login \<and> has_prefix (ic_Body ic) (spec_Context (pj_Spec pj))) ics)"

lemma parseIssueComments_eq:
  assumes "\<forall>ic \<in> set ics. ic_ID ic \<noteq> 0"
  shows "parseIssueComments pj sha login ics =
    (let R = map ic_ID (reports login ics); es = new_entries pj sha (report_entries login ics) in
     if failed_state pj \<or> es = [] then (old_style login pj ics @ R, es, 0)
     else (old_style login pj ics @ butlast R, es, last R))"
proof -
  have "reports login ics \<noteq> [] \<Longrightarrow> last (map ic_ID (reports login ics)) \<noteq> 0"
    using assms last_in_set [of "reports login ics"] by (auto simp: last_map reports_def)
  moreover have "reports login ics = [] \<Longrightarrow> report_entries login ics = []"
    by (simp add: report_entries_def)
  ultimately show ?thesis
    unfolding parseIssueComments_def collect_comments_eq [OF assms]
    by (auto simp: Let_def new_entries_def old_style_def job_failed append_butlast_last_id)
qed

lemma new_entries_table:
  assumes "CHR ''|'' \<notin> set (spec_Context (pj_Spec pj))"
  shows "table (new_entries pj sha es) = (table es)(spec_Context (pj_Spec pj) :=
      (if failed_state pj then Some (createEntry pj sha) else None))"
    and "distinct (map entry_context (new_entries pj sha es))"
proof -
  have c: "entry_context (createEntry pj sha) = spec_Context (pj_Spec pj)"
    using split_first_bar [OF assms] by (simp add: entry_context_def createEntry_def)
  then show "table (new_entries pj sha es) = (table es)(spec_Context (pj_Spec pj) :=
      (if failed_state pj then Some (createEntry pj sha) else None))"
    by (simp add: new_entries_def keep_entries_table)
  show "distinct (map entry_context (new_entries pj sha es))"
    using c by (auto simp: new_entries_def keep_entries_distinct dest: keep_entries_contexts)
qed

lemma new_entries_clean:
  assumes "failed_state pj \<Longrightarrow> clean_line (createEntry pj sha)"
  shows "list_all clean_line (new_entries pj sha (report_entries login ics))"
proof -
  have "list_all clean_line (report_entries login ics)"
    using comment_entries_clean by (auto simp: report_entries_def list_all_iff)
  then show ?thesis using assms by (auto simp: new_entries_def list_all_iff dest: keep_entries_contexts)
qed

text \<open>The comments after the deletes of a report.\<close>

lemma distinct_ids: "distinct (map ic_ID ics) \<Longrightarrow> a \<in> set ics \<Longrightarrow> b \<in> set ics \<Longrightarrow> ic_ID a = ic_ID b \<Longrightarrow> a = b"
  by (metis distinct_map inj_onD)

lemma reports_filter: "reports login (filter P ics) = filter P (reports login ics)"
  by (simp add: reports_def filter_filter conj_commute)

lemma old_style_not_report:
  assumes "distinct (map ic_ID ics)" "r \<in> set (reports login ics)"
    "\<not> has_prefix (ic_Body r) (spec_Context (pj_Spec pj))"
  shows "ic_ID r \<notin> set (old_style login pj ics)"
proof
  assume "ic_ID r \<in> set (old_style login pj ics)"
  then obtain b where b: "b \<in> set ics" "has_prefix (ic_Body b) (spec_Context (pj_Spec pj))" "ic_ID r = ic_ID b"
    by (auto simp: old_style_def)
  have "r \<in> set ics" using assms(2) by (simp add: reports_def)
  then have "r = b" by (rule distinct_ids [OF assms(1) _ b(1,3)])
  with b(2) assms(3) show False by simp
qed

lemma deletes_of_bot:
  assumes "distinct (map ic_ID ics)" "ic \<in> set ics" "ic_Login ic \<noteq> login"
    "set D \<subseteq> set (old_style login pj ics) \<union> ic_ID ` set (reports login ics)"
  shows "ic_ID ic \<notin> set D"
proof
  assume "ic_ID ic \<in> set D"
  then have "ic_ID ic \<in> set (old_style login pj ics) \<union> ic_ID ` set (reports login ics)" using assms(4) by blast
  then obtain b where b: "b \<in> set ics" "ic_Login b = login" "ic_ID ic = ic_ID b"
    by (auto simp: old_style_def reports_def is_report_def)
  from distinct_ids [OF assms(1,2) b(1,3)] b(2) assms(3) show False by simp
qed

text \<open>One comment holds the table: a new one, or the latest report edited.\<close>

definition holds_table :: "string \<Rightarrow> string list \<Rightarrow> IssueComment list \<Rightarrow> IssueComment list \<Rightarrow> bool" where
  "holds_table login es ics ics' \<longleftrightarrow> report_entries login ics' = es
     \<and> length (reports login ics') = (if es = [] then 0 else 1)
     \<and> (\<forall>ic. ic_Login ic \<noteq> login \<longrightarrow> (ic \<in> set ics' \<longleftrightarrow> ic \<in> set ics))"

lemma after_create:
  assumes ids: "distinct (map ic_ID ics)"
    and D: "D = old_style login pj ics @ map ic_ID (reports login ics)"
    and body: "es \<noteq> [] \<Longrightarrow> contains_sub body commentTag \<and> comment_entries body = es"
  shows "holds_table login es ics (after_calls login fresh
     (map (DeleteComment org repo) D @ (if es = [] then [] else [CreateComment org repo n body])) ics)"
proof -
  let ?ics' = "filter (\<lambda>ic. ic_ID ic \<notin> set D) ics"
  have none: "reports login ?ics' = []" by (simp add: reports_filter D filter_empty_conv)
  have others: "ic_Login ic \<noteq> login \<longrightarrow> (ic \<in> set ?ics' \<longleftrightarrow> ic \<in> set ics)" for ic
    using deletes_of_bot [OF ids, of ic login D pj] by (auto simp: D)
  have "after_calls login fresh
     (map (DeleteComment org repo) D @ (if es = [] then [] else [CreateComment org repo n body])) ics =
     ?ics' @ (if es = [] then [] else [\<lparr>ic_ID = fresh, ic_Login = login, ic_Body = body\<rparr>])"
    using after_deletes [of login fresh org repo D ics] by (simp add: after_calls_def)
  moreover have "reports login (?ics' @ (if es = [] then [] else [\<lparr>ic_ID = fresh, ic_Login = login, ic_Body = body\<rparr>])) =
      (if es = [] then [] else [\<lparr>ic_ID = fresh, ic_Login = login, ic_Body = body\<rparr>])"
    using none body by (simp add: reports_def is_report_def)
  ultimately show ?thesis using body others by (auto simp: holds_table_def report_entries_def)
qed

lemma after_edit:
  assumes ids: "distinct (map ic_ID ics)" and r: "reports login ics = rs @ [r]"
    and D: "D = old_style login pj ics @ map ic_ID rs"
    and np: "\<not> has_prefix (ic_Body r) (spec_Context (pj_Spec pj))"
    and body: "contains_sub body commentTag" "comment_entries body = es" "es \<noteq> []"
  shows "holds_table login es ics (after_calls login fresh
     (map (DeleteComment org repo) D @ [EditComment org repo (ic_ID r) body]) ics)"
proof -
  let ?ics' = "filter (\<lambda>ic. ic_ID ic \<notin> set D) ics"
  let ?f = "\<lambda>ic. if ic_ID ic = ic_ID r then ic\<lparr>ic_Body := body\<rparr> else ic"
  have rin: "r \<in> set (reports login ics)" using r by simp
  then have rm: "r \<in> set ics" "is_report login r" by (auto simp: reports_def)
  have dist: "distinct (map ic_ID (rs @ [r]))" using ids unfolding r [symmetric] by (simp add: reports_def distinct_map_filter)
  have left: "reports login ?ics' = [r]"
    using dist old_style_not_report [OF ids rin np] by (simp add: reports_filter r D filter_empty_conv)
  have "is_report login (?f ic) = is_report login ic" if "ic \<in> set ics" for ic
    using distinct_ids [OF ids that rm(1)] rm(2) body(1) by (auto simp: is_report_def)
  then have "reports login (map ?f ?ics') = map ?f (reports login ?ics')"
    unfolding reports_def by (simp add: filter_map comp_def cong: filter_cong)
  then have rep: "reports login (map ?f ?ics') = [r\<lparr>ic_Body := body\<rparr>]" by (simp add: left)
  have others: "ic_Login ic \<noteq> login \<longrightarrow> (ic \<in> set (map ?f ?ics') \<longleftrightarrow> ic \<in> set ics)" for ic
  proof
    assume ne: "ic_Login ic \<noteq> login"
    then have "ic \<noteq> r" using rm(2) by (auto simp: is_report_def)
    show "ic \<in> set (map ?f ?ics') \<longleftrightarrow> ic \<in> set ics"
    proof
      assume "ic \<in> set (map ?f ?ics')"
      then obtain a where a: "a \<in> set ics" "ic = ?f a" by auto
      then have "ic_ID a \<noteq> ic_ID r" using ne rm distinct_ids [OF ids a(1) rm(1)] by (auto simp: is_report_def)
      then show "ic \<in> set ics" using a by simp
    next
      assume i: "ic \<in> set ics"
      then have "ic_ID ic \<noteq> ic_ID r" using \<open>ic \<noteq> r\<close> distinct_ids [OF ids _ rm(1)] by blast
      moreover have "ic_ID ic \<notin> set D"
        by (rule deletes_of_bot [OF ids i ne, where pj = pj]) (auto simp: D r)
      ultimately show "ic \<in> set (map ?f ?ics')" using i by force
    qed
  qed
  have "after_calls login fresh (map (DeleteComment org repo) D @ [EditComment org repo (ic_ID r) body]) ics =
     map ?f ?ics'"
    using after_deletes [of login fresh org repo D ics] by (simp add: after_calls_def)
  then show ?thesis using rep body(2,3) others by (simp only: holds_table_def report_entries_def) simp
qed

text \<open>A template that renders, without a line that could start a table.\<close>

definition template_ok :: "(ProwJob \<Rightarrow> string result) option \<Rightarrow> ProwJob \<Rightarrow> bool" where
  "template_ok t pj \<longleftrightarrow> (case t of None \<Rightarrow> True | Some f \<Rightarrow> (case f pj of Inl _ \<Rightarrow> False | Inr b \<Rightarrow> quiet b))"

text \<open>A client that lists these comments and does what it is asked.\<close>

definition serves :: "GitHubClient \<Rightarrow> string \<Rightarrow> Refs \<Rightarrow> Pull \<Rightarrow> IssueComment list \<Rightarrow> bool" where
  "serves ghc login refs pull ics \<longleftrightarrow>
     gc_ListIssueComments ghc (refs_Org refs) (refs_Repo refs) (pull_Number pull) = Inr ics
     \<and> gc_BotName ghc = Inr login \<and> (\<forall>c. gc_outcome ghc c = None)
     \<and> distinct (map ic_ID ics) \<and> 0 \<notin> ic_ID ` set ics"

text \<open>A job and a pull request whose texts fit into the table.\<close>

definition plain_job :: "ProwJob \<Rightarrow> Pull \<Rightarrow> bool" where
  "plain_job pj pull \<longleftrightarrow> CHR ''|'' \<notin> set (spec_Context (pj_Spec pj))
     \<and> clean_line (createEntry pj (pull_SHA pull)) \<and> newline \<notin> set (pull_Author pull)"

lemma createComment_ok:
  assumes "template_ok t pj" "newline \<notin> set author" "list_all clean_line es"
  obtains body where "createComment t pj author es = Inr body" "contains_sub body commentTag"
    "comment_entries body = es"
proof -
  obtain body where b: "createComment t pj author es = Inr body"
    using assms(1) by (auto simp: template_ok_def createComment_def Let_def split: option.splits sum.splits)
  have "\<forall>f b. t = Some f \<and> f pj = Inr b \<longrightarrow> quiet b"
    using assms(1) by (auto simp: template_ok_def)
  then show ?thesis using that b comment_tag [OF b] comment_round_trip [OF b assms(3,2)] by blast
qed

lemma report_comment_table:
  assumes s: "serves ghc login refs pull ics" and t: "template_ok t pj" and p: "plain_job pj pull"
    and np: "\<forall>ic \<in> set (reports login ics). \<not> has_prefix (ic_Body ic) (spec_Context (pj_Spec pj))"
  obtains calls where "report_comment ghc t pj refs pull = (calls, None)"
    "holds_table login (new_entries pj (pull_SHA pull) (report_entries login ics)) ics
       (after_calls login fresh calls ics)"
proof -
  let ?es = "new_entries pj (pull_SHA pull) (report_entries login ics)"
  let ?del = "map (DeleteComment (refs_Org refs) (refs_Repo refs))"
  have ids: "distinct (map ic_ID ics)" and nz: "\<forall>ic \<in> set ics. ic_ID ic \<noteq> 0"
    and out: "\<And>c. gc_outcome ghc c = None" and bn: "gc_BotName ghc = Inr login"
    and ls: "gc_ListIssueComments ghc (refs_Org refs) (refs_Repo refs) (pull_Number pull) = Inr ics"
    using s by (auto simp: serves_def image_iff)
  have clean: "list_all clean_line ?es" by (rule new_entries_clean) (use p in \<open>simp add: plain_job_def\<close>)
  obtain body where body: "createComment t pj (pull_Author pull) ?es = Inr body"
    "contains_sub body commentTag" "comment_entries body = ?es"
    using createComment_ok [OF t _ clean] p by (auto simp: plain_job_def)
  note rc = report_comment_def ls bn parseIssueComments_eq [OF nz] Let_def perform_ok out body(1)
  show ?thesis
  proof (cases "failed_state pj \<or> ?es = []")
    case True
    let ?D = "old_style login pj ics @ map ic_ID (reports login ics)"
    have "report_comment ghc t pj refs pull = (?del ?D @ (if ?es = [] then []
        else [CreateComment (refs_Org refs) (refs_Repo refs) (pull_Number pull) body]), None)"
      using True by (simp add: rc)
    then show ?thesis by (rule that) (rule after_create [OF ids refl], use body in simp)
  next
    case False
    then have "reports login ics \<noteq> []" by (auto simp: new_entries_def report_entries_def)
    then obtain rs r where r: "reports login ics = rs @ [r]" by (metis append_butlast_last_id)
    have "ic_ID r \<noteq> 0" using nz r by (metis in_set_conv_decomp filter_is_subset reports_def subsetD)
    let ?D = "old_style login pj ics @ map ic_ID rs"
    have "report_comment ghc t pj refs pull =
        (?del ?D @ [EditComment (refs_Org refs) (refs_Repo refs) (ic_ID r) body], None)"
      using False \<open>ic_ID r \<noteq> 0\<close> by (simp add: rc r butlast_append)
    then show ?thesis
      by (rule that) (rule after_edit [OF ids r refl], use np r body False in simp_all)
  qed
qed

text \<open>
  C26: A report of a finished job refines one update of the table of failed tests: the comments
  of the bot then show, for every context, the newest entry they showed before, except for
  the context of the job, which has its entry exactly if the job failed; each context appears
  once, in a single comment, or in none if the table is empty; the comments of others stay.
  The status of the commit is set first.
\<close>

theorem report_refines_table:
  assumes "serves ghc login refs pull ics" "template_ok t pj" "plain_job pj pull"
    "ShouldReport pj validTypes" "spec_Refs (pj_Spec pj) = Some refs" "refs_Pulls refs = [pull]" "Complete pj"
    "\<forall>ic \<in> set (reports login ics). \<not> has_prefix (ic_Body ic) (spec_Context (pj_Spec pj))"
  shows "\<exists>calls. Report (Some ghc) t pj validTypes = Some (status_of pj refs # calls, None)
    \<and> table (report_entries login (after_calls login fresh calls ics)) =
        (table (report_entries login ics))(spec_Context (pj_Spec pj) :=
           (if pj_State pj = FailureState then Some (createEntry pj (pull_SHA pull)) else None))
    \<and> distinct (map entry_context (report_entries login (after_calls login fresh calls ics)))
    \<and> length (reports login (after_calls login fresh calls ics)) =
        (if report_entries login (after_calls login fresh calls ics) = [] then 0 else 1)
    \<and> (\<forall>ic. ic_Login ic \<noteq> login \<longrightarrow> (ic \<in> set (after_calls login fresh calls ics) \<longleftrightarrow> ic \<in> set ics))"
proof -
  obtain calls where c: "report_comment ghc t pj refs pull = (calls, None)"
    and h: "holds_table login (new_entries pj (pull_SHA pull) (report_entries login ics)) ics
       (after_calls login fresh calls ics)"
    by (rule report_comment_table [OF assms(1,2,3,8)])
  have bar: "CHR ''|'' \<notin> set (spec_Context (pj_Spec pj))" using assms(3) by (simp add: plain_job_def)
  have "Report (Some ghc) t pj validTypes = Some (status_of pj refs # calls, None)"
    using assms c by (simp add: Report_def reportStatus_def serves_def ShouldReport_def)
  moreover have "report_entries login (after_calls login fresh calls ics) =
      new_entries pj (pull_SHA pull) (report_entries login ics)"
    using h by (simp add: holds_table_def)
  ultimately show ?thesis
    using h new_entries_table [OF bar] by (auto simp: holds_table_def failed_state_def)
qed

lemma truncate_bound: "length (truncate s) \<le> maxLen"
  by (auto simp: truncate_def maxLen_def elide_def Let_def)

subsection \<open>A sample report\<close>

text \<open>A failed unit test on a pull request whose table shows an older failure of the same test and one of another.\<close>

definition sample_pull :: Pull where
  "sample_pull = \<lparr>pull_Number = 4, pull_Author = ''alice'', pull_SHA = ''abc'', pull_Title = [], pull_Ref = [],
     pull_Link = [], pull_CommitLink = [], pull_AuthorLink = []\<rparr>"

definition sample_report_refs :: Refs where
  "sample_report_refs = \<lparr>refs_Org = ''org'', refs_Repo = ''repo'', refs_RepoLink = [], refs_BaseRef = ''master'',
     refs_BaseSHA = ''base'', refs_BaseLink = [], refs_Pulls = [sample_pull], refs_PathAlias = [],
     refs_WorkDir = False, refs_CloneURI = [], refs_SkipSubmodules = False, refs_CloneDepth = 0\<rparr>"

definition sample_report_job :: "ProwJobState \<Rightarrow> ProwJob" where
  "sample_report_job s =
     \<lparr>pj_APIVersion = [], pj_Kind = [], pj_Name = ''job'', pj_Namespace = [], pj_Labels = Map.empty,
      pj_Annotations = Map.empty, pj_CreationTimestamp = 0,
      pj_Spec = \<lparr>spec_Type = PresubmitJob, spec_Agent = KubernetesAgent, spec_Cluster = [], spec_Namespace = [],
        spec_Job = ''unit'', spec_Refs = Some sample_report_refs, spec_ExtraRefs = [], spec_Report = True,
        spec_Context = ''unit'', spec_RerunCommand = ''/test unit'', spec_MaxConcurrency = 0,
        spec_ErrorOnEviction = False, spec_PodSpec = None, spec_JenkinsSpec = None,
        spec_PipelineRunSpec = None, spec_DecorationConfig = None, spec_ReporterConfig = None,
        spec_RerunAuthConfig = None, spec_Hidden = False\<rparr>,
      pj_Status = \<lparr>st_StartTime = 0, st_PendingTime = None, st_CompletionTime = Some 5, st_State = s,
        st_Description = ''done'', st_URL = ''url'', st_PodName = [], st_BuildID = [],
        st_JenkinsBuildID = [], st_PrevReportStates = Map.empty\<rparr>\<rparr>"

definition sample_comments :: "IssueComment list" where
  "sample_comments =
     [\<lparr>ic_ID = 1, ic_Login = ''bob'', ic_Body = ''hi''\<rparr>,
      \<lparr>ic_ID = 2, ic_Login = ''bot'', ic_Body = join [newline]
        [''@alice:'', ''---'', ''lint | old'', ''unit | old'', [], commentTag]\<rparr>]"

definition sample_github :: GitHubClient where
  "sample_github = \<lparr>gc_outcome = (\<lambda>_. None), gc_ListIssueComments = (\<lambda>_ _ _. Inr sample_comments),
     gc_BotName = Inr ''bot''\<rparr>"

lemma sample_report_entry:
  "createEntry (sample_report_job s) ''abc'' = ''unit | abc | [link](url) | `/test unit`''"
  by (simp add: createEntry_def sample_report_job_def)

lemma sample_report_entries:
  "report_entries ''bot'' sample_comments = [''lint | old'', ''unit | old'']"
  "map ic_ID (reports ''bot'' sample_comments) = [2]"
  by (simp_all add: report_entries_def reports_def is_report_def sample_comments_def comment_entries_def
      commentTag_def newline_def trim_space_def go_space_def space_char_def)

theorem report_refines_table_witness:
  "\<exists>calls. Report (Some sample_github) None (sample_report_job FailureState) [PresubmitJob] =
       Some (status_of (sample_report_job FailureState) sample_report_refs # calls, None)
     \<and> table (report_entries ''bot'' (after_calls ''bot'' 3 calls sample_comments)) =
        [''lint'' \<mapsto> ''lint | old'', ''unit'' \<mapsto> ''unit | abc | [link](url) | `/test unit`'']"
proof -
  have s: "serves sample_github ''bot'' sample_report_refs sample_pull sample_comments"
    by (simp add: serves_def sample_github_def sample_comments_def)
  have p: "plain_job (sample_report_job FailureState) sample_pull"
    by (simp add: plain_job_def clean_line_def sample_pull_def sample_report_entry trim_space_def go_space_def
        space_char_def newline_def) (simp add: sample_report_job_def)
  have n: "\<forall>ic \<in> set (reports ''bot'' sample_comments).
      \<not> has_prefix (ic_Body ic) (spec_Context (pj_Spec (sample_report_job FailureState)))"
    by (simp add: reports_def is_report_def sample_comments_def sample_report_job_def commentTag_def newline_def)
  have "template_ok None (sample_report_job FailureState)" by (simp add: template_ok_def)
  moreover have j: "ShouldReport (sample_report_job FailureState) [PresubmitJob]"
    "spec_Refs (pj_Spec (sample_report_job FailureState)) = Some sample_report_refs"
    "refs_Pulls sample_report_refs = [sample_pull]" "Complete (sample_report_job FailureState)"
    "spec_Context (pj_Spec (sample_report_job FailureState)) = ''unit''"
    "pj_State (sample_report_job FailureState) = FailureState" "pull_SHA sample_pull = ''abc''"
    by (simp_all add: ShouldReport_def Complete_def sample_report_job_def sample_report_refs_def sample_pull_def)
  ultimately obtain calls where c: "Report (Some sample_github) None (sample_report_job FailureState) [PresubmitJob] =
       Some (status_of (sample_report_job FailureState) sample_report_refs # calls, None)"
    "table (report_entries ''bot'' (after_calls ''bot'' 3 calls sample_comments)) =
       (table (report_entries ''bot'' sample_comments))(''unit'' := Some (createEntry (sample_report_job FailureState) ''abc''))"
    using report_refines_table [OF s _ p j(1-4) n, of None 3] by (simp only: j if_True) blast
  have "table [''lint | old'', ''unit | old''] = [''lint'' \<mapsto> ''lint | old'', ''unit'' \<mapsto> ''unit | old'']"
    by (auto simp: table_def entry_context_def fun_eq_iff)
  then show ?thesis using c by (intro exI [of _ calls]) (simp only: sample_report_entries sample_report_entry fun_upd_upd simp_thms)
qed

end
