(* ===== verification/Crier.thy ===== *)
theory Crier
  imports GitHub_Report
begin

text \<open>
  Crier, \<open>src/crier/controller.go\<close>: one item of the work queue is looked up in the cache of the
  informer, reported if its state was not reported yet, and the state that was reported
  is recorded in the ProwJob.

  The queue, the informer and the API server belong to Kubernetes: what a worker does to the queue
  and to the server is a list of effects; what they answer is the record \<open>crier_env\<close>.
  The objects of the cache are shared: a worker that initialises the map of report states of the job
  it got changes the cache.  A cached object therefore says whether that map is nil.  While a worker
  waits, the informer may change the cache before every poll.
\<close>

subsection \<open>Data\<close>

record cached =
  ca_job :: ProwJob
  ca_nil :: bool

datatype lookup = Found cached | NotFound | ListerError error

type_synonym cache = "string \<times> string \<Rightarrow> lookup"

datatype crier_effect =
    Forget string
  | AddRateLimited string
  | Done string
  | Reported ProwJob
  | Patched ProwJob ProwJob

record reportClient =
  rc_GetName :: string
  rc_ShouldReport :: "ProwJob \<Rightarrow> bool"
  rc_Report :: "ProwJob \<Rightarrow> (ProwJob list \<times> error option) option"

record crier_env =
  ce_reporter :: reportClient
  ce_splitKey :: "string \<Rightarrow> (string \<times> string) result"
  ce_NumRequeues :: "string \<Rightarrow> nat"
  ce_Marshal :: "ProwJob \<Rightarrow> error option"
  ce_CreateMergePatch :: "ProwJob \<Rightarrow> ProwJob \<Rightarrow> error option"
  ce_Patch :: "ProwJob \<Rightarrow> ProwJob \<Rightarrow> error option"
  ce_Get :: "ProwJob \<Rightarrow> ProwJob result"
  ce_informer :: "nat \<Rightarrow> cache \<Rightarrow> cache"
  ce_polls :: nat

definition pj_key :: "ProwJob \<Rightarrow> string \<times> string" where
  "pj_key pj = (pj_Namespace pj, pj_Name pj)"

abbreviation prev_states :: "ProwJob \<Rightarrow> string \<rightharpoonup> ProwJobState" where
  "prev_states pj \<equiv> st_PrevReportStates (pj_Status pj)"

subsection \<open>One item\<close>

definition crier_retry :: "crier_env \<Rightarrow> string \<Rightarrow> crier_effect list" where
  "crier_retry env key = (if ce_NumRequeues env key < 5 then [AddRateLimited key] else [Forget key])"

definition record_state :: "string \<Rightarrow> ProwJob \<Rightarrow> ProwJob" where
  "record_state name pj = pj\<lparr>pj_Status := (pj_Status pj)\<lparr>st_PrevReportStates :=
     (prev_states pj)(name \<mapsto> pj_State pj)\<rparr>\<rparr>"

text \<open>
  The condition of the poll: the map of the listed object is not nil, and the map of \<open>newpj\<close>, the
  object that was sent, has the state.
\<close>

definition poll_condition :: "string \<Rightarrow> ProwJob \<Rightarrow> lookup \<Rightarrow> bool result" where
  "poll_condition name newpj l =
     (case l of
        Found c \<Rightarrow> Inr (\<not> ca_nil c \<and> prev_states newpj name = Some (pj_State newpj))
      | NotFound \<Rightarrow> Inl ''not found''
      | ListerError err \<Rightarrow> Inl err)"

fun poll :: "(lookup \<Rightarrow> bool result) \<Rightarrow> lookup list \<Rightarrow> error option" where
  "poll cond [] = Some ''timed out waiting for the condition''"
| "poll cond (l # ls) =
     (case cond l of Inl err \<Rightarrow> Some err | Inr True \<Rightarrow> None | Inr False \<Rightarrow> poll cond ls)"

definition updateReportState ::
    "crier_env \<Rightarrow> cache \<Rightarrow> ProwJob \<Rightarrow> crier_effect list \<times> error option" where
  "updateReportState env cache pj =
     (case ce_Marshal env pj of
        Some err \<Rightarrow> ([], Some (''error marshal pj: '' @ err))
      | None \<Rightarrow>
          (let newpj = record_state (rc_GetName (ce_reporter env)) pj
           in case ce_Marshal env newpj of
                Some err \<Rightarrow> ([], Some (''error marshal new pj: '' @ err))
              | None \<Rightarrow>
                  (case ce_CreateMergePatch env pj newpj of
                     Some err \<Rightarrow> ([], Some (''error CreateMergePatch: '' @ err))
                   | None \<Rightarrow>
                       (case ce_Patch env pj newpj of
                          Some err \<Rightarrow> ([Patched pj newpj], Some err)
                        | None \<Rightarrow>
                            ([Patched pj newpj],
                             map_option ((@) ''failed to wait for updated report status to be in lister: '')
                               (poll (poll_condition (rc_GetName (ce_reporter env)) newpj)
                                  (map (\<lambda>i. ce_informer env i cache (pj_key newpj)) [0..<ce_polls env])))))))"

text \<open>Whether the loop over the reported jobs goes on.\<close>

definition update_one :: "crier_env \<Rightarrow> cache \<Rightarrow> ProwJob \<Rightarrow> crier_effect list \<times> bool" where
  "update_one env cache pjob =
     (case updateReportState env cache pjob of
        (es, None) \<Rightarrow> (es, True)
      | (es, Some _) \<Rightarrow>
          (case ce_Get env pjob of
             Inl _ \<Rightarrow> (es, False)
           | Inr updatedPJ \<Rightarrow>
               (case updateReportState env cache updatedPJ of
                  (es', err) \<Rightarrow> (es @ es', err = None))))"

fun update_all :: "crier_env \<Rightarrow> cache \<Rightarrow> ProwJob list \<Rightarrow> crier_effect list" where
  "update_all env cache [] = []"
| "update_all env cache (p # ps) =
     (let (es, go) = update_one env cache p in es @ (if go then update_all env cache ps else []))"

text \<open>The worker initialises the map of the cached object it got.\<close>

definition init_states :: "string \<times> string \<Rightarrow> cached \<Rightarrow> cache \<Rightarrow> cache" where
  "init_states k c cache = cache(k := Found (c\<lparr>ca_nil := False\<rparr>))"

definition process_job :: "crier_env \<Rightarrow> cache \<Rightarrow> string \<Rightarrow> ProwJob \<Rightarrow> crier_effect list option" where
  "process_job env cache key pj =
     (if prev_states pj (rc_GetName (ce_reporter env)) = Some (pj_State pj) then Some [Forget key]
      else case rc_Report (ce_reporter env) pj of
        None \<Rightarrow> None
      | Some (_, Some err) \<Rightarrow> Some (Reported pj # crier_retry env key)
      | Some (pjs, None) \<Rightarrow> Some (Reported pj # update_all env cache pjs @ [Forget key]))"

definition process_key :: "crier_env \<Rightarrow> cache \<Rightarrow> string \<Rightarrow> (crier_effect list \<times> cache) option" where
  "process_key env cache key =
     (case ce_splitKey env key of
        Inl _ \<Rightarrow> Some ([Forget key], cache)
      | Inr k \<Rightarrow>
          (case cache k of
             NotFound \<Rightarrow> Some ([Forget key], cache)
           | ListerError _ \<Rightarrow> Some (crier_retry env key, cache)
           | Found c \<Rightarrow>
               if \<not> rc_ShouldReport (ce_reporter env) (ca_job c) then Some ([Forget key], cache)
               else (let cache' = init_states k c cache
                     in map_option (\<lambda>es. (es, cache')) (process_job env cache' key (ca_job c)))))"

text \<open>
  The item \<open>None\<close> is that of a queue that was shut down; the result says whether the worker goes on.
  A result \<open>None\<close> is a panic of the reporter.
\<close>

definition processNextItem :: "crier_env \<Rightarrow> cache \<Rightarrow> string option \<Rightarrow> (bool \<times> crier_effect list \<times> cache) option" where
  "processNextItem env cache item =
     (case item of
        None \<Rightarrow> Some (False, [], cache)
      | Some key \<Rightarrow>
          map_option (\<lambda>(es, cache'). (True, es @ [Done key], cache')) (process_key env cache key))"

subsection \<open>The GitHub reporter\<close>

definition github_reporter ::
    "GitHubClient \<Rightarrow> (ProwJob \<Rightarrow> string result) option \<Rightarrow> ProwJobType list \<Rightarrow> ProwJobAgent \<Rightarrow> reportClient" where
  "github_reporter ghc reportTemplate jobTypes reportAgent =
     \<lparr>rc_GetName = GitHubReporterName,
      rc_ShouldReport = github_ShouldReport reportAgent,
      rc_Report = (\<lambda>pj. map_option (\<lambda>(_, err). ([pj], err)) (Report (Some ghc) reportTemplate pj jobTypes))\<rparr>"

subsection \<open>Properties\<close>

definition reported :: "crier_effect list \<Rightarrow> ProwJob list" where
  "reported es = List.map_filter (\<lambda>e. case e of Reported pj \<Rightarrow> Some pj | _ \<Rightarrow> None) es"

definition decisions :: "crier_effect list \<Rightarrow> crier_effect list" where
  "decisions es = filter (\<lambda>e. case e of Forget _ \<Rightarrow> True | AddRateLimited _ \<Rightarrow> True | _ \<Rightarrow> False) es"

lemma effect_simps [simp]:
  "reported [] = []" "reported (Reported pj # es) = pj # reported es" "reported (Patched p q # es) = reported es"
  "reported (Forget k # es) = reported es" "reported (AddRateLimited k # es) = reported es"
  "reported (Done k # es) = reported es" "reported (es @ es') = reported es @ reported es'"
  "decisions [] = []" "decisions (Reported pj # es) = decisions es" "decisions (Patched p q # es) = decisions es"
  "decisions (Forget k # es) = Forget k # decisions es"
  "decisions (AddRateLimited k # es) = AddRateLimited k # decisions es"
  "decisions (Done k # es) = decisions es" "decisions (es @ es') = decisions es @ decisions es'"
  by (simp_all add: reported_def decisions_def List.map_filter_def)

lemma updateReportState_effects:
  "updateReportState env cache pj = (es, err) \<Longrightarrow> reported es = [] \<and> decisions es = []
     \<and> set es \<subseteq> {Patched pj (record_state (rc_GetName (ce_reporter env)) pj)}"
  by (auto simp: updateReportState_def Let_def split: option.splits)

lemma update_one_effects: "update_one env cache p = (es, go) \<Longrightarrow> reported es = [] \<and> decisions es = []"
  by (auto simp: update_one_def split: prod.splits option.splits sum.splits dest!: updateReportState_effects)

lemma update_all_effects: "reported (update_all env cache ps) = [] \<and> decisions (update_all env cache ps) = []"
  by (induction ps) (auto split: prod.splits dest: update_one_effects)

text \<open>The job an item stands for, if it is to be reported.\<close>

definition due :: "crier_env \<Rightarrow> cache \<Rightarrow> string \<Rightarrow> ProwJob option" where
  "due env cache key =
     (case ce_splitKey env key of
        Inl _ \<Rightarrow> None
      | Inr k \<Rightarrow>
          (case cache k of
             Found c \<Rightarrow>
               if rc_ShouldReport (ce_reporter env) (ca_job c)
                  \<and> prev_states (ca_job c) (rc_GetName (ce_reporter env)) \<noteq> Some (pj_State (ca_job c))
               then Some (ca_job c) else None
           | _ \<Rightarrow> None))"

text \<open>
  C27: A worker of crier reports a job exactly when the item stands for one that is to be reported and
  whose present state was not reported yet, and then once.  It decides exactly once about the
  item, to forget it or, after a failure and at most while it was requeued fewer than five times, to add it
  again, and is done with it last.  An item whose report failed too often is forgotten.
\<close>

theorem crier_reports:
  assumes "processNextItem env cache (Some key) = Some (go, es, cache')"
  shows "go \<and> last es = Done key
    \<and> reported es = (case due env cache key of None \<Rightarrow> [] | Some pj \<Rightarrow> [pj])
    \<and> (decisions es = [Forget key] \<or> decisions es = [AddRateLimited key] \<and> ce_NumRequeues env key < 5)
    \<and> (\<forall>pj pjs err. due env cache key = Some pj \<and> rc_Report (ce_reporter env) pj = Some (pjs, Some err) \<longrightarrow>
         decisions es = [if ce_NumRequeues env key < 5 then AddRateLimited key else Forget key])"
proof -
  obtain es' where p: "process_key env cache key = Some (es', cache')" and es: "es = es' @ [Done key]" "go"
    using assms by (auto simp: processNextItem_def)
  have "reported es' = (case due env cache key of None \<Rightarrow> [] | Some pj \<Rightarrow> [pj])
    \<and> (decisions es' = [Forget key] \<or> decisions es' = [AddRateLimited key] \<and> ce_NumRequeues env key < 5)
    \<and> (\<forall>pj pjs err. due env cache key = Some pj \<and> rc_Report (ce_reporter env) pj = Some (pjs, Some err) \<longrightarrow>
         decisions es' = [if ce_NumRequeues env key < 5 then AddRateLimited key else Forget key])"
    using p unfolding process_key_def process_job_def due_def crier_retry_def
    by (auto simp: Let_def update_all_effects split: sum.splits lookup.splits if_splits option.splits prod.splits)
  then show ?thesis using es by simp
qed

text \<open>
  C28: The wait for the cache does not wait: after the worker initialised the map of the cached job,
  the first poll succeeds though the cache still holds the job without the reported state, because the
  condition looks at the object that was sent.  The job is still due then, so an event of another
  controller that arrives in this window has it reported a second time.
\<close>

theorem crier_wait_vacuous:
  fixes env cache key c k
  defines "cache' \<equiv> init_states k c cache" and "name \<equiv> rc_GetName (ce_reporter env)"
  assumes "ce_splitKey env key = Inr k" "cache k = Found c" "pj_key (ca_job c) = k"
    "due env cache key = Some (ca_job c)" "0 < ce_polls env" "ce_informer env 0 cache' = cache'"
    "ce_Marshal env = (\<lambda>_. None)" "ce_CreateMergePatch env = (\<lambda>_ _. None)" "ce_Patch env = (\<lambda>_ _. None)"
  shows "updateReportState env cache' (ca_job c) = ([Patched (ca_job c) (record_state name (ca_job c))], None)
    \<and> due env cache' key = Some (ca_job c)"
proof
  have "poll (poll_condition name (record_state name (ca_job c)))
      (map (\<lambda>i. ce_informer env i cache' (pj_key (record_state name (ca_job c)))) [0..<ce_polls env]) = None"
    using assms(5,7,8)
    by (cases "ce_polls env")
       (simp_all add: upt_conv_Cons poll_condition_def cache'_def init_states_def record_state_def pj_key_def
         del: upt_Suc)
  then show "updateReportState env cache' (ca_job c) =
      ([Patched (ca_job c) (record_state name (ca_job c))], None)"
    using assms(9-) by (simp add: updateReportState_def Let_def name_def)
  show "due env cache' key = Some (ca_job c)"
    using assms(3,4,6) by (simp add: due_def cache'_def init_states_def split: if_splits)
qed

text \<open>A finished job that was never reported, with the cache as the informer left it.\<close>

definition sample_crier_env :: crier_env where
  "sample_crier_env =
     \<lparr>ce_reporter = github_reporter sample_github None [PresubmitJob] [],
      ce_splitKey = (\<lambda>key. Inr ([], key)), ce_NumRequeues = (\<lambda>_. 1), ce_Marshal = (\<lambda>_. None),
      ce_CreateMergePatch = (\<lambda>_ _. None), ce_Patch = (\<lambda>_ _. None), ce_Get = Inr,
      ce_informer = (\<lambda>_ cache. cache), ce_polls = 3\<rparr>"

definition sample_cached :: cached where
  "sample_cached = \<lparr>ca_job = sample_report_job FailureState, ca_nil = True\<rparr>"

definition sample_cache :: cache where
  "sample_cache k = (if k = ([], ''job'') then Found sample_cached else NotFound)"

lemma sample_due: "due sample_crier_env sample_cache ''job'' = Some (sample_report_job FailureState)"
  by (simp add: due_def sample_crier_env_def sample_cache_def sample_cached_def github_reporter_def
      github_ShouldReport_def)
     (simp add: sample_report_job_def)

theorem crier_wait_vacuous_witness:
  "snd (updateReportState sample_crier_env (init_states ([], ''job'') sample_cached sample_cache)
     (sample_report_job FailureState)) = None
   \<and> due sample_crier_env (init_states ([], ''job'') sample_cached sample_cache) ''job'' =
       Some (sample_report_job FailureState)"
proof -
  have "ca_job sample_cached = sample_report_job FailureState" "pj_key (sample_report_job FailureState) = ([], ''job'')"
    by (simp_all add: sample_cached_def pj_key_def sample_report_job_def)
  then show ?thesis
    using crier_wait_vacuous [of sample_crier_env "''job''" "([], ''job'')" sample_cache sample_cached] sample_due
    by (simp add: sample_crier_env_def sample_cache_def)
qed

lemma Report_total: "spec_Refs (pj_Spec pj) = Some refs \<Longrightarrow> Report ghc t pj types \<noteq> None"
  by (auto simp: Report_def reportStatus_def split: option.splits list.splits prod.splits)

theorem crier_reports_witness:
  "\<exists>es cache'. processNextItem sample_crier_env sample_cache (Some ''job'') = Some (True, es, cache')
     \<and> reported es = [sample_report_job FailureState] \<and> last es = Done ''job''"
proof -
  have "spec_Refs (pj_Spec (sample_report_job FailureState)) = Some sample_report_refs"
    by (simp add: sample_report_job_def)
  then have "Report (Some sample_github) None (sample_report_job FailureState) [PresubmitJob] \<noteq> None"
    by (rule Report_total)
  then have "process_job sample_crier_env (init_states ([], ''job'') sample_cached sample_cache) ''job''
      (sample_report_job FailureState) \<noteq> None"
    by (auto simp: process_job_def sample_crier_env_def github_reporter_def split: option.splits)
  then have "processNextItem sample_crier_env sample_cache (Some ''job'') \<noteq> None"
    by (auto simp: processNextItem_def process_key_def sample_cache_def sample_cached_def Let_def
        sample_crier_env_def)
  then obtain go es cache' where p: "processNextItem sample_crier_env sample_cache (Some ''job'') = Some (go, es, cache')"
    by auto
  show ?thesis using crier_reports [OF p] p by (auto simp: sample_due)
qed

end
