(* ===== verification/Trigger_Plugin.thy ===== *)
theory Trigger_Plugin
  imports Tide_Config Trigger_Filters GitHub_Report
begin

text \<open>
  The trigger plugin, \<open>src/plugins/trigger\<close>: it creates the jobs of a pull request when it is
  opened, changed, labelled or commented on, and those of a push, and decides who is
  trusted to have code tested.

  A handler returns the effects it has, in order, and its error.  GitHub, the API server, clocks and
  random names are the record \<open>trigger_env\<close>; whether an effect fails is its field
  \<open>tv_outcome\<close>.  The pointer \<open>ElideSkippedContexts\<close> may be nil in a configuration that was not
  defaulted: dereferencing it is a panic, the result \<open>None\<close>.
\<close>

subsection \<open>Data\<close>

datatype trigger_effect =
    CreateProwJob ProwJob
  | PostStatus string string string GitHubStatus
  | PostComment string string int string
  | AddLabel string string int string
  | RemoveLabel string string int string

record Trigger =
  tr_Repos :: "string list"
  tr_TrustedOrg :: string
  tr_JoinOrgURL :: string
  tr_OnlyOrgMembers :: bool
  tr_IgnoreOkToTest :: bool
  tr_ElideSkippedContexts :: "bool option"

record trigger_env =
  tv_Config :: Config
  tv_Postsubmits :: "string \<rightharpoonup> Postsubmit list"
  tv_IsCollaborator :: "string \<Rightarrow> string \<Rightarrow> string \<Rightarrow> bool result"
  tv_IsMember :: "string \<Rightarrow> string \<Rightarrow> bool result"
  tv_GetIssueLabels :: "string \<Rightarrow> string \<Rightarrow> int \<Rightarrow> string list result"
  tv_BotName :: "string result"
  tv_GetPullRequest :: "string \<Rightarrow> string \<Rightarrow> int \<Rightarrow> GitHubPullRequest result"
  tv_GetRef :: "string \<Rightarrow> string \<Rightarrow> string \<Rightarrow> string result"
  tv_GetCombinedStatus :: "string \<Rightarrow> string \<Rightarrow> string \<Rightarrow> GitHubStatus list option result"
  tv_GetPullRequestChanges :: "string \<Rightarrow> string \<Rightarrow> int \<Rightarrow> string list result"
  tv_outcome :: "trigger_effect \<Rightarrow> error option"
  tv_valid_label :: "string \<Rightarrow> bool"
  tv_uuid :: "nat \<Rightarrow> string"
  tv_now :: time

type_synonym handled = "trigger_effect list \<times> error option"

definition LGTM :: string where "LGTM = ''lgtm''"
definition OkToTest :: string where "OkToTest = ''ok-to-test''"
definition NeedsOkToTest :: string where "NeedsOkToTest = ''needs-ok-to-test''"

definition HasLabel :: "string \<Rightarrow> string list \<Rightarrow> bool" where
  "HasLabel label issueLabels \<longleftrightarrow> (\<exists>l \<in> set issueLabels. to_lower l = to_lower label)"

subsection \<open>Configuration\<close>

definition zero_Trigger :: Trigger where
  "zero_Trigger = \<lparr>tr_Repos = [], tr_TrustedOrg = [], tr_JoinOrgURL = [], tr_OnlyOrgMembers = False,
     tr_IgnoreOkToTest = False, tr_ElideSkippedContexts = None\<rparr>"

definition Trigger_SetDefaults :: "Trigger \<Rightarrow> Trigger" where
  "Trigger_SetDefaults t = t\<lparr>
     tr_ElideSkippedContexts :=
       (if tr_ElideSkippedContexts t = None then Some True else tr_ElideSkippedContexts t),
     tr_JoinOrgURL :=
       (if tr_TrustedOrg t \<noteq> [] \<and> tr_JoinOrgURL t = []
        then ''https://github.com/orgs/'' @ tr_TrustedOrg t @ ''/people'' else tr_JoinOrgURL t)\<rparr>"

primrec TriggerFor :: "Trigger list \<Rightarrow> string \<Rightarrow> string \<Rightarrow> Trigger" where
  "TriggerFor [] org repo = Trigger_SetDefaults zero_Trigger"
| "TriggerFor (tr # trs) org repo =
     (if \<exists>r \<in> set (tr_Repos tr). r = org \<or> r = org @ ''/'' @ repo then tr else TriggerFor trs org repo)"

definition HonorOkToTest :: "Trigger \<Rightarrow> bool" where
  "HonorOkToTest trigger \<longleftrightarrow> \<not> tr_IgnoreOkToTest trigger"

subsection \<open>Trust\<close>

definition TrustedUser ::
    "trigger_env \<Rightarrow> bool \<Rightarrow> string \<Rightarrow> string \<Rightarrow> string \<Rightarrow> string \<Rightarrow> bool result" where
  "TrustedUser env onlyOrgMembers trustedOrg user org repo =
     (let members =
        (case tv_IsMember env org user of
           Inl err \<Rightarrow> Inl (''error in IsMember('' @ org @ ''): '' @ err)
         | Inr True \<Rightarrow> Inr True
         | Inr False \<Rightarrow>
             if trustedOrg = [] \<or> trustedOrg = org then Inr False
             else case tv_IsMember env trustedOrg user of
               Inl err \<Rightarrow> Inl (''error in IsMember('' @ trustedOrg @ ''): '' @ err)
             | Inr member \<Rightarrow> Inr member)
      in if onlyOrgMembers then members
         else case tv_IsCollaborator env org repo user of
           Inl err \<Rightarrow> Inl (''error in IsCollaborator: '' @ err)
         | Inr True \<Rightarrow> Inr True
         | Inr False \<Rightarrow> members)"

text \<open>The labels are \<open>None\<close> while they are not fetched; every caller passes nil.\<close>

definition TrustedPullRequest ::
    "trigger_env \<Rightarrow> Trigger \<Rightarrow> string \<Rightarrow> string \<Rightarrow> string \<Rightarrow> int \<Rightarrow> (string list option \<times> bool) result" where
  "TrustedPullRequest env trigger author org repo num =
     (case TrustedUser env (tr_OnlyOrgMembers trigger) (tr_TrustedOrg trigger) author org repo of
        Inl err \<Rightarrow> Inl (''error checking '' @ author @ '' for trust: '' @ err)
      | Inr True \<Rightarrow> Inr (None, True)
      | Inr False \<Rightarrow>
          (case tv_GetIssueLabels env org repo num of
             Inl err \<Rightarrow> Inl err
           | Inr l \<Rightarrow> Inr (Some l, HasLabel OkToTest l)))"

subsection \<open>Running and skipping jobs\<close>

text \<open>Effects that are all tried, with the errors of those that fail.\<close>

fun attempt :: "trigger_env \<Rightarrow> trigger_effect list \<Rightarrow> error list" where
  "attempt env [] = []"
| "attempt env (e # es) =
     (case tv_outcome env e of None \<Rightarrow> attempt env es | Some err \<Rightarrow> err # attempt env es)"

definition skippedStatusFor :: "string \<Rightarrow> GitHubStatus" where
  "skippedStatusFor ctx =
     \<lparr>ghs_State = StatusSuccess, ghs_Description = ''Skipped.'', ghs_Context = ctx, ghs_TargetURL = []\<rparr>"

definition validateContextOverlap :: "Presubmit list \<Rightarrow> Presubmit list \<Rightarrow> error option" where
  "validateContextOverlap toRun toSkip =
     (let overlap = set_list (filter (\<lambda>c. c \<in> ps_Context ` set toSkip) (map ps_Context toRun))
      in if overlap = [] then None
         else Some (''the following contexts are both triggered and skipped: '' @ join '', '' overlap))"

definition runRequested ::
    "trigger_env \<Rightarrow> GitHubPullRequest \<Rightarrow> string \<Rightarrow> Presubmit list \<Rightarrow> string \<Rightarrow> trigger_effect list" where
  "runRequested env pr baseSHA requestedJobs eventGUID =
     map (\<lambda>(i, job). CreateProwJob
            (NewPresubmit (tv_valid_label env) (tv_uuid env i) (tv_now env) pr baseSHA job eventGUID))
       (zip [0..<length requestedJobs] requestedJobs)"

definition skipRequested :: "GitHubPullRequest \<Rightarrow> Presubmit list \<Rightarrow> trigger_effect list" where
  "skipRequested pr skippedJobs =
     map (\<lambda>job. PostStatus (ghpr_Base_Org pr) (ghpr_Base_Repo pr) (ghpr_Head_SHA pr)
            (skippedStatusFor (ps_Context job)))
       (filter (\<lambda>job. \<not> rep_SkipReport (ps_Reporter job)) skippedJobs)"

definition RunAndSkipJobs ::
    "trigger_env \<Rightarrow> GitHubPullRequest \<Rightarrow> string \<Rightarrow> Presubmit list \<Rightarrow> Presubmit list \<Rightarrow> string \<Rightarrow> bool \<Rightarrow> handled" where
  "RunAndSkipJobs env pr baseSHA requestedJobs skippedJobs eventGUID elideSkippedContexts =
     (case validateContextOverlap requestedJobs skippedJobs of
        Some err \<Rightarrow> ([], Some err)
      | None \<Rightarrow>
          (let es = runRequested env pr baseSHA requestedJobs eventGUID
                    @ (if elideSkippedContexts then [] else skipRequested pr skippedJobs)
           in (es, NewAggregate (attempt env es))))"

definition no_changes :: deferred_changes where
  "no_changes = \<lparr>dcf_changedFiles = [], dcf_fetches = 0\<rparr>"

definition buildAll ::
    "trigger_env \<Rightarrow> GitHubPullRequest \<Rightarrow> string \<Rightarrow> bool \<Rightarrow> string \<Rightarrow> Presubmit list \<Rightarrow> handled" where
  "buildAll env pr eventGUID elideSkippedContexts baseSHA presubmits =
     (case FilterPresubmits TestAllFilter
             (NewGitHubDeferredChangedFilesProvider (tv_GetPullRequestChanges env)
                (ghpr_Base_Org pr) (ghpr_Base_Repo pr) (ghpr_Number pr))
             (ghpr_Base_Ref pr) presubmits no_changes of
        (Inl err, _) \<Rightarrow> ([], Some err)
      | (Inr (toTest, toSkip), _) \<Rightarrow>
          RunAndSkipJobs env pr baseSHA toTest toSkip eventGUID elideSkippedContexts)"

subsection \<open>Pull request events\<close>

datatype pr_action = Opened | Reopened | Edited | Synchronize | Labeled | OtherAction string

text \<open>
  The changes of an edit are the old ref and SHA of the base, or \<open>None\<close> if they cannot be decoded.
\<close>

record PullRequestEvent =
  pre_Action :: pr_action
  pre_PullRequest :: GitHubPullRequest
  pre_FullName :: string
  pre_Label :: string
  pre_Changes :: "(string \<times> string) option"
  pre_GUID :: string

text \<open>\<open>url.QueryEscape\<close>\<close>

definition hex_digit :: "nat \<Rightarrow> char" where
  "hex_digit n = (if n < 10 then char_of (48 + n) else char_of (55 + n))"

definition escape_char :: "char \<Rightarrow> string" where
  "escape_char c =
     (let n = of_char c :: nat
      in if 48 \<le> n \<and> n \<le> 57 \<or> 65 \<le> n \<and> n \<le> 90 \<or> 97 \<le> n \<and> n \<le> 122 \<or> c \<in> set ''-_.~'' then [c]
         else if c = CHR '' '' then ''+''
         else [CHR ''%'', hex_digit (n div 16), hex_digit (n mod 16)])"

definition query_escape :: "string \<Rightarrow> string" where
  "query_escape s = concat (map escape_char s)"

definition welcome_comment :: "Trigger \<Rightarrow> string \<Rightarrow> string \<Rightarrow> string \<Rightarrow> string" where
  "welcome_comment trigger author org fullName =
     (let more = (if tr_TrustedOrg trigger \<noteq> [] \<and> tr_TrustedOrg trigger \<noteq> org
                  then ''or ['' @ tr_TrustedOrg trigger @ ''](https://github.com/orgs/''
                       @ tr_TrustedOrg trigger @ ''/people) ''
                  else []);
          joinOrgURL = (if tr_JoinOrgURL trigger \<noteq> [] then tr_JoinOrgURL trigger
                        else ''https://github.com/orgs/'' @ org @ ''/people'');
          bot = [''I understand the commands that are listed [here](https://go.k8s.io/bot-commands?repo=''
                   @ query_escape fullName @ '').'',
                 [], ''<details>'', [], AboutThisBotWithoutCommands, ''</details>'', []]
      in join [newline]
           ([''Hi @'' @ author @ ''. Thanks for your PR.'', []]
            @ (if tr_IgnoreOkToTest trigger then
                 [''PRs from untrusted users cannot be marked as trusted with `/ok-to-test` in this repo meaning untrusted PR authors can never trigger tests themselves. Collaborators can still trigger tests on the PR using `/test all`.'', []]
               else
                 [''I'' @ [CHR 0x27] @ ''m waiting for a ['' @ org @ ''](https://github.com/orgs/'' @ org @ ''/people) '' @ more
                  @ ''member to verify that this patch is reasonable to test. If it is, they should reply with `/ok-to-test` on its own line. Until that is done, I will not automatically test new commits in this PR, but the usual testing commands by org members will still work. Regular contributors should [join the org](''
                  @ joinOrgURL @ '') to skip this step.'', [],
                  ''Once the patch is verified, the new status will be reflected by the `'' @ OkToTest @ ''` label.'', []])
            @ bot))"

definition welcomeMsg :: "trigger_env \<Rightarrow> Trigger \<Rightarrow> GitHubPullRequest \<Rightarrow> string \<Rightarrow> handled" where
  "welcomeMsg env trigger pr fullName =
     (let org = ghpr_Base_Org pr; repo = ghpr_Base_Repo pr; num = ghpr_Number pr;
          es = (if tr_IgnoreOkToTest trigger then [] else [AddLabel org repo num NeedsOkToTest])
               @ [PostComment org repo num (welcome_comment trigger (ghpr_User_Login pr) org fullName)]
      in (es, NewAggregate (attempt env es)))"

text \<open>The jobs of the whole pull request; \<open>None\<close> is the panic of an option that was not defaulted.\<close>

definition build ::
    "trigger_env \<Rightarrow> Trigger \<Rightarrow> GitHubPullRequest \<Rightarrow> string \<Rightarrow> string \<Rightarrow> Presubmit list \<Rightarrow> handled option" where
  "build env trigger pr eventGUID baseSHA presubmits =
     (case tr_ElideSkippedContexts trigger of
        None \<Rightarrow> None
      | Some elideSkipped \<Rightarrow> Some (buildAll env pr eventGUID elideSkipped baseSHA presubmits))"

text \<open>Removing \<open>needs-ok-to-test\<close> from a trusted pull request, then all jobs.\<close>

definition build_trusted ::
    "trigger_env \<Rightarrow> Trigger \<Rightarrow> GitHubPullRequest \<Rightarrow> string \<Rightarrow> string \<Rightarrow> Presubmit list \<Rightarrow> string list option
     \<Rightarrow> handled option" where
  "build_trusted env trigger pr eventGUID baseSHA presubmits l =
     (let rm = RemoveLabel (ghpr_Base_Org pr) (ghpr_Base_Repo pr) (ghpr_Number pr) NeedsOkToTest;
          rest = build env trigger pr eventGUID baseSHA presubmits
      in if l \<noteq> None \<and> HasLabel NeedsOkToTest (the l) then
           (case tv_outcome env rm of
              Some err \<Rightarrow> Some ([rm], Some err)
            | None \<Rightarrow> map_option (\<lambda>(es, err). (rm # es, err)) rest)
         else rest)"

text \<open>\<open>buildAllIfTrusted\<close>, and the same steps when a pull request is reopened.\<close>

definition buildAllIfTrusted ::
    "trigger_env \<Rightarrow> Trigger \<Rightarrow> GitHubPullRequest \<Rightarrow> string \<Rightarrow> string \<Rightarrow> Presubmit list \<Rightarrow> handled option" where
  "buildAllIfTrusted env trigger pr eventGUID baseSHA presubmits =
     (case TrustedPullRequest env trigger (ghpr_User_Login pr) (ghpr_Base_Org pr) (ghpr_Base_Repo pr)
             (ghpr_Number pr) of
        Inl err \<Rightarrow> Some ([], Some (''could not validate PR: '' @ err))
      | Inr (l, True) \<Rightarrow> build_trusted env trigger pr eventGUID baseSHA presubmits l
      | Inr (_, False) \<Rightarrow> Some ([], None))"

definition handle_opened ::
    "trigger_env \<Rightarrow> Trigger \<Rightarrow> PullRequestEvent \<Rightarrow> string \<Rightarrow> Presubmit list \<Rightarrow> handled option" where
  "handle_opened env trigger ev baseSHA presubmits =
     (let pr = pre_PullRequest ev; author = ghpr_User_Login pr
      in case TrustedUser env (tr_OnlyOrgMembers trigger) (tr_TrustedOrg trigger) author
                (ghpr_Base_Org pr) (ghpr_Base_Repo pr) of
           Inl err \<Rightarrow> Some ([], Some (''could not check membership: '' @ err))
         | Inr True \<Rightarrow> build env trigger pr (pre_GUID ev) baseSHA presubmits
         | Inr False \<Rightarrow>
             (case welcomeMsg env trigger pr (pre_FullName ev) of
                (es, Some err) \<Rightarrow> Some (es, Some (''could not welcome non-org member '' @ quote author @ '': '' @ err))
              | (es, None) \<Rightarrow> Some (es, None)))"

text \<open>A label is added: \<open>lgtm\<close> first, then \<open>ok-to-test\<close>.\<close>

definition handle_labeled ::
    "trigger_env \<Rightarrow> Trigger \<Rightarrow> PullRequestEvent \<Rightarrow> string \<Rightarrow> Presubmit list \<Rightarrow> handled option" where
  "handle_labeled env trigger ev baseSHA presubmits =
     (let pr = pre_PullRequest ev; author = ghpr_User_Login pr;
          all_jobs = build env trigger pr (pre_GUID ev) baseSHA presubmits
      in if pre_Label ev = LGTM then
           (case TrustedPullRequest env trigger author (ghpr_Base_Org pr) (ghpr_Base_Repo pr) (ghpr_Number pr) of
              Inl err \<Rightarrow> Some ([], Some (''could not validate PR: '' @ err))
            | Inr (_, True) \<Rightarrow> Some ([], None)
            | Inr (_, False) \<Rightarrow> all_jobs)
         else if pre_Label ev = OkToTest then
           (case tv_BotName env of
              Inl err \<Rightarrow> Some ([], Some err)
            | Inr botName \<Rightarrow> if author = botName then Some ([], None) else all_jobs)
         else Some ([], None))"

definition handle_action ::
    "trigger_env \<Rightarrow> Trigger \<Rightarrow> PullRequestEvent \<Rightarrow> string \<Rightarrow> Presubmit list \<Rightarrow> handled option" where
  "handle_action env trigger ev baseSHA presubmits =
     (let trusted = buildAllIfTrusted env trigger (pre_PullRequest ev) (pre_GUID ev) baseSHA presubmits
      in case pre_Action ev of
           Opened \<Rightarrow> handle_opened env trigger ev baseSHA presubmits
         | Reopened \<Rightarrow> trusted
         | Edited \<Rightarrow>
             (case pre_Changes ev of
                None \<Rightarrow> Some ([], None)
              | Some (ref_from, sha_from) \<Rightarrow>
                  if ref_from \<noteq> [] \<or> sha_from \<noteq> [] then trusted else Some ([], None))
         | Synchronize \<Rightarrow> trusted
         | Labeled \<Rightarrow> handle_labeled env trigger ev baseSHA presubmits
         | OtherAction _ \<Rightarrow> Some ([], None))"

definition handlePR :: "trigger_env \<Rightarrow> Trigger \<Rightarrow> PullRequestEvent \<Rightarrow> handled option" where
  "handlePR env trigger ev =
     (let pr = pre_PullRequest ev; org = ghpr_Base_Org pr; repo = ghpr_Base_Repo pr;
          baseSHAGetter = (case tv_GetRef env org repo (''heads/'' @ ghpr_Base_Ref pr) of
             Inl err \<Rightarrow> Inl (''failed to get baseSHA: '' @ err) | Inr sha \<Rightarrow> Inr sha)
      in case GetPresubmits (tv_Config env) (org @ ''/'' @ repo) baseSHAGetter [Inr (ghpr_Head_SHA pr)] of
           Inl err \<Rightarrow> Some ([], Some (''failed to get presubmits: '' @ err))
         | Inr presubmits \<Rightarrow>
             if presubmits = [] then Some ([], None)
             else case baseSHAGetter of
               Inl err \<Rightarrow> Some ([], Some err)
             | Inr baseSHA \<Rightarrow> handle_action env trigger ev baseSHA presubmits)"

subsection \<open>Comments\<close>

datatype comment_action = Created | EditedComment | Deleted

record GenericCommentEvent =
  gce_IsPR :: bool
  gce_Action :: comment_action
  gce_Body :: string
  gce_HTMLURL :: string
  gce_Number :: int
  gce_Org :: string
  gce_Repo :: string
  gce_User_Login :: string
  gce_IssueAuthor_Login :: string
  gce_IssueState :: string
  gce_GUID :: string

text \<open>\<open>RefGetterForGitHubPullRequest\<close>: what it fetches is kept, so it is a value.\<close>

definition ref_PullRequest :: "trigger_env \<Rightarrow> string \<Rightarrow> string \<Rightarrow> int \<Rightarrow> GitHubPullRequest result" where
  "ref_PullRequest env org repo num = tv_GetPullRequest env org repo num"

definition ref_HeadSHA :: "trigger_env \<Rightarrow> string \<Rightarrow> string \<Rightarrow> int \<Rightarrow> string result" where
  "ref_HeadSHA env org repo num =
     (case ref_PullRequest env org repo num of Inl err \<Rightarrow> Inl err | Inr pr \<Rightarrow> Inr (ghpr_Head_SHA pr))"

definition ref_BaseSHA :: "trigger_env \<Rightarrow> string \<Rightarrow> string \<Rightarrow> int \<Rightarrow> string result" where
  "ref_BaseSHA env org repo num =
     (case ref_PullRequest env org repo num of
        Inl err \<Rightarrow> Inl err
      | Inr pr \<Rightarrow> tv_GetRef env org repo (''heads/'' @ ghpr_Base_Ref pr))"

definition getContexts :: "GitHubStatus list option \<Rightarrow> string set \<times> string set" where
  "getContexts combinedStatus =
     (case combinedStatus of
        None \<Rightarrow> ({}, {})
      | Some statuses \<Rightarrow>
          (ghs_Context ` set (filter (\<lambda>s. ghs_State s = StatusError \<or> ghs_State s = StatusFailure) statuses),
           ghs_Context ` set statuses))"

definition comment_FilterPresubmits ::
    "trigger_env \<Rightarrow> bool \<Rightarrow> string \<Rightarrow> GitHubPullRequest \<Rightarrow> Presubmit list
     \<Rightarrow> (Presubmit list \<times> Presubmit list) result" where
  "comment_FilterPresubmits env honorOkToTest body pr presubmits =
     (let org = ghpr_Base_Org pr; repo = ghpr_Base_Repo pr;
          contextGetter = (case tv_GetCombinedStatus env org repo (ghpr_Head_SHA pr) of
             Inl err \<Rightarrow> Inl err | Inr combinedStatus \<Rightarrow> Inr (getContexts combinedStatus))
      in case PresubmitFilter honorOkToTest contextGetter body of
           Inl err \<Rightarrow> Inl err
         | Inr flt \<Rightarrow>
             fst (FilterPresubmits flt
               (NewGitHubDeferredChangedFilesProvider (tv_GetPullRequestChanges env) org repo (ghpr_Number pr))
               (ghpr_Base_Ref pr) presubmits no_changes))"

definition germane :: "string \<Rightarrow> Presubmit list \<Rightarrow> bool" where
  "germane body presubmits \<longleftrightarrow> RetestRe body \<or> OkToTestRe body \<or> TestAllRe body
     \<or> (\<exists>presubmit \<in> set presubmits. TriggerMatches presubmit body)"

text \<open>\<open>plugins.FormatResponse\<close> and \<open>FormatResponseRaw\<close>.\<close>

definition FormatResponse :: "string \<Rightarrow> string \<Rightarrow> string \<Rightarrow> string" where
  "FormatResponse recipient message reason =
     join [newline] [''@'' @ recipient @ '': '' @ message, [], ''<details>'', [], reason, [],
       AboutThisBotWithoutCommands, ''</details>'']"

definition FormatResponseRaw :: "string \<Rightarrow> string \<Rightarrow> string \<Rightarrow> string \<Rightarrow> string" where
  "FormatResponseRaw body bodyURL login reply =
     FormatResponse login reply
       (join [newline] [''In response to [this]('' @ bodyURL @ ''):'', [],
          join [newline] (map (\<lambda>l. CHR ''>'' # l) (split_on newline body)), []])"

definition untrusted_response :: string where
  "untrusted_response = ''Cannot trigger testing until a trusted user reviews the PR and leaves an `/ok-to-test` message.''"

text \<open>Effects one after the other, up to the first that fails.\<close>

fun in_turn :: "trigger_env \<Rightarrow> trigger_effect list \<Rightarrow> handled" where
  "in_turn env [] = ([], None)"
| "in_turn env (e # es) =
     (case tv_outcome env e of
        Some err \<Rightarrow> ([e], Some err)
      | None \<Rightarrow> (case in_turn env es of (es', err) \<Rightarrow> (e # es', err)))"

text \<open>The labels of a pull request that is trusted, and its jobs.\<close>

definition comment_trusted ::
    "trigger_env \<Rightarrow> Trigger \<Rightarrow> GenericCommentEvent \<Rightarrow> Presubmit list \<Rightarrow> handled option" where
  "comment_trusted env trigger gc presubmits =
     (let org = gce_Org gc; repo = gce_Repo gc; num = gce_Number gc; body = gce_Body gc
      in case tv_GetIssueLabels env org repo num of
           Inl err \<Rightarrow> Some ([], Some err)
         | Inr l \<Rightarrow>
             (let isOkToTest = (HonorOkToTest trigger \<and> OkToTestRe body);
                  (es, labelErr) = in_turn env
                    ((if isOkToTest \<and> \<not> HasLabel OkToTest l then [AddLabel org repo num OkToTest] else [])
                     @ (if (isOkToTest \<or> HasLabel OkToTest l) \<and> HasLabel NeedsOkToTest l
                        then [RemoveLabel org repo num NeedsOkToTest] else []))
              in case labelErr of
                   Some err \<Rightarrow> Some (es, Some err)
                 | None \<Rightarrow>
                     (case ref_PullRequest env org repo num of
                        Inl err \<Rightarrow> Some (es, Some err)
                      | Inr pr \<Rightarrow>
                          (case ref_BaseSHA env org repo num of
                             Inl err \<Rightarrow> Some (es, Some err)
                           | Inr baseSHA \<Rightarrow>
                               (case comment_FilterPresubmits env (HonorOkToTest trigger) body pr presubmits of
                                  Inl err \<Rightarrow> Some (es, Some err)
                                | Inr (toTest, toSkip) \<Rightarrow>
                                    (case tr_ElideSkippedContexts trigger of
                                       None \<Rightarrow> None
                                     | Some elideSkipped \<Rightarrow>
                                         (case RunAndSkipJobs env pr baseSHA toTest toSkip (gce_GUID gc) elideSkipped of
                                            (es', err) \<Rightarrow> Some (es @ es', err))))))))"

definition handleGenericComment ::
    "trigger_env \<Rightarrow> Trigger \<Rightarrow> GenericCommentEvent \<Rightarrow> handled option" where
  "handleGenericComment env trigger gc =
     (let org = gce_Org gc; repo = gce_Repo gc; num = gce_Number gc; commentAuthor = gce_User_Login gc
      in if gce_Action gc \<noteq> Created \<or> \<not> gce_IsPR gc \<or> gce_IssueState gc \<noteq> ''open'' then Some ([], None)
         else case tv_BotName env of
           Inl err \<Rightarrow> Some ([], Some err)
         | Inr botName \<Rightarrow>
             if commentAuthor = botName then Some ([], None)
             else case GetPresubmits (tv_Config env) (org @ ''/'' @ repo) (ref_BaseSHA env org repo num)
                         [ref_HeadSHA env org repo num] of
               Inl err \<Rightarrow> Some ([], Some (''failed to get presubmits: '' @ err))
             | Inr presubmits \<Rightarrow>
                 if \<not> germane (gce_Body gc) presubmits then Some ([], None)
                 else case TrustedUser env (tr_OnlyOrgMembers trigger) (tr_TrustedOrg trigger) commentAuthor org repo of
                   Inl err \<Rightarrow> Some ([], Some (''error checking trust of '' @ commentAuthor @ '': '' @ err))
                 | Inr True \<Rightarrow> comment_trusted env trigger gc presubmits
                 | Inr False \<Rightarrow>
                     (case TrustedPullRequest env trigger (gce_IssueAuthor_Login gc) org repo num of
                        Inl err \<Rightarrow> Some ([], Some err)
                      | Inr (_, True) \<Rightarrow> comment_trusted env trigger gc presubmits
                      | Inr (_, False) \<Rightarrow>
                          (let e = PostComment org repo num
                             (FormatResponseRaw (gce_Body gc) (gce_HTMLURL gc) commentAuthor untrusted_response)
                           in Some ([e], tv_outcome env e))))"

subsection \<open>Pushes\<close>

record push_commit =
  pc_Added :: "string list"
  pc_Removed :: "string list"
  pc_Modified :: "string list"

record PushEvent =
  pe_Ref :: string
  pe_After :: string
  pe_Deleted :: bool
  pe_Compare :: string
  pe_Commits :: "push_commit list"
  pe_Repo_Owner_Name :: string
  pe_Repo_Name :: string
  pe_Repo_FullName :: string
  pe_GUID :: string

definition push_Branch :: "PushEvent \<Rightarrow> string" where
  "push_Branch pe = trim_prefix (trim_prefix (pe_Ref pe) ''refs/heads/'') ''refs/tags/''"

text \<open>The keys of the map of changed files, in the order \<open>iter\<close> of the range.\<close>

definition listPushEventChanges ::
    "(string list \<Rightarrow> string list) \<Rightarrow> PushEvent \<Rightarrow> unit ChangedFilesProvider" where
  "listPushEventChanges iter pe s =
     (Inr (iter (remdups (concat (map (\<lambda>c. pc_Added c @ pc_Removed c @ pc_Modified c) (pe_Commits pe))))), s)"

definition push_createRefs :: "PushEvent \<Rightarrow> Refs" where
  "push_createRefs pe =
     zero_Refs\<lparr>refs_Org := pe_Repo_Owner_Name pe, refs_Repo := pe_Repo_Name pe, refs_BaseRef := push_Branch pe,
       refs_BaseSHA := pe_After pe, refs_BaseLink := pe_Compare pe\<rparr>"

definition push_job :: "trigger_env \<Rightarrow> PushEvent \<Rightarrow> nat \<Rightarrow> Postsubmit \<Rightarrow> ProwJob" where
  "push_job env pe i j =
     NewProwJob (tv_valid_label env) (tv_uuid env i) (tv_now env) (PostsubmitSpec j (push_createRefs pe))
       ((jb_Labels (post_JobBase j))(EventGUID \<mapsto> pe_GUID pe)) (jb_Annotations (post_JobBase j))"

fun push_loop ::
    "trigger_env \<Rightarrow> (string list \<Rightarrow> string list) \<Rightarrow> PushEvent \<Rightarrow> nat \<Rightarrow> Postsubmit list \<Rightarrow> handled" where
  "push_loop env iter pe i [] = ([], None)"
| "push_loop env iter pe i (j # js) =
     (case fst (Postsubmit_ShouldRun j (push_Branch pe) (listPushEventChanges iter pe) ()) of
        Inl err \<Rightarrow> ([], Some err)
      | Inr False \<Rightarrow> push_loop env iter pe i js
      | Inr True \<Rightarrow>
          (let e = CreateProwJob (push_job env pe i j)
           in case tv_outcome env e of
                Some err \<Rightarrow> ([e], Some err)
              | None \<Rightarrow> (case push_loop env iter pe (Suc i) js of (es, err) \<Rightarrow> (e # es, err))))"

definition handlePE :: "trigger_env \<Rightarrow> (string list \<Rightarrow> string list) \<Rightarrow> PushEvent \<Rightarrow> handled" where
  "handlePE env iter pe =
     (if pe_Deleted pe then ([], None)
      else push_loop env iter pe 0 (map_get [] (tv_Postsubmits env) (pe_Repo_FullName pe)))"

text \<open>The entry points of the plugin, with the list of triggers of its configuration.\<close>

definition handlePullRequest :: "trigger_env \<Rightarrow> Trigger list \<Rightarrow> PullRequestEvent \<Rightarrow> handled option" where
  "handlePullRequest env trs ev =
     handlePR env (TriggerFor trs (ghpr_Base_Org (pre_PullRequest ev)) (ghpr_Base_Repo (pre_PullRequest ev))) ev"

definition handleGenericCommentEvent ::
    "trigger_env \<Rightarrow> Trigger list \<Rightarrow> GenericCommentEvent \<Rightarrow> handled option" where
  "handleGenericCommentEvent env trs gc =
     handleGenericComment env (TriggerFor trs (gce_Org gc) (gce_Repo gc)) gc"

subsection \<open>What is created\<close>

definition created :: "trigger_effect list \<Rightarrow> ProwJob list" where
  "created es = List.map_filter (\<lambda>e. case e of CreateProwJob pj \<Rightarrow> Some pj | _ \<Rightarrow> None) es"

lemma created_simps [simp]:
  "created [] = []" "created (CreateProwJob pj # es) = pj # created es"
  "created (PostStatus a b c s # es) = created es" "created (PostComment a b n d # es) = created es"
  "created (AddLabel a b n d # es) = created es" "created (RemoveLabel a b n d # es) = created es"
  "created (es @ es') = created es @ created es'"
  by (simp_all add: created_def List.map_filter_def)

lemma created_mem: "CreateProwJob pj \<in> set es \<Longrightarrow> pj \<in> set (created es)"
  by (force simp: created_def List.map_filter_def)

lemma created_map [simp]: "(\<And>x. created [f x] = []) \<Longrightarrow> created (map f xs) = []"
proof (induction xs)
  case (Cons x xs)
  then show ?case using created_simps(7) [of "[f x]" "map f xs"] by simp
qed simp

lemma created_skip [simp]: "created (skipRequested pr js) = []"
  by (simp add: skipRequested_def)

lemma created_welcome: "welcomeMsg env trigger pr fullName = (es, err) \<Longrightarrow> created es = []"
  by (auto simp: welcomeMsg_def Let_def)

lemma created_in_turn: "in_turn env es = (es', err) \<Longrightarrow> created es = [] \<Longrightarrow> created es' = []"
proof (induction es arbitrary: es')
  case (Cons e es)
  have "created [e] = [] \<and> created es = []"
    using Cons.prems(2) created_simps(7) [of "[e]" es] by simp
  then show ?case
    using Cons created_simps(7) [of "[e]"] by (auto split: option.splits prod.splits)
qed simp

text \<open>The authors and labels that make a pull request trusted.\<close>

definition trusted_user :: "trigger_env \<Rightarrow> Trigger \<Rightarrow> string \<Rightarrow> string \<Rightarrow> string \<Rightarrow> bool" where
  "trusted_user env trigger user org repo \<longleftrightarrow>
     \<not> tr_OnlyOrgMembers trigger \<and> tv_IsCollaborator env org repo user = Inr True
     \<or> tv_IsMember env org user = Inr True
     \<or> tr_TrustedOrg trigger \<noteq> [] \<and> tv_IsMember env (tr_TrustedOrg trigger) user = Inr True"

definition ok_to_test :: "trigger_env \<Rightarrow> string \<Rightarrow> string \<Rightarrow> int \<Rightarrow> bool" where
  "ok_to_test env org repo num \<longleftrightarrow> (\<exists>l. tv_GetIssueLabels env org repo num = Inr l \<and> HasLabel OkToTest l)"

lemma TrustedUser_trusted:
  "TrustedUser env (tr_OnlyOrgMembers trigger) (tr_TrustedOrg trigger) user org repo = Inr True \<Longrightarrow>
     trusted_user env trigger user org repo"
  by (auto simp: TrustedUser_def trusted_user_def Let_def split: if_splits sum.splits bool.splits)

lemma TrustedPullRequest_trusted:
  "TrustedPullRequest env trigger author org repo num = Inr (l, True) \<Longrightarrow>
     trusted_user env trigger author org repo \<or> ok_to_test env org repo num"
  by (auto simp: TrustedPullRequest_def ok_to_test_def dest!: TrustedUser_trusted split: sum.splits bool.splits)

lemma buildAllIfTrusted_trusted:
  assumes "buildAllIfTrusted env trigger pr guid base pss = Some (es, err)" "created es \<noteq> []"
  shows "trusted_user env trigger (ghpr_User_Login pr) (ghpr_Base_Org pr) (ghpr_Base_Repo pr)
    \<or> ok_to_test env (ghpr_Base_Org pr) (ghpr_Base_Repo pr) (ghpr_Number pr)"
  using assms unfolding buildAllIfTrusted_def
  by (auto split: sum.splits bool.splits dest!: TrustedPullRequest_trusted)

lemma handle_action_trusted:
  assumes "handle_action env trigger ev base pss = Some (es, err)" "created es \<noteq> []"
  defines "pr \<equiv> pre_PullRequest ev"
  shows "trusted_user env trigger (ghpr_User_Login pr) (ghpr_Base_Org pr) (ghpr_Base_Repo pr)
    \<or> ok_to_test env (ghpr_Base_Org pr) (ghpr_Base_Repo pr) (ghpr_Number pr)
    \<or> pre_Action ev = Labeled \<and> (pre_Label ev = LGTM \<or> pre_Label ev = OkToTest)"
proof (cases "pre_Action ev")
  case Opened
  then show ?thesis
    using assms(1,2) unfolding pr_def
    by (auto simp: handle_action_def handle_opened_def Let_def split: sum.splits bool.splits prod.splits option.splits
        dest!: TrustedUser_trusted dest: created_welcome)
next
  case Labeled
  then show ?thesis
    using assms(1,2) by (auto simp: handle_action_def handle_labeled_def Let_def split: if_splits)
qed (use assms(1,2) buildAllIfTrusted_trusted [of env trigger "pre_PullRequest ev"] in
    \<open>auto simp: handle_action_def pr_def Let_def split: option.splits if_splits\<close>)

lemma handlePR_trusted:
  assumes "handlePR env trigger ev = Some (es, err)" "created es \<noteq> []"
  obtains base pss where "handle_action env trigger ev base pss = Some (es, err)"
    "tv_GetRef env (ghpr_Base_Org (pre_PullRequest ev)) (ghpr_Base_Repo (pre_PullRequest ev))
       (''heads/'' @ ghpr_Base_Ref (pre_PullRequest ev)) = Inr base"
    "\<exists>b h. GetPresubmits (tv_Config env)
       (ghpr_Base_Org (pre_PullRequest ev) @ ''/'' @ ghpr_Base_Repo (pre_PullRequest ev)) b h = Inr pss"
  using assms unfolding handlePR_def by (auto simp: Let_def split: sum.splits if_splits)

lemma handleGenericComment_trusted:
  assumes "handleGenericComment env trigger gc = Some (es, err)" "created es \<noteq> []"
  shows "gce_Action gc = Created \<and> gce_IssueState gc = ''open'' \<and> tv_BotName env \<noteq> Inr (gce_User_Login gc)
    \<and> (trusted_user env trigger (gce_User_Login gc) (gce_Org gc) (gce_Repo gc)
       \<or> trusted_user env trigger (gce_IssueAuthor_Login gc) (gce_Org gc) (gce_Repo gc)
       \<or> ok_to_test env (gce_Org gc) (gce_Repo gc) (gce_Number gc))"
  using assms unfolding handleGenericComment_def
  by (auto simp: Let_def split: sum.splits bool.splits prod.splits if_splits
      dest!: TrustedUser_trusted TrustedPullRequest_trusted)

text \<open>What one job stands for: a presubmit that may run on the branch, at the head and the base.\<close>

definition job_of :: "trigger_env \<Rightarrow> GitHubPullRequest \<Rightarrow> string \<Rightarrow> Presubmit list \<Rightarrow> ProwJob \<Rightarrow> bool" where
  "job_of env pr baseSHA presubmits pj \<longleftrightarrow>
     (\<exists>job \<in> set presubmits. CouldRun job (ghpr_Base_Ref pr)
        \<and> pj_Spec pj = PresubmitSpec job (createRefs pr baseSHA) \<and> pj_State pj = TriggeredState)"

text \<open>No context is both run and skipped.\<close>

definition no_overlap :: "trigger_effect list \<Rightarrow> bool" where
  "no_overlap es \<longleftrightarrow> (\<forall>pj \<in> set (created es). \<forall>org repo sha s.
     PostStatus org repo sha s \<in> set es \<longrightarrow> ghs_Context s \<noteq> spec_Context (pj_Spec pj))"

lemma filter_loop_triggers:
  "filter_loop flt changes branch pss toTrigger toSkip s = (Inr (tr, sk), s') \<Longrightarrow>
     set tr \<subseteq> set toTrigger \<union> {ps \<in> set pss. CouldRun ps branch}"
proof (induction pss arbitrary: toTrigger toSkip s)
  case (Cons ps pss)
  obtain m f d where flt: "flt ps = (m, f, d)" by (metis prod_cases3)
  obtain r s1 where sr: "ShouldRun ps branch changes f d s = (r, s1)" by fastforce
  show ?case
  proof (cases "m \<and> r = Inr True")
    case True
    then have "CouldRun ps branch" using sr by (auto simp: ShouldRun_def split: if_splits)
    then show ?thesis using Cons.IH [of "toTrigger @ [ps]" toSkip s1] Cons.prems True flt sr by auto
  next
    case False
    then obtain sk' s2 where "filter_loop flt changes branch pss toTrigger sk' s2 = (Inr (tr, sk), s')"
      using Cons.prems flt sr by (auto split: if_splits sum.splits bool.splits)
    then show ?thesis using Cons.IH by fastforce
  qed
qed simp

lemma FilterPresubmits_triggers:
  "FilterPresubmits flt changes branch pss s = (Inr (tr, sk), s') \<Longrightarrow>
     set tr \<subseteq> {ps \<in> set pss. CouldRun ps branch}"
  by (auto simp: FilterPresubmits_def split: sum.splits prod.splits dest!: filter_loop_triggers)

lemma created_run:
  "created (runRequested env pr base jobs guid) =
     map (\<lambda>(i, job). NewPresubmit (tv_valid_label env) (tv_uuid env i) (tv_now env) pr base job guid)
       (zip [0..<length jobs] jobs)"
proof -
  have "created (map (\<lambda>x. CreateProwJob (f x)) xs) = map f xs" for f and xs :: "(nat \<times> Presubmit) list"
    by (induction xs) simp_all
  then show ?thesis by (simp add: runRequested_def case_prod_unfold)
qed

lemma NewPresubmit_spec:
  "pj_Spec (NewPresubmit valid name now pr base job guid) = PresubmitSpec job (createRefs pr base)"
  "pj_State (NewPresubmit valid name now pr base job guid) = TriggeredState"
  by (simp_all add: NewPresubmit_def NewProwJob_def split: prod.split)

lemma PresubmitSpec_context [simp]: "spec_Context (PresubmitSpec job refs) = ps_Context job"
  by (simp add: PresubmitSpec_def)

lemma RunAndSkipJobs_jobs:
  assumes "RunAndSkipJobs env pr base run skip guid elideSkipped = (es, err)"
    "set run \<subseteq> {ps \<in> set pss. CouldRun ps (ghpr_Base_Ref pr)}"
  shows "(\<forall>pj \<in> set (created es). job_of env pr base pss pj) \<and> no_overlap es \<and> length (created es) \<le> length run"
proof (cases "validateContextOverlap run skip")
  case None
  then have dis: "ps_Context ` set run \<inter> ps_Context ` set skip = {}"
    by (auto simp: validateContextOverlap_def Let_def filter_empty_conv split: if_splits)
  have es: "es = runRequested env pr base run guid @ (if elideSkipped then [] else skipRequested pr skip)"
    using assms(1) None by (simp add: RunAndSkipJobs_def Let_def)
  have cr: "created es = created (runRequested env pr base run guid)" by (simp add: es)
  have jobs: "\<exists>job \<in> set run. pj_Spec pj = PresubmitSpec job (createRefs pr base) \<and> pj_State pj = TriggeredState"
    if "pj \<in> set (created es)" for pj
    using that unfolding cr created_run by (auto simp: NewPresubmit_spec dest: set_zip_rightD)
  have posts: "ghs_Context s \<in> ps_Context ` set skip" if "PostStatus o' r' sha s \<in> set es" for o' r' sha s
    using that by (auto simp: es runRequested_def skipRequested_def skippedStatusFor_def split: if_splits)
  have "no_overlap es"
    unfolding no_overlap_def using jobs posts dis by (fastforce simp del: PresubmitSpec_context simp: PresubmitSpec_context)
  moreover have "length (created es) \<le> length run" by (simp add: cr created_run)
  ultimately show ?thesis using jobs assms(2) unfolding job_of_def by blast
next
  case (Some e)
  then show ?thesis using assms(1) by (auto simp: RunAndSkipJobs_def no_overlap_def)
qed

definition jobs_ok :: "trigger_env \<Rightarrow> GitHubPullRequest \<Rightarrow> string \<Rightarrow> Presubmit list \<Rightarrow> trigger_effect list \<Rightarrow> bool" where
  "jobs_ok env pr base pss es \<longleftrightarrow> (\<forall>pj \<in> set (created es). job_of env pr base pss pj) \<and> no_overlap es"

lemma jobs_ok_none: "created es = [] \<Longrightarrow> jobs_ok env pr base pss es"
  by (simp add: jobs_ok_def no_overlap_def)

lemma jobs_ok_prefix:
  assumes "jobs_ok env pr base pss es" "\<forall>e \<in> set ls. \<exists>o' r' n l. e = AddLabel o' r' n l \<or> e = RemoveLabel o' r' n l"
  shows "jobs_ok env pr base pss (ls @ es)"
proof -
  have "created ls = []" using assms(2) by (induction ls) auto
  moreover have "PostStatus o' r' sha s \<notin> set ls" for o' r' sha s using assms(2) by blast
  ultimately show ?thesis using assms(1) by (auto simp: jobs_ok_def no_overlap_def)
qed

lemma buildAll_jobs:
  assumes "buildAll env pr guid elideSkipped base pss = (es, err)"
  shows "jobs_ok env pr base pss es"
proof -
  obtain res s where f: "FilterPresubmits TestAllFilter
       (NewGitHubDeferredChangedFilesProvider (tv_GetPullRequestChanges env)
          (ghpr_Base_Org pr) (ghpr_Base_Repo pr) (ghpr_Number pr)) (ghpr_Base_Ref pr) pss no_changes = (res, s)"
    by fastforce
  show ?thesis
  proof (cases res)
    case (Inl e)
    then show ?thesis using assms f by (simp add: buildAll_def jobs_ok_none)
  next
    case (Inr p)
    then obtain tr sk where p: "res = Inr (tr, sk)" by (cases p) auto
    with assms f have "RunAndSkipJobs env pr base tr sk guid elideSkipped = (es, err)" by (simp add: buildAll_def)
    from RunAndSkipJobs_jobs [OF this FilterPresubmits_triggers [OF f [unfolded p]]]
    show ?thesis by (simp add: jobs_ok_def)
  qed
qed

lemma build_jobs: "build env trigger pr guid base pss = Some (es, err) \<Longrightarrow> jobs_ok env pr base pss es"
  by (auto simp: build_def buildAll_jobs split: option.splits)

lemma build_trusted_jobs:
  assumes "build_trusted env trigger pr guid base pss l = Some (es, err)"
  shows "jobs_ok env pr base pss es"
proof -
  let ?rm = "RemoveLabel (ghpr_Base_Org pr) (ghpr_Base_Repo pr) (ghpr_Number pr) NeedsOkToTest"
  have "jobs_ok env pr base pss ([?rm] @ es')" if "jobs_ok env pr base pss es'" for es'
    by (rule jobs_ok_prefix [OF that]) simp
  moreover have "jobs_ok env pr base pss [?rm]" by (rule jobs_ok_none) simp
  ultimately show ?thesis
    using assms by (auto simp: build_trusted_def Let_def build_jobs split: if_splits option.splits)
qed

lemma buildAllIfTrusted_jobs:
  "buildAllIfTrusted env trigger pr guid base pss = Some (es, err) \<Longrightarrow> jobs_ok env pr base pss es"
  by (auto simp: buildAllIfTrusted_def jobs_ok_none build_trusted_jobs split: sum.splits bool.splits prod.splits)

lemma handle_action_jobs:
  assumes "handle_action env trigger ev base pss = Some (es, err)"
  shows "jobs_ok env (pre_PullRequest ev) base pss es"
  using assms unfolding handle_action_def handle_opened_def handle_labeled_def Let_def
  by (auto simp: jobs_ok_none build_jobs buildAllIfTrusted_jobs
      split: pr_action.splits sum.splits bool.splits prod.splits option.splits if_splits
      dest!: created_welcome)

lemma in_turn_subset: "in_turn env es = (es', err) \<Longrightarrow> set es' \<subseteq> set es"
  by (induction es arbitrary: es') (auto split: option.splits prod.splits)

lemma comment_FilterPresubmits_triggers:
  assumes "comment_FilterPresubmits env honor body pr pss = Inr (tr, sk)"
  shows "set tr \<subseteq> {ps \<in> set pss. CouldRun ps (ghpr_Base_Ref pr)}"
proof -
  obtain flt s where "FilterPresubmits flt
      (NewGitHubDeferredChangedFilesProvider (tv_GetPullRequestChanges env) (ghpr_Base_Org pr) (ghpr_Base_Repo pr)
        (ghpr_Number pr)) (ghpr_Base_Ref pr) pss no_changes = (Inr (tr, sk), s)"
    using assms by (auto simp: comment_FilterPresubmits_def Let_def fst_def split: sum.splits prod.splits)
  then show ?thesis by (rule FilterPresubmits_triggers)
qed

lemma comment_trusted_jobs:
  assumes "comment_trusted env trigger gc pss = Some (es, err)" "created es \<noteq> []"
  obtains pr base where "tv_GetPullRequest env (gce_Org gc) (gce_Repo gc) (gce_Number gc) = Inr pr"
    "tv_GetRef env (gce_Org gc) (gce_Repo gc) (''heads/'' @ ghpr_Base_Ref pr) = Inr base"
    "jobs_ok env pr base pss es"
proof -
  let ?labels = "\<lambda>l. (if HonorOkToTest trigger \<and> OkToTestRe (gce_Body gc) \<and> \<not> HasLabel OkToTest l
      then [AddLabel (gce_Org gc) (gce_Repo gc) (gce_Number gc) OkToTest] else [])
    @ (if (HonorOkToTest trigger \<and> OkToTestRe (gce_Body gc) \<or> HasLabel OkToTest l) \<and> HasLabel NeedsOkToTest l
       then [RemoveLabel (gce_Org gc) (gce_Repo gc) (gce_Number gc) NeedsOkToTest] else [])"
  have none: "created ls = []" if "in_turn env (?labels l) = (ls, e)" for l ls e
    by (rule created_in_turn [OF that]) simp
  obtain l ls pr base tr sk elideSkipped es' where
    l: "in_turn env (?labels l) = (ls, None)"
    and pr: "tv_GetPullRequest env (gce_Org gc) (gce_Repo gc) (gce_Number gc) = Inr pr"
    and base: "ref_BaseSHA env (gce_Org gc) (gce_Repo gc) (gce_Number gc) = Inr base"
    and f: "comment_FilterPresubmits env (HonorOkToTest trigger) (gce_Body gc) pr pss = Inr (tr, sk)"
    and r: "RunAndSkipJobs env pr base tr sk (gce_GUID gc) elideSkipped = (es', err)" "es = ls @ es'"
    using assms none unfolding comment_trusted_def Let_def
    by (auto simp: ref_PullRequest_def split: sum.splits option.splits prod.splits)
  have sub: "set tr \<subseteq> {ps \<in> set pss. CouldRun ps (ghpr_Base_Ref pr)}"
    by (rule comment_FilterPresubmits_triggers [OF f])
  have "jobs_ok env pr base pss es'" using RunAndSkipJobs_jobs [OF r(1) sub] by (simp add: jobs_ok_def)
  moreover have "\<forall>e \<in> set ls. \<exists>o' r' n l. e = AddLabel o' r' n l \<or> e = RemoveLabel o' r' n l"
    using in_turn_subset [OF l] by (auto split: if_splits)
  ultimately have "jobs_ok env pr base pss es" unfolding r(2) by (intro jobs_ok_prefix)
  moreover have "tv_GetRef env (gce_Org gc) (gce_Repo gc) (''heads/'' @ ghpr_Base_Ref pr) = Inr base"
    using base pr by (simp add: ref_BaseSHA_def ref_PullRequest_def)
  ultimately show ?thesis using that pr by blast
qed

subsection \<open>Properties\<close>

text \<open>
  C29: On an event of a pull request jobs are created only if its author is trusted (a
  collaborator where these count, a member of the org or of the trusted org), it has the label
  \<open>ok-to-test\<close>, or the event adds the label \<open>lgtm\<close> or \<open>ok-to-test\<close>.  Every job is one of a presubmit of the repo
  that may run on the branch, at the head of the pull request and the present head of the
  base, and no context of a job is reported as skipped.
\<close>

theorem trigger_pr_safety:
  assumes "handlePR env trigger ev = Some (es, err)" "pj \<in> set (created es)"
  defines "pr \<equiv> pre_PullRequest ev"
  shows "(trusted_user env trigger (ghpr_User_Login pr) (ghpr_Base_Org pr) (ghpr_Base_Repo pr)
      \<or> ok_to_test env (ghpr_Base_Org pr) (ghpr_Base_Repo pr) (ghpr_Number pr)
      \<or> pre_Action ev = Labeled \<and> (pre_Label ev = LGTM \<or> pre_Label ev = OkToTest))
    \<and> (\<exists>base pss b h. tv_GetRef env (ghpr_Base_Org pr) (ghpr_Base_Repo pr) (''heads/'' @ ghpr_Base_Ref pr) = Inr base
        \<and> GetPresubmits (tv_Config env) (ghpr_Base_Org pr @ ''/'' @ ghpr_Base_Repo pr) b h = Inr pss
        \<and> job_of env pr base pss pj \<and> no_overlap es)"
proof -
  have ne: "created es \<noteq> []" using assms(2) by auto
  obtain base pss where h: "handle_action env trigger ev base pss = Some (es, err)"
    "tv_GetRef env (ghpr_Base_Org pr) (ghpr_Base_Repo pr) (''heads/'' @ ghpr_Base_Ref pr) = Inr base"
    "\<exists>b h. GetPresubmits (tv_Config env) (ghpr_Base_Org pr @ ''/'' @ ghpr_Base_Repo pr) b h = Inr pss"
    using handlePR_trusted [OF assms(1) ne] unfolding pr_def by blast
  have "jobs_ok env pr base pss es" using handle_action_jobs [OF h(1)] by (simp add: pr_def)
  then show ?thesis
    using handle_action_trusted [OF h(1) ne] h(2,3) assms(2) unfolding pr_def jobs_ok_def by blast
qed

text \<open>
  C30: On a comment jobs are created only if it is new, on an open pull request, not of the bot, and its author
  is trusted, or the author of the pull request is, or the pull request has the label \<open>ok-to-test\<close>; the
  jobs are again those of presubmits that may run on the branch, at the head GitHub reports.
\<close>

theorem trigger_comment_safety:
  assumes "handleGenericComment env trigger gc = Some (es, err)" "pj \<in> set (created es)"
  shows "gce_Action gc = Created \<and> gce_IssueState gc = ''open'' \<and> tv_BotName env \<noteq> Inr (gce_User_Login gc)
    \<and> (trusted_user env trigger (gce_User_Login gc) (gce_Org gc) (gce_Repo gc)
       \<or> trusted_user env trigger (gce_IssueAuthor_Login gc) (gce_Org gc) (gce_Repo gc)
       \<or> ok_to_test env (gce_Org gc) (gce_Repo gc) (gce_Number gc))
    \<and> (\<exists>pr base pss b h. tv_GetPullRequest env (gce_Org gc) (gce_Repo gc) (gce_Number gc) = Inr pr
        \<and> tv_GetRef env (gce_Org gc) (gce_Repo gc) (''heads/'' @ ghpr_Base_Ref pr) = Inr base
        \<and> GetPresubmits (tv_Config env) (gce_Org gc @ ''/'' @ gce_Repo gc) b h = Inr pss
        \<and> job_of env pr base pss pj \<and> no_overlap es)"
proof -
  have ne: "created es \<noteq> []" using assms(2) by auto
  obtain pss where t: "comment_trusted env trigger gc pss = Some (es, err)"
    and g: "\<exists>b h. GetPresubmits (tv_Config env) (gce_Org gc @ ''/'' @ gce_Repo gc) b h = Inr pss"
    using assms(1) ne unfolding handleGenericComment_def
    by (auto simp: Let_def split: sum.splits bool.splits prod.splits if_splits)
  obtain pr base where "tv_GetPullRequest env (gce_Org gc) (gce_Repo gc) (gce_Number gc) = Inr pr"
    "tv_GetRef env (gce_Org gc) (gce_Repo gc) (''heads/'' @ ghpr_Base_Ref pr) = Inr base"
    "jobs_ok env pr base pss es"
    by (rule comment_trusted_jobs [OF t ne])
  then show ?thesis
    using handleGenericComment_trusted [OF assms(1) ne] g assms(2) unfolding jobs_ok_def by blast
qed

text \<open>A repo with one presubmit; \<open>alice\<close> is a member of the org, others are not.\<close>

definition sample_trigger_pr :: GitHubPullRequest where
  "sample_trigger_pr = \<lparr>ghpr_Number = 4, ghpr_HTMLURL = [], ghpr_User_Login = ''alice'', ghpr_User_HTMLURL = [],
     ghpr_Base_Ref = ''master'', ghpr_Base_Org = ''org'', ghpr_Base_Repo = ''repo'', ghpr_Base_HTMLURL = [],
     ghpr_Head_SHA = ''head''\<rparr>"

definition sample_trigger_env :: trigger_env where
  "sample_trigger_env =
     \<lparr>tv_Config = sample_Config [sample_Presubmit ''unit'' True False []], tv_Postsubmits = Map.empty,
      tv_IsCollaborator = (\<lambda>_ _ _. Inr False), tv_IsMember = (\<lambda>_ user. Inr (user = ''alice'')),
      tv_GetIssueLabels = (\<lambda>_ _ _. Inr []), tv_BotName = Inr ''bot'',
      tv_GetPullRequest = (\<lambda>_ _ _. Inr sample_trigger_pr), tv_GetRef = (\<lambda>_ _ _. Inr ''base''),
      tv_GetCombinedStatus = (\<lambda>_ _ _. Inr None), tv_GetPullRequestChanges = (\<lambda>_ _ _. Inr []),
      tv_outcome = (\<lambda>_. None), tv_valid_label = (\<lambda>_. True), tv_uuid = (\<lambda>_. ''0''), tv_now = 7\<rparr>"

definition sample_pr_event :: PullRequestEvent where
  "sample_pr_event = \<lparr>pre_Action = Opened, pre_PullRequest = sample_trigger_pr, pre_FullName = ''org/repo'',
     pre_Label = [], pre_Changes = None, pre_GUID = ''guid''\<rparr>"

definition sample_comment_event :: GenericCommentEvent where
  "sample_comment_event = \<lparr>gce_IsPR = True, gce_Action = Created, gce_Body = ''/test all'', gce_HTMLURL = [],
     gce_Number = 4, gce_Org = ''org'', gce_Repo = ''repo'', gce_User_Login = ''bob'',
     gce_IssueAuthor_Login = ''alice'', gce_IssueState = ''open'', gce_GUID = ''guid''\<rparr>"

definition sample_trigger :: Trigger where
  "sample_trigger = TriggerFor [] ''org'' ''repo''"

definition sample_created_job :: ProwJob where
  "sample_created_job = NewPresubmit (\<lambda>_. True) ''0'' 7 sample_trigger_pr ''base''
     (sample_Presubmit ''unit'' True False []) ''guid''"

lemmas sample_trigger_defs = sample_trigger_env_def sample_trigger_def Trigger_SetDefaults_def zero_Trigger_def
  sample_Config_def GetPresubmits_def InRepoConfigEnabled_def no_changes_def ShouldRun_def TriggerMatches_def presubmit_defs sample_job_defs
  validateContextOverlap_def RunAndSkipJobs_def runRequested_def skipRequested_def FilterPresubmits_def
  determineSkippedPresubmits_def TestAllFilter_def TrustedUser_def sample_created_job_def Let_def

lemma sample_pr_handled:
  "handlePR sample_trigger_env sample_trigger sample_pr_event = Some ([CreateProwJob sample_created_job], None)"
  by (simp add: handlePR_def handle_action_def handle_opened_def sample_pr_event_def build_def buildAll_def
      sample_trigger_pr_def sample_trigger_defs)

lemma sample_comment_body:
  "TestAllRe ''/test all''" "\<not> RetestRe ''/test all''" "\<not> OkToTestRe ''/test all''"
  by code_simp+

lemma sample_comment_handled:
  "handleGenericComment sample_trigger_env sample_trigger sample_comment_event =
     Some ([CreateProwJob sample_created_job], None)"
  by (simp add: handleGenericComment_def comment_trusted_def sample_comment_event_def germane_def
      TrustedPullRequest_def ref_PullRequest_def ref_BaseSHA_def ref_HeadSHA_def comment_FilterPresubmits_def
      PresubmitFilter_def CommandFilter_def sample_comment_body HasLabel_def sample_trigger_pr_def sample_trigger_defs)

theorem trigger_pr_safety_witness:
  "trusted_user sample_trigger_env sample_trigger ''alice'' ''org'' ''repo''
   \<or> ok_to_test sample_trigger_env ''org'' ''repo'' 4"
proof -
  have "sample_created_job \<in> set (created [CreateProwJob sample_created_job])" by simp
  from trigger_pr_safety [OF sample_pr_handled this] show ?thesis
    by (simp add: sample_pr_event_def sample_trigger_pr_def)
qed

theorem trigger_comment_safety_witness:
  "\<exists>base pss. job_of sample_trigger_env sample_trigger_pr base pss sample_created_job"
proof -
  have "sample_created_job \<in> set (created [CreateProwJob sample_created_job])" by simp
  from trigger_comment_safety [OF sample_comment_handled this] show ?thesis
    by (auto simp: sample_trigger_env_def)
qed

end
