(* ===== verification/Status_Reconciler.thy ===== *)
theory Status_Reconciler
  imports Trigger_Plugin
begin

text \<open>
  The status reconciler, \<open>src/statusreconciler/controller.go\<close>: when the configuration changes it
  triggers the presubmits that have become blocking on the open pull requests, retires the
  contexts of those that are gone and moves the contexts of those that were renamed.

  A map of the configuration is an association list; the orders in which the three results are
  ranged over are fields of \<open>sr_env\<close>.  The migrator of statuses is another repository's code: an
  effect whose outcome is a parameter.  The environment of the trigger plugin
  may differ from one pull request to the next.  Errors are lists of texts, as aggregates flatten, empty
  when there is none.  A key without a slash, and a trigger that was not defaulted, are the panic \<open>None\<close>.
\<close>

subsection \<open>Data\<close>

type_synonym presubmit_map = "(string \<times> Presubmit list) list"

record presubmitMigration =
  pm_from :: Presubmit
  pm_to :: Presubmit

datatype reconcile_effect =
    Trigger_effect trigger_effect
  | Retire string string string "string \<Rightarrow> bool"
  | Migrate string string string string "string \<Rightarrow> bool"

record sr_env =
  sr_continueOnError :: bool
  sr_addedPresubmitBlacklist :: "string set"
  sr_GetPullRequests :: "string \<Rightarrow> string \<Rightarrow> (GitHubPullRequest \<times> bool option) list result"
  sr_client :: "GitHubPullRequest \<Rightarrow> trigger_env"
  sr_triggers :: "Trigger list"
  sr_retire :: "string \<Rightarrow> string \<Rightarrow> string \<Rightarrow> error option"
  sr_migrate :: "string \<Rightarrow> string \<Rightarrow> string \<Rightarrow> string \<Rightarrow> error option"
  sr_iter_added :: "presubmit_map \<Rightarrow> presubmit_map"
  sr_iter_removed :: "presubmit_map \<Rightarrow> presubmit_map"
  sr_iter_migrated :: "(string \<times> presubmitMigration list) list \<Rightarrow> (string \<times> presubmitMigration list) list"

record Delta =
  dl_Before :: presubmit_map
  dl_After :: presubmit_map

subsection \<open>Comparing configurations\<close>

text \<open>What one presubmit of the new configuration adds: the first old one of its name decides.\<close>

fun added_by :: "Presubmit list \<Rightarrow> Presubmit \<Rightarrow> Presubmit list" where
  "added_by [] newPresubmit = [newPresubmit]"
| "added_by (oldPresubmit # oldPresubmits) newPresubmit =
     (if ps_Name oldPresubmit = ps_Name newPresubmit then
        (if rep_SkipReport (ps_Reporter oldPresubmit) \<and> \<not> rep_SkipReport (ps_Reporter newPresubmit)
         then [newPresubmit] else [])
        @ (if cm_RunIfChanged (ps_RegexpChangeMatcher oldPresubmit)
                \<noteq> cm_RunIfChanged (ps_RegexpChangeMatcher newPresubmit)
           then [newPresubmit] else [])
      else added_by oldPresubmits newPresubmit)"

definition addedBlockingPresubmits :: "presubmit_map \<Rightarrow> presubmit_map \<Rightarrow> presubmit_map" where
  "addedBlockingPresubmits old new =
     map (\<lambda>(repo, oldPresubmits).
            (repo, concat (map (added_by oldPresubmits)
               (filter (\<lambda>p. ContextRequired p \<and> \<not> NeedsExplicitTrigger p) (map_get [] (map_of new) repo))))) old"

definition removedBlockingPresubmits :: "presubmit_map \<Rightarrow> presubmit_map \<Rightarrow> presubmit_map" where
  "removedBlockingPresubmits old new =
     map (\<lambda>(repo, oldPresubmits).
            (repo, filter (\<lambda>p. ContextRequired p \<and> ps_Name p \<notin> ps_Name ` set (map_get [] (map_of new) repo))
               oldPresubmits)) old"

definition migratedBlockingPresubmits ::
    "presubmit_map \<Rightarrow> presubmit_map \<Rightarrow> (string \<times> presubmitMigration list) list" where
  "migratedBlockingPresubmits old new =
     map (\<lambda>(repo, oldPresubmits).
            (repo, concat (map (\<lambda>newPresubmit.
               map (\<lambda>oldPresubmit. \<lparr>pm_from = oldPresubmit, pm_to = newPresubmit\<rparr>)
                 (filter (\<lambda>oldPresubmit. ps_Context oldPresubmit \<noteq> ps_Context newPresubmit
                            \<and> ps_Name oldPresubmit = ps_Name newPresubmit) oldPresubmits))
               (filter ContextRequired (map_get [] (map_of new) repo))))) old"

subsection \<open>Triggering new presubmits\<close>

text \<open>\<open>strings.SplitN(orgrepo, "/", 2)\<close>; without a slash the second part is an index out of range.\<close>

fun split_repo :: "string \<Rightarrow> (string \<times> string) option" where
  "split_repo [] = None"
| "split_repo (c # cs) =
     (if c = CHR ''/'' then Some ([], cs) else map_option (\<lambda>(org, repo). (c # org, repo)) (split_repo cs))"

definition runAndSkip ::
    "sr_env \<Rightarrow> GitHubPullRequest \<Rightarrow> Presubmit list \<Rightarrow> Presubmit list \<Rightarrow> handled option" where
  "runAndSkip env pr requestedJobs skippedJobs =
     (let org = ghpr_Base_Org pr; repo = ghpr_Base_Repo pr; client = sr_client env pr
      in case tv_GetRef client org repo (''heads/'' @ ghpr_Base_Ref pr) of
           Inl err \<Rightarrow> Some ([], Some (''failed to get baseSHA: '' @ err))
         | Inr baseSHA \<Rightarrow>
             (case tr_ElideSkippedContexts (TriggerFor (sr_triggers env) org repo) of
                None \<Rightarrow> None
              | Some elideSkipped \<Rightarrow>
                  Some (RunAndSkipJobs client pr baseSHA requestedJobs skippedJobs ''none'' elideSkipped)))"

definition trustedPullRequest :: "sr_env \<Rightarrow> GitHubPullRequest \<Rightarrow> string \<Rightarrow> string \<Rightarrow> bool result" where
  "trustedPullRequest env pr org repo =
     (case TrustedPullRequest (sr_client env pr) (TriggerFor (sr_triggers env) org repo)
             (ghpr_User_Login pr) org repo (ghpr_Number pr) of
        Inl err \<Rightarrow> Inl err
      | Inr (_, trusted) \<Rightarrow> Inr trusted)"

definition triggerAndSkipIfTrusted ::
    "sr_env \<Rightarrow> string \<Rightarrow> string \<Rightarrow> GitHubPullRequest \<Rightarrow> Presubmit list \<Rightarrow> Presubmit list \<Rightarrow> handled option" where
  "triggerAndSkipIfTrusted env org repo pr toTrigger toSkip =
     (case trustedPullRequest env pr org repo of
        Inl err \<Rightarrow> Some ([], Some (''failed to determine if '' @ org @ ''/'' @ repo @ ''#''
                     @ itoa (ghpr_Number pr) @ '' is trusted: '' @ err))
      | Inr False \<Rightarrow> Some ([], None)
      | Inr True \<Rightarrow> runAndSkip env pr toTrigger toSkip)"

text \<open>Effects so far, then either the errors with which the function returns or those to go on with.\<close>

type_synonym progress = "reconcile_effect list \<times> (error list + error list)"

definition then_more :: "reconcile_effect list \<Rightarrow> progress option \<Rightarrow> progress option" where
  "then_more es = map_option (\<lambda>(es', r). (es @ es', r))"

definition chain :: "progress option \<Rightarrow> (error list \<Rightarrow> progress option) \<Rightarrow> progress option" where
  "chain p next_step =
     (case p of
        None \<Rightarrow> None
      | Some (es, Inl errs) \<Rightarrow> Some (es, Inl errs)
      | Some (es, Inr errs) \<Rightarrow> then_more es (next_step errs))"

text \<open>An error that is kept and ends the function unless it goes on after errors.\<close>

definition failing :: "sr_env \<Rightarrow> error list \<Rightarrow> error list + error list" where
  "failing env errs = (if sr_continueOnError env then Inr errs else Inl errs)"

definition all_filter :: Filter where
  "all_filter p = (True, False, True)"

definition trigger_pr ::
    "sr_env \<Rightarrow> string \<Rightarrow> Presubmit list \<Rightarrow> GitHubPullRequest \<times> bool option \<Rightarrow> error list \<Rightarrow> progress option" where
  "trigger_pr env orgrepo presubmits prm errs =
     (case prm of (pr, mergable) \<Rightarrow>
        if mergable = Some False then Some ([], Inr errs)
        else
          (let org = ghpr_Base_Org pr; repo = ghpr_Base_Repo pr
           in case fst (FilterPresubmits all_filter
                     (NewGitHubDeferredChangedFilesProvider (tv_GetPullRequestChanges (sr_client env pr))
                        org repo (ghpr_Number pr)) (ghpr_Base_Ref pr) presubmits no_changes) of
                Inl err \<Rightarrow> Some ([], Inl [err])
              | Inr (toTrigger, toSkip) \<Rightarrow>
                  (case triggerAndSkipIfTrusted env org repo pr toTrigger toSkip of
                     None \<Rightarrow> None
                   | Some (es, None) \<Rightarrow> Some (map Trigger_effect es, Inr errs)
                   | Some (es, Some err) \<Rightarrow>
                       Some (map Trigger_effect es,
                         failing env (errs @ [''failed to trigger jobs for '' @ orgrepo @ ''#''
                           @ itoa (ghpr_Number pr) @ '': '' @ err])))))"

text \<open>A loop whose body may return from the function.\<close>

fun each :: "('a \<Rightarrow> error list \<Rightarrow> progress option) \<Rightarrow> 'a list \<Rightarrow> error list \<Rightarrow> progress option" where
  "each step [] errs = Some ([], Inr errs)"
| "each step (x # xs) errs = chain (step x errs) (each step xs)"

definition trigger_repo :: "sr_env \<Rightarrow> string \<times> Presubmit list \<Rightarrow> error list \<Rightarrow> progress option" where
  "trigger_repo env entry errs =
     (case entry of (orgrepo, presubmits) \<Rightarrow>
        if presubmits = [] then Some ([], Inr errs)
        else
          (case split_repo orgrepo of
             None \<Rightarrow> None
           | Some (org, repo) \<Rightarrow>
               if org \<in> sr_addedPresubmitBlacklist env \<or> orgrepo \<in> sr_addedPresubmitBlacklist env
               then Some ([], Inr errs)
               else
                 (case sr_GetPullRequests env org repo of
                    Inl err \<Rightarrow>
                      Some ([], failing env (errs @ [''failed to list pull requests for '' @ orgrepo @ '': '' @ err]))
                  | Inr prs \<Rightarrow> each (trigger_pr env orgrepo presubmits) prs errs)))"

definition triggerNewPresubmits :: "sr_env \<Rightarrow> presubmit_map \<Rightarrow> error list \<Rightarrow> progress option" where
  "triggerNewPresubmits env addedPresubmits = each (trigger_repo env) (sr_iter_added env addedPresubmits)"

subsection \<open>Retiring and moving contexts\<close>

text \<open>The errors of the migrator: the first is returned as it is unless the controller goes on.\<close>

definition migrator_outcome :: "sr_env \<Rightarrow> reconcile_effect \<Rightarrow> error option \<Rightarrow> error list \<Rightarrow> progress option" where
  "migrator_outcome env e outcome errs =
     Some ([e], case outcome of
       None \<Rightarrow> Inr errs
     | Some err \<Rightarrow> if sr_continueOnError env then Inr (errs @ [err]) else Inl [err])"

definition retire_one :: "sr_env \<Rightarrow> string \<times> string \<Rightarrow> Presubmit \<Rightarrow> error list \<Rightarrow> progress option" where
  "retire_one env rp presubmit =
     (case rp of (org, repo) \<Rightarrow>
        migrator_outcome env (Retire org repo (ps_Context presubmit) (Brancher_ShouldRun (ps_Brancher presubmit)))
          (sr_retire env org repo (ps_Context presubmit)))"

definition migrate_one :: "sr_env \<Rightarrow> string \<times> string \<Rightarrow> presubmitMigration \<Rightarrow> error list \<Rightarrow> progress option" where
  "migrate_one env rp migration =
     (case rp of (org, repo) \<Rightarrow>
        migrator_outcome env
          (Migrate org repo (ps_Context (pm_from migration)) (ps_Context (pm_to migration))
             (Brancher_ShouldRun (ps_Brancher (pm_from migration))))
          (sr_migrate env org repo (ps_Context (pm_from migration)) (ps_Context (pm_to migration))))"

text \<open>Both functions split the key of every repo first.\<close>

definition in_repo ::
    "(string \<times> string \<Rightarrow> 'a \<Rightarrow> error list \<Rightarrow> progress option) \<Rightarrow> string \<times> 'a list \<Rightarrow> error list \<Rightarrow> progress option" where
  "in_repo step entry errs =
     (case split_repo (fst entry) of
        None \<Rightarrow> None
      | Some rp \<Rightarrow> each (step rp) (snd entry) errs)"

definition retireRemovedContexts :: "sr_env \<Rightarrow> presubmit_map \<Rightarrow> error list \<Rightarrow> progress option" where
  "retireRemovedContexts env retiredPresubmits =
     each (in_repo (retire_one env)) (sr_iter_removed env retiredPresubmits)"

definition updateMigratedContexts ::
    "sr_env \<Rightarrow> (string \<times> presubmitMigration list) list \<Rightarrow> error list \<Rightarrow> progress option" where
  "updateMigratedContexts env migrations =
     each (in_repo (migrate_one env)) (sr_iter_migrated env migrations)"

subsection \<open>Reconciling\<close>

fun returned :: "error list + error list \<Rightarrow> error list" where
  "returned (Inl errs) = errs"
| "returned (Inr errs) = errs"

definition stage :: "sr_env \<Rightarrow> (error list \<Rightarrow> progress option) \<Rightarrow> error list \<Rightarrow> progress option" where
  "stage env f errs =
     (case f [] of
        None \<Rightarrow> None
      | Some (es, r) \<Rightarrow>
          Some (es, if returned r = [] then Inr errs else failing env (errs @ returned r)))"

definition reconcile :: "sr_env \<Rightarrow> Delta \<Rightarrow> (reconcile_effect list \<times> error option) option" where
  "reconcile env delta =
     (let before = dl_Before delta; after = dl_After delta
      in map_option (\<lambda>(es, r). (es, NewAggregate (returned r)))
           (each (stage env)
              [triggerNewPresubmits env (addedBlockingPresubmits before after),
               retireRemovedContexts env (removedBlockingPresubmits before after),
               updateMigratedContexts env (migratedBlockingPresubmits before after)] []))"

subsection \<open>Loops that report\<close>

lemma then_more_Some:
  "then_more es p = Some (es', r) \<longleftrightarrow> (\<exists>es2. p = Some (es2, r) \<and> es' = es @ es2)"
  by (cases p) (auto simp: then_more_def)

lemma chain_Some:
  "chain p f = Some (es, r) \<longleftrightarrow>
     (\<exists>errs. p = Some (es, Inl errs) \<and> r = Inl errs)
     \<or> (\<exists>es1 errs es2. p = Some (es1, Inr errs) \<and> f errs = Some (es2, r) \<and> es = es1 @ es2)"
  by (auto simp: chain_def then_more_Some split: option.splits sum.splits prod.splits)

lemma each_sound:
  assumes "each step xs errs = Some (es, r)" "e \<in> set es"
  obtains x errs' es' r' where "x \<in> set xs" "step x errs' = Some (es', r')" "e \<in> set es'"
  using assms
proof (induction xs arbitrary: errs es thesis)
  case (Cons x xs)
  from Cons.prems(2) consider
      (last) e' where "step x errs = Some (es, Inl e')"
    | (more) es1 errs1 es2 where "step x errs = Some (es1, Inr errs1)" "each step xs errs1 = Some (es2, r)" "es = es1 @ es2"
    by (auto simp: chain_Some)
  then show ?case
  proof cases
    case last
    from Cons.prems(1) [OF _ this Cons.prems(3)] show ?thesis by simp
  next
    case more
    show ?thesis
    proof (cases "e \<in> set es1")
      case True
      from Cons.prems(1) [OF _ more(1) this] show ?thesis by simp
    next
      case False
      then have "e \<in> set es2" using Cons.prems(3) more(3) by simp
      from Cons.IH [OF _ more(2) this] show ?thesis using Cons.prems(1) by (metis list.set_intros(2))
    qed
  qed
qed simp

text \<open>
  The contract of a step: errors that were collected stay, and a return has at least one.
\<close>

locale reporting =
  fixes step :: "'a \<Rightarrow> error list \<Rightarrow> progress option"
  assumes goes_on: "step x errs = Some (es, Inr errs') \<Longrightarrow> \<exists>more. errs' = errs @ more"
    and returns: "step x errs = Some (es, Inl errs') \<Longrightarrow> errs' \<noteq> []"
begin

lemma each_goes_on: "each step xs errs = Some (es, Inr errs') \<Longrightarrow> \<exists>more. errs' = errs @ more"
proof (induction xs arbitrary: errs es)
  case (Cons x xs)
  then obtain es1 errs1 es2 where "step x errs = Some (es1, Inr errs1)" "each step xs errs1 = Some (es2, Inr errs')"
    by (auto simp: chain_Some)
  then show ?case using goes_on Cons.IH by (metis append.assoc)
qed simp

lemma each_returns: "each step xs errs = Some (es, Inl errs') \<Longrightarrow> errs' \<noteq> []"
  by (induction xs arbitrary: errs es) (auto simp: chain_Some dest: returns)

lemma each_reporting: "reporting (each step)"
  by unfold_locales (use each_goes_on each_returns in blast)+

lemma each_clean:
  assumes "each step xs [] = Some (es, r)" "returned r = []" "x \<in> set xs"
  obtains es' where "step x [] = Some (es', Inr [])" "set es' \<subseteq> set es"
  using assms
proof (induction xs arbitrary: es thesis)
  case (Cons y ys)
  have r: "r = Inr []" using Cons.prems(2,3) each_returns [of "y # ys" "[]" es] by (cases r) auto
  then obtain es1 errs1 es2 where st: "step y [] = Some (es1, Inr errs1)" "each step ys errs1 = Some (es2, Inr [])"
    "es = es1 @ es2" using Cons.prems(2) by (auto simp: chain_Some)
  have e1: "errs1 = []" using each_goes_on [OF st(2)] by simp
  show ?case
  proof (cases "x = y")
    case True
    then show ?thesis using st e1 Cons.prems(1) by simp
  next
    case False
    then have "x \<in> set ys" using Cons.prems(4) by simp
    show ?thesis
    proof (rule Cons.IH [of es2])
      show "each step ys [] = Some (es2, r)" "returned r = []" using st(2) e1 r by simp_all
      show thesis if "step x [] = Some (es', Inr [])" "set es' \<subseteq> set es2" for es'
        using Cons.prems(1) [OF that(1)] that(2) st(3) by auto
    qed fact
  qed
qed simp

end

lemma failing_Some [simp]:
  "failing env errs = Inr errs' \<longleftrightarrow> sr_continueOnError env \<and> errs' = errs"
  "failing env errs = Inl errs' \<longleftrightarrow> \<not> sr_continueOnError env \<and> errs' = errs"
  by (auto simp: failing_def)

interpretation pr_step: reporting "trigger_pr env orgrepo pss" for env orgrepo pss
  by unfold_locales
    (auto simp: trigger_pr_def Let_def split: if_splits sum.splits option.splits prod.splits)

interpretation pr_loop: reporting "each (trigger_pr env orgrepo pss)" for env orgrepo pss
  by (rule pr_step.each_reporting)

interpretation repo_step: reporting "trigger_repo env" for env
  by unfold_locales
    (auto simp: trigger_repo_def split: if_splits sum.splits option.splits prod.splits
      dest: pr_loop.goes_on pr_loop.returns)

lemma migrator_outcome_reporting: "reporting (\<lambda>x. migrator_outcome env (f x) (g x))"
  by unfold_locales (auto simp: migrator_outcome_def split: option.splits if_splits)

interpretation retire_step: reporting "retire_one env rp" for env rp
  using migrator_outcome_reporting by (cases rp) (simp add: retire_one_def [abs_def])

interpretation migrate_step: reporting "migrate_one env rp" for env rp
  using migrator_outcome_reporting by (cases rp) (simp add: migrate_one_def [abs_def])

lemma in_repo_reporting:
  assumes "\<And>rp. reporting (step rp)" shows "reporting (in_repo step)"
proof
  note loop = reporting.each_reporting [OF assms]
  show "\<exists>more. errs' = errs @ more" if "in_repo step x errs = Some (es, Inr errs')" for x errs es errs'
    using that reporting.goes_on [OF loop] by (auto simp: in_repo_def split: option.splits)
  show "errs' \<noteq> []" if "in_repo step x errs = Some (es, Inl errs')" for x errs es errs'
    using that reporting.returns [OF loop] by (auto simp: in_repo_def split: option.splits)
qed

interpretation retire_repo: reporting "in_repo (retire_one env)" for env
  by (rule in_repo_reporting) unfold_locales

interpretation migrate_repo: reporting "in_repo (migrate_one env)" for env
  by (rule in_repo_reporting) unfold_locales

interpretation stages: reporting "stage env" for env
  by unfold_locales (auto simp: stage_def split: option.splits prod.splits if_splits)

subsection \<open>What the effects are for\<close>

text \<open>A presubmit that blocks now and did not before: the first old one of its name decides.\<close>

definition newly_blocking :: "Presubmit list \<Rightarrow> Presubmit list \<Rightarrow> Presubmit \<Rightarrow> bool" where
  "newly_blocking old new ps \<longleftrightarrow> ps \<in> set new \<and> ContextRequired ps \<and> \<not> NeedsExplicitTrigger ps
     \<and> (case find (\<lambda>p. ps_Name p = ps_Name ps) old of
          None \<Rightarrow> True
        | Some p \<Rightarrow> rep_SkipReport (ps_Reporter p)
            \<or> cm_RunIfChanged (ps_RegexpChangeMatcher p) \<noteq> cm_RunIfChanged (ps_RegexpChangeMatcher ps))"

text \<open>An open pull request of a repo that is not excluded and not known to have conflicts.\<close>

definition open_pr :: "sr_env \<Rightarrow> string \<Rightarrow> GitHubPullRequest \<Rightarrow> bool" where
  "open_pr env orgrepo pr \<longleftrightarrow> (\<exists>org repo prs mergable. split_repo orgrepo = Some (org, repo)
     \<and> org \<notin> sr_addedPresubmitBlacklist env \<and> orgrepo \<notin> sr_addedPresubmitBlacklist env
     \<and> sr_GetPullRequests env org repo = Inr prs \<and> (pr, mergable) \<in> set prs \<and> mergable \<noteq> Some False)"

definition trusted_pr :: "sr_env \<Rightarrow> GitHubPullRequest \<Rightarrow> bool" where
  "trusted_pr env pr \<longleftrightarrow>
     trusted_user (sr_client env pr) (TriggerFor (sr_triggers env) (ghpr_Base_Org pr) (ghpr_Base_Repo pr))
       (ghpr_User_Login pr) (ghpr_Base_Org pr) (ghpr_Base_Repo pr)
     \<or> ok_to_test (sr_client env pr) (ghpr_Base_Org pr) (ghpr_Base_Repo pr) (ghpr_Number pr)"

text \<open>A job that runs one of the presubmits on the pull request at its head and the present base.\<close>

definition tests_pr :: "sr_env \<Rightarrow> GitHubPullRequest \<Rightarrow> Presubmit \<Rightarrow> ProwJob \<Rightarrow> bool" where
  "tests_pr env pr ps pj \<longleftrightarrow> (\<exists>base.
     tv_GetRef (sr_client env pr) (ghpr_Base_Org pr) (ghpr_Base_Repo pr) (''heads/'' @ ghpr_Base_Ref pr) = Inr base
     \<and> pj_Spec pj = PresubmitSpec ps (createRefs pr base))"

lemma added_by_set:
  "\<not> rep_SkipReport (ps_Reporter ps) \<Longrightarrow>
     set (added_by old ps) =
       (case find (\<lambda>p. ps_Name p = ps_Name ps) old of
          None \<Rightarrow> {ps}
        | Some p \<Rightarrow> if rep_SkipReport (ps_Reporter p)
            \<or> cm_RunIfChanged (ps_RegexpChangeMatcher p) \<noteq> cm_RunIfChanged (ps_RegexpChangeMatcher ps)
            then {ps} else {})"
  by (induction old) auto

lemma addedBlocking_entry:
  assumes "(orgrepo, pss) \<in> set (addedBlockingPresubmits old new)"
  obtains ops where "(orgrepo, ops) \<in> set old"
    "set pss = {ps. newly_blocking ops (map_get [] (map_of new) orgrepo) ps}"
proof -
  let ?f = "\<lambda>p. ContextRequired p \<and> \<not> NeedsExplicitTrigger p"
  obtain ops where o: "(orgrepo, ops) \<in> set old"
    "pss = concat (map (added_by ops) (filter ?f (map_get [] (map_of new) orgrepo)))"
    using assms by (auto simp: addedBlockingPresubmits_def)
  have "set (added_by ops ps) = (if newly_blocking ops [ps] ps then {ps} else {})" if "?f ps" for ps
    using that added_by_set [of ps ops]
    by (auto simp: newly_blocking_def ContextRequired_def split: option.splits)
  then have "set pss = {ps. newly_blocking ops (map_get [] (map_of new) orgrepo) ps}"
    by (auto simp: o(2) newly_blocking_def split: if_splits)
  with o(1) show ?thesis by (rule that)
qed

lemma trustedPullRequest_trusted:
  "trustedPullRequest env pr (ghpr_Base_Org pr) (ghpr_Base_Repo pr) = Inr True \<Longrightarrow> trusted_pr env pr"
  unfolding trustedPullRequest_def trusted_pr_def
  by (auto split: sum.splits prod.splits dest!: TrustedPullRequest_trusted)

text \<open>One pull request: what its step asks for.\<close>

lemma trigger_pr_jobs:
  assumes "trigger_pr env orgrepo pss (pr, mergable) errs = Some (es, r)" "Trigger_effect (CreateProwJob pj) \<in> set es"
  shows "mergable \<noteq> Some False \<and> trusted_pr env pr
    \<and> (\<exists>ps \<in> set pss. CouldRun ps (ghpr_Base_Ref pr) \<and> tests_pr env pr ps pj)"
proof -
  let ?changes = "NewGitHubDeferredChangedFilesProvider (tv_GetPullRequestChanges (sr_client env pr))
     (ghpr_Base_Org pr) (ghpr_Base_Repo pr) (ghpr_Number pr)"
  obtain tr sk s' hes where m: "mergable \<noteq> Some False"
    and f: "FilterPresubmits all_filter ?changes (ghpr_Base_Ref pr) pss no_changes = (Inr (tr, sk), s')"
    and t: "\<exists>err. triggerAndSkipIfTrusted env (ghpr_Base_Org pr) (ghpr_Base_Repo pr) pr tr sk = Some (hes, err)"
    and es: "es = map Trigger_effect hes"
    using assms unfolding trigger_pr_def
    by (cases "FilterPresubmits all_filter ?changes (ghpr_Base_Ref pr) pss no_changes")
      (auto simp: Let_def split: if_splits sum.splits option.splits prod.splits)
  have pj: "CreateProwJob pj \<in> set hes" using assms(2) by (auto simp: es)
  then obtain err where tt: "trustedPullRequest env pr (ghpr_Base_Org pr) (ghpr_Base_Repo pr) = Inr True"
    and rs: "runAndSkip env pr tr sk = Some (hes, err)"
    using t by (auto simp: triggerAndSkipIfTrusted_def split: sum.splits bool.splits)
  obtain base elideSkipped where
    b: "tv_GetRef (sr_client env pr) (ghpr_Base_Org pr) (ghpr_Base_Repo pr) (''heads/'' @ ghpr_Base_Ref pr) = Inr base"
    and rj: "RunAndSkipJobs (sr_client env pr) pr base tr sk ''none'' elideSkipped = (hes, err)"
    using rs pj by (auto simp: runAndSkip_def Let_def split: sum.splits option.splits)
  have "pj \<in> set (created hes)" using pj by (rule created_mem)
  then have "job_of (sr_client env pr) pr base pss pj"
    using RunAndSkipJobs_jobs [OF rj FilterPresubmits_triggers [OF f]] by blast
  then show ?thesis
    using m trustedPullRequest_trusted [OF tt] b by (auto simp: job_of_def tests_pr_def)
qed

lemma attempt_none: "attempt env es = [] \<longleftrightarrow> (\<forall>e \<in> set es. tv_outcome env e = None)"
  by (induction es) (auto split: option.splits)

lemma filter_all_value:
  assumes "client org repo num = Inr files"
  obtains sk s' where
    "FilterPresubmits all_filter (NewGitHubDeferredChangedFilesProvider client org repo num) branch pss no_changes =
       (Inr (filter (runs all_filter branch files) pss, sk), s')"
proof -
  have truth: "deferred_truth client org repo num = Inr files"
    using assms by (simp add: deferred_truth_def)
  have inv: "deferred_inv client org repo num no_changes"
    by (simp add: deferred_inv_def no_changes_def)
  show ?thesis
    using deferred.filter_loop_value [OF truth inv, of all_filter branch pss "[]" "[]"]
    by (auto simp: FilterPresubmits_def intro: that)
qed

lemma trigger_pr_complete:
  assumes t: "trigger_pr env orgrepo pss (pr, mergable) [] = Some (es, Inr [])" "mergable \<noteq> Some False"
    and tt: "trustedPullRequest env pr (ghpr_Base_Org pr) (ghpr_Base_Repo pr) = Inr True"
    and files: "tv_GetPullRequestChanges (sr_client env pr) (ghpr_Base_Org pr) (ghpr_Base_Repo pr) (ghpr_Number pr) = Inr files"
    and ps: "ps \<in> set pss" "runs all_filter (ghpr_Base_Ref pr) files ps"
  obtains pj where "Trigger_effect (CreateProwJob pj) \<in> set es" "tests_pr env pr ps pj"
    "tv_outcome (sr_client env pr) (CreateProwJob pj) = None"
proof -
  let ?run = "filter (runs all_filter (ghpr_Base_Ref pr) files) pss"
  obtain sk s' where f: "FilterPresubmits all_filter
       (NewGitHubDeferredChangedFilesProvider (tv_GetPullRequestChanges (sr_client env pr))
          (ghpr_Base_Org pr) (ghpr_Base_Repo pr) (ghpr_Number pr)) (ghpr_Base_Ref pr) pss no_changes =
       (Inr (?run, sk), s')"
    by (rule filter_all_value [where client = "tv_GetPullRequestChanges (sr_client env pr)", OF files])
  obtain hes where hes: "runAndSkip env pr ?run sk = Some (hes, None)" "es = map Trigger_effect hes"
    using t tt f by (auto simp: trigger_pr_def triggerAndSkipIfTrusted_def Let_def split: option.splits prod.splits)
  obtain base elideSkipped where
    b: "tv_GetRef (sr_client env pr) (ghpr_Base_Org pr) (ghpr_Base_Repo pr) (''heads/'' @ ghpr_Base_Ref pr) = Inr base"
    and rj: "RunAndSkipJobs (sr_client env pr) pr base ?run sk ''none'' elideSkipped = (hes, None)"
    using hes(1) by (auto simp: runAndSkip_def Let_def split: sum.splits option.splits)
  have run: "set (runRequested (sr_client env pr) pr base ?run ''none'') \<subseteq> set hes"
    and ok: "\<forall>e \<in> set hes. tv_outcome (sr_client env pr) e = None"
    using rj by (auto simp: RunAndSkipJobs_def Let_def attempt_none split: option.splits)
  have "ps \<in> set ?run" using ps by simp
  then obtain i where i: "i < length ?run" "?run ! i = ps" by (metis in_set_conv_nth)
  define pj where "pj = NewPresubmit (tv_valid_label (sr_client env pr)) (tv_uuid (sr_client env pr) i)
     (tv_now (sr_client env pr)) pr base ps ''none''"
  have "(i, ps) \<in> set (zip [0..<length ?run] ?run)"
    using i by (force simp: set_zip)
  then have "CreateProwJob pj \<in> set (runRequested (sr_client env pr) pr base ?run ''none'')"
    by (force simp: runRequested_def pj_def)
  then have c: "CreateProwJob pj \<in> set hes" using run by blast
  show ?thesis
  proof (rule that)
    show "Trigger_effect (CreateProwJob pj) \<in> set es" using c by (simp add: hes(2))
    show "tests_pr env pr ps pj" using b by (auto simp: tests_pr_def pj_def NewPresubmit_spec)
    show "tv_outcome (sr_client env pr) (CreateProwJob pj) = None" using c ok by blast
  qed
qed

text \<open>The three stages.\<close>

definition sr_orders_ok :: "sr_env \<Rightarrow> bool" where
  "sr_orders_ok env \<longleftrightarrow> range_order (sr_iter_added env) \<and> range_order (sr_iter_removed env)
     \<and> range_order (sr_iter_migrated env)"

abbreviation added_stage :: "sr_env \<Rightarrow> Delta \<Rightarrow> error list \<Rightarrow> progress option" where
  "added_stage env d \<equiv> triggerNewPresubmits env (addedBlockingPresubmits (dl_Before d) (dl_After d))"

abbreviation removed_stage :: "sr_env \<Rightarrow> Delta \<Rightarrow> error list \<Rightarrow> progress option" where
  "removed_stage env d \<equiv> retireRemovedContexts env (removedBlockingPresubmits (dl_Before d) (dl_After d))"

abbreviation migrated_stage :: "sr_env \<Rightarrow> Delta \<Rightarrow> error list \<Rightarrow> progress option" where
  "migrated_stage env d \<equiv> updateMigratedContexts env (migratedBlockingPresubmits (dl_Before d) (dl_After d))"

lemma stage_Some:
  "stage env f errs = Some (es, r) \<Longrightarrow> \<exists>r'. f [] = Some (es, r')"
  by (auto simp: stage_def split: option.splits prod.splits)

lemma reconcile_effects:
  assumes "reconcile env d = Some (es, err)" "e \<in> set es"
  obtains (added) es' r where "added_stage env d [] = Some (es', r)" "e \<in> set es'"
  | (removed) es' r where "removed_stage env d [] = Some (es', r)" "e \<in> set es'"
  | (migrated) es' r where "migrated_stage env d [] = Some (es', r)" "e \<in> set es'"
proof -
  obtain r where "each (stage env) [added_stage env d, removed_stage env d, migrated_stage env d] [] = Some (es, r)"
    using assms(1) by (auto simp: reconcile_def Let_def simp del: each.simps)
  then obtain f errs' es' r' where f: "f \<in> set [added_stage env d, removed_stage env d, migrated_stage env d]"
    and "stage env f errs' = Some (es', r')" "e \<in> set es'"
    by (rule each_sound [OF _ assms(2)])
  then obtain r where "f [] = Some (es', r)" using stage_Some by blast
  then show ?thesis using f \<open>e \<in> set es'\<close> that by auto
qed

lemma reconcile_clean:
  assumes "reconcile env d = Some (es, None)"
  obtains es1 r1 es2 r2 es3 r3 where
    "added_stage env d [] = Some (es1, r1)" "returned r1 = []" "set es1 \<subseteq> set es"
    "removed_stage env d [] = Some (es2, r2)" "returned r2 = []" "set es2 \<subseteq> set es"
    "migrated_stage env d [] = Some (es3, r3)" "returned r3 = []" "set es3 \<subseteq> set es"
proof -
  let ?fs = "[added_stage env d, removed_stage env d, migrated_stage env d]"
  obtain r where r: "each (stage env) ?fs [] = Some (es, r)" "returned r = []"
    using assms by (auto simp: reconcile_def Let_def simp del: each.simps)
  have st: "\<exists>es' r'. f [] = Some (es', r') \<and> returned r' = [] \<and> set es' \<subseteq> set es" if f: "f \<in> set ?fs" for f
  proof -
    obtain es' where "stage env f [] = Some (es', Inr [])" "set es' \<subseteq> set es"
      by (rule stages.each_clean [OF r f])
    then show ?thesis by (auto simp: stage_def split: option.splits prod.splits if_splits)
  qed
  show ?thesis
    using st [of "added_stage env d"] st [of "removed_stage env d"] st [of "migrated_stage env d"]
    by (auto intro: that)
qed

definition job_justified :: "sr_env \<Rightarrow> Delta \<Rightarrow> ProwJob \<Rightarrow> bool" where
  "job_justified env d pj \<longleftrightarrow> (\<exists>orgrepo old pr ps. (orgrepo, old) \<in> set (dl_Before d) \<and> open_pr env orgrepo pr
     \<and> trusted_pr env pr \<and> newly_blocking old (map_get [] (map_of (dl_After d)) orgrepo) ps
     \<and> CouldRun ps (ghpr_Base_Ref pr) \<and> tests_pr env pr ps pj)"

lemma added_stage_effects:
  assumes "added_stage env d errs = Some (es, r)" "e \<in> set es" "range_order (sr_iter_added env)"
  shows "\<exists>t. e = Trigger_effect t \<and> (\<forall>pj. t = CreateProwJob pj \<longrightarrow> job_justified env d pj)"
proof -
  obtain x errs1 es1 r1 where x: "x \<in> set (addedBlockingPresubmits (dl_Before d) (dl_After d))"
    "trigger_repo env x errs1 = Some (es1, r1)" "e \<in> set es1"
    using each_sound [OF assms(1) [unfolded triggerNewPresubmits_def] assms(2)] assms(3) by (metis range_order_set)
  obtain orgrepo pss where xp: "x = (orgrepo, pss)" by fastforce
  obtain org repo prs where g: "split_repo orgrepo = Some (org, repo)"
    "org \<notin> sr_addedPresubmitBlacklist env" "orgrepo \<notin> sr_addedPresubmitBlacklist env"
    "sr_GetPullRequests env org repo = Inr prs"
    "each (trigger_pr env orgrepo pss) prs errs1 = Some (es1, r1)"
    using x(2,3) by (auto simp: trigger_repo_def xp split: if_splits option.splits sum.splits)
  obtain pr mergable errs2 es2 r2 where p: "(pr, mergable) \<in> set prs"
    "trigger_pr env orgrepo pss (pr, mergable) errs2 = Some (es2, r2)" "e \<in> set es2"
    using each_sound [OF g(5) x(3)] by (metis surj_pair)
  obtain old where old: "(orgrepo, old) \<in> set (dl_Before d)"
    "set pss = {ps. newly_blocking old (map_get [] (map_of (dl_After d)) orgrepo) ps}"
    by (rule addedBlocking_entry [OF x(1) [unfolded xp]])
  have "\<exists>t. e = Trigger_effect t"
    using p(2,3) by (auto simp: trigger_pr_def Let_def split: if_splits sum.splits option.splits prod.splits)
  moreover have "job_justified env d pj" if "e = Trigger_effect (CreateProwJob pj)" for pj
  proof -
    have j: "mergable \<noteq> Some False \<and> trusted_pr env pr
        \<and> (\<exists>ps \<in> set pss. CouldRun ps (ghpr_Base_Ref pr) \<and> tests_pr env pr ps pj)"
      using trigger_pr_jobs [OF p(2)] p(3) that by simp
    then have "open_pr env orgrepo pr" using g(1-4) p(1) unfolding open_pr_def by blast
    then show ?thesis using j old unfolding job_justified_def by auto
  qed
  ultimately show ?thesis by blast
qed

lemma in_repo_effects:
  assumes "each (in_repo step) xs errs = Some (es, r)" "e \<in> set es"
  obtains orgrepo items rp item errs' es' r' where "(orgrepo, items) \<in> set xs" "split_repo orgrepo = Some rp"
    "item \<in> set items" "step rp item errs' = Some (es', r')" "e \<in> set es'"
proof -
  obtain x errs1 es1 r1 where x: "x \<in> set xs" "in_repo step x errs1 = Some (es1, r1)" "e \<in> set es1"
    by (rule each_sound [OF assms])
  obtain orgrepo items where xp: "x = (orgrepo, items)" by fastforce
  obtain rp where rp: "split_repo orgrepo = Some rp" "each (step rp) items errs1 = Some (es1, r1)"
    using x(2) by (auto simp: in_repo_def xp split: option.splits)
  show ?thesis by (rule each_sound [OF rp(2) x(3)]) (use x(1) xp rp(1) that in blast)
qed

lemma removed_stage_effects:
  assumes "removed_stage env d errs = Some (es, r)" "e \<in> set es" "range_order (sr_iter_removed env)"
  obtains orgrepo old org repo p where "e = Retire org repo (ps_Context p) (Brancher_ShouldRun (ps_Brancher p))"
    "(orgrepo, old) \<in> set (dl_Before d)" "split_repo orgrepo = Some (org, repo)" "p \<in> set old" "ContextRequired p"
    "ps_Name p \<notin> ps_Name ` set (map_get [] (map_of (dl_After d)) orgrepo)"
proof -
  obtain orgrepo items rp item errs' es' r' where x: "(orgrepo, items) \<in> set (removedBlockingPresubmits (dl_Before d) (dl_After d))"
    "split_repo orgrepo = Some rp" "item \<in> set items" "retire_one env rp item errs' = Some (es', r')" "e \<in> set es'"
    using in_repo_effects [OF assms(1) [unfolded retireRemovedContexts_def] assms(2)] assms(3) by (metis range_order_set)
  obtain org repo where rp: "rp = (org, repo)" by fastforce
  obtain old where old: "(orgrepo, old) \<in> set (dl_Before d)"
    "items = filter (\<lambda>p. ContextRequired p \<and> ps_Name p \<notin> ps_Name ` set (map_get [] (map_of (dl_After d)) orgrepo)) old"
    using x(1) by (auto simp: removedBlockingPresubmits_def)
  show ?thesis
    by (rule that [OF _ old(1), of org repo item])
      (use x old(2) in \<open>auto simp: retire_one_def migrator_outcome_def rp\<close>)
qed

lemma migrated_stage_effects:
  assumes "migrated_stage env d errs = Some (es, r)" "e \<in> set es" "range_order (sr_iter_migrated env)"
  obtains orgrepo old org repo p q where
    "e = Migrate org repo (ps_Context p) (ps_Context q) (Brancher_ShouldRun (ps_Brancher p))"
    "(orgrepo, old) \<in> set (dl_Before d)" "split_repo orgrepo = Some (org, repo)" "p \<in> set old"
    "q \<in> set (map_get [] (map_of (dl_After d)) orgrepo)" "ContextRequired q"
    "ps_Name p = ps_Name q" "ps_Context p \<noteq> ps_Context q"
proof -
  obtain orgrepo items rp item errs' es' r' where x: "(orgrepo, items) \<in> set (migratedBlockingPresubmits (dl_Before d) (dl_After d))"
    "split_repo orgrepo = Some rp" "item \<in> set items" "migrate_one env rp item errs' = Some (es', r')" "e \<in> set es'"
    using in_repo_effects [OF assms(1) [unfolded updateMigratedContexts_def] assms(2)] assms(3) by (metis range_order_set)
  obtain org repo where rp: "rp = (org, repo)" by fastforce
  obtain old where old: "(orgrepo, old) \<in> set (dl_Before d)"
    and item: "pm_from item \<in> set old" "pm_to item \<in> set (map_get [] (map_of (dl_After d)) orgrepo)"
      "ContextRequired (pm_to item)" "ps_Name (pm_from item) = ps_Name (pm_to item)"
      "ps_Context (pm_from item) \<noteq> ps_Context (pm_to item)"
    using x(1,3) by (auto simp: migratedBlockingPresubmits_def)
  show ?thesis
    by (rule that [OF _ old, of org repo "pm_from item" "pm_to item"])
      (use x item in \<open>auto simp: migrate_one_def migrator_outcome_def rp\<close>)
qed

text \<open>A run of the loops without errors does all the work.\<close>

lemma addedBlocking_mem:
  assumes "(orgrepo, old) \<in> set before"
  obtains pss where "(orgrepo, pss) \<in> set (addedBlockingPresubmits before new)"
    "\<And>ps. newly_blocking old (map_get [] (map_of new) orgrepo) ps \<Longrightarrow> ps \<in> set pss"
proof -
  let ?f = "\<lambda>p. ContextRequired p \<and> \<not> NeedsExplicitTrigger p"
  let ?pss = "concat (map (added_by old) (filter ?f (map_get [] (map_of new) orgrepo)))"
  have "(orgrepo, ?pss) \<in> set (addedBlockingPresubmits before new)"
    using assms by (force simp: addedBlockingPresubmits_def)
  moreover have "ps \<in> set ?pss" if "newly_blocking old (map_get [] (map_of new) orgrepo) ps" for ps
  proof -
    have "ps \<in> set (added_by old ps)"
      using that added_by_set [of ps old] by (auto simp: newly_blocking_def ContextRequired_def split: option.splits)
    then show ?thesis using that by (auto simp: newly_blocking_def)
  qed
  ultimately show ?thesis by (rule that)
qed

lemma added_stage_complete:
  assumes st: "added_stage env d [] = Some (es, r)" "returned r = []" "range_order (sr_iter_added env)"
    and old: "(orgrepo, old) \<in> set (dl_Before d)"
    and nb: "newly_blocking old (map_get [] (map_of (dl_After d)) orgrepo) ps"
    and pr: "open_pr env orgrepo pr" "trustedPullRequest env pr (ghpr_Base_Org pr) (ghpr_Base_Repo pr) = Inr True"
      "tv_GetPullRequestChanges (sr_client env pr) (ghpr_Base_Org pr) (ghpr_Base_Repo pr) (ghpr_Number pr) = Inr files"
      "runs all_filter (ghpr_Base_Ref pr) files ps"
  obtains pj where "Trigger_effect (CreateProwJob pj) \<in> set es" "tests_pr env pr ps pj"
    "tv_outcome (sr_client env pr) (CreateProwJob pj) = None"
proof -
  obtain pss where pss: "(orgrepo, pss) \<in> set (addedBlockingPresubmits (dl_Before d) (dl_After d))" "ps \<in> set pss"
    using addedBlocking_mem [OF old] nb by metis
  obtain org repo prs mergable where o: "split_repo orgrepo = Some (org, repo)"
    "org \<notin> sr_addedPresubmitBlacklist env" "orgrepo \<notin> sr_addedPresubmitBlacklist env"
    "sr_GetPullRequests env org repo = Inr prs" "(pr, mergable) \<in> set prs" "mergable \<noteq> Some False"
    using pr(1) unfolding open_pr_def by blast
  have mem: "(orgrepo, pss) \<in> set (sr_iter_added env (addedBlockingPresubmits (dl_Before d) (dl_After d)))"
    using pss(1) st(3) by simp
  obtain es1 where es1: "trigger_repo env (orgrepo, pss) [] = Some (es1, Inr [])" "set es1 \<subseteq> set es"
    by (rule repo_step.each_clean [OF st(1) [unfolded triggerNewPresubmits_def] st(2) mem])
  have "each (trigger_pr env orgrepo pss) prs [] = Some (es1, Inr [])"
    using es1(1) o(1-4) pss(2) by (auto simp: trigger_repo_def split: if_splits)
  then obtain es2 where es2: "trigger_pr env orgrepo pss (pr, mergable) [] = Some (es2, Inr [])" "set es2 \<subseteq> set es1"
    by (rule pr_step.each_clean [OF _ _ o(5)]) simp_all
  obtain pj where "Trigger_effect (CreateProwJob pj) \<in> set es2" "tests_pr env pr ps pj"
    "tv_outcome (sr_client env pr) (CreateProwJob pj) = None"
    by (rule trigger_pr_complete [OF es2(1) o(6) pr(2,3) pss(2) pr(4)])
  then show ?thesis using es1(2) es2(2) that by blast
qed

lemma in_repo_complete:
  assumes "\<And>rp. reporting (step rp)" "each (in_repo step) xs [] = Some (es, r)" "returned r = []"
    "(orgrepo, items) \<in> set xs" "split_repo orgrepo = Some rp" "item \<in> set items"
  obtains es' where "step rp item [] = Some (es', Inr [])" "set es' \<subseteq> set es"
proof -
  obtain es1 where es1: "in_repo step (orgrepo, items) [] = Some (es1, Inr [])" "set es1 \<subseteq> set es"
    by (rule reporting.each_clean [OF in_repo_reporting [OF assms(1)] assms(2-4)])
  have "each (step rp) items [] = Some (es1, Inr [])" using es1(1) assms(5) by (simp add: in_repo_def)
  then obtain es2 where "step rp item [] = Some (es2, Inr [])" "set es2 \<subseteq> set es1"
    by (rule reporting.each_clean [OF assms(1) _ _ assms(6)]) simp_all
  then show ?thesis using es1(2) that by blast
qed

lemma removed_stage_complete:
  assumes "removed_stage env d [] = Some (es, r)" "returned r = []" "range_order (sr_iter_removed env)"
    "(orgrepo, old) \<in> set (dl_Before d)" "split_repo orgrepo = Some (org, repo)"
    "p \<in> set old" "ContextRequired p" "ps_Name p \<notin> ps_Name ` set (map_get [] (map_of (dl_After d)) orgrepo)"
  shows "Retire org repo (ps_Context p) (Brancher_ShouldRun (ps_Brancher p)) \<in> set es"
proof -
  obtain items where "(orgrepo, items) \<in> set (removedBlockingPresubmits (dl_Before d) (dl_After d))" "p \<in> set items"
    using assms(4,6-8) by (force simp: removedBlockingPresubmits_def)
  then obtain es' where "retire_one env (org, repo) p [] = Some (es', Inr [])" "set es' \<subseteq> set es"
    using in_repo_complete [OF retire_step.reporting_axioms assms(1) [unfolded retireRemovedContexts_def] assms(2) _ assms(5)]
      assms(3) by (metis range_order_set)
  then show ?thesis by (auto simp: retire_one_def migrator_outcome_def)
qed

lemma migrated_stage_complete:
  assumes "migrated_stage env d [] = Some (es, r)" "returned r = []" "range_order (sr_iter_migrated env)"
    "(orgrepo, old) \<in> set (dl_Before d)" "split_repo orgrepo = Some (org, repo)"
    "p \<in> set old" "q \<in> set (map_get [] (map_of (dl_After d)) orgrepo)" "ContextRequired q"
    "ps_Name p = ps_Name q" "ps_Context p \<noteq> ps_Context q"
  shows "Migrate org repo (ps_Context p) (ps_Context q) (Brancher_ShouldRun (ps_Brancher p)) \<in> set es"
proof -
  let ?m = "\<lparr>pm_from = p, pm_to = q\<rparr>"
  obtain items where "(orgrepo, items) \<in> set (migratedBlockingPresubmits (dl_Before d) (dl_After d))" "?m \<in> set items"
    using assms(4,6-10) by (force simp: migratedBlockingPresubmits_def)
  then obtain es' where "migrate_one env (org, repo) ?m [] = Some (es', Inr [])" "set es' \<subseteq> set es"
    using in_repo_complete [OF migrate_step.reporting_axioms assms(1) [unfolded updateMigratedContexts_def] assms(2) _ assms(5)]
      assms(3) by (metis range_order_set)
  then show ?thesis by (auto simp: migrate_one_def migrator_outcome_def)
qed

subsection \<open>Properties\<close>

text \<open>
  C31: Whatever fails, the reconciler creates a job only for a presubmit that blocks by the new
  configuration and did not by the old one, of a repo that the old one has, on a trusted open pull request without
  known conflicts in a repo that is not excluded; it retires only contexts of required presubmits whose
  name is gone, and moves a context only between an old and a required new presubmit of one name.
\<close>

theorem reconcile_safe:
  assumes "reconcile env d = Some (es, err)" "sr_orders_ok env"
  defines "new \<equiv> map_get [] (map_of (dl_After d))"
  shows "(\<forall>pj. Trigger_effect (CreateProwJob pj) \<in> set es \<longrightarrow>
      (\<exists>orgrepo old pr ps. (orgrepo, old) \<in> set (dl_Before d) \<and> open_pr env orgrepo pr \<and> trusted_pr env pr
         \<and> newly_blocking old (new orgrepo) ps \<and> CouldRun ps (ghpr_Base_Ref pr) \<and> tests_pr env pr ps pj))
    \<and> (\<forall>org repo ctx branches. Retire org repo ctx branches \<in> set es \<longrightarrow>
      (\<exists>orgrepo old. \<exists>p \<in> set old. (orgrepo, old) \<in> set (dl_Before d) \<and> split_repo orgrepo = Some (org, repo)
         \<and> ContextRequired p \<and> ps_Name p \<notin> ps_Name ` set (new orgrepo)
         \<and> ctx = ps_Context p \<and> branches = Brancher_ShouldRun (ps_Brancher p)))
    \<and> (\<forall>org repo from_ctx to_ctx branches. Migrate org repo from_ctx to_ctx branches \<in> set es \<longrightarrow>
      (\<exists>orgrepo old. \<exists>p \<in> set old. \<exists>q \<in> set (new orgrepo). (orgrepo, old) \<in> set (dl_Before d)
         \<and> split_repo orgrepo = Some (org, repo) \<and> ContextRequired q \<and> ps_Name p = ps_Name q
         \<and> from_ctx = ps_Context p \<and> to_ctx = ps_Context q \<and> from_ctx \<noteq> to_ctx
         \<and> branches = Brancher_ShouldRun (ps_Brancher p)))"
proof -
  note orders = assms(2) [unfolded sr_orders_ok_def]
  have "case e of
      Trigger_effect t \<Rightarrow> \<forall>pj. t = CreateProwJob pj \<longrightarrow> job_justified env d pj
    | Retire org repo ctx branches \<Rightarrow> \<exists>orgrepo old. \<exists>p \<in> set old. (orgrepo, old) \<in> set (dl_Before d)
        \<and> split_repo orgrepo = Some (org, repo) \<and> ContextRequired p \<and> ps_Name p \<notin> ps_Name ` set (new orgrepo)
        \<and> ctx = ps_Context p \<and> branches = Brancher_ShouldRun (ps_Brancher p)
    | Migrate org repo from_ctx to_ctx branches \<Rightarrow>
        \<exists>orgrepo old. \<exists>p \<in> set old. \<exists>q \<in> set (new orgrepo). (orgrepo, old) \<in> set (dl_Before d)
        \<and> split_repo orgrepo = Some (org, repo) \<and> ContextRequired q \<and> ps_Name p = ps_Name q
        \<and> from_ctx = ps_Context p \<and> to_ctx = ps_Context q \<and> from_ctx \<noteq> to_ctx
        \<and> branches = Brancher_ShouldRun (ps_Brancher p)" if "e \<in> set es" for e
    using assms(1) that
  proof (cases rule: reconcile_effects)
    case added
    then show ?thesis using added_stage_effects [OF added] orders by auto
  next
    case removed
    show ?thesis by (rule removed_stage_effects [OF removed]) (use orders in \<open>auto simp: new_def\<close>)
  next
    case migrated
    show ?thesis by (rule migrated_stage_effects [OF migrated]) (use orders in \<open>auto simp: new_def\<close>)
  qed
  then show ?thesis unfolding job_justified_def new_def by fastforce
qed


text \<open>
  A presubmit that starts to report and changes its files at once is added twice, so that two jobs
  are created for it on a pull request.
\<close>

lemma added_twice:
  assumes "ps_Name p = ps_Name q" "rep_SkipReport (ps_Reporter p)" "ContextRequired q"
    "cm_RunIfChanged (ps_RegexpChangeMatcher p) \<noteq> cm_RunIfChanged (ps_RegexpChangeMatcher q)"
  shows "added_by (p # old) q = [q, q]"
  using assms by (simp add: ContextRequired_def)

text \<open>A change that adds \<open>lint\<close> and removes \<open>gone\<close>, with one open pull request of a member.\<close>

definition sample_sr_env :: sr_env where
  "sample_sr_env = \<lparr>sr_continueOnError = False, sr_addedPresubmitBlacklist = {},
     sr_GetPullRequests = (\<lambda>_ _. Inr [(sample_trigger_pr, None)]), sr_client = (\<lambda>_. sample_trigger_env),
     sr_triggers = [], sr_retire = (\<lambda>_ _ _. None), sr_migrate = (\<lambda>_ _ _ _. None),
     sr_iter_added = rev, sr_iter_removed = rev, sr_iter_migrated = rev\<rparr>"

definition sample_delta :: Delta where
  "sample_delta =
     \<lparr>dl_Before = [(''org/repo'', [sample_Presubmit ''unit'' True False [], sample_Presubmit ''gone'' True False []])],
      dl_After = [(''org/repo'', [sample_Presubmit ''unit'' True False [], sample_Presubmit ''lint'' True False []])]\<rparr>"

definition sample_lint_job :: ProwJob where
  "sample_lint_job = NewPresubmit (\<lambda>_. True) ''0'' 7 sample_trigger_pr ''base''
     (sample_Presubmit ''lint'' True False []) ''none''"

lemma sample_sr_orders: "sr_orders_ok sample_sr_env"
  by (simp add: sr_orders_ok_def sample_sr_env_def)

lemma sample_fields [simp]:
  "ps_Name (sample_Presubmit name True False []) = name"
  "ps_Context (sample_Presubmit name True False []) = name"
  "ContextRequired (sample_Presubmit name True False [])"
  "\<not> NeedsExplicitTrigger (sample_Presubmit name True False [])"
  "\<not> rep_SkipReport (ps_Reporter (sample_Presubmit name True False []))"
  "cm_RunIfChanged (ps_RegexpChangeMatcher (sample_Presubmit name True False [])) = []"
  by (simp_all add: presubmit_defs sample_job_defs)

lemma sample_names:
  "ps_Name ` {x. x = sample_Presubmit a True False [] \<or> x = sample_Presubmit b True False []} = {a, b}"
  by force

lemma sample_compared:
  "addedBlockingPresubmits (dl_Before sample_delta) (dl_After sample_delta) =
     [(''org/repo'', [sample_Presubmit ''lint'' True False []])]"
  "removedBlockingPresubmits (dl_Before sample_delta) (dl_After sample_delta) =
     [(''org/repo'', [sample_Presubmit ''gone'' True False []])]"
  "migratedBlockingPresubmits (dl_Before sample_delta) (dl_After sample_delta) = [(''org/repo'', [])]"
  by (auto simp: addedBlockingPresubmits_def removedBlockingPresubmits_def migratedBlockingPresubmits_def
      sample_delta_def map_get_def sample_names)

lemma sample_trigger_step:
  "trigger_pr sample_sr_env ''org/repo'' [sample_Presubmit ''lint'' True False []] (sample_trigger_pr, None) [] =
     Some ([Trigger_effect (CreateProwJob sample_lint_job)], Inr [])"
  by (simp add: trigger_pr_def triggerAndSkipIfTrusted_def trustedPullRequest_def TrustedPullRequest_def
      runAndSkip_def all_filter_def NewAggregate_def sample_sr_env_def sample_lint_job_def sample_trigger_pr_def sample_trigger_defs)

lemma sample_reconciled:
  "reconcile sample_sr_env sample_delta =
     Some ([Trigger_effect (CreateProwJob sample_lint_job),
            Retire ''org'' ''repo'' ''gone'' (Brancher_ShouldRun (ps_Brancher (sample_Presubmit ''gone'' True False [])))], None)"
proof -
  let ?lint = "sample_Presubmit ''lint'' True False []"
  have iter: "sr_iter_added sample_sr_env = rev" "sr_iter_removed sample_sr_env = rev" "sr_iter_migrated sample_sr_env = rev"
    by (simp_all add: sample_sr_env_def)
  have prs: "sr_addedPresubmitBlacklist sample_sr_env = {}"
    "sr_GetPullRequests sample_sr_env ''org'' ''repo'' = Inr [(sample_trigger_pr, None)]"
    by (simp_all add: sample_sr_env_def)
  have t: "triggerNewPresubmits sample_sr_env [(''org/repo'', [?lint])] [] =
      Some ([Trigger_effect (CreateProwJob sample_lint_job)], Inr [])"
    unfolding triggerNewPresubmits_def iter
    by (simp add: trigger_repo_def sample_trigger_step chain_def then_more_def prs)
  have r: "retireRemovedContexts sample_sr_env [(''org/repo'', [sample_Presubmit ''gone'' True False []])] [] =
      Some ([Retire ''org'' ''repo'' ''gone'' (Brancher_ShouldRun (ps_Brancher (sample_Presubmit ''gone'' True False [])))], Inr [])"
    unfolding retireRemovedContexts_def iter
    by (simp add: in_repo_def retire_one_def migrator_outcome_def chain_def then_more_def sample_sr_env_def)
  have m: "updateMigratedContexts sample_sr_env [(''org/repo'', [])] [] = Some ([], Inr [])"
    unfolding updateMigratedContexts_def iter by (simp add: in_repo_def chain_def then_more_def)
  show ?thesis
    unfolding reconcile_def Let_def sample_compared
    by (simp add: stage_def t r m chain_def then_more_def NewAggregate_def)
qed

theorem reconcile_safe_witness:
  "\<exists>pr ps. open_pr sample_sr_env ''org/repo'' pr \<and> trusted_pr sample_sr_env pr \<and> tests_pr sample_sr_env pr ps sample_lint_job"
proof -
  have "\<exists>orgrepo old pr ps. (orgrepo, old) \<in> set (dl_Before sample_delta) \<and> open_pr sample_sr_env orgrepo pr
      \<and> trusted_pr sample_sr_env pr \<and> tests_pr sample_sr_env pr ps sample_lint_job"
    using reconcile_safe [OF sample_reconciled sample_sr_orders] by (meson list.set_intros(1))
  then show ?thesis by (auto simp: sample_delta_def)
qed


end
