(* ===== verification/Repo_Owners.thy ===== *)
theory Repo_Owners
  imports Config_Jobs Go_Paths
begin

text \<open>
  Who owns which files of a repo, \<open>src/repoowners/repoowners.go\<close>: the OWNERS files of a tree
  are read into maps from directories to people, which are looked up along the parents of a path, and
  kept in a cache per branch.

  Regular expressions and the YAML decoder are third-party code or the standard library's engine: a compiled
  expression is a predicate, and \<open>owners_env\<close> holds the decoders.  A map whose keys are pointers to
  expressions is a list of entries; the nil key, which stands for every file, occurs in it at most once.  The clone of a
  repo is a tree of files; what cannot be read is an \<open>Irregular\<close> node, since both only log.
\<close>

subsection \<open>Data\<close>

definition ownersFileName :: string where "ownersFileName = ''OWNERS''"
definition aliasesFileName :: string where "aliasesFileName = ''OWNERS_ALIASES''"

record owners_config =
  oc_Approvers :: "string list"
  oc_Reviewers :: "string list"
  oc_RequiredReviewers :: "string list"
  oc_Labels :: "string list"

record SimpleConfig =
  sc_NoParentOwners :: bool
  sc_Config :: owners_config

record FullConfig =
  fc_NoParentOwners :: bool
  fc_Filters :: "(string \<times> owners_config) list"

definition SimpleConfig_Empty :: "SimpleConfig \<Rightarrow> bool" where
  "SimpleConfig_Empty s \<longleftrightarrow> oc_Approvers (sc_Config s) = [] \<and> oc_Reviewers (sc_Config s) = []
     \<and> oc_RequiredReviewers (sc_Config s) = [] \<and> oc_Labels (sc_Config s) = []"

type_synonym RepoAliases = "(string \<times> string list) list option"
type_synonym owner_entry = "regexp option \<times> string list"
type_synonym owner_map = "string \<rightharpoonup> owner_entry list"

record RepoOwners =
  ro_RepoAliases :: RepoAliases
  ro_approvers :: owner_map
  ro_reviewers :: owner_map
  ro_requiredReviewers :: owner_map
  ro_labels :: owner_map
  ro_options :: "string \<rightharpoonup> bool"
  ro_baseDir :: string
  ro_enableMDYAML :: bool
  ro_dirBlacklist :: "regexp list"

datatype file_tree = Regular string | Directory "(string \<times> file_tree) list" | Irregular

record owners_env =
  oe_simple :: "string \<Rightarrow> SimpleConfig result"
  oe_full :: "string \<Rightarrow> FullConfig result"
  oe_aliases :: "string \<Rightarrow> (string \<times> string list) list result"
  oe_compile :: compiler

subsection \<open>Aliases\<close>

definition NormLogins :: "string list \<Rightarrow> string list" where
  "NormLogins logins = map NormLogin logins"

definition ExpandAlias :: "RepoAliases \<Rightarrow> string \<Rightarrow> string list" where
  "ExpandAlias a alias =
     (case a of None \<Rightarrow> [] | Some m \<Rightarrow> map_get [] (map_of m) (NormLogin alias))"

fun expand_loop :: "(string \<times> string list) list \<Rightarrow> string list \<Rightarrow> string list \<Rightarrow> string list" where
  "expand_loop m [] logins = logins"
| "expand_loop m (login # rest) logins =
     (case map_of m (NormLogin login) of
        None \<Rightarrow> expand_loop m rest logins
      | Some expanded \<Rightarrow> expand_loop m rest (filter (\<lambda>l. l \<noteq> login) logins @ expanded))"

definition ExpandAliases :: "RepoAliases \<Rightarrow> string list \<Rightarrow> string list" where
  "ExpandAliases a logins =
     (case a of None \<Rightarrow> logins | Some m \<Rightarrow> expand_loop m (set_list logins) logins)"

definition ExpandAllAliases :: "RepoAliases \<Rightarrow> string list" where
  "ExpandAllAliases a =
     (case a of None \<Rightarrow> [] | Some m \<Rightarrow> concat (map (\<lambda>(alias, _). ExpandAlias a alias) m))"

text \<open>The entries of the file come in the order of the range.\<close>

definition ParseAliasesConfig :: "owners_env \<Rightarrow> string \<Rightarrow> (string \<times> string list) list result" where
  "ParseAliasesConfig env b =
     (case oe_aliases env b of
        Inl err \<Rightarrow> Inl err
      | Inr data \<Rightarrow>
          Inr (foldl (\<lambda>m (alias, expanded). AList.update (NormLogin alias) (NormLogins expanded) m) [] data))"

definition loadAliasesFrom :: "owners_env \<Rightarrow> file_tree \<Rightarrow> RepoAliases" where
  "loadAliasesFrom env tree =
     (case tree of
        Directory entries \<Rightarrow>
          (case map_of entries aliasesFileName of
             Some (Regular b) \<Rightarrow> (case ParseAliasesConfig env b of Inl _ \<Rightarrow> Some [] | Inr m \<Rightarrow> Some m)
           | _ \<Rightarrow> None)
      | _ \<Rightarrow> None)"

subsection \<open>Reading the tree\<close>

definition set_entry :: "string \<Rightarrow> regexp option \<Rightarrow> string list \<Rightarrow> owner_map \<Rightarrow> owner_map" where
  "set_entry path re people m =
     (let es = map_get [] m path
      in m(path \<mapsto> (if Option.is_none re then filter (\<lambda>(r, _). \<not> Option.is_none r) es else es) @ [(re, people)]))"

definition applyConfigToPath :: "string \<Rightarrow> regexp option \<Rightarrow> owners_config \<Rightarrow> RepoOwners \<Rightarrow> RepoOwners" where
  "applyConfigToPath path re config ro =
     (let put = (\<lambda>people m. if people = [] then m
                  else set_entry path re (ExpandAliases (ro_RepoAliases ro) (NormLogins people)) m)
      in ro\<lparr>ro_approvers := put (oc_Approvers config) (ro_approvers ro),
           ro_reviewers := put (oc_Reviewers config) (ro_reviewers ro),
           ro_requiredReviewers := put (oc_RequiredReviewers config) (ro_requiredReviewers ro),
           ro_labels := (if oc_Labels config = [] then ro_labels ro
                         else set_entry path re (oc_Labels config) (ro_labels ro))\<rparr>)"

definition applyOptionsToPath :: "string \<Rightarrow> bool \<Rightarrow> RepoOwners \<Rightarrow> RepoOwners" where
  "applyOptionsToPath path noParentOwners ro =
     (if noParentOwners then ro\<lparr>ro_options := (ro_options ro)(path \<mapsto> True)\<rparr> else ro)"

text \<open>
  \<open>mdStructuredHeaderRegex\<close>: a first line of dashes up to the last line that begins with dashes, two lines at least.
\<close>

fun last_dashes :: "string \<Rightarrow> nat \<Rightarrow> nat option \<Rightarrow> nat option" where
  "last_dashes [] i found = found"
| "last_dashes (c # cs) i found =
     last_dashes cs (Suc i) (if has_prefix (c # cs) (newline # ''---'') then Some i else found)"

definition md_header :: "string \<Rightarrow> string" where
  "md_header s =
     (if has_prefix s (''---'' @ [newline]) then
        (case last_dashes (drop 4 s) 4 None of None \<Rightarrow> [] | Some i \<Rightarrow> take (i + 4) s)
      else [])"

definition blacklisted :: "RepoOwners \<Rightarrow> string \<Rightarrow> bool" where
  "blacklisted ro path \<longleftrightarrow> (\<exists>re \<in> set (ro_dirBlacklist ro). re path)"

text \<open>The directory of a file with the path of the clone in front, as the parsers see it.\<close>

definition full_dir :: "RepoOwners \<Rightarrow> string \<Rightarrow> string" where
  "full_dir ro relPathDir = (if relPathDir = [] then ro_baseDir ro else ro_baseDir ro @ ''/'' @ relPathDir)"

fun apply_filters :: "owners_env \<Rightarrow> string \<Rightarrow> (string \<times> owners_config) list \<Rightarrow> RepoOwners \<Rightarrow> RepoOwners" where
  "apply_filters env path [] ro = ro"
| "apply_filters env path ((pattern, config) # rest) ro =
     apply_filters env path rest
       (if pattern = ''.*'' then applyConfigToPath path None config ro
        else case oe_compile env pattern of
          Inl _ \<Rightarrow> ro
        | Inr re \<Rightarrow> applyConfigToPath path (Some re) config ro)"

text \<open>\<open>walkFunc\<close> on a regular file; the flag is \<open>filepath.SkipDir\<close>.\<close>

definition walk_file :: "owners_env \<Rightarrow> string \<Rightarrow> string \<Rightarrow> string \<Rightarrow> RepoOwners \<Rightarrow> RepoOwners \<times> bool" where
  "walk_file env relPath filename b ro =
     (let relPathDir = canonicalize (path_Dir relPath)
      in if ro_enableMDYAML ro \<and> has_prefix (rev filename) (rev ''.md'') then
           (case oe_simple env (md_header b) of
              Inl _ \<Rightarrow> (ro, False)
            | Inr simple \<Rightarrow>
                (applyOptionsToPath relPath (sc_NoParentOwners simple)
                   (applyConfigToPath relPath None (sc_Config simple) ro), False))
         else if filename \<noteq> ownersFileName then (ro, False)
         else if blacklisted ro (full_dir ro relPathDir) then (ro, True)
         else
           (let full = (case oe_full env b of
                  Inl _ \<Rightarrow> (ro, False)
                | Inr c \<Rightarrow>
                    (applyOptionsToPath relPathDir (fc_NoParentOwners c)
                       (apply_filters env relPathDir (fc_Filters c) ro), False))
            in case oe_simple env b of
                 Inl _ \<Rightarrow> full
               | Inr simple \<Rightarrow>
                   if SimpleConfig_Empty simple then full
                   else (applyOptionsToPath relPathDir (sc_NoParentOwners simple)
                           (applyConfigToPath relPathDir None (sc_Config simple) ro), False)))"

text \<open>
  \<open>filepath.Walk\<close>: the entries of a directory in the order of their names; \<open>SkipDir\<close> of a file ends the
  walk of its directory, \<open>SkipDir\<close> of a directory its own.
\<close>

definition child_path :: "string \<Rightarrow> string \<Rightarrow> string" where
  "child_path relPath name = (if relPath = ''.'' then name else relPath @ ''/'' @ name)"

fun walk_tree :: "owners_env \<Rightarrow> string \<Rightarrow> string \<Rightarrow> file_tree \<Rightarrow> RepoOwners \<Rightarrow> RepoOwners \<times> bool"
  and walk_entries :: "owners_env \<Rightarrow> string \<Rightarrow> (string \<times> file_tree) list \<Rightarrow> RepoOwners \<Rightarrow> RepoOwners" where
  "walk_tree env relPath filename (Regular b) ro = walk_file env relPath filename b ro"
| "walk_tree env relPath filename Irregular ro = (ro, False)"
| "walk_tree env relPath filename (Directory entries) ro =
     (if blacklisted ro relPath then (ro, False) else (walk_entries env relPath entries ro, False))"
| "walk_entries env relPath [] ro = ro"
| "walk_entries env relPath ((name, t) # entries) ro =
     (case walk_tree env (child_path relPath name) name t ro of
        (ro', True) \<Rightarrow> ro'
      | (ro', False) \<Rightarrow> walk_entries env relPath entries ro')"

definition loadOwnersFrom ::
    "owners_env \<Rightarrow> string \<Rightarrow> file_tree \<Rightarrow> bool \<Rightarrow> RepoAliases \<Rightarrow> regexp list \<Rightarrow> RepoOwners" where
  "loadOwnersFrom env baseDir tree mdYaml aliases dirBlacklist =
     fst (walk_tree env ''.'' [] tree
       \<lparr>ro_RepoAliases = aliases, ro_approvers = Map.empty, ro_reviewers = Map.empty,
        ro_requiredReviewers = Map.empty, ro_labels = Map.empty, ro_options = Map.empty,
        ro_baseDir = baseDir, ro_enableMDYAML = mdYaml, ro_dirBlacklist = dirBlacklist\<rparr>)"

definition keep_people :: "string list \<Rightarrow> owner_map \<Rightarrow> owner_map" where
  "keep_people collabs m =
     (\<lambda>path. map_option (map (\<lambda>(re, unfiltered). (re, filter (\<lambda>l. l \<in> set collabs) unfiltered))) (m path))"

definition filterCollaborators :: "string list \<Rightarrow> RepoOwners \<Rightarrow> RepoOwners" where
  "filterCollaborators toKeep ro =
     (let collabs = NormLogins toKeep
      in ro\<lparr>ro_approvers := keep_people collabs (ro_approvers ro),
           ro_reviewers := keep_people collabs (ro_reviewers ro)\<rparr>)"

subsection \<open>Looking people up\<close>

fun applies :: "regexp option \<Rightarrow> string \<Rightarrow> bool" where
  "applies None relative = True"
| "applies (Some re) relative = re relative"

function find_from :: "owner_map \<Rightarrow> string \<Rightarrow> string \<Rightarrow> string" where
  "find_from ownerMap path d =
     (if d = [] then []
      else case path_Rel d path of
        Inl _ \<Rightarrow> []
      | Inr relative \<Rightarrow>
          if \<exists>(re, n) \<in> set (map_get [] ownerMap d). applies re relative \<and> n \<noteq> [] then d
          else find_from ownerMap path (canonicalize (path_Dir d)))"
  by pat_completeness auto
termination
  by (relation "measure (\<lambda>(m, path, d). length d)") (simp_all add: parent_shorter)

definition findOwnersForFile :: "string \<Rightarrow> owner_map \<Rightarrow> string" where
  "findOwnersForFile path ownerMap = find_from ownerMap path path"

definition FindApproverOwnersForFile :: "RepoOwners \<Rightarrow> string \<Rightarrow> string" where
  "FindApproverOwnersForFile ro path = findOwnersForFile path (ro_approvers ro)"

definition FindReviewersOwnersForFile :: "RepoOwners \<Rightarrow> string \<Rightarrow> string" where
  "FindReviewersOwnersForFile ro path = findOwnersForFile path (ro_reviewers ro)"

definition IsNoParentOwners :: "RepoOwners \<Rightarrow> string \<Rightarrow> bool" where
  "IsNoParentOwners ro path = map_get False (ro_options ro) path"

function entries_from ::
    "RepoOwners \<Rightarrow> owner_map \<Rightarrow> bool \<Rightarrow> string \<Rightarrow> string \<Rightarrow> string list \<Rightarrow> string list" where
  "entries_from ro people leafOnly path d out =
     (case path_Rel d path of
        Inl _ \<Rightarrow> []
      | Inr relative \<Rightarrow>
          (let out' = out @ concat (map snd (filter (\<lambda>(re, _). applies re relative) (map_get [] people d)))
           in if leafOnly \<and> out' \<noteq> [] \<or> d = [] \<or> IsNoParentOwners ro d then out'
              else entries_from ro people leafOnly path (canonicalize (path_Dir d)) out'))"
  by pat_completeness auto
termination
  by (relation "measure (\<lambda>(ro, people, leafOnly, path, d, out). length d)") (simp_all add: parent_shorter)

definition entriesForFile :: "RepoOwners \<Rightarrow> string \<Rightarrow> owner_map \<Rightarrow> bool \<Rightarrow> string list" where
  "entriesForFile ro path people leafOnly =
     entries_from ro people leafOnly path
       (if ro_enableMDYAML ro \<and> has_prefix (rev path) (rev ''.md'') then path else canonicalize path) []"

definition FindLabelsForFile :: "RepoOwners \<Rightarrow> string \<Rightarrow> string list" where
  "FindLabelsForFile ro path = entriesForFile ro path (ro_labels ro) False"

definition LeafApprovers :: "RepoOwners \<Rightarrow> string \<Rightarrow> string list" where
  "LeafApprovers ro path = entriesForFile ro path (ro_approvers ro) True"

definition Approvers :: "RepoOwners \<Rightarrow> string \<Rightarrow> string list" where
  "Approvers ro path = entriesForFile ro path (ro_approvers ro) False"

definition LeafReviewers :: "RepoOwners \<Rightarrow> string \<Rightarrow> string list" where
  "LeafReviewers ro path = entriesForFile ro path (ro_reviewers ro) True"

definition Reviewers :: "RepoOwners \<Rightarrow> string \<Rightarrow> string list" where
  "Reviewers ro path = entriesForFile ro path (ro_reviewers ro) False"

definition RequiredReviewers :: "RepoOwners \<Rightarrow> string \<Rightarrow> string list" where
  "RequiredReviewers ro path = entriesForFile ro path (ro_requiredReviewers ro) False"

definition TopLevelApprovers :: "RepoOwners \<Rightarrow> string list" where
  "TopLevelApprovers ro = entriesForFile ro ''.'' (ro_approvers ro) False"

declare find_from.simps [simp del] entries_from.simps [simp del]

subsection \<open>The cache\<close>

record OwnersDirBlacklist =
  odb_Repos :: "string \<rightharpoonup> string list"
  odb_Default :: "string list"
  odb_IgnorePreconfiguredDefaults :: bool

definition DirBlacklist :: "OwnersDirBlacklist \<Rightarrow> string \<Rightarrow> string \<Rightarrow> string list" where
  "DirBlacklist bl org repo =
     odb_Default bl @ map_get [] (odb_Repos bl) org @ map_get [] (odb_Repos bl) (org @ ''/'' @ repo)
     @ (if odb_IgnorePreconfiguredDefaults bl then []
        else [CHR 0x5C # ''.git$'', ''_output$'', ''vendor/.*/.*''])"

record cacheEntry =
  ce_sha :: string
  ce_aliases :: RepoAliases
  ce_owners :: "RepoOwners option"

type_synonym owners_cache = "string \<rightharpoonup> cacheEntry"

text \<open>
  What GitHub and git answer during one call: the head of the branch, the outcomes of the clone and the checkout, the
  files that differ between two commits, the tree of the branch with the directory of the clone, and
  the collaborators.
\<close>

record owners_world =
  ow_env :: owners_env
  ow_mdYAMLEnabled :: bool
  ow_skipCollaborators :: bool
  ow_ownersDirBlacklist :: OwnersDirBlacklist
  ow_GetRef :: "string result"
  ow_Clone :: "error option"
  ow_Checkout :: "error option"
  ow_Diff :: "string \<Rightarrow> string \<Rightarrow> string list result"
  ow_tree :: file_tree
  ow_Directory :: string
  ow_ListCollaborators :: "string list result"

definition zero_entry :: cacheEntry where
  "zero_entry = \<lparr>ce_sha = [], ce_aliases = None, ce_owners = None\<rparr>"

definition matchesMDYAML :: "cacheEntry \<Rightarrow> bool \<Rightarrow> bool" where
  "matchesMDYAML entry mdYAML \<longleftrightarrow>
     (case ce_owners entry of None \<Rightarrow> False | Some owners \<Rightarrow> ro_enableMDYAML owners = mdYAML)"

definition fullyLoaded :: "cacheEntry \<Rightarrow> bool" where
  "fullyLoaded entry \<longleftrightarrow> ce_sha entry \<noteq> [] \<and> ce_aliases entry \<noteq> None \<and> ce_owners entry \<noteq> None"

definition LoadRepoAliases ::
    "owners_world \<Rightarrow> string \<Rightarrow> string \<Rightarrow> string \<Rightarrow> owners_cache \<Rightarrow> RepoAliases result \<times> owners_cache" where
  "LoadRepoAliases w org repo base cache =
     (let cloneRef = org @ ''/'' @ repo; fullName = cloneRef @ '':'' @ base
      in case ow_GetRef w of
           Inl err \<Rightarrow> (Inl (''failed to get current SHA for '' @ fullName @ '': '' @ err), cache)
         | Inr sha \<Rightarrow>
             (let entry = map_get zero_entry cache fullName
              in if cache fullName = None \<or> ce_sha entry \<noteq> sha then
                   (case ow_Clone w of
                      Some err \<Rightarrow> (Inl (''failed to clone '' @ cloneRef @ '': '' @ err), cache)
                    | None \<Rightarrow>
                        (case ow_Checkout w of
                           Some err \<Rightarrow> (Inl err, cache)
                         | None \<Rightarrow>
                             (let aliases = loadAliasesFrom (ow_env w) (ow_tree w)
                              in (Inr aliases, cache(fullName \<mapsto> entry\<lparr>ce_aliases := aliases, ce_sha := sha\<rparr>)))))
                 else (Inr (ce_aliases entry), cache)))"

text \<open>A changed file that the owners may depend on.\<close>

definition owners_file :: "bool \<Rightarrow> string \<Rightarrow> bool" where
  "owners_file mdYaml change \<longleftrightarrow>
     mdYaml \<and> has_prefix (rev change) (rev ''.md'') \<or> has_prefix (rev change) (rev aliasesFileName)
     \<or> has_prefix (rev change) (rev ownersFileName)"

text \<open>Whether the cached owners serve for the new commit.\<close>

definition reusable :: "owners_world \<Rightarrow> cacheEntry \<Rightarrow> string \<Rightarrow> bool result" where
  "reusable w entry sha =
     (if fullyLoaded entry \<and> matchesMDYAML entry (ow_mdYAMLEnabled w) then
        (case ow_Diff w sha (ce_sha entry) of
           Inl _ \<Rightarrow> Inl (''failed to diff '' @ sha @ '' with '' @ ce_sha entry)
         | Inr changes \<Rightarrow> Inr (\<forall>change \<in> set changes. \<not> owners_file (ow_mdYAMLEnabled w) change))
      else Inr False)"

definition compiled :: "compiler \<Rightarrow> string list \<Rightarrow> regexp list" where
  "compiled compile patterns =
     List.map_filter (\<lambda>p. case compile p of Inl _ \<Rightarrow> None | Inr re \<Rightarrow> Some re) patterns"

text \<open>The owners of the tree and the entry that is stored.\<close>

definition load_entry :: "owners_world \<Rightarrow> string \<Rightarrow> string \<Rightarrow> cacheEntry \<Rightarrow> string \<Rightarrow> cacheEntry" where
  "load_entry w org repo entry sha =
     (let aliases = (if ce_aliases entry = None \<or> ce_sha entry \<noteq> sha
                     then loadAliasesFrom (ow_env w) (ow_tree w) else ce_aliases entry)
      in \<lparr>ce_sha = sha, ce_aliases = aliases,
          ce_owners = Some (loadOwnersFrom (ow_env w) (ow_Directory w) (ow_tree w) (ow_mdYAMLEnabled w) aliases
            (compiled (oe_compile (ow_env w)) (DirBlacklist (ow_ownersDirBlacklist w) org repo)))\<rparr>)"

definition cached_owners ::
    "owners_world \<Rightarrow> string \<Rightarrow> string \<Rightarrow> string \<Rightarrow> owners_cache \<Rightarrow> RepoOwners option result \<times> owners_cache" where
  "cached_owners w org repo base cache =
     (let cloneRef = org @ ''/'' @ repo; fullName = cloneRef @ '':'' @ base
      in case ow_GetRef w of
           Inl err \<Rightarrow> (Inl (''failed to get current SHA for '' @ fullName @ '': '' @ err), cache)
         | Inr sha \<Rightarrow>
             (let entry = map_get zero_entry cache fullName
              in if cache fullName = None \<or> ce_sha entry \<noteq> sha \<or> ce_owners entry = None
                    \<or> \<not> matchesMDYAML entry (ow_mdYAMLEnabled w) then
                   (case ow_Clone w of
                      Some err \<Rightarrow> (Inl (''failed to clone '' @ cloneRef @ '': '' @ err), cache)
                    | None \<Rightarrow>
                        (case reusable w entry sha of
                           Inl err \<Rightarrow> (Inl err, cache)
                         | Inr True \<Rightarrow> (Inr (ce_owners entry), cache)
                         | Inr False \<Rightarrow>
                             (case ow_Checkout w of
                                Some err \<Rightarrow> (Inl err, cache)
                              | None \<Rightarrow>
                                  (let entry' = load_entry w org repo entry sha
                                   in (Inr (ce_owners entry'), cache(fullName \<mapsto> entry'))))))
                 else (Inr (ce_owners entry), cache)))"

text \<open>The owners are a pointer; \<open>None\<close> is nil, which it never is.\<close>

definition LoadRepoOwners ::
    "owners_world \<Rightarrow> string \<Rightarrow> string \<Rightarrow> string \<Rightarrow> owners_cache \<Rightarrow> RepoOwners option result \<times> owners_cache" where
  "LoadRepoOwners w org repo base cache =
     (case cached_owners w org repo base cache of
        (Inl err, cache') \<Rightarrow> (Inl err, cache')
      | (Inr owners, cache') \<Rightarrow>
          (Inr (if ow_skipCollaborators w then owners
                else case ow_ListCollaborators w of
                  Inl _ \<Rightarrow> owners
                | Inr collaborators \<Rightarrow> map_option (filterCollaborators collaborators) owners), cache'))"

subsection \<open>Lookups along the parents\<close>

text \<open>
  The people an OWNERS file at the first \<open>k\<close> elements of a path lists for it, and whether the
  files up to there are reached without passing a directory that ignores its parents.
\<close>

definition relative_to :: "nat \<Rightarrow> string list \<Rightarrow> string" where
  "relative_to k es = (if k = length es then ''.'' else path_of (drop k es))"

definition owners_listed :: "owner_map \<Rightarrow> string list \<Rightarrow> nat \<Rightarrow> string set" where
  "owners_listed people es k =
     {l. \<exists>(re, ls) \<in> set (map_get [] people (path_of (take k es))). applies re (relative_to k es) \<and> l \<in> set ls}"

definition reached :: "RepoOwners \<Rightarrow> string list \<Rightarrow> nat \<Rightarrow> nat \<Rightarrow> bool" where
  "reached ro es n k \<longleftrightarrow> k \<le> n \<and> (\<forall>j. k < j \<and> j \<le> n \<longrightarrow> \<not> IsNoParentOwners ro (path_of (take j es)))"

lemma reached_self [simp]: "reached ro es n n"
  by (auto simp: reached_def)

lemma reached_Suc:
  "reached ro es (Suc n) k \<longleftrightarrow>
     k = Suc n \<or> \<not> IsNoParentOwners ro (path_of (take (Suc n) es)) \<and> reached ro es n k"
  by (auto simp: reached_def le_Suc_eq)

lemma reached_0 [simp]: "reached ro es 0 k \<longleftrightarrow> k = 0"
  by (auto simp: reached_def)

lemma listed_concat:
  "set (concat (map snd (filter (\<lambda>(re, _). applies re (relative_to k es)) (map_get [] people (path_of (take k es)))))) =
     owners_listed people es k"
  by (auto simp: owners_listed_def)

lemma Rel_take:
  assumes "plain_path es" "k \<le> length es"
  shows "path_Rel (path_of (take k es)) (path_of es) = Inr (relative_to k es)"
  using Rel_path [of "take k es" "drop k es"] assms by (auto simp: relative_to_def)

lemma parent_take:
  assumes "plain_path es" "Suc n \<le> length es"
  shows "canonicalize (path_Dir (path_of (take (Suc n) es))) = path_of (take n es)"
proof -
  have "take (Suc n) es = take n es @ [es ! n]" using assms(2) by (simp add: take_Suc_conv_app_nth)
  moreover have "plain_path (take (Suc n) es)" using assms(1) by (auto simp: plain_path_def dest: in_set_takeD)
  ultimately show ?thesis using parent_path [of "take n es" "es ! n"] by simp
qed

lemma plain_take: "plain_path es \<Longrightarrow> plain_path (take k es)"
  by (auto simp: plain_path_def dest: in_set_takeD)

lemma take_path_ne: "plain_path es \<Longrightarrow> Suc n \<le> length es \<Longrightarrow> path_of (take (Suc n) es) \<noteq> []"
  using path_empty [OF plain_take, of es "Suc n"] by auto

lemma entries_from_all:
  assumes "plain_path es" "n \<le> length es"
  shows "set (entries_from ro people False (path_of es) (path_of (take n es)) out) =
    set out \<union> (\<Union>k \<in> {k. reached ro es n k}. owners_listed people es k)"
  using assms(2)
proof (induction n arbitrary: out)
  case 0
  have eq: "{k. reached ro es 0 k} = {0}" by auto
  show ?case
    unfolding eq using Rel_take [OF assms(1), of 0] listed_concat [of 0 es people]
    by (subst entries_from.simps) (simp add: Let_def)
next
  case (Suc n)
  let ?d = "path_of (take (Suc n) es)"
  have d: "?d \<noteq> []" by (rule take_path_ne [OF assms(1) Suc.prems])
  show ?case
  proof (cases "IsNoParentOwners ro ?d")
    case True
    then have "{k. reached ro es (Suc n) k} = {Suc n}" by (auto simp: reached_Suc)
    then show ?thesis
      using True Rel_take [OF assms(1) Suc.prems] listed_concat [of "Suc n" es people]
      by (subst entries_from.simps) (simp add: Let_def)
  next
    case False
    then have "{k. reached ro es (Suc n) k} = insert (Suc n) {k. reached ro es n k}" by (auto simp: reached_Suc)
    then show ?thesis
      using False d Rel_take [OF assms(1) Suc.prems] listed_concat [of "Suc n" es people] Suc.IH Suc.prems
        parent_take [OF assms(1) Suc.prems]
      by (subst entries_from.simps) (simp add: Let_def Un_assoc)
  qed
qed

lemma entries_from_leaf:
  assumes "plain_path es" "n \<le> length es"
  shows "set (entries_from ro people True (path_of es) (path_of (take n es)) []) =
    (if \<exists>k. reached ro es n k \<and> owners_listed people es k \<noteq> {}
     then owners_listed people es (GREATEST k. reached ro es n k \<and> owners_listed people es k \<noteq> {}) else {})"
  using assms(2)
proof (induction n)
  case 0
  have "(GREATEST k. k = 0 \<and> owners_listed people es k \<noteq> {}) = 0" if "owners_listed people es 0 \<noteq> {}"
    using that by (intro Greatest_equality) auto
  then show ?case
    using Rel_take [OF assms(1), of 0] listed_concat [of 0 es people]
    by (subst entries_from.simps) (auto simp: Let_def)
next
  case (Suc n)
  let ?d = "path_of (take (Suc n) es)"
  define here where "here = concat (map snd (filter (\<lambda>(re, _). applies re (relative_to (Suc n) es)) (map_get [] people ?d)))"
  have d: "?d \<noteq> []" by (rule take_path_ne [OF assms(1) Suc.prems])
  have here: "set here = owners_listed people es (Suc n)" unfolding here_def by (rule listed_concat)
  have step: "entries_from ro people True (path_of es) ?d [] =
      (if here \<noteq> [] \<or> IsNoParentOwners ro ?d then here
       else entries_from ro people True (path_of es) (path_of (take n es)) here)"
    using Rel_take [OF assms(1) Suc.prems] d parent_take [OF assms(1) Suc.prems]
    by (subst entries_from.simps) (auto simp: Let_def here_def)
  show ?case
  proof (cases "here = []")
    case False
    then have ne: "owners_listed people es (Suc n) \<noteq> {}" using here by auto
    then have "(GREATEST k. reached ro es (Suc n) k \<and> owners_listed people es k \<noteq> {}) = Suc n"
      by (intro Greatest_equality) (auto simp: reached_def)
    then show ?thesis using ne False here reached_self [of ro es "Suc n"] unfolding step by auto
  next
    case True
    then have empty: "owners_listed people es (Suc n) = {}" using here by (metis set_empty)
    show ?thesis
    proof (cases "IsNoParentOwners ro ?d")
      case stop: True
      then have "\<not> (\<exists>k. reached ro es (Suc n) k \<and> owners_listed people es k \<noteq> {})" using empty by (auto simp: reached_Suc)
      then show ?thesis using True stop unfolding step by auto
    next
      case False
      then have "(reached ro es (Suc n) k \<and> owners_listed people es k \<noteq> {}) = (reached ro es n k \<and> owners_listed people es k \<noteq> {})" for k
        using empty by (auto simp: reached_Suc)
      then show ?thesis
        using True False Suc.IH Suc.prems unfolding step by auto
    qed
  qed
qed

lemma entriesForFile_start:
  "plain_path es \<Longrightarrow> entriesForFile ro (path_of es) people leafOnly =
     entries_from ro people leafOnly (path_of es) (path_of (take (length es) es)) []"
  by (simp add: entriesForFile_def canonicalize_path)

lemma find_from_path:
  assumes "plain_path es" "n \<le> length es"
  shows "find_from people (path_of es) (path_of (take n es)) =
    (if \<exists>k > 0. k \<le> n \<and> owners_listed people es k \<noteq> {}
     then path_of (take (GREATEST k. 0 < k \<and> k \<le> n \<and> owners_listed people es k \<noteq> {}) es) else [])"
  using assms(2)
proof (induction n)
  case 0
  then show ?case by (subst find_from.simps) simp
next
  case (Suc n)
  let ?d = "path_of (take (Suc n) es)"
  have d: "?d \<noteq> []" by (rule take_path_ne [OF assms(1) Suc.prems])
  have here: "(\<exists>(re, ls) \<in> set (map_get [] people ?d). applies re (relative_to (Suc n) es) \<and> ls \<noteq> []) \<longleftrightarrow>
      owners_listed people es (Suc n) \<noteq> {}"
  proof
    assume "\<exists>(re, ls) \<in> set (map_get [] people ?d). applies re (relative_to (Suc n) es) \<and> ls \<noteq> []"
    then obtain re ls where "(re, ls) \<in> set (map_get [] people ?d)" "applies re (relative_to (Suc n) es)" "hd ls \<in> set ls"
      using hd_in_set by blast
    then have "hd ls \<in> owners_listed people es (Suc n)" unfolding owners_listed_def by blast
    then show "owners_listed people es (Suc n) \<noteq> {}" by blast
  next
    assume "owners_listed people es (Suc n) \<noteq> {}"
    then show "\<exists>(re, ls) \<in> set (map_get [] people ?d). applies re (relative_to (Suc n) es) \<and> ls \<noteq> []"
      unfolding owners_listed_def by fastforce
  qed
  have step: "find_from people (path_of es) ?d =
      (if owners_listed people es (Suc n) \<noteq> {} then ?d else find_from people (path_of es) (path_of (take n es)))"
    using Rel_take [OF assms(1) Suc.prems] d parent_take [OF assms(1) Suc.prems] here
    by (subst find_from.simps) simp
  show ?case
  proof (cases "owners_listed people es (Suc n) = {}")
    case True
    then have "(0 < k \<and> k \<le> Suc n \<and> owners_listed people es k \<noteq> {}) = (0 < k \<and> k \<le> n \<and> owners_listed people es k \<noteq> {})" for k
      by (auto simp: le_Suc_eq)
    then show ?thesis using True Suc unfolding step by auto
  next
    case False
    then have "(GREATEST k. 0 < k \<and> k \<le> Suc n \<and> owners_listed people es k \<noteq> {}) = Suc n"
      by (intro Greatest_equality) auto
    then show ?thesis using False unfolding step by auto
  qed
qed

text \<open>
  C34: For a path that git lists, the approvers of it are exactly those that the OWNERS files of its directories
  list for it, from the innermost up to and including the first that ignores its parents; the leaf approvers are those of the
  innermost of these files that lists any; and the file found for a path is the innermost below the root that
  lists any, whatever the options, or else the root.  Every lookup ends.
\<close>

theorem owners_lookup:
  fixes ro :: RepoOwners
  assumes "plain_path es"
  defines "m \<equiv> ro_approvers ro"
  shows "set (Approvers ro (path_of es)) = (\<Union>k \<in> {k. reached ro es (length es) k}. owners_listed m es k)
    \<and> set (LeafApprovers ro (path_of es)) =
        (if \<exists>k. reached ro es (length es) k \<and> owners_listed m es k \<noteq> {}
         then owners_listed m es (GREATEST k. reached ro es (length es) k \<and> owners_listed m es k \<noteq> {}) else {})
    \<and> FindApproverOwnersForFile ro (path_of es) =
        (if \<exists>k > 0. k \<le> length es \<and> owners_listed m es k \<noteq> {}
         then path_of (take (GREATEST k. 0 < k \<and> k \<le> length es \<and> owners_listed m es k \<noteq> {}) es) else [])"
  using entries_from_all [OF assms(1) order_refl, of ro m "[]"] entries_from_leaf [OF assms(1) order_refl, of ro m]
    find_from_path [OF assms(1) order_refl, of m]
  by (simp add: Approvers_def LeafApprovers_def FindApproverOwnersForFile_def findOwnersForFile_def
      entriesForFile_start [OF assms(1)] m_def)

text \<open>
  A tree with two OWNERS files: \<open>root\<close> owns everything but \<open>pkg\<close>, which \<open>pat\<close> owns and
  which ignores its parents.
\<close>

definition sample_owners :: RepoOwners where
  "sample_owners = \<lparr>ro_RepoAliases = None,
     ro_approvers = [[] \<mapsto> [(None, [''root''])], ''pkg'' \<mapsto> [(None, [''pat''])]],
     ro_reviewers = Map.empty, ro_requiredReviewers = Map.empty, ro_labels = Map.empty,
     ro_options = [''pkg'' \<mapsto> True], ro_baseDir = ''/clone'', ro_enableMDYAML = False, ro_dirBlacklist = []\<rparr>"

lemma sample_listed:
  "owners_listed (ro_approvers sample_owners) [''pkg'', ''a.go''] k =
     (if k = 0 then {''root''} else if k = 1 then {''pat''} else {})"
  by (cases k; cases "k - 1") (auto simp: owners_listed_def sample_owners_def map_get_def relative_to_def)

lemma sample_reached: "reached sample_owners [''pkg'', ''a.go''] (Suc (Suc 0)) k \<longleftrightarrow> k = 1 \<or> k = 2"
  by (auto simp: reached_Suc sample_owners_def IsNoParentOwners_def map_get_def)

theorem owners_lookup_witness: "set (Approvers sample_owners ''pkg/a.go'') = {''pat''}"
proof -
  have "plain_path [''pkg'', ''a.go'']" by (simp add: plain_element_def)
  from owners_lookup [OF this, of sample_owners] show ?thesis
    by (simp add: sample_listed sample_reached Collect_disj_eq)
qed

text \<open>
  C39: The cache goes stale when aliases are loaded: \<open>LoadRepoAliases\<close> of a new commit stores the new
  commit with the owners of the old one, so that \<open>LoadRepoOwners\<close> of the new commit returns the old
  owners, whatever the OWNERS files of the new commit say.
\<close>

theorem aliases_keep_old_owners:
  assumes "cache (org @ ''/'' @ repo @ '':'' @ base) = Some entry" "ce_owners entry = Some ro"
    and "ro_enableMDYAML ro = ow_mdYAMLEnabled w" "ow_GetRef w = Inr sha" "ce_sha entry \<noteq> sha"
    and "ow_Clone w = None" "ow_Checkout w = None" "ow_skipCollaborators w"
  shows "fst (LoadRepoOwners w org repo base (snd (LoadRepoAliases w org repo base cache))) = Inr (Some ro)"
  using assms by (simp add: LoadRepoAliases_def LoadRepoOwners_def cached_owners_def matchesMDYAML_def Let_def)

text \<open>
  The branch moves to a commit whose OWNERS file names \<open>new\<close> only: the approvers are still those of before.  Without the call
  for the aliases they are \<open>new\<close>.
\<close>

definition sample_owners_env :: owners_env where
  "sample_owners_env = \<lparr>
     oe_simple = (\<lambda>b. Inr \<lparr>sc_NoParentOwners = False, sc_Config = \<lparr>oc_Approvers = [b], oc_Reviewers = [],
                       oc_RequiredReviewers = [], oc_Labels = []\<rparr>\<rparr>),
     oe_full = (\<lambda>_. Inl ''not a full configuration''), oe_aliases = (\<lambda>_. Inr []), oe_compile = (\<lambda>_. Inl ''none'')\<rparr>"

definition sample_owners_world :: owners_world where
  "sample_owners_world = \<lparr>ow_env = sample_owners_env, ow_mdYAMLEnabled = False, ow_skipCollaborators = True,
     ow_ownersDirBlacklist = \<lparr>odb_Repos = Map.empty, odb_Default = [], odb_IgnorePreconfiguredDefaults = True\<rparr>,
     ow_GetRef = Inr ''b2'', ow_Clone = None, ow_Checkout = None, ow_Diff = (\<lambda>_ _. Inr [''OWNERS'']),
     ow_tree = Directory [(''OWNERS'', Regular ''new'')], ow_Directory = ''/clone'', ow_ListCollaborators = Inr []\<rparr>"

definition sample_owners_cache :: owners_cache where
  "sample_owners_cache =
     [''org/repo:master'' \<mapsto> \<lparr>ce_sha = ''a1'', ce_aliases = None, ce_owners = Some sample_owners\<rparr>]"

definition approvers_of :: "RepoOwners option result \<times> owners_cache \<Rightarrow> string list" where
  "approvers_of r = (case fst r of Inr (Some ro) \<Rightarrow> TopLevelApprovers ro | _ \<Rightarrow> [])"

lemma TopLevelApprovers_root:
  "TopLevelApprovers ro = concat (map snd (filter (\<lambda>(re, _). applies re ''.'') (map_get [] (ro_approvers ro) [])))"
proof -
  have "path_Rel [] ''.'' = Inr ''.''" by (simp add: path_Rel_def path_Clean_def Let_def)
  then show ?thesis
    by (simp add: TopLevelApprovers_def entriesForFile_def canonicalize_def entries_from.simps [of _ _ _ _ "[]"] Let_def)
qed

lemma sample_fresh:
  "approvers_of (LoadRepoOwners sample_owners_world ''org'' ''repo'' ''master'' sample_owners_cache) = [''new'']"
  by (simp add: approvers_of_def LoadRepoOwners_def cached_owners_def sample_owners_world_def sample_owners_cache_def
      sample_owners_env_def map_get_def reusable_def fullyLoaded_def load_entry_def loadOwnersFrom_def Let_def
      blacklisted_def compiled_def List.map_filter_def DirBlacklist_def loadAliasesFrom_def aliasesFileName_def
      child_path_def walk_file_def ownersFileName_def SimpleConfig_Empty_def applyOptionsToPath_def
      applyConfigToPath_def set_entry_def NormLogins_def NormLogin_def ExpandAliases_def TopLevelApprovers_root
      to_lower_def to_lower_char_def trim_prefix_def path_Dir_def upto_slash_def path_Clean_def canonicalize_def full_dir_def)

theorem aliases_keep_old_owners_witness:
  "approvers_of (LoadRepoOwners sample_owners_world ''org'' ''repo'' ''master''
     (snd (LoadRepoAliases sample_owners_world ''org'' ''repo'' ''master'' sample_owners_cache))) = [''root'']
   \<and> approvers_of (LoadRepoOwners sample_owners_world ''org'' ''repo'' ''master'' sample_owners_cache) = [''new'']"
proof -
  let ?entry = "\<lparr>ce_sha = ''a1'', ce_aliases = None, ce_owners = Some sample_owners\<rparr>"
  have "fst (LoadRepoOwners sample_owners_world ''org'' ''repo'' ''master''
     (snd (LoadRepoAliases sample_owners_world ''org'' ''repo'' ''master'' sample_owners_cache))) = Inr (Some sample_owners)"
    by (rule aliases_keep_old_owners [where entry = ?entry and sha = "''b2''"])
      (simp_all add: sample_owners_cache_def sample_owners_world_def sample_owners_def)
  then show ?thesis
    using sample_fresh by (simp add: approvers_of_def TopLevelApprovers_root sample_owners_def map_get_def)
qed

end
