(* ===== verification/Approve_Owners.thy ===== *)
theory Approve_Owners
  imports Repo_Owners
begin

text \<open>
  Who has approved a change and who should, \<open>src/plugins/approve/approvers/owners.go\<close>.

  The interface \<open>Repo\<close> is a record of functions.  What is computed from the files of the change and the
  OWNERS files alone, the set of directories whose approval is needed, is computed once and kept in
  \<open>Owners\<close>.  Two loops may run for ever, that which looks for a parent of a directory (on a path from
  the root) and that which picks suggestions (if the repo lists a leaf approver that is no approver): they are
  partial functions, and not returning is \<open>None\<close>.  The shuffle of \<open>math/rand\<close> is a parameter.  A map that is only looked up is a
  function.
\<close>

subsection \<open>Directories that need approval\<close>

record OwnersRepo =
  rp_Approvers :: "string \<Rightarrow> string list"
  rp_LeafApprovers :: "string \<Rightarrow> string list"
  rp_FindApproverOwnersForFile :: "string \<Rightarrow> string"
  rp_IsNoParentOwners :: "string \<Rightarrow> bool"

record Owners =
  on_repo :: OwnersRepo
  on_ownersSet :: "string list"
  on_shuffle :: "string list \<Rightarrow> string list"

definition dot_empty :: "string \<Rightarrow> string" where
  "dot_empty p = (if p = ''.'' then [] else p)"

partial_function (option) has_parent_in :: "OwnersRepo \<Rightarrow> string list \<Rightarrow> string \<Rightarrow> bool option" where
  "has_parent_in repo dirs path =
     (if rp_IsNoParentOwners repo path \<or> dot_empty path = [] then Some False
      else if dot_empty (path_Dir path) \<in> set dirs then Some True
      else has_parent_in repo dirs (path_Dir path))"

fun remove_loop :: "OwnersRepo \<Rightarrow> string list \<Rightarrow> string list \<Rightarrow> string list option" where
  "remove_loop repo [] dirs = Some dirs"
| "remove_loop repo (dir # rest) dirs =
     (case has_parent_in repo dirs dir of
        None \<Rightarrow> None
      | Some True \<Rightarrow> remove_loop repo rest (filter (\<lambda>d. d \<noteq> dir) dirs)
      | Some False \<Rightarrow> remove_loop repo rest dirs)"

definition removeSubdirs :: "OwnersRepo \<Rightarrow> string list \<Rightarrow> string list option" where
  "removeSubdirs repo dirs = remove_loop repo (set_list dirs) dirs"

definition GetOwnersSet :: "OwnersRepo \<Rightarrow> string list \<Rightarrow> string list option" where
  "GetOwnersSet repo filenames =
     map_option set_list (removeSubdirs repo (map (rp_FindApproverOwnersForFile repo) filenames))"

definition NewOwners :: "string list \<Rightarrow> OwnersRepo \<Rightarrow> (string list \<Rightarrow> string list) \<Rightarrow> Owners option" where
  "NewOwners filenames repo shuffle =
     map_option (\<lambda>dirs. \<lparr>on_repo = repo, on_ownersSet = dirs, on_shuffle = shuffle\<rparr>) (GetOwnersSet repo filenames)"

definition GetApprovers :: "Owners \<Rightarrow> (string \<times> string list) list" where
  "GetApprovers ow = map (\<lambda>fn. (fn, rp_Approvers (on_repo ow) fn)) (on_ownersSet ow)"

definition GetLeafApprovers :: "Owners \<Rightarrow> (string \<times> string list) list" where
  "GetLeafApprovers ow = map (\<lambda>fn. (fn, rp_LeafApprovers (on_repo ow) fn)) (on_ownersSet ow)"

text \<open>One entry for each of a person's files; a set lists nobody twice.\<close>

definition GetAllPotentialApprovers :: "Owners \<Rightarrow> string list" where
  "GetAllPotentialApprovers ow = sort (concat (map (\<lambda>(_, approverList). remdups approverList) (GetLeafApprovers ow)))"

definition GetShuffledApprovers :: "Owners \<Rightarrow> string list" where
  "GetShuffledApprovers ow = on_shuffle ow (GetAllPotentialApprovers ow)"

definition GetReverseMap :: "(string \<times> string list) list \<Rightarrow> string \<Rightarrow> string list" where
  "GetReverseMap approvers person = map fst (filter (\<lambda>(_, people). person \<in> set people) approvers)"

text \<open>The maximum is compared with what a person adds but set to all the person owns.\<close>

fun most_covering :: "string list \<Rightarrow> (string \<Rightarrow> string list) \<Rightarrow> string list \<Rightarrow> nat \<Rightarrow> string \<Rightarrow> string" where
  "most_covering [] reverseMap unapproved maxCovered bestPerson = bestPerson"
| "most_covering (approver # rest) reverseMap unapproved maxCovered bestPerson =
     (let filesCanApprove = set_list (reverseMap approver)
      in if length (filter (\<lambda>f. f \<in> set unapproved) filesCanApprove) > maxCovered
         then most_covering rest reverseMap unapproved (length filesCanApprove) approver
         else most_covering rest reverseMap unapproved maxCovered bestPerson)"

definition findMostCoveringApprover :: "string list \<Rightarrow> (string \<Rightarrow> string list) \<Rightarrow> string list \<Rightarrow> string" where
  "findMostCoveringApprover allApprovers reverseMap unapproved = most_covering allApprovers reverseMap unapproved 0 []"

subsection \<open>Approvals\<close>

record Approval =
  av_Login :: string
  av_How :: string
  av_Reference :: string
  av_NoIssue :: bool

record Approvals =
  ap_owners :: Owners
  ap_approvers :: "(string \<times> Approval) list"
  ap_assignees :: "string list"
  ap_AssociatedIssue :: int
  ap_RequireIssue :: bool
  ap_ManuallyApproved :: bool

definition Approval_String :: "Approval \<Rightarrow> string" where
  "Approval_String a =
     ''*<a href=\"'' @ av_Reference a @ ''\" title=\"'' @ av_How a @ ''\">'' @ av_Login a @ ''</a>*''"

definition IntersectSetsCase :: "string list \<Rightarrow> string list \<Rightarrow> string list" where
  "IntersectSetsCase one other = filter (\<lambda>item. to_lower item \<in> to_lower ` set other) one"

definition NewApprovers :: "Owners \<Rightarrow> Approvals" where
  "NewApprovers ow = \<lparr>ap_owners = ow, ap_approvers = [], ap_assignees = [], ap_AssociatedIssue = 0,
     ap_RequireIssue = False, ap_ManuallyApproved = False\<rparr>"

definition shouldNotOverrideApproval :: "Approvals \<Rightarrow> string \<Rightarrow> bool \<Rightarrow> bool" where
  "shouldNotOverrideApproval ap login noIssue \<longleftrightarrow>
     (case map_of (ap_approvers ap) (to_lower login) of
        None \<Rightarrow> False
      | Some approval \<Rightarrow> av_NoIssue approval \<and> \<not> noIssue)"

definition add_approval :: "string \<Rightarrow> string \<Rightarrow> string \<Rightarrow> bool \<Rightarrow> Approvals \<Rightarrow> Approvals" where
  "add_approval how login reference noIssue ap =
     (if shouldNotOverrideApproval ap login noIssue then ap
      else ap\<lparr>ap_approvers := AList.update (to_lower login)
             \<lparr>av_Login = login, av_How = how, av_Reference = reference, av_NoIssue = noIssue\<rparr> (ap_approvers ap)\<rparr>)"

definition AddLGTMer :: "string \<Rightarrow> string \<Rightarrow> bool \<Rightarrow> Approvals \<Rightarrow> Approvals" where
  "AddLGTMer = add_approval ''LGTM''"

definition AddApprover :: "string \<Rightarrow> string \<Rightarrow> bool \<Rightarrow> Approvals \<Rightarrow> Approvals" where
  "AddApprover = add_approval ''Approved''"

definition AddAuthorSelfApprover :: "string \<Rightarrow> string \<Rightarrow> bool \<Rightarrow> Approvals \<Rightarrow> Approvals" where
  "AddAuthorSelfApprover = add_approval ''Author self-approved''"

definition RemoveApprover :: "string \<Rightarrow> Approvals \<Rightarrow> Approvals" where
  "RemoveApprover login ap = ap\<lparr>ap_approvers := AList.delete (to_lower login) (ap_approvers ap)\<rparr>"

definition AddAssignees :: "string list \<Rightarrow> Approvals \<Rightarrow> Approvals" where
  "AddAssignees logins ap = ap\<lparr>ap_assignees := ap_assignees ap @ map to_lower logins\<rparr>"

definition GetCurrentApproversSet :: "Approvals \<Rightarrow> string list" where
  "GetCurrentApproversSet ap = map fst (ap_approvers ap)"

definition GetCurrentApproversSetCased :: "Approvals \<Rightarrow> string list" where
  "GetCurrentApproversSetCased ap = map (\<lambda>(_, approval). av_Login approval) (ap_approvers ap)"

definition GetFilesApprovers :: "Approvals \<Rightarrow> (string \<times> string list) list" where
  "GetFilesApprovers ap =
     map (\<lambda>(fn, potentialApprovers). (fn, IntersectSetsCase (GetCurrentApproversSetCased ap) potentialApprovers))
       (GetApprovers (ap_owners ap))"

definition NoIssueApprovers :: "Approvals \<Rightarrow> (string \<times> Approval) list" where
  "NoIssueApprovers ap =
     (let reverseMap = GetReverseMap (GetApprovers (ap_owners ap))
      in filter (\<lambda>(login, approver). av_NoIssue approver \<and> reverseMap login \<noteq> []) (ap_approvers ap))"

definition GetNoIssueApproversSet :: "Approvals \<Rightarrow> string list" where
  "GetNoIssueApproversSet ap = map fst (NoIssueApprovers ap)"

definition UnapprovedFiles :: "Approvals \<Rightarrow> string list" where
  "UnapprovedFiles ap = map fst (filter (\<lambda>(_, approvers). approvers = []) (GetFilesApprovers ap))"

definition AreFilesApproved :: "Approvals \<Rightarrow> bool" where
  "AreFilesApproved ap \<longleftrightarrow> UnapprovedFiles ap = []"

definition RequirementsMet :: "Approvals \<Rightarrow> bool" where
  "RequirementsMet ap \<longleftrightarrow> AreFilesApproved ap
     \<and> (\<not> ap_RequireIssue ap \<or> ap_AssociatedIssue ap \<noteq> 0 \<or> NoIssueApprovers ap \<noteq> [])"

definition IsApproved :: "Approvals \<Rightarrow> bool" where
  "IsApproved ap \<longleftrightarrow> RequirementsMet ap \<or> ap_ManuallyApproved ap"

definition ListApprovals :: "Approvals \<Rightarrow> Approval list" where
  "ListApprovals ap =
     List.map_filter (map_of (ap_approvers ap)) (set_list (GetCurrentApproversSet ap))"

definition ListNoIssueApprovals :: "Approvals \<Rightarrow> Approval list" where
  "ListNoIssueApprovals ap =
     List.map_filter (map_of (ap_approvers ap)) (set_list (GetNoIssueApproversSet ap))"

subsection \<open>Suggestions\<close>

definition temporaryUnapprovedFiles :: "Owners \<Rightarrow> string list \<Rightarrow> string list" where
  "temporaryUnapprovedFiles ow approvers =
     UnapprovedFiles (fold (\<lambda>approver. AddApprover approver [] False) approvers (NewApprovers ow))"

partial_function (option) suggest ::
    "string list \<Rightarrow> (string \<Rightarrow> string list) \<Rightarrow> Approvals \<Rightarrow> Approvals option" where
  "suggest potentialApprovers reverseMap ap =
     (if RequirementsMet ap then Some ap
      else
        (let newApprover = findMostCoveringApprover potentialApprovers reverseMap (UnapprovedFiles ap)
         in if newApprover = [] then Some ap
            else suggest potentialApprovers reverseMap (AddApprover newApprover [] False ap)))"

definition GetSuggestedApprovers :: "Owners \<Rightarrow> (string \<Rightarrow> string list) \<Rightarrow> string list \<Rightarrow> string list option" where
  "GetSuggestedApprovers ow reverseMap potentialApprovers =
     map_option GetCurrentApproversSet (suggest potentialApprovers reverseMap (NewApprovers ow))"

definition KeepCoveringApprovers ::
    "Owners \<Rightarrow> (string \<Rightarrow> string list) \<Rightarrow> string list \<Rightarrow> string list \<Rightarrow> string list option" where
  "KeepCoveringApprovers ow reverseMap knownApprovers potentialApprovers =
     (let unapproved = temporaryUnapprovedFiles ow knownApprovers
      in map_option (filter (\<lambda>a. \<exists>f \<in> set (reverseMap a). f \<in> set unapproved) \<circ> set_list)
           (GetSuggestedApprovers ow reverseMap potentialApprovers))"

definition GetCCs :: "Approvals \<Rightarrow> string list option" where
  "GetCCs ap =
     (let ow = ap_owners ap; randomizedApprovers = GetShuffledApprovers ow;
          currentApprovers = GetCurrentApproversSet ap;
          approversAndAssignees = currentApprovers @ ap_assignees ap;
          leafReverseMap = GetReverseMap (GetLeafApprovers ow)
      in case KeepCoveringApprovers ow leafReverseMap approversAndAssignees randomizedApprovers of
           None \<Rightarrow> None
         | Some suggested \<Rightarrow>
             (let approversAndSuggested = currentApprovers @ suggested;
                  everyone = approversAndSuggested @ ap_assignees ap;
                  fullReverseMap = GetReverseMap (GetApprovers ow)
              in map_option (\<lambda>keepAssignees. set_list (suggested @ keepAssignees))
                   (KeepCoveringApprovers ow fullReverseMap approversAndSuggested (set_list everyone))))"

declare has_parent_in.simps [code] suggest.simps [code]

subsection \<open>The notification\<close>

text \<open>The files as links; the parameter \<open>baseURL\<close> is the text of the URL of the repo.\<close>

definition owners_path :: "string \<Rightarrow> string" where
  "owners_path filepath =
     (if has_prefix (rev filepath) (rev ''.md'') then filepath else path_Join [filepath, ownersFileName])"

definition file_link :: "string \<Rightarrow> string \<Rightarrow> string \<Rightarrow> string" where
  "file_link baseURL branch filepath = baseURL @ ''/blob/'' @ branch @ ''/'' @ owners_path filepath"

definition ApprovedFile_String :: "string \<Rightarrow> string \<Rightarrow> string \<Rightarrow> string list \<Rightarrow> string" where
  "ApprovedFile_String baseURL branch filepath approvers =
     ''- ~~['' @ owners_path filepath @ '']('' @ file_link baseURL branch filepath @ '')~~ ['' @ join '','' (set_list approvers)
     @ '']'' @ [newline]"

definition UnapprovedFile_String :: "string \<Rightarrow> string \<Rightarrow> string \<Rightarrow> string" where
  "UnapprovedFile_String baseURL branch filepath =
     ''- **['' @ owners_path filepath @ '']('' @ file_link baseURL branch filepath @ '')**'' @ [newline]"

definition GetFiles :: "string \<Rightarrow> string \<Rightarrow> Approvals \<Rightarrow> string list" where
  "GetFiles baseURL branch ap =
     map (\<lambda>file. case map_get [] (map_of (GetFilesApprovers ap)) file of
            [] \<Rightarrow> UnapprovedFile_String baseURL branch file
          | approvers \<Rightarrow> ApprovedFile_String baseURL branch file approvers)
       (set_list (on_ownersSet (ap_owners ap)))"

definition listed_approvals :: "Approval list \<Rightarrow> string" where
  "listed_approvals as = (if as = [] then [] else CHR '' '' # join '', '' (map Approval_String as))"

definition process_link :: string where
  "process_link = ''https://git.k8s.io/community/contributors/guide/owners.md#the-code-review-process''"

text \<open>The template, with the white space its trim markers remove gone.\<close>

definition assign_part :: "string list \<Rightarrow> string" where
  "assign_part ccs =
     newline # ''To complete the [pull request process]('' @ process_link @ ''), please assign ''
     @ join '', '' (map (\<lambda>cc. ''**'' @ cc @ ''**'') ccs)
     @ newline # ''You can assign the PR to them by writing `/assign '' @ join '' '' (map (\<lambda>cc. CHR ''@'' # cc) ccs)
     @ ''` in a comment when ready.''"

definition issue_part :: "Approvals \<Rightarrow> string" where
  "issue_part ap =
     (if \<not> ap_RequireIssue ap then []
      else if ap_AssociatedIssue ap \<noteq> 0 then
        ''Associated issue: *#'' @ itoa (ap_AssociatedIssue ap) @ ''*'' @ [newline, newline]
      else if NoIssueApprovers ap \<noteq> [] then
        ''Associated issue requirement bypassed by:'' @ listed_approvals (ListNoIssueApprovals ap) @ [newline, newline]
      else if ap_ManuallyApproved ap then
        ''*No associated issue*. Requirement bypassed by manually added approval.'' @ [newline, newline]
      else
        ''*No associated issue*. Update pull-request body to add a reference to an issue, or get approval with `/approve no-issue`''
        @ [newline, newline])"

definition message_body :: "Approvals \<Rightarrow> string list \<Rightarrow> string \<Rightarrow> string \<Rightarrow> string \<Rightarrow> string \<Rightarrow> string" where
  "message_body ap ccs baseURL org repo branch =
     (let waiting = (\<not> AreFilesApproved ap \<and> \<not> ap_ManuallyApproved ap)
      in (if \<not> RequirementsMet ap \<and> ap_ManuallyApproved ap
          then newline # ''Approval requirements bypassed by manually added approval.'' @ [newline, newline] else [])
         @ ''This pull-request has been approved by:'' @ listed_approvals (ListApprovals ap)
         @ (if waiting then assign_part ccs else []) @ [newline, newline]
         @ issue_part ap
         @ ''The full list of commands accepted by this bot can be found [here](https://go.k8s.io/bot-commands?repo=''
         @ org @ ''%2F'' @ repo @ '').'' @ [newline, newline]
         @ (if waiting then [] else ''The pull request process is described [here]('' @ process_link @ '')'' @ [newline, newline])
         @ ''<details '' @ (if waiting then ''open'' else []) @ ''>''
         @ newline # ''Needs approval from an approver in each of these files:'' @ [newline, newline]
         @ concat (GetFiles baseURL branch ap)
         @ newline # ''Approvers can indicate their approval by writing `/approve` in a comment''
         @ newline # ''Approvers can cancel approval by writing `/approve cancel` in a comment''
         @ newline # ''</details>'')"

definition getGubernatorMetadata :: "string list \<Rightarrow> string" where
  "getGubernatorMetadata toBeAssigned =
     newline # ''<!-- META={\"approvers\":['' @ join '','' (map quote toBeAssigned) @ '']} -->''"

definition notification :: "string \<Rightarrow> string \<Rightarrow> string \<Rightarrow> string" where
  "notification name arguments ctx =
     ''['' @ to_upper name @ '']''
     @ (if trim_space arguments \<noteq> [] then CHR '' '' # trim_space arguments else [])
     @ (if trim_space ctx \<noteq> [] then newline # newline # trim_space ctx else [])"

definition ApprovalNotificationName :: string where
  "ApprovalNotificationName = ''ApprovalNotifier''"

text \<open>\<open>linkURL\<close> gives the text of the link with a path.\<close>

definition GetMessage :: "Approvals \<Rightarrow> (string \<Rightarrow> string) \<Rightarrow> string \<Rightarrow> string \<Rightarrow> string \<Rightarrow> string option" where
  "GetMessage ap linkURL org repo branch =
     map_option (\<lambda>ccs. notification ApprovalNotificationName
         (''This PR is **'' @ (if IsApproved ap then [] else ''NOT '') @ ''APPROVED**'')
         (message_body ap ccs (linkURL (org @ ''/'' @ repo)) org repo branch @ getGubernatorMetadata ccs))
       (GetCCs ap)"

subsection \<open>Parents of directories\<close>

text \<open>The first \<open>k\<close> elements of a path are reached from it without passing a directory that ignores its parents.\<close>

definition open_up :: "OwnersRepo \<Rightarrow> string list \<Rightarrow> nat \<Rightarrow> bool" where
  "open_up repo es k \<longleftrightarrow> k \<le> length es
     \<and> (\<forall>j. k < j \<and> j \<le> length es \<longrightarrow> \<not> rp_IsNoParentOwners repo (path_of (take j es)))"

lemma open_up_refl [simp]: "open_up repo es (length es)"
  by (auto simp: open_up_def)

lemma open_up_snoc:
  assumes "k \<le> length es"
  shows "open_up repo (es @ [e]) k \<longleftrightarrow>
     \<not> rp_IsNoParentOwners repo (path_of (es @ [e])) \<and> open_up repo es k"
proof -
  have "(\<forall>j. k < j \<and> j \<le> Suc (length es) \<longrightarrow> P j) \<longleftrightarrow> P (Suc (length es)) \<and> (\<forall>j. k < j \<and> j \<le> length es \<longrightarrow> P j)" for P
    using assms by (auto simp: le_Suc_eq)
  then show ?thesis using assms by (simp add: open_up_def)
qed

lemma open_up_trans:
  assumes "open_up repo es k" "open_up repo (take k es) j" shows "open_up repo es j"
proof -
  have k: "k \<le> length es" "j \<le> k" using assms by (auto simp: open_up_def)
  have "\<not> rp_IsNoParentOwners repo (path_of (take i es))" if "j < i" "i \<le> length es" for i
  proof (cases "i \<le> k")
    case True
    then have "take i (take k es) = take i es" by (simp add: min_def)
    then show ?thesis using assms(2) that True k by (auto simp: open_up_def)
  next
    case False
    then show ?thesis using assms(1) that by (auto simp: open_up_def)
  qed
  then show ?thesis using k by (auto simp: open_up_def)
qed

lemma Dir_path_dot:
  assumes "plain_path (es @ [e])" shows "path_Dir (path_of (es @ [e])) = (if es = [] then ''.'' else path_of es)"
proof (cases "es = []")
  case True
  then show ?thesis using assms by (simp add: path_Dir_def upto_slash_none plain_element_def path_Clean_def)
next
  case False
  then show ?thesis
    using assms upto_slash_snoc [of e "path_of es"] plain_element_ends [of e] Clean_path_slash [of es]
    by (simp add: path_snoc path_Dir_def)
qed

lemma dot_empty_path [simp]: "plain_path es \<Longrightarrow> dot_empty (path_of es) = path_of es"
  using path_no_dot [of es] by (simp add: dot_empty_def)

lemma has_parent_path:
  "plain_path es \<Longrightarrow> has_parent_in repo dirs (path_of es) =
     Some (\<exists>k < length es. open_up repo es k \<and> path_of (take k es) \<in> set dirs)"
proof (induction es rule: rev_induct)
  case Nil
  then show ?case by (subst has_parent_in.simps) (simp add: dot_empty_def)
next
  case (snoc e es)
  have pl: "plain_path es" and ne: "path_of (es @ [e]) \<noteq> []" using snoc.prems path_empty [OF snoc.prems] by auto
  have parent: "dot_empty (path_Dir (path_of (es @ [e]))) = path_of es"
    using snoc.prems by (simp add: Dir_path_dot dot_empty_def path_no_dot)
  have up: "has_parent_in repo dirs (path_Dir (path_of (es @ [e]))) = has_parent_in repo dirs (path_of es)"
  proof (cases "es = []")
    case True
    then have "path_Dir (path_of (es @ [e])) = ''.''" using Dir_path_dot [OF snoc.prems] by simp
    then show ?thesis
      using True by (simp add: has_parent_in.simps [of _ _ "''.''"] has_parent_in.simps [of _ _ "[]"] dot_empty_def)
  qed (simp add: Dir_path_dot [OF snoc.prems])
  have "(\<exists>k < length (es @ [e]). open_up repo (es @ [e]) k \<and> path_of (take k (es @ [e])) \<in> set dirs) \<longleftrightarrow>
      \<not> rp_IsNoParentOwners repo (path_of (es @ [e]))
      \<and> (path_of es \<in> set dirs \<or> (\<exists>k < length es. open_up repo es k \<and> path_of (take k es) \<in> set dirs))"
    using open_up_snoc [of _ es repo e] by (auto simp: less_Suc_eq)
  then show ?case
    using snoc.IH [OF pl] ne parent up snoc.prems by (subst has_parent_in.simps) auto
qed

lemma path_of_inj: "plain_path es \<Longrightarrow> plain_path fs \<Longrightarrow> path_of es = path_of fs \<Longrightarrow> es = fs"
  by (metis elements_path)

text \<open>Every directory keeps an open parent (or itself) in the set that is left.\<close>

definition covered :: "OwnersRepo \<Rightarrow> string list \<Rightarrow> string list \<Rightarrow> bool" where
  "covered repo es dirs \<longleftrightarrow> (\<exists>k. open_up repo es k \<and> path_of (take k es) \<in> set dirs)"

lemma remove_loop_covers:
  assumes "\<forall>d \<in> set xs. \<exists>es. plain_path es \<and> d = path_of es"
  obtains dirs' where "remove_loop repo xs dirs = Some dirs'" "set dirs' \<subseteq> set dirs"
    "\<And>es. plain_path es \<Longrightarrow> covered repo es dirs \<Longrightarrow> covered repo es dirs'"
  using assms
proof (induction xs arbitrary: dirs thesis)
  case Nil
  then show ?case by simp
next
  case (Cons x xs)
  obtain fs where fs: "plain_path fs" "x = path_of fs" using Cons.prems(2) by auto
  have rest: "\<forall>d \<in> set xs. \<exists>es. plain_path es \<and> d = path_of es" using Cons.prems(2) by simp
  show ?case
  proof (cases "\<exists>k < length fs. open_up repo fs k \<and> path_of (take k fs) \<in> set dirs")
    case False
    then have "has_parent_in repo dirs x = Some False" using fs has_parent_path [OF fs(1)] by simp
    then have same: "remove_loop repo (x # xs) dirs = remove_loop repo xs dirs" by simp
    show ?thesis
      by (rule Cons.IH [OF _ rest, of dirs]) (use Cons.prems(1) same in metis)
  next
    case True
    then obtain k where k: "k < length fs" "open_up repo fs k" "path_of (take k fs) \<in> set dirs" by blast
    let ?dirs = "filter (\<lambda>d. d \<noteq> x) dirs"
    have kept: "covered repo es ?dirs" if pl: "plain_path es" and cov: "covered repo es dirs" for es
    proof -
      obtain i where i: "open_up repo es i" "path_of (take i es) \<in> set dirs" using cov by (auto simp: covered_def)
      show ?thesis
      proof (cases "path_of (take i es) = x")
        case True
        then have same: "take i es = fs" using path_of_inj [OF plain_take [OF pl] fs(1)] fs(2) by simp
        have "path_of (take k fs) \<noteq> x"
          using path_of_inj [OF plain_take [OF fs(1)] fs(1)] k(1) fs(2) by (metis length_take min.absorb4 nat_neq_iff)
        moreover have "open_up repo es k" using open_up_trans [OF i(1)] k(2) same by simp
        moreover have "take k fs = take k es"
        proof -
          have "i \<le> length es" using i(1) by (simp add: open_up_def)
          then have "k \<le> i" using k(1) same by auto
          then show ?thesis using same by (metis min.absorb1 take_take)
        qed
        ultimately show ?thesis using k(3) by (auto simp: covered_def)
      qed (use i in \<open>auto simp: covered_def\<close>)
    qed
    obtain dirs' where d: "remove_loop repo xs ?dirs = Some dirs'" "set dirs' \<subseteq> set ?dirs"
      "\<And>es. plain_path es \<Longrightarrow> covered repo es ?dirs \<Longrightarrow> covered repo es dirs'"
      using Cons.IH [OF _ rest, of ?dirs] by blast
    show ?thesis
    proof (rule Cons.prems(1))
      have "has_parent_in repo dirs x = Some True" using True fs has_parent_path [OF fs(1)] by simp
      then show "remove_loop repo (x # xs) dirs = Some dirs'" using d(1) by simp
      show "set dirs' \<subseteq> set dirs" using d(2) by auto
      show "covered repo es dirs'" if "plain_path es" "covered repo es dirs" for es using d(3) kept that by blast
    qed
  qed
qed

subsection \<open>The contract of a repo\<close>

text \<open>
  What the approvals rely on: the OWNERS file found for a file lies on its path, and leaf approvers are
  approvers.
\<close>

locale owners_repo =
  fixes repo :: OwnersRepo
  assumes found: "plain_path es \<Longrightarrow> \<exists>k \<le> length es. rp_FindApproverOwnersForFile repo (path_of es) = path_of (take k es)"
    and leaf: "plain_path es \<Longrightarrow> set (rp_LeafApprovers repo (path_of es)) \<subseteq> set (rp_Approvers repo (path_of es))"
begin

lemma found_plain: "plain_path es \<Longrightarrow> \<exists>fs. plain_path fs \<and> rp_FindApproverOwnersForFile repo (path_of es) = path_of fs"
  using found [of es] plain_take by blast

text \<open>The set of directories is computed, and every file's directory has an open parent in it.\<close>

lemma owners_set:
  assumes "\<forall>f \<in> set filenames. \<exists>es. plain_path es \<and> f = path_of es"
  obtains dirs where "GetOwnersSet repo filenames = Some dirs"
    "\<forall>d \<in> set dirs. \<exists>es. plain_path es \<and> d = path_of es"
    "\<And>es. plain_path es \<Longrightarrow> path_of es \<in> rp_FindApproverOwnersForFile repo ` set filenames \<Longrightarrow> covered repo es dirs"
proof -
  let ?ds = "map (rp_FindApproverOwnersForFile repo) filenames"
  have pl: "\<forall>d \<in> set (set_list ?ds). \<exists>es. plain_path es \<and> d = path_of es" using assms found_plain by fastforce
  obtain dirs where d: "remove_loop repo (set_list ?ds) ?ds = Some dirs" "set dirs \<subseteq> set ?ds"
    "\<And>es. plain_path es \<Longrightarrow> covered repo es ?ds \<Longrightarrow> covered repo es dirs"
    by (rule remove_loop_covers [OF pl, where repo = repo and dirs = ?ds]) blast
  show ?thesis
  proof (rule that)
    show "GetOwnersSet repo filenames = Some (set_list dirs)"
      using d(1) by (simp add: GetOwnersSet_def removeSubdirs_def)
    show "\<forall>d \<in> set (set_list dirs). \<exists>es. plain_path es \<and> d = path_of es" using d(2) pl by auto
    show "covered repo es (set_list dirs)"
      if "plain_path es" "path_of es \<in> rp_FindApproverOwnersForFile repo ` set filenames" for es
    proof -
      have "covered repo es ?ds" unfolding covered_def using that(2) by (intro exI [of _ "length es"]) auto
      then show ?thesis using d(3) [OF that(1)] by (simp add: covered_def)
    qed
  qed
qed

end

definition repo_of :: "RepoOwners \<Rightarrow> OwnersRepo" where
  "repo_of ro = \<lparr>rp_Approvers = Approvers ro, rp_LeafApprovers = LeafApprovers ro,
     rp_FindApproverOwnersForFile = FindApproverOwnersForFile ro, rp_IsNoParentOwners = IsNoParentOwners ro\<rparr>"

lemma lookup_facts:
  assumes "plain_path es"
  shows "set (Approvers ro (path_of es)) = (\<Union>k \<in> {k. reached ro es (length es) k}. owners_listed (ro_approvers ro) es k)"
    and "set (LeafApprovers ro (path_of es)) \<subseteq> set (Approvers ro (path_of es))"
    and "\<exists>k \<le> length es. FindApproverOwnersForFile ro (path_of es) = path_of (take k es)"
proof -
  let ?m = "ro_approvers ro" and ?n = "length es"
  note start = entriesForFile_start [OF assms]
  show all: "set (Approvers ro (path_of es)) = (\<Union>k \<in> {k. reached ro es ?n k}. owners_listed ?m es k)"
    using entries_from_all [OF assms order_refl, of ro ?m "[]"] by (simp add: Approvers_def start)
  let ?P = "\<lambda>k. reached ro es ?n k \<and> owners_listed ?m es k \<noteq> {}"
  have "?P (Greatest ?P)" if "\<exists>k. ?P k"
    using that by (elim exE) (rule GreatestI_nat [where b = ?n], auto simp: reached_def)
  then show "set (LeafApprovers ro (path_of es)) \<subseteq> set (Approvers ro (path_of es))"
    using entries_from_leaf [OF assms order_refl, of ro ?m] unfolding all by (auto simp: LeafApprovers_def start)
  let ?Q = "\<lambda>k. 0 < k \<and> k \<le> ?n \<and> owners_listed ?m es k \<noteq> {}"
  have "?Q (Greatest ?Q)" if "\<exists>k. ?Q k"
    using that by (elim exE) (rule GreatestI_nat [where b = ?n], auto)
  then show "\<exists>k \<le> ?n. FindApproverOwnersForFile ro (path_of es) = path_of (take k es)"
    using find_from_path [OF assms order_refl, of ?m]
    by (auto simp: FindApproverOwnersForFile_def findOwnersForFile_def intro: exI [of _ 0])
qed

interpretation ro: owners_repo "repo_of ro" for ro
  by unfold_locales (use lookup_facts in \<open>simp_all add: repo_of_def\<close>)

subsection \<open>Approvals\<close>

definition approvals_ok :: "Approvals \<Rightarrow> bool" where
  "approvals_ok ap \<longleftrightarrow> distinct (map fst (ap_approvers ap))
     \<and> (\<forall>(login, approval) \<in> set (ap_approvers ap). login = to_lower (av_Login approval))"

lemma approvals_ok_new [simp]: "approvals_ok (NewApprovers ow)"
  by (simp add: approvals_ok_def NewApprovers_def)

lemma update_mem:
  "x \<in> set (AList.update k v al) \<Longrightarrow> x = (k, v) \<or> x \<in> set al"
  by (induction al) (auto split: if_splits)

lemma approvals_ok_add: "approvals_ok ap \<Longrightarrow> approvals_ok (add_approval how login reference noIssue ap)"
  by (auto simp: add_approval_def approvals_ok_def distinct_update dest!: update_mem)

lemma approvals_ok_remove: "approvals_ok ap \<Longrightarrow> approvals_ok (RemoveApprover login ap)"
  by (auto simp: RemoveApprover_def approvals_ok_def distinct_map_filter AList.delete_eq)

lemma approvals_ok_other [simp]:
  "approvals_ok (ap\<lparr>ap_assignees := x\<rparr>) = approvals_ok ap"
  "approvals_ok (ap\<lparr>ap_AssociatedIssue := i\<rparr>) = approvals_ok ap"
  "approvals_ok (ap\<lparr>ap_RequireIssue := b\<rparr>) = approvals_ok ap"
  "approvals_ok (ap\<lparr>ap_ManuallyApproved := b\<rparr>) = approvals_ok ap"
  by (simp_all add: approvals_ok_def)

abbreviation approved_by :: "Approvals \<Rightarrow> string set" where
  "approved_by ap \<equiv> fst ` set (ap_approvers ap)"

lemma approved_by_add:
  "approved_by (add_approval how login reference noIssue ap) = insert (to_lower login) (approved_by ap)"
proof -
  have "fst ` set (AList.update k v al) = insert k (fst ` set al)" for k and v :: Approval and al
    using dom_update [of k v al] by simp
  note upd = this
  show ?thesis
  proof (cases "shouldNotOverrideApproval ap login noIssue")
    case True
    then have "to_lower login \<in> approved_by ap"
      by (force simp: shouldNotOverrideApproval_def split: option.splits dest: map_of_SomeD)
    then show ?thesis using True by (simp add: add_approval_def insert_absorb)
  qed (simp add: add_approval_def upd)
qed

lemma approved_by_remove: "approved_by (RemoveApprover login ap) = approved_by ap - {to_lower login}"
  by (auto simp: RemoveApprover_def AList.delete_eq image_iff)

lemma owners_unchanged [simp]:
  "ap_owners (add_approval how login reference noIssue ap) = ap_owners ap"
  "ap_owners (RemoveApprover login ap) = ap_owners ap"
  "ap_RequireIssue (add_approval how login reference noIssue ap) = ap_RequireIssue ap"
  by (simp_all add: add_approval_def RemoveApprover_def)

lemma UnapprovedFiles_eq:
  assumes "approvals_ok ap"
  shows "UnapprovedFiles ap =
    filter (\<lambda>fn. to_lower ` set (rp_Approvers (on_repo (ap_owners ap)) fn) \<inter> approved_by ap = {})
      (on_ownersSet (ap_owners ap))"
proof -
  have "IntersectSetsCase (GetCurrentApproversSetCased ap) people = [] \<longleftrightarrow>
      to_lower ` set people \<inter> approved_by ap = {}" for people
  proof -
    have by_eq: "approved_by ap = to_lower ` set (GetCurrentApproversSetCased ap)"
      using assms by (force simp: approvals_ok_def GetCurrentApproversSetCased_def image_iff)
    have "(\<forall>x \<in> A. f x \<notin> S) = (S \<inter> f ` A = {})" for f :: "string \<Rightarrow> string" and A S by auto
    then show ?thesis unfolding by_eq IntersectSetsCase_def filter_empty_conv .
  qed
  then show ?thesis
    by (simp add: UnapprovedFiles_def GetFilesApprovers_def GetApprovers_def filter_map comp_def)
qed

subsection \<open>Approval is sound\<close>

text \<open>OWNERS files without filters: every entry is for all files.\<close>

definition unfiltered :: "RepoOwners \<Rightarrow> bool" where
  "unfiltered ro \<longleftrightarrow> (\<forall>d es. ro_approvers ro d = Some es \<longrightarrow> (\<forall>(re, _) \<in> set es. re = None))"

lemma listed_unfiltered:
  assumes "unfiltered ro" "j \<le> k"
  shows "owners_listed (ro_approvers ro) (take k es) j = owners_listed (ro_approvers ro) es j"
proof -
  have "applies re x" if "(re, ls) \<in> set (map_get [] (ro_approvers ro) d)" for re ls d x
  proof (cases "ro_approvers ro d")
    case (Some es)
    then have "re = None" using that assms(1) unfolding unfiltered_def by fastforce
    then show ?thesis by simp
  qed (use that in simp)
  then have "owners_listed (ro_approvers ro) fs j = {l. \<exists>(re, ls) \<in> set (map_get [] (ro_approvers ro) (path_of (take j fs))). l \<in> set ls}" for fs
    unfolding owners_listed_def by fastforce
  then show ?thesis using assms(2) by (simp add: min_def)
qed

lemma parents_approve:
  assumes "unfiltered ro" "plain_path es" "open_up (repo_of ro) es k"
  shows "set (Approvers ro (path_of (take k es))) \<subseteq> set (Approvers ro (path_of es))"
proof
  fix l assume "l \<in> set (Approvers ro (path_of (take k es)))"
  then obtain j where j: "reached ro (take k es) (length (take k es)) j" "l \<in> owners_listed (ro_approvers ro) (take k es) j"
    using lookup_facts(1) [OF plain_take [OF assms(2)], of ro k] by auto
  have k: "k \<le> length es" "j \<le> k" using assms(3) j(1) by (auto simp: open_up_def reached_def)
  have "open_up (repo_of ro) (take k es) j" using j(1) by (simp add: open_up_def reached_def repo_of_def)
  then have "reached ro es (length es) j"
    using open_up_trans [OF assms(3)] by (simp add: open_up_def reached_def repo_of_def)
  moreover have "l \<in> owners_listed (ro_approvers ro) es j" using j(2) listed_unfiltered [OF assms(1) k(2)] by simp
  ultimately show "l \<in> set (Approvers ro (path_of es))" using lookup_facts(1) [OF assms(2), of ro] by auto
qed

text \<open>
  For files that git lists, in a repo whose OWNERS files have no filters: the directories that need approval are
  computed, and when the requirements are met every changed file has, among those who approved, an approver
  of the OWNERS file found for it or of one of its parents that it does not ignore, although subdirectories
  of a directory in the set are not looked at themselves.
\<close>

lemma requirements_sound:
  assumes "unfiltered ro" "\<forall>f \<in> set filenames. \<exists>es. plain_path es \<and> f = path_of es"
  shows "\<exists>ow. NewOwners filenames (repo_of ro) shuffle = Some ow
    \<and> (\<forall>ap. ap_owners ap = ow \<and> approvals_ok ap \<and> RequirementsMet ap \<longrightarrow>
        (\<forall>f \<in> set filenames. \<exists>(login, approval) \<in> set (ap_approvers ap).
           login \<in> to_lower ` set (Approvers ro (FindApproverOwnersForFile ro f))))"
proof -
  obtain dirs where d: "GetOwnersSet (repo_of ro) filenames = Some dirs"
    "\<And>es. plain_path es \<Longrightarrow> path_of es \<in> rp_FindApproverOwnersForFile (repo_of ro) ` set filenames \<Longrightarrow> covered (repo_of ro) es dirs"
    by (rule ro.owners_set [OF assms(2), of ro]) blast
  let ?ow = "\<lparr>on_repo = repo_of ro, on_ownersSet = dirs, on_shuffle = shuffle\<rparr>"
  have "\<exists>(login, approval) \<in> set (ap_approvers ap). login \<in> to_lower ` set (Approvers ro (FindApproverOwnersForFile ro f))"
    if ap: "ap_owners ap = ?ow" "approvals_ok ap" "RequirementsMet ap" and f: "f \<in> set filenames" for ap f
  proof -
    obtain fs where fs: "plain_path fs" "FindApproverOwnersForFile ro f = path_of fs"
      using assms(2) f ro.found_plain [of _ ro] by (fastforce simp: repo_of_def)
    have "path_of fs \<in> rp_FindApproverOwnersForFile (repo_of ro) ` set filenames"
      using fs(2) f by (auto simp: repo_of_def image_iff) metis
    then obtain k where k: "open_up (repo_of ro) fs k" "path_of (take k fs) \<in> set dirs"
      using d(2) [OF fs(1)] by (auto simp: covered_def)
    have "UnapprovedFiles ap = []" using ap(3) by (simp add: RequirementsMet_def AreFilesApproved_def)
    then have "to_lower ` set (Approvers ro (path_of (take k fs))) \<inter> approved_by ap \<noteq> {}"
      using k(2) ap(1) unfolding UnapprovedFiles_eq [OF ap(2)] by (auto simp: filter_empty_conv repo_of_def)
    then show ?thesis using parents_approve [OF assms(1) fs(1) k(1)] fs(2) by (fastforce simp: image_iff)
  qed
  then show ?thesis using d(1) by (auto simp: NewOwners_def)
qed

subsection \<open>Suggestions end and cover\<close>

lemma most_covering_mem:
  "most_covering xs rm un mc best = best
   \<or> most_covering xs rm un mc best \<in> set xs \<and> (\<exists>f \<in> set (rm (most_covering xs rm un mc best)). f \<in> set un)"
proof (induction xs rm un mc best rule: most_covering.induct)
  case (2 x xs rm un mc best)
  have "filter (\<lambda>f. f \<in> set un) (set_list (rm x)) \<noteq> [] \<Longrightarrow> \<exists>f \<in> set (rm x). f \<in> set un"
    by (auto simp: filter_empty_conv)
  then show ?case using 2 by (fastforce simp: Let_def)
qed simp

lemma most_covering_none:
  assumes "most_covering xs rm un mc best = []" "[] \<notin> set xs"
  shows "best = [] \<and> (\<forall>x \<in> set xs. length (filter (\<lambda>f. f \<in> set un) (set_list (rm x))) \<le> mc)"
  using assms
proof (induction xs rm un mc best rule: most_covering.induct)
  case (2 x xs rm un mc best)
  show ?case
  proof (cases "length (filter (\<lambda>f. f \<in> set un) (set_list (rm x))) > mc")
    case True
    then show ?thesis using 2 by (simp add: Let_def)
  next
    case False
    then show ?thesis using 2 by (simp add: Let_def)
  qed
qed simp

lemma findMost_some:
  assumes "findMostCoveringApprover xs rm un = p" "p \<noteq> []"
  obtains f where "p \<in> set xs" "f \<in> set (rm p)" "f \<in> set un"
  using most_covering_mem [of xs rm un 0 "[]"] assms by (auto simp: findMostCoveringApprover_def)

lemma findMost_none:
  assumes "findMostCoveringApprover xs rm un = []" "[] \<notin> set xs" "x \<in> set xs" "f \<in> set (rm x)"
  shows "f \<notin> set un"
  using most_covering_none [OF assms(1) [unfolded findMostCoveringApprover_def] assms(2)] assms(3,4)
  by (auto simp: filter_empty_conv)

lemma Unapproved_add:
  assumes "approvals_ok ap"
  shows "UnapprovedFiles (AddApprover p reference noIssue ap) =
    filter (\<lambda>fn. to_lower p \<notin> to_lower ` set (rp_Approvers (on_repo (ap_owners ap)) fn)) (UnapprovedFiles ap)"
proof -
  have "approvals_ok (AddApprover p reference noIssue ap)" using assms by (simp add: AddApprover_def approvals_ok_add)
  then show ?thesis
    using assms by (auto simp: UnapprovedFiles_eq AddApprover_def approved_by_add intro!: filter_cong)
qed

lemma suggest_returns:
  assumes rm: "\<And>p f. f \<in> set (rm p) \<Longrightarrow> p \<in> set (rp_Approvers (on_repo (ap_owners ap)) f)"
    and "approvals_ok ap"
  shows "\<exists>ap'. suggest xs rm ap = Some ap' \<and> approvals_ok ap' \<and> ap_owners ap' = ap_owners ap
    \<and> (RequirementsMet ap' \<or> findMostCoveringApprover xs rm (UnapprovedFiles ap') = [])"
  using assms
proof (induction "length (UnapprovedFiles ap)" arbitrary: ap rule: less_induct)
  case less
  let ?p = "findMostCoveringApprover xs rm (UnapprovedFiles ap)"
  show ?case
  proof (cases "RequirementsMet ap \<or> ?p = []")
    case True
    then show ?thesis using less.prems by (subst suggest.simps) (auto simp: Let_def)
  next
    case False
    let ?ap = "AddApprover ?p [] False ap"
    obtain f where f: "f \<in> set (rm ?p)" "f \<in> set (UnapprovedFiles ap)"
      using findMost_some [OF refl] False by blast
    have ok: "approvals_ok ?ap" and ow: "ap_owners ?ap = ap_owners ap"
      using less.prems(2) by (simp_all add: AddApprover_def approvals_ok_add)
    let ?A = "\<lambda>fn. to_lower ` set (rp_Approvers (on_repo (ap_owners ap)) fn)"
    have un: "UnapprovedFiles ?ap = filter (\<lambda>fn. to_lower ?p \<notin> ?A fn) (UnapprovedFiles ap)"
      by (rule Unapproved_add [OF less.prems(2)])
    have "to_lower ?p \<in> ?A f" using less.prems(1) [OF f(1)] by blast
    then have "length (UnapprovedFiles ?ap) < length (UnapprovedFiles ap)"
      unfolding un using f(2) by (intro length_filter_less [of f]) auto
    then have "\<exists>ap'. suggest xs rm ?ap = Some ap' \<and> approvals_ok ap' \<and> ap_owners ap' = ap_owners ?ap
        \<and> (RequirementsMet ap' \<or> findMostCoveringApprover xs rm (UnapprovedFiles ap') = [])"
      using less.hyps [of ?ap] less.prems(1) ok unfolding ow by blast
    then show ?thesis using False ow by (subst suggest.simps) (auto simp: Let_def)
  qed
qed

lemma reverse_map_mem: "f \<in> set (GetReverseMap m p) \<longleftrightarrow> (\<exists>people. (f, people) \<in> set m \<and> p \<in> set people)"
  by (force simp: GetReverseMap_def)

lemma NewOwners_facts:
  assumes "NewOwners filenames (repo_of ro) shuffle = Some ow" "\<forall>f \<in> set filenames. \<exists>es. plain_path es \<and> f = path_of es"
  shows "on_repo ow = repo_of ro" "on_shuffle ow = shuffle" "\<forall>d \<in> set (on_ownersSet ow). \<exists>es. plain_path es \<and> d = path_of es"
proof -
  obtain dirs where "GetOwnersSet (repo_of ro) filenames = Some dirs" "\<forall>d \<in> set dirs. \<exists>es. plain_path es \<and> d = path_of es"
    by (rule ro.owners_set [OF assms(2), of ro]) blast
  then show "on_repo ow = repo_of ro" "on_shuffle ow = shuffle" "\<forall>d \<in> set (on_ownersSet ow). \<exists>es. plain_path es \<and> d = path_of es"
    using assms(1) by (auto simp: NewOwners_def)
qed

lemma full_map_sound: "f \<in> set (GetReverseMap (GetApprovers ow) p) \<Longrightarrow> p \<in> set (rp_Approvers (on_repo ow) f)"
  by (auto simp: reverse_map_mem GetApprovers_def)

lemma leaf_map_sound:
  assumes "NewOwners filenames (repo_of ro) shuffle = Some ow" "\<forall>f \<in> set filenames. \<exists>es. plain_path es \<and> f = path_of es"
    "f \<in> set (GetReverseMap (GetLeafApprovers ow) p)"
  shows "p \<in> set (rp_Approvers (on_repo ow) f)"
  using assms(3) NewOwners_facts [OF assms(1,2)] ro.leaf [of _ ro]
  by (fastforce simp: reverse_map_mem GetLeafApprovers_def)

lemma KeepCovering_returns:
  assumes "\<And>p f. f \<in> set (rm p) \<Longrightarrow> p \<in> set (rp_Approvers (on_repo ow) f)"
  shows "KeepCoveringApprovers ow rm known potential \<noteq> None"
proof -
  have "ap_owners (NewApprovers ow) = ow" by (simp add: NewApprovers_def)
  then show ?thesis
    using suggest_returns [of rm "NewApprovers ow" potential] assms
    by (auto simp: KeepCoveringApprovers_def GetSuggestedApprovers_def Let_def)
qed

lemma potential_mem:
  "p \<in> set (GetAllPotentialApprovers ow) \<longleftrightarrow> (\<exists>d \<in> set (on_ownersSet ow). p \<in> set (rp_LeafApprovers (on_repo ow) d))"
  by (auto simp: GetAllPotentialApprovers_def GetLeafApprovers_def)

lemma GetCCs_returns:
  assumes "NewOwners filenames (repo_of ro) shuffle = Some ow" "\<forall>f \<in> set filenames. \<exists>es. plain_path es \<and> f = path_of es"
    "ap_owners ap = ow"
  shows "GetCCs ap \<noteq> None"
proof -
  let ?rm = "GetReverseMap (GetLeafApprovers ow)" and ?xs = "GetShuffledApprovers ow"
  have full: "p \<in> set (rp_Approvers (on_repo ow) f)" if "f \<in> set (GetReverseMap (GetApprovers ow) p)" for p f
    using that by (rule full_map_sound)
  obtain suggested where "KeepCoveringApprovers ow ?rm (GetCurrentApproversSet ap @ ap_assignees ap) ?xs = Some suggested"
    using KeepCovering_returns [of ?rm ow, OF leaf_map_sound [OF assms(1,2)]] by fast
  moreover note KeepCovering_returns [of "GetReverseMap (GetApprovers ow)" ow "GetCurrentApproversSet ap @ suggested"
      "set_list ((GetCurrentApproversSet ap @ suggested) @ ap_assignees ap)", OF full]
  ultimately show ?thesis using assms(3) by (simp add: GetCCs_def Let_def)
qed

text \<open>
  C35: For files that git lists the search for suggestions always ends and the list of people to be assigned is computed.  The
  people that are suggested before those who are not needed are dropped can approve every directory that lists leaf approvers
  at all.
\<close>

theorem suggestions_return:
  assumes "NewOwners filenames (repo_of ro) shuffle = Some ow" "\<forall>f \<in> set filenames. \<exists>es. plain_path es \<and> f = path_of es"
    and "range_order shuffle" "\<forall>d \<in> set (on_ownersSet ow). [] \<notin> set (rp_LeafApprovers (on_repo ow) d)"
  shows "(\<forall>ap. ap_owners ap = ow \<longrightarrow> GetCCs ap \<noteq> None)
    \<and> (\<exists>people. GetSuggestedApprovers ow (GetReverseMap (GetLeafApprovers ow)) (GetShuffledApprovers ow) = Some people
        \<and> (\<forall>d \<in> set (on_ownersSet ow). rp_LeafApprovers (on_repo ow) d \<noteq> [] \<longrightarrow>
            set people \<inter> to_lower ` set (rp_Approvers (on_repo ow) d) \<noteq> {}))"
proof
  note facts = NewOwners_facts [OF assms(1,2)]
  let ?rm = "GetReverseMap (GetLeafApprovers ow)" and ?xs = "GetShuffledApprovers ow"
  note leaf = leaf_map_sound [OF assms(1,2)]
  show "\<forall>ap. ap_owners ap = ow \<longrightarrow> GetCCs ap \<noteq> None"
    using GetCCs_returns [OF assms(1,2)] by blast
  have ow: "ap_owners (NewApprovers ow) = ow" by (simp add: NewApprovers_def)
  obtain ap where ap: "suggest ?xs ?rm (NewApprovers ow) = Some ap" "approvals_ok ap" "ap_owners ap = ow"
    "RequirementsMet ap \<or> findMostCoveringApprover ?xs ?rm (UnapprovedFiles ap) = []"
    using suggest_returns [of ?rm "NewApprovers ow" ?xs] leaf unfolding ow by fastforce
  have "approved_by ap \<inter> to_lower ` set (rp_Approvers (on_repo ow) d) \<noteq> {}"
    if d: "d \<in> set (on_ownersSet ow)" "rp_LeafApprovers (on_repo ow) d \<noteq> []" for d
  proof -
    let ?p = "hd (rp_LeafApprovers (on_repo ow) d)"
    have p: "?p \<in> set (rp_LeafApprovers (on_repo ow) d)" using d(2) by simp
    have mem: "x \<in> set ?xs \<longleftrightarrow> x \<in> set (GetAllPotentialApprovers ow)" for x
      using assms(3) facts(2) by (simp add: GetShuffledApprovers_def)
    have "?p \<in> set ?xs" "[] \<notin> set ?xs" using p d(1) assms(4) by (auto simp: mem potential_mem)
    moreover have "d \<in> set (?rm ?p)" using p d(1) by (auto simp: reverse_map_mem GetLeafApprovers_def)
    ultimately have "d \<notin> set (UnapprovedFiles ap)"
      using ap(4) findMost_none [of ?xs ?rm "UnapprovedFiles ap" ?p d]
      by (auto simp: RequirementsMet_def AreFilesApproved_def)
    then show ?thesis using d(1) unfolding UnapprovedFiles_eq [OF ap(2)] ap(3) by auto
  qed
  then show "\<exists>people. GetSuggestedApprovers ow ?rm ?xs = Some people
        \<and> (\<forall>d \<in> set (on_ownersSet ow). rp_LeafApprovers (on_repo ow) d \<noteq> [] \<longrightarrow>
            set people \<inter> to_lower ` set (rp_Approvers (on_repo ow) d) \<noteq> {})"
    using ap(1) by (auto simp: GetSuggestedApprovers_def GetCurrentApproversSet_def)
qed

text \<open>The sample tree and a change of two files, one in each of its directories.\<close>

definition sample_files :: "string list" where
  "sample_files = [path_of [''pkg'', ''a.go''], path_of [''main.go'']]"

lemma sample_files_plain: "\<forall>f \<in> set sample_files. \<exists>es. plain_path es \<and> f = path_of es"
proof -
  have "plain_path [''pkg'', ''a.go'']" "plain_path [''main.go'']" by (simp_all add: plain_element_def)
  then show ?thesis unfolding sample_files_def by (metis empty_iff empty_set set_ConsD)
qed

lemma sample_unfiltered: "unfiltered sample_owners"
  by (auto simp: unfiltered_def sample_owners_def split: if_splits)

lemma sample_owners_set: "GetOwnersSet (repo_of sample_owners) sample_files = Some [[], ''pkg'']"
  by code_simp

lemma sample_new_owners:
  "NewOwners sample_files (repo_of sample_owners) (\<lambda>xs. xs) =
     Some \<lparr>on_repo = repo_of sample_owners, on_ownersSet = [[], ''pkg''], on_shuffle = (\<lambda>xs. xs)\<rparr>"
  by (simp add: NewOwners_def sample_owners_set)

theorem suggestions_return_witness:
  "GetCCs (NewApprovers \<lparr>on_repo = repo_of sample_owners, on_ownersSet = [[], ''pkg''], on_shuffle = (\<lambda>xs. xs)\<rparr>) \<noteq> None"
proof -
  let ?ow = "\<lparr>on_repo = repo_of sample_owners, on_ownersSet = [[], ''pkg''], on_shuffle = (\<lambda>xs. xs)\<rparr>"
  have "LeafApprovers sample_owners [] = [''root'']" "LeafApprovers sample_owners ''pkg'' = [''pat'']" by code_simp+
  then have "\<forall>d \<in> set (on_ownersSet ?ow). [] \<notin> set (rp_LeafApprovers (on_repo ?ow) d)" by (simp add: repo_of_def)
  from suggestions_return [OF sample_new_owners sample_files_plain range_order_id this]
  show ?thesis by (simp add: NewApprovers_def)
qed

subsection \<open>What is not covered\<close>

lemma root_stays:
  "remove_loop repo xs dirs = Some dirs' \<Longrightarrow> [] \<in> set dirs \<Longrightarrow> [] \<in> set dirs'"
proof (induction xs arbitrary: dirs)
  case (Cons x xs)
  show ?case
  proof (cases "x = []")
    case True
    have "has_parent_in repo dirs [] = Some False" by (subst has_parent_in.simps) (simp add: dot_empty_def)
    then show ?thesis using Cons True by simp
  next
    case False
    then show ?thesis using Cons by (auto split: option.splits bool.splits)
  qed
qed simp

lemma Approvers_root:
  "Approvers ro [] = concat (map snd (filter (\<lambda>(re, _). applies re ''.'') (map_get [] (ro_approvers ro) [])))"
proof -
  have "path_Rel [] [] = Inr ''.''" by (simp add: path_Rel_def Let_def)
  then show ?thesis
    by (simp add: Approvers_def entriesForFile_def canonicalize_def trim_suffix_def entries_from.simps [of _ _ _ _ "[]"] Let_def)
qed


definition sample_filtered :: RepoOwners where
  "sample_filtered = sample_owners\<lparr>ro_approvers :=
     [[] \<mapsto> [(Some (\<lambda>relative. has_prefix (rev relative) (rev ''.go'')), [''root''])]]\<rparr>"


text \<open>
  The list of people to be assigned can leave a file without anybody: the approver of a parent who
  was picked to cover it is dropped again, since only the directories whose OWNERS file lists that person directly count.
\<close>

definition gap_owners :: RepoOwners where
  "gap_owners = sample_owners\<lparr>ro_options := Map.empty, ro_approvers :=
     [[] \<mapsto> [(None, [''rob''])], ''f'' \<mapsto> [(None, [''ann''])], ''g'' \<mapsto> [(None, [''rob'', ''xia''])]]\<rparr>"

definition gap_approvals :: Approvals where
  "gap_approvals = AddAssignees [''xia'']
     (NewApprovers \<lparr>on_repo = repo_of gap_owners, on_ownersSet = [''f'', ''g''],
        on_shuffle = (\<lambda>xs. filter (\<lambda>x. x = ''rob'') xs @ filter (\<lambda>x. x \<noteq> ''rob'') xs)\<rparr>)"

theorem suggestions_gap:
  "UnapprovedFiles gap_approvals = [''f'', ''g''] \<and> set (Approvers gap_owners ''f'') = {''ann'', ''rob''}
   \<and> GetCCs gap_approvals = Some [''xia'']"
proof -
  have "UnapprovedFiles gap_approvals = [''f'', ''g'']" by code_simp
  moreover have "Approvers gap_owners ''f'' = [''ann'', ''rob'']" by code_simp
  moreover have "GetCCs gap_approvals = Some [''xia'']" by code_simp
  ultimately show ?thesis by simp
qed

end
