(* ===== verification/Approve_Plugin.thy ===== *)
theory Approve_Plugin
  imports Approve_Owners Trigger_Plugin
begin

text \<open>
  The approve plugin, \<open>src/plugins/approve/approve.go\<close>: it collects the approvals from the
  comments and reviews of a pull request, keeps one notification and sets the label \<open>approved\<close>, on
  which merging depends.

  A handler returns its effects, in order, with its error; errors of effects are only logged.
  The commands are the matches of \<open>commandRegex\<close>, one at the start of a line.  The search for the associated issue takes the name of the
  org literally.  \<open>None\<close> is a run that does not end, which the theory of the approvals excludes for the paths of git.
\<close>

subsection \<open>Configuration\<close>

record Approve =
  apc_Repos :: "string list"
  apc_IssueRequired :: bool
  apc_DeprecatedImplicitSelfApprove :: "bool option"
  apc_RequireSelfApproval :: "bool option"
  apc_LgtmActsAsApprove :: bool
  apc_DeprecatedReviewActsAsApprove :: "bool option"
  apc_IgnoreReviewState :: "bool option"

definition zero_Approve :: Approve where
  "zero_Approve = \<lparr>apc_Repos = [], apc_IssueRequired = False, apc_DeprecatedImplicitSelfApprove = None,
     apc_RequireSelfApproval = None, apc_LgtmActsAsApprove = False, apc_DeprecatedReviewActsAsApprove = None,
     apc_IgnoreReviewState = None\<rparr>"

definition HasSelfApproval :: "Approve \<Rightarrow> bool" where
  "HasSelfApproval a =
     (case apc_DeprecatedImplicitSelfApprove a of
        Some b \<Rightarrow> b
      | None \<Rightarrow> (case apc_RequireSelfApproval a of Some b \<Rightarrow> \<not> b | None \<Rightarrow> True))"

definition ConsiderReviewState :: "Approve \<Rightarrow> bool" where
  "ConsiderReviewState a =
     (case apc_DeprecatedReviewActsAsApprove a of
        Some b \<Rightarrow> b
      | None \<Rightarrow> (case apc_IgnoreReviewState a of Some b \<Rightarrow> \<not> b | None \<Rightarrow> True))"

record approve_config =
  acf_Approve :: "Approve list"
  acf_UseDeprecatedSelfApprove :: bool
  acf_UseDeprecatedReviewApprove :: bool

definition ApproveFor :: "approve_config \<Rightarrow> string \<Rightarrow> string \<Rightarrow> Approve" where
  "ApproveFor c org repo =
     (let a = (case find (\<lambda>a. org @ ''/'' @ repo \<in> set (apc_Repos a)) (acf_Approve c) of
            Some a \<Rightarrow> a
          | None \<Rightarrow>
              (case find (\<lambda>a. org \<in> set (apc_Repos a)) (acf_Approve c) of Some a \<Rightarrow> a | None \<Rightarrow> zero_Approve));
          a1 = (if apc_DeprecatedImplicitSelfApprove a = None \<and> apc_RequireSelfApproval a = None
                   \<and> acf_UseDeprecatedSelfApprove c
                then a\<lparr>apc_DeprecatedImplicitSelfApprove := Some False\<rparr> else a)
      in if apc_DeprecatedReviewActsAsApprove a1 = None \<and> apc_IgnoreReviewState a1 = None
            \<and> acf_UseDeprecatedReviewApprove c
         then a1\<lparr>apc_DeprecatedReviewActsAsApprove := Some False\<rparr> else a1)"

subsection \<open>Comments\<close>

definition approveCommand :: string where "approveCommand = ''APPROVE''"
definition lgtmCommand :: string where "lgtmCommand = ''LGTM''"
definition cancelArgument :: string where "cancelArgument = ''cancel''"
definition noIssueArgument :: string where "noIssueArgument = ''no-issue''"
definition Approved :: string where "Approved = ''approved''"
definition ReviewStateApproved :: string where "ReviewStateApproved = ''APPROVED''"
definition ReviewStateChangesRequested :: string where "ReviewStateChangesRequested = ''CHANGES_REQUESTED''"
definition ReviewStateDismissed :: string where "ReviewStateDismissed = ''DISMISSED''"

record comment =
  co_Body :: string
  co_Author :: string
  co_CreatedAt :: time
  co_HTMLURL :: string
  co_ID :: int
  co_ReviewState :: string

text \<open>Issue comments and review comments have the same fields of interest.\<close>

record github_comment =
  gc_ID :: int
  gc_User_Login :: string
  gc_Body :: string
  gc_HTMLURL :: string
  gc_CreatedAt :: time

record Review =
  rv_ID :: int
  rv_User_Login :: string
  rv_Body :: string
  rv_State :: string
  rv_HTMLURL :: string
  rv_SubmittedAt :: time

definition commentFromIssueComment :: "github_comment \<Rightarrow> comment" where
  "commentFromIssueComment ic = \<lparr>co_Body = gc_Body ic, co_Author = gc_User_Login ic, co_CreatedAt = gc_CreatedAt ic,
     co_HTMLURL = gc_HTMLURL ic, co_ID = gc_ID ic, co_ReviewState = []\<rparr>"

definition commentFromReviewComment :: "github_comment \<Rightarrow> comment" where
  "commentFromReviewComment rc = \<lparr>co_Body = gc_Body rc, co_Author = gc_User_Login rc, co_CreatedAt = gc_CreatedAt rc,
     co_HTMLURL = gc_HTMLURL rc, co_ID = gc_ID rc, co_ReviewState = []\<rparr>"

definition commentFromReview :: "Review \<Rightarrow> comment" where
  "commentFromReview review = \<lparr>co_Body = rv_Body review, co_Author = rv_User_Login review,
     co_CreatedAt = rv_SubmittedAt review, co_HTMLURL = rv_HTMLURL review, co_ID = rv_ID review,
     co_ReviewState = rv_State review\<rparr>"

definition isDeprecatedBot :: "string \<Rightarrow> bool" where
  "isDeprecatedBot login \<longleftrightarrow> login \<in> {''k8s-merge-robot'', ''openshift-merge-robot''}"

text \<open>\<open>commandRegex\<close>: a slash at the start of a line, a name up to white space, and the rest of the line.\<close>

definition re_space :: "char \<Rightarrow> bool" where
  "re_space c \<longleftrightarrow> c \<in> {CHR 0x09, CHR 0x0A, CHR 0x0C, CHR 0x0D, CHR '' ''}"

definition line_command :: "string \<Rightarrow> (string \<times> string) option" where
  "line_command line =
     (case line of
        [] \<Rightarrow> None
      | c # rest \<Rightarrow>
          (let name = takeWhile (\<lambda>c. \<not> re_space c) rest;
               more = dropWhile (\<lambda>c. c = CHR 0x09 \<or> c = CHR '' '') (dropWhile (\<lambda>c. \<not> re_space c) rest)
           in if c = CHR ''/'' \<and> name \<noteq> [] then Some (name, takeWhile (\<lambda>c. c \<noteq> CHR 0x0D) more) else None))"

definition commands :: "string \<Rightarrow> (string \<times> string) list" where
  "commands body = List.map_filter line_command (split_on newline body)"

definition isApprovalCommand :: "string \<Rightarrow> bool \<Rightarrow> comment \<Rightarrow> bool" where
  "isApprovalCommand botName lgtmActsAsApprove c \<longleftrightarrow>
     \<not> (co_Author c = botName \<or> isDeprecatedBot (co_Author c))
     \<and> (\<exists>(name, _) \<in> set (commands (co_Body c)).
          to_upper name = lgtmCommand \<and> lgtmActsAsApprove \<or> to_upper name = approveCommand)"

definition isApprovalState :: "string \<Rightarrow> bool \<Rightarrow> comment \<Rightarrow> bool" where
  "isApprovalState botName reviewActsAsApprove c \<longleftrightarrow>
     \<not> (co_Author c = botName \<or> isDeprecatedBot (co_Author c)) \<and> reviewActsAsApprove
     \<and> to_upper (co_ReviewState c) \<in> {ReviewStateApproved, ReviewStateChangesRequested, ReviewStateDismissed}"

definition approvalMatcher :: "string \<Rightarrow> bool \<Rightarrow> bool \<Rightarrow> comment \<Rightarrow> bool" where
  "approvalMatcher botName lgtmActsAsApprove reviewActsAsApprove c \<longleftrightarrow>
     isApprovalCommand botName lgtmActsAsApprove c \<or> isApprovalState botName reviewActsAsApprove c"

text \<open>\<open>notificationRegex\<close> matches every text that starts with the name in brackets, in any case.\<close>

definition notificationMatcher :: "string \<Rightarrow> comment \<Rightarrow> bool" where
  "notificationMatcher botName c \<longleftrightarrow> (co_Author c = botName \<or> isDeprecatedBot (co_Author c))
     \<and> has_prefix (to_lower (co_Body c)) (to_lower (''['' @ ApprovalNotificationName @ '']''))"

definition getLast :: "comment list \<Rightarrow> comment option" where
  "getLast cs = (if cs = [] then None else Some (last cs))"

subsection \<open>Approvals of comments\<close>

text \<open>One command of a comment.\<close>

definition apply_command :: "comment \<Rightarrow> string \<Rightarrow> string \<times> string \<Rightarrow> Approvals \<Rightarrow> Approvals" where
  "apply_command c author match ap =
     (let name = to_upper (fst match); args = to_lower (trim_space (snd match)); noIssue = (args = noIssueArgument)
      in if name \<noteq> approveCommand \<and> name \<noteq> lgtmCommand then ap
         else if contains_sub args cancelArgument then RemoveApprover (co_Author c) ap
         else
           (let ap1 = (if co_Author c = author then AddAuthorSelfApprover (co_Author c) (co_HTMLURL c) noIssue ap else ap)
            in if name = approveCommand then AddApprover (co_Author c) (co_HTMLURL c) noIssue ap1
               else AddLGTMer (co_Author c) (co_HTMLURL c) noIssue ap1))"

definition apply_comment :: "string \<Rightarrow> bool \<Rightarrow> comment \<Rightarrow> Approvals \<Rightarrow> Approvals" where
  "apply_comment author reviewActsAsApprove c ap =
     (if co_Author c = [] then ap
      else
        (let ap1 = (if reviewActsAsApprove \<and> co_ReviewState c = ReviewStateApproved
                    then AddApprover (co_Author c) (co_HTMLURL c) False ap else ap);
             ap2 = (if reviewActsAsApprove \<and> co_ReviewState c = ReviewStateChangesRequested
                    then RemoveApprover (co_Author c) ap1 else ap1)
         in fold (apply_command c author) (commands (co_Body c)) ap2))"

definition addApprovers :: "comment list \<Rightarrow> string \<Rightarrow> bool \<Rightarrow> Approvals \<Rightarrow> Approvals" where
  "addApprovers approveComments author reviewActsAsApprove =
     fold (apply_comment author reviewActsAsApprove) approveComments"

subsection \<open>The handler\<close>

record state =
  st_org :: string
  st_repo :: string
  st_branch :: string
  st_number :: int
  st_body :: string
  st_author :: string
  st_assignees :: "string list"
  st_htmlURL :: string

text \<open>A label event: its action, the login of the actor and the name of the label.\<close>

record ListedIssueEvent =
  lie_Event :: string
  lie_Actor_Login :: string
  lie_Label_Name :: string

record approve_env =
  ae_changes :: "string list result"
  ae_labels :: "string list result"
  ae_BotName :: "string result"
  ae_ListIssueComments :: "github_comment list result"
  ae_ListPullRequestComments :: "github_comment list result"
  ae_ListReviews :: "Review list result"
  ae_ListIssueEvents :: "ListedIssueEvent list result"
  ae_LoadRepoOwners :: "string \<Rightarrow> RepoOwners result"
  ae_GetPullRequest :: "GitHubPullRequest result"
  ae_shuffle :: "int \<Rightarrow> string list \<Rightarrow> string list"
  ae_LinkURL :: "string \<Rightarrow> string"

datatype approve_effect =
    DeleteNotification int
  | CreateNotification string
  | RemoveApproved
  | AddApproved

type_synonym approve_handled = "approve_effect list \<times> error option"

text \<open>The number after \<open>#\<close> or the path of an issue of the org, at the leftmost place where there is one.\<close>

definition is_digit :: "char \<Rightarrow> bool" where
  "is_digit c \<longleftrightarrow> CHR ''0'' \<le> c \<and> c \<le> CHR ''9''"

definition issue_number_at :: "string \<Rightarrow> string \<Rightarrow> string option" where
  "issue_number_at org s =
     (let digits = (\<lambda>t. let ds = takeWhile is_digit t in if ds = [] then None else Some ds)
      in if has_prefix s ''#'' then digits (drop 1 s)
         else if has_prefix s (org @ ''/'') then
           (let t = drop (length org + 1) s; name = takeWhile (\<lambda>c. c \<noteq> CHR ''/'') t; u = drop (length name) t
            in if name \<noteq> [] \<and> has_prefix u ''/issues/'' then digits (drop 8 u) else None)
         else None)"

fun find_issue :: "string \<Rightarrow> string \<Rightarrow> string option" where
  "find_issue org [] = None"
| "find_issue org (c # cs) =
     (case issue_number_at org (c # cs) of Some ds \<Rightarrow> Some ds | None \<Rightarrow> find_issue org cs)"

definition issue_value :: "string \<Rightarrow> int" where
  "issue_value ds = foldl (\<lambda>n c. 10 * n + (of_char c - 48)) 0 ds"

text \<open>A number that does not fit is an error, which counts as no issue.\<close>

definition findAssociatedIssue :: "string \<Rightarrow> string \<Rightarrow> int" where
  "findAssociatedIssue body org =
     (case find_issue org body of
        None \<Rightarrow> 0
      | Some ds \<Rightarrow> if issue_value ds < 2 ^ 63 then issue_value ds else 0)"

definition humanAddedApproved :: "ListedIssueEvent list result \<Rightarrow> string \<Rightarrow> bool \<Rightarrow> bool" where
  "humanAddedApproved events botName hasLabel \<longleftrightarrow> hasLabel
     \<and> (case events of
          Inl _ \<Rightarrow> False
        | Inr es \<Rightarrow>
            (let added = filter (\<lambda>e. lie_Event e = ''labeled'' \<and> lie_Label_Name e = Approved) es;
                 actor = (if added = [] then [] else lie_Actor_Login (last added))
             in \<not> (actor = [] \<or> actor = botName \<or> isDeprecatedBot actor)))"

definition fetchErr :: "state \<Rightarrow> string \<Rightarrow> error \<Rightarrow> error" where
  "fetchErr pr what err =
     ''failed to get '' @ what @ '' for '' @ st_org pr @ ''/'' @ st_repo pr @ ''#'' @ itoa (st_number pr) @ '': '' @ err"

text \<open>All comments in the order of their creation; the sort is stable.\<close>

definition all_comments :: "github_comment list \<Rightarrow> github_comment list \<Rightarrow> Review list \<Rightarrow> comment list" where
  "all_comments issueComments reviewComments reviews =
     sort_key co_CreatedAt (map commentFromReviewComment reviewComments @ map commentFromIssueComment issueComments
       @ map commentFromReview reviews)"

definition approvals_of ::
    "Approve \<Rightarrow> state \<Rightarrow> Owners \<Rightarrow> string \<Rightarrow> bool \<Rightarrow> comment list \<Rightarrow> Approvals" where
  "approvals_of opts pr ow botName manually comments =
     (let ap0 = (NewApprovers ow)\<lparr>ap_AssociatedIssue := findAssociatedIssue (st_body pr) (st_org pr),
                  ap_RequireIssue := apc_IssueRequired opts, ap_ManuallyApproved := manually\<rparr>;
          ap1 = (if HasSelfApproval opts then AddAuthorSelfApprover (st_author pr) (st_htmlURL pr @ ''#'') False ap0
                 else AddAssignees [st_author pr] ap0);
          approveComments = filter (approvalMatcher botName (apc_LgtmActsAsApprove opts) (ConsiderReviewState opts)) comments
      in AddAssignees (st_assignees pr)
           (addApprovers approveComments (st_author pr) (ConsiderReviewState opts) ap1))"

definition updateNotification ::
    "(string \<Rightarrow> string) \<Rightarrow> state \<Rightarrow> comment option \<Rightarrow> Approvals \<Rightarrow> string option option" where
  "updateNotification linkURL pr latestNotification ap =
     map_option (\<lambda>message.
         case latestNotification of
           None \<Rightarrow> Some message
         | Some latest \<Rightarrow> if contains_sub (co_Body latest) message then None else Some message)
       (GetMessage ap linkURL (st_org pr) (st_repo pr) (st_branch pr))"

definition label_effect :: "Approvals \<Rightarrow> bool \<Rightarrow> approve_effect list" where
  "label_effect ap hasApprovedLabel =
     (if \<not> IsApproved ap then (if hasApprovedLabel then [RemoveApproved] else [])
      else if \<not> hasApprovedLabel then [AddApproved] else [])"

definition approve_handle :: "approve_env \<Rightarrow> RepoOwners \<Rightarrow> Approve \<Rightarrow> state \<Rightarrow> approve_handled option" where
  "approve_handle env ro opts pr =
     (case ae_changes env of
        Inl err \<Rightarrow> Some ([], Some (fetchErr pr ''PR file changes'' err))
      | Inr filenames \<Rightarrow>
     (case ae_labels env of
        Inl err \<Rightarrow> Some ([], Some (fetchErr pr ''issue labels'' err))
      | Inr issueLabels \<Rightarrow>
     (case ae_BotName env of
        Inl err \<Rightarrow> Some ([], Some (fetchErr pr ''bot name'' err))
      | Inr botName \<Rightarrow>
     (case ae_ListIssueComments env of
        Inl err \<Rightarrow> Some ([], Some (fetchErr pr ''issue comments'' err))
      | Inr issueComments \<Rightarrow>
     (case ae_ListPullRequestComments env of
        Inl err \<Rightarrow> Some ([], Some (fetchErr pr ''review comments'' err))
      | Inr reviewComments \<Rightarrow>
     (case ae_ListReviews env of
        Inl err \<Rightarrow> Some ([], Some (fetchErr pr ''reviews'' err))
      | Inr reviews \<Rightarrow>
     (case NewOwners filenames (repo_of ro) (ae_shuffle env (st_number pr)) of
        None \<Rightarrow> None
      | Some ow \<Rightarrow>
          (let hasApprovedLabel = (Approved \<in> set issueLabels);
               manually = humanAddedApproved (ae_ListIssueEvents env) botName hasApprovedLabel;
               ap = approvals_of opts pr ow botName manually (all_comments issueComments reviewComments reviews);
               notifications = filter (notificationMatcher botName) (map commentFromIssueComment issueComments)
           in case updateNotification (ae_LinkURL env) pr (getLast notifications) ap of
                None \<Rightarrow> None
              | Some newMessage \<Rightarrow>
                  Some ((case newMessage of
                           None \<Rightarrow> []
                         | Some m \<Rightarrow> map (\<lambda>n. DeleteNotification (co_ID n)) notifications @ [CreateNotification m])
                        @ label_effect ap hasApprovedLabel, None)))))))))"

subsection \<open>Events\<close>

record approve_comment_event = GenericCommentEvent +
  ace_IssueBody :: string
  ace_Assignees :: "string list"
  ace_IssueHTMLURL :: string

definition approve_handleGenericComment ::
    "approve_env \<Rightarrow> approve_config \<Rightarrow> approve_comment_event \<Rightarrow> approve_handled option" where
  "approve_handleGenericComment env config ce =
     (if gce_Action ce \<noteq> Created \<or> \<not> gce_IsPR ce \<or> gce_IssueState ce = ''closed'' then Some ([], None)
      else case ae_BotName env of
        Inl err \<Rightarrow> Some ([], Some err)
      | Inr botName \<Rightarrow>
          (let opts = ApproveFor config (gce_Org ce) (gce_Repo ce)
           in if \<not> isApprovalCommand botName (apc_LgtmActsAsApprove opts)
                   \<lparr>co_Body = gce_Body ce, co_Author = gce_User_Login ce, co_CreatedAt = 0, co_HTMLURL = [], co_ID = 0,
                    co_ReviewState = []\<rparr> then Some ([], None)
              else case ae_GetPullRequest env of
                Inl err \<Rightarrow> Some ([], Some err)
              | Inr pr \<Rightarrow>
                  (case ae_LoadRepoOwners env (ghpr_Base_Ref pr) of
                     Inl err \<Rightarrow> Some ([], Some err)
                   | Inr ro \<Rightarrow>
                       approve_handle env ro opts
                         \<lparr>st_org = gce_Org ce, st_repo = gce_Repo ce, st_branch = ghpr_Base_Ref pr,
                          st_number = gce_Number ce, st_body = ace_IssueBody ce, st_author = gce_IssueAuthor_Login ce,
                          st_assignees = ace_Assignees ce, st_htmlURL = ace_IssueHTMLURL ce\<rparr>)))"

text \<open>The fields of a pull request that reviews and pull request events carry.\<close>

record approve_pull = GitHubPullRequest +
  apr_State :: string
  apr_Body :: string
  apr_Assignees :: "string list"

definition pull_state :: "string \<Rightarrow> string \<Rightarrow> int \<Rightarrow> approve_pull \<Rightarrow> state" where
  "pull_state org repo num pr =
     \<lparr>st_org = org, st_repo = repo, st_branch = ghpr_Base_Ref pr, st_number = num, st_body = apr_Body pr,
      st_author = ghpr_User_Login pr, st_assignees = apr_Assignees pr, st_htmlURL = ghpr_HTMLURL pr\<rparr>"

record ReviewEvent =
  re_Action :: string
  re_PullRequest :: approve_pull
  re_Org :: string
  re_Repo :: string
  re_Review :: Review

definition handleReview :: "approve_env \<Rightarrow> approve_config \<Rightarrow> ReviewEvent \<Rightarrow> approve_handled option" where
  "handleReview env config re =
     (if re_Action re \<noteq> ''submitted'' \<and> re_Action re \<noteq> ''dismissed'' then Some ([], None)
      else case ae_BotName env of
        Inl err \<Rightarrow> Some ([], Some err)
      | Inr botName \<Rightarrow>
          (let opts = ApproveFor config (re_Org re) (re_Repo re); review = re_Review re;
               c = \<lparr>co_Body = rv_Body review, co_Author = rv_User_Login review, co_CreatedAt = 0, co_HTMLURL = [],
                    co_ID = 0, co_ReviewState = []\<rparr>
           in if isApprovalCommand botName (apc_LgtmActsAsApprove opts) c then Some ([], None)
              else if \<not> isApprovalState botName (ConsiderReviewState opts) (c\<lparr>co_Body := [], co_ReviewState := rv_State review\<rparr>)
                then Some ([], None)
              else case ae_LoadRepoOwners env (ghpr_Base_Ref (re_PullRequest re)) of
                Inl err \<Rightarrow> Some ([], Some err)
              | Inr ro \<Rightarrow>
                  approve_handle env ro opts
                    (pull_state (re_Org re) (re_Repo re) (ghpr_Number (re_PullRequest re)) (re_PullRequest re))))"

record approve_pr_event =
  ape_Action :: pr_action
  ape_Number :: int
  ape_PullRequest :: approve_pull
  ape_Org :: string
  ape_Repo :: string
  ape_Label :: string
  ape_Sender_Login :: string

definition approve_handlePullRequest ::
    "approve_env \<Rightarrow> approve_config \<Rightarrow> approve_pr_event \<Rightarrow> approve_handled option" where
  "approve_handlePullRequest env config pre =
     (if ape_Action pre \<notin> {Opened, Reopened, Synchronize, Labeled} then Some ([], None)
      else case ae_BotName env of
        Inl err \<Rightarrow> Some ([], Some err)
      | Inr botName \<Rightarrow>
          if ape_Action pre = Labeled
             \<and> (ape_Label pre \<noteq> Approved \<or> ape_Sender_Login pre = botName \<or> apr_State (ape_PullRequest pre) = ''closed'')
          then Some ([], None)
          else case ae_LoadRepoOwners env (ghpr_Base_Ref (ape_PullRequest pre)) of
            Inl err \<Rightarrow> Some ([], Some err)
          | Inr ro \<Rightarrow>
              approve_handle env ro (ApproveFor config (ape_Org pre) (ape_Repo pre))
                (pull_state (ape_Org pre) (ape_Repo pre) (ape_Number pre) (ape_PullRequest pre)))"

subsection \<open>The last vote counts\<close>

text \<open>
  What a comment says about its author's approval, in order: \<open>True\<close> approves, \<open>False\<close> cancels.
\<close>

definition votes :: "bool \<Rightarrow> comment \<Rightarrow> bool list" where
  "votes reviewActsAsApprove c =
     (if reviewActsAsApprove \<and> co_ReviewState c = ReviewStateApproved then [True] else [])
     @ (if reviewActsAsApprove \<and> co_ReviewState c = ReviewStateChangesRequested then [False] else [])
     @ map (\<lambda>(name, args). \<not> contains_sub (to_lower (trim_space args)) cancelArgument)
         (filter (\<lambda>(name, args). to_upper name = approveCommand \<or> to_upper name = lgtmCommand) (commands (co_Body c)))"

definition votes_of :: "bool \<Rightarrow> comment list \<Rightarrow> string \<Rightarrow> bool list" where
  "votes_of reviewActsAsApprove cs user =
     concat (map (votes reviewActsAsApprove)
       (filter (\<lambda>c. co_Author c \<noteq> [] \<and> to_lower (co_Author c) = user) cs))"

text \<open>A vote changes the standing of one user.\<close>

definition vote_for :: "string \<Rightarrow> bool \<Rightarrow> string set \<Rightarrow> string set" where
  "vote_for user v s = (if v then insert user s else s - {user})"

lemma fold_votes:
  "fold (vote_for user) vs s = (if vs = [] then s else vote_for user (last vs) s)"
  by (induction vs arbitrary: s) (auto simp: vote_for_def)

lemma approved_by_command:
  "approved_by (apply_command c author match ap) =
     (if to_upper (fst match) = approveCommand \<or> to_upper (fst match) = lgtmCommand
      then vote_for (to_lower (co_Author c)) (\<not> contains_sub (to_lower (trim_space (snd match))) cancelArgument) (approved_by ap)
      else approved_by ap)"
  by (auto simp: apply_command_def Let_def vote_for_def approved_by_remove approved_by_add AddApprover_def
      AddLGTMer_def AddAuthorSelfApprover_def)

lemma approved_by_commands:
  "approved_by (fold (apply_command c author) ms ap) =
     fold (vote_for (to_lower (co_Author c)))
       (map (\<lambda>(name, args). \<not> contains_sub (to_lower (trim_space args)) cancelArgument)
         (filter (\<lambda>(name, args). to_upper name = approveCommand \<or> to_upper name = lgtmCommand) ms)) (approved_by ap)"
  by (induction ms arbitrary: ap) (auto simp: approved_by_command case_prod_unfold)

lemma approved_by_comment:
  "approved_by (apply_comment author r c ap) =
     (if co_Author c = [] then approved_by ap
      else fold (vote_for (to_lower (co_Author c))) (votes r c) (approved_by ap))"
  by (auto simp: apply_comment_def Let_def votes_def approved_by_commands approved_by_add approved_by_remove
      AddApprover_def vote_for_def ReviewStateApproved_def ReviewStateChangesRequested_def)

lemma addApprovers_mem:
  "user \<in> approved_by (addApprovers cs author r ap) \<longleftrightarrow>
     (if votes_of r cs user = [] then user \<in> approved_by ap else last (votes_of r cs user))"
proof (induction cs arbitrary: ap)
  case (Cons c cs)
  let ?mine = "co_Author c \<noteq> [] \<and> to_lower (co_Author c) = user"
  let ?ap = "apply_comment author r c ap"
  have here: "user \<in> approved_by ?ap \<longleftrightarrow>
      (if ?mine \<and> votes r c \<noteq> [] then last (votes r c) else user \<in> approved_by ap)"
    by (auto simp: approved_by_comment fold_votes vote_for_def)
  have rest: "user \<in> approved_by (addApprovers (c # cs) author r ap) \<longleftrightarrow>
      (if votes_of r cs user = [] then user \<in> approved_by ?ap else last (votes_of r cs user))"
    using Cons [of ?ap] by (simp add: addApprovers_def)
  have "votes_of r (c # cs) user = (if ?mine then votes r c else []) @ votes_of r cs user"
    by (simp add: votes_of_def)
  then show ?case unfolding rest here by (auto simp: last_append)
qed (simp add: addApprovers_def votes_of_def)

lemma owners_addApprovers: "ap_owners (addApprovers cs author r ap) = ap_owners ap"
proof -
  have "ap_owners (apply_command c author m ap) = ap_owners ap" for c author m ap
    by (simp add: apply_command_def Let_def AddApprover_def AddLGTMer_def AddAuthorSelfApprover_def)
  then have cmds: "ap_owners (fold (apply_command c author) ms ap) = ap_owners ap" for c author ms ap
    by (induction ms arbitrary: ap) simp_all
  have "ap_owners (apply_comment author r c ap) = ap_owners ap" for c ap
    by (simp add: apply_comment_def Let_def cmds AddApprover_def)
  then show ?thesis unfolding addApprovers_def by (induction cs arbitrary: ap) simp_all
qed

lemma approvals_ok_empty: "ap_approvers ap = [] \<Longrightarrow> approvals_ok ap"
  by (simp add: approvals_ok_def)

lemma ok_addApprovers:
  assumes "approvals_ok ap" shows "approvals_ok (addApprovers cs author r ap)"
proof -
  have "approvals_ok (apply_command c author m ap)" if "approvals_ok ap" for c author m ap
    using that by (simp add: apply_command_def Let_def AddApprover_def AddLGTMer_def AddAuthorSelfApprover_def
        approvals_ok_add approvals_ok_remove)
  then have cmds: "approvals_ok ap \<Longrightarrow> approvals_ok (fold (apply_command c author) ms ap)" for c author ms ap
    by (induction ms arbitrary: ap) simp_all
  have "approvals_ok (apply_comment author r c ap)" if "approvals_ok ap" for c ap
    using that by (simp add: apply_comment_def Let_def cmds AddApprover_def approvals_ok_add approvals_ok_remove)
  then show ?thesis using assms unfolding addApprovers_def by (induction cs arbitrary: ap) simp_all
qed

text \<open>Who counts after all comments were read.\<close>

lemma approvals_of_facts:
  shows "ap_owners (approvals_of opts pr ow bot_name manually cs) = ow"
    and "approvals_ok (approvals_of opts pr ow bot_name manually cs)"
    and "user \<in> approved_by (approvals_of opts pr ow bot_name manually cs) \<longleftrightarrow>
      (let vs = votes_of (ConsiderReviewState opts)
           (filter (approvalMatcher bot_name (apc_LgtmActsAsApprove opts) (ConsiderReviewState opts)) cs) user
       in if vs = [] then HasSelfApproval opts \<and> user = to_lower (st_author pr) else last vs)"
  unfolding approvals_of_def Let_def
  by (simp_all add: AddAssignees_def owners_addApprovers ok_addApprovers AddAuthorSelfApprover_def approvals_ok_add
      addApprovers_mem approved_by_add NewApprovers_def approvals_ok_empty)

lemma approvals_of_manually: "ap_ManuallyApproved (approvals_of opts pr ow bot_name manually cs) = manually"
proof -
  have add: "ap_ManuallyApproved (add_approval how l r n ap) = ap_ManuallyApproved ap" for how l r n ap
    by (simp add: add_approval_def)
  have rem: "ap_ManuallyApproved (RemoveApprover l ap) = ap_ManuallyApproved ap" for l ap
    by (simp add: RemoveApprover_def)
  note manual = add rem AddApprover_def AddLGTMer_def AddAuthorSelfApprover_def
  have "ap_ManuallyApproved (apply_command c author m ap) = ap_ManuallyApproved ap" for c author m ap
    by (simp add: apply_command_def Let_def manual)
  then have cmds: "ap_ManuallyApproved (fold (apply_command c author) ms ap) = ap_ManuallyApproved ap" for c author ms ap
    by (induction ms arbitrary: ap) simp_all
  have "ap_ManuallyApproved (apply_comment author r c ap) = ap_ManuallyApproved ap" for author r c ap
    by (simp add: apply_comment_def Let_def cmds manual)
  then have "ap_ManuallyApproved (addApprovers ds author r ap) = ap_ManuallyApproved ap" for ds author r ap
    unfolding addApprovers_def by (induction ds arbitrary: ap) simp_all
  then show ?thesis by (simp add: approvals_of_def Let_def AddAssignees_def manual)
qed

subsection \<open>Properties\<close>

text \<open>The votes a user cast by the comments and reviews that GitHub lists, those of bots left out.\<close>

definition votes_cast :: "approve_env \<Rightarrow> Approve \<Rightarrow> string \<Rightarrow> bool list" where
  "votes_cast env opts user =
     (case (ae_BotName env, ae_ListIssueComments env, ae_ListPullRequestComments env, ae_ListReviews env) of
        (Inr botName, Inr issueComments, Inr reviewComments, Inr reviews) \<Rightarrow>
          votes_of (ConsiderReviewState opts)
            (filter (approvalMatcher botName (apc_LgtmActsAsApprove opts) (ConsiderReviewState opts))
              (all_comments issueComments reviewComments reviews)) user
      | _ \<Rightarrow> [])"

lemma handle_steps:
  assumes "approve_handle env ro opts pr = Some (es, err)" "AddApproved \<in> set es" "ae_changes env = Inr filenames"
  obtains ow ap where "NewOwners filenames (repo_of ro) (ae_shuffle env (st_number pr)) = Some ow"
    "ap_owners ap = ow" "approvals_ok ap" "RequirementsMet ap"
    "\<And>user. user \<in> approved_by ap \<longleftrightarrow>
       (if votes_cast env opts user = [] then HasSelfApproval opts \<and> user = to_lower (st_author pr)
        else last (votes_cast env opts user))"
proof -
  obtain issueLabels botName ic rc rv ow where env: "ae_labels env = Inr issueLabels" "ae_BotName env = Inr botName"
    "ae_ListIssueComments env = Inr ic" "ae_ListPullRequestComments env = Inr rc" "ae_ListReviews env = Inr rv"
    and ow: "NewOwners filenames (repo_of ro) (ae_shuffle env (st_number pr)) = Some ow"
    using assms by (auto simp: approve_handle_def split: sum.splits option.splits)
  let ?has = "Approved \<in> set issueLabels"
  let ?ap = "approvals_of opts pr ow botName (humanAddedApproved (ae_ListIssueEvents env) botName ?has) (all_comments ic rc rv)"
  have "AddApproved \<in> set (label_effect ?ap ?has)"
    using assms env ow by (auto simp: approve_handle_def Let_def split: option.splits)
  then have lab: "\<not> ?has" "IsApproved ?ap" by (auto simp: label_effect_def split: if_splits)
  have "\<not> ap_ManuallyApproved ?ap"
    using lab(1) by (simp add: approvals_of_manually humanAddedApproved_def)
  then have "RequirementsMet ?ap" using lab(2) by (simp add: IsApproved_def)
  then show ?thesis
    using that [OF ow, of ?ap] approvals_of_facts(1,2) [of opts pr ow botName _ "all_comments ic rc rv"]
      approvals_of_facts(3) [of _ opts pr ow botName _ "all_comments ic rc rv"]
    by (simp add: votes_cast_def env Let_def)
qed


text \<open>
  C37: A user who cancels an approval and gives \<open>/lgtm\<close> in one comment counts as an approver although
  \<open>/lgtm\<close> does not act as an approval: the comment is read because of the cancellation, and then every \<open>/lgtm\<close> in it counts.
\<close>

theorem lgtm_approves_unasked:
  assumes "\<not> apc_LgtmActsAsApprove opts" "co_Body c = ''/approve cancel'' @ newline # ''/lgtm''"
    "co_Author c \<noteq> []" "co_Author c \<noteq> botName" "\<not> isDeprecatedBot (co_Author c)" "co_ReviewState c = []"
  shows "to_lower (co_Author c) \<in> approved_by (approvals_of opts pr ow botName manually [c])"
proof -
  have cmds: "commands (co_Body c) = [(''approve'', ''cancel''), (''lgtm'', [])]"
    unfolding assms(2) by code_simp
  have up: "to_upper ''approve'' = approveCommand" "to_upper ''lgtm'' = lgtmCommand"
    "contains_sub (to_lower (trim_space ''cancel'')) cancelArgument" "\<not> contains_sub (to_lower (trim_space [])) cancelArgument"
    by code_simp+
  have "approvalMatcher botName False r c" for r
    using assms(4,5) by (simp add: approvalMatcher_def isApprovalCommand_def cmds up)
  moreover have "votes r c = [False, True]" for r
    using assms(6) by (simp add: votes_def cmds up ReviewStateApproved_def ReviewStateChangesRequested_def)
  ultimately show ?thesis
    using assms(1,3) approvals_of_facts(3) [of _ opts pr ow botName manually "[c]"] by (simp add: votes_of_def)
qed

text \<open>The owner of a directory approves a change of a file in it.\<close>

definition sample_approve_env :: approve_env where
  "sample_approve_env = \<lparr>ae_changes = Inr [path_of [''pkg'', ''a.go'']], ae_labels = Inr [], ae_BotName = Inr ''ci-bot'',
     ae_ListIssueComments = Inr [\<lparr>gc_ID = 1, gc_User_Login = ''Pat'', gc_Body = ''/approve'', gc_HTMLURL = [], gc_CreatedAt = 5\<rparr>],
     ae_ListPullRequestComments = Inr [], ae_ListReviews = Inr [], ae_ListIssueEvents = Inr [],
     ae_LoadRepoOwners = (\<lambda>_. Inr sample_owners), ae_GetPullRequest = Inl ''none'', ae_shuffle = (\<lambda>_ xs. xs),
     ae_LinkURL = (\<lambda>p. p)\<rparr>"

definition sample_approve_state :: state where
  "sample_approve_state = \<lparr>st_org = ''org'', st_repo = ''repo'', st_branch = ''master'', st_number = 4, st_body = [],
     st_author = ''bob'', st_assignees = [], st_htmlURL = []\<rparr>"

definition sample_approve_owners :: Owners where
  "sample_approve_owners = \<lparr>on_repo = repo_of sample_owners, on_ownersSet = [''pkg''], on_shuffle = (\<lambda>xs. xs)\<rparr>"

definition sample_collected :: Approvals where
  "sample_collected = approvals_of zero_Approve sample_approve_state sample_approve_owners ''ci-bot'' False
     (all_comments [\<lparr>gc_ID = 1, gc_User_Login = ''Pat'', gc_Body = ''/approve'', gc_HTMLURL = [], gc_CreatedAt = 5\<rparr>] [] [])"

lemma sample_path_plain: "\<forall>f \<in> set [path_of [''pkg'', ''a.go'']]. \<exists>es. plain_path es \<and> f = path_of es"
proof -
  have "plain_path [''pkg'', ''a.go'']" by (simp add: plain_element_def)
  then show ?thesis by (metis empty_iff empty_set set_ConsD)
qed

lemma sample_handle_label:
  "\<exists>es. approve_handle sample_approve_env sample_owners zero_Approve sample_approve_state = Some (es, None) \<and> AddApproved \<in> set es"
proof -
  have "GetOwnersSet (repo_of sample_owners) [path_of [''pkg'', ''a.go'']] = Some [''pkg'']" by code_simp
  then have ow: "NewOwners [path_of [''pkg'', ''a.go'']] (repo_of sample_owners) (\<lambda>xs. xs) = Some sample_approve_owners"
    by (simp add: NewOwners_def sample_approve_owners_def)
  have "label_effect sample_collected False = [AddApproved]" by code_simp
  moreover have "GetCCs sample_collected \<noteq> None"
    by (rule GetCCs_returns [OF ow sample_path_plain]) (simp add: sample_collected_def approvals_of_facts)
  ultimately show ?thesis
    using ow by (auto simp: approve_handle_def sample_approve_env_def Let_def humanAddedApproved_def updateNotification_def
        getLast_def GetMessage_def sample_collected_def split: option.splits)
qed


theorem lgtm_approves_unasked_witness:
  "''sue'' \<in> approved_by (approvals_of zero_Approve sample_approve_state sample_approve_owners ''ci-bot'' False
     [\<lparr>co_Body = ''/approve cancel'' @ newline # ''/lgtm'', co_Author = ''sue'', co_CreatedAt = 0, co_HTMLURL = [], co_ID = 1,
       co_ReviewState = []\<rparr>])"
proof -
  let ?c = "\<lparr>co_Body = ''/approve cancel'' @ newline # ''/lgtm'', co_Author = ''sue'', co_CreatedAt = 0, co_HTMLURL = [],
     co_ID = 1, co_ReviewState = []\<rparr>"
  have "to_lower (co_Author ?c) \<in> approved_by
      (approvals_of zero_Approve sample_approve_state sample_approve_owners ''ci-bot'' False [?c])"
    by (rule lgtm_approves_unasked) (simp_all add: zero_Approve_def isDeprecatedBot_def)
  moreover have "to_lower ''sue'' = ''sue''" by code_simp
  ultimately show ?thesis by simp
qed


end
